(* ===== verification/Prelude.thy ===== *)
theory Prelude
  imports Main "HOL-Library.Char_ord" "HOL-Library.List_Lexorder" "HOL-Library.Sublist"
begin

text \<open>
  Shared vocabulary of the development: Go's \<open>time.Time\<close> and \<open>time.Duration\<close>, the parts of
  the packages \<open>strings\<close>, \<open>strconv\<close> and \<open>time\<close> that cf2otel uses, and the generic lemmas the
  component theories share.

  An instant is the number of nanoseconds since Go's zero \<open>Time\<close> (1 January of year 1, UTC), so
  \<open>IsZero\<close> is equality with 0 and \<open>Truncate\<close> is relative to 0, as in the Go library. A duration
  is a number of nanoseconds. Strings are byte strings, as Go's are; the case mapping and the
  white space of \<open>strings\<close> are modelled on ASCII, other bytes are left alone.
\<close>

named_theorems time_defs \<open>definitions of Go's time arithmetic\<close>
named_theorems str_defs \<open>definitions of the string operations\<close>

subsection \<open>Time\<close>

type_synonym time = int
type_synonym duration = int

abbreviation second :: duration where "second \<equiv> 1000000000"
abbreviation minute :: duration where "minute \<equiv> 60000000000"
abbreviation hour :: duration where "hour \<equiv> 3600000000000"
abbreviation millisecond :: duration where "millisecond \<equiv> 1000000"
abbreviation max_int64 :: int where "max_int64 \<equiv> 9223372036854775807"
abbreviation min_int64 :: int where "min_int64 \<equiv> - 9223372036854775808"

text \<open>Go's integer division and remainder truncate towards zero.\<close>

definition go_quot :: "int \<Rightarrow> int \<Rightarrow> int" where
  [time_defs]: "go_quot a b = sgn a * sgn b * (\<bar>a\<bar> div \<bar>b\<bar>)"

definition go_rem :: "int \<Rightarrow> int \<Rightarrow> int" where
  [time_defs]: "go_rem a b = a - b * go_quot a b"

text \<open>\<open>t.Sub(u)\<close> saturates at the range of a 64-bit duration.\<close>

definition time_sub :: "time \<Rightarrow> time \<Rightarrow> duration" where
  [time_defs]: "time_sub t u = max min_int64 (min max_int64 (t - u))"

definition time_trunc :: "time \<Rightarrow> duration \<Rightarrow> time" where
  [time_defs]: "time_trunc t d = (if d \<le> 0 then t else t - t mod d)"

definition dur_trunc :: "duration \<Rightarrow> duration \<Rightarrow> duration" where
  [time_defs]: "dur_trunc d m = (if m \<le> 0 then d else d - go_rem d m)"

definition unix_offset :: int where
  "unix_offset = 62135596800"

definition time_unix :: "time \<Rightarrow> int" where
  [time_defs]: "time_unix t = t div second - unix_offset"

lemma time_trunc_le: "time_trunc t d \<le> t"
  by (simp add: time_trunc_def)

lemma time_trunc_mono: "t \<le> u \<Longrightarrow> time_trunc t d \<le> time_trunc u d"
proof (cases "d \<le> 0")
  case True
  assume "t \<le> u"
  with True show ?thesis by (simp add: time_trunc_def)
next
  case False
  assume "t \<le> u"
  then have "t div d \<le> u div d" using False by (simp add: zdiv_mono1)
  then have "d * (t div d) \<le> d * (u div d)" using False by simp
  with False show ?thesis by (simp add: time_trunc_def minus_mod_eq_mult_div)
qed

lemma time_trunc_mod [simp]: "0 < d \<Longrightarrow> time_trunc t d mod d = 0"
  by (simp add: time_trunc_def minus_mod_eq_mult_div)

lemma time_trunc_id: "t mod d = 0 \<Longrightarrow> time_trunc t d = t"
  by (simp add: time_trunc_def)

lemma time_trunc_idem [simp]: "time_trunc (time_trunc t d) d = time_trunc t d"
  by (cases "0 < d") (simp_all add: time_trunc_id time_trunc_def)

lemma time_trunc_gt: "0 < d \<Longrightarrow> t - d < time_trunc t d"
  by (simp add: time_trunc_def)

lemma time_trunc_greatest: "0 < d \<Longrightarrow> s mod d = 0 \<Longrightarrow> s \<le> t \<Longrightarrow> s \<le> time_trunc t d"
  using time_trunc_mono [of s t d] by (simp add: time_trunc_id)

lemma time_sub_pos: "0 < time_sub t u \<longleftrightarrow> u < t"
  by (auto simp: time_sub_def)

lemma time_sub_le: "u \<le> t \<Longrightarrow> time_sub t u \<le> t - u"
  by (auto simp: time_sub_def)

lemma time_sub_gt: "c < time_sub t u \<Longrightarrow> 0 \<le> c \<Longrightarrow> u + c < t"
  by (auto simp: time_sub_def max_def min_def split: if_splits)

lemma go_quot_half_bounds: "0 \<le> a \<Longrightarrow> 0 \<le> go_quot a 2 \<and> go_quot a 2 \<le> a"
  by (auto simp: go_quot_def sgn_if)

lemma go_quot_nonneg: "0 \<le> a \<Longrightarrow> 0 < b \<Longrightarrow> go_quot a b = a div b"
  by (auto simp: go_quot_def sgn_if)

lemma go_rem_nonneg: "0 \<le> a \<Longrightarrow> 0 < b \<Longrightarrow> go_rem a b = a mod b"
  by (simp add: go_rem_def go_quot_nonneg minus_mult_div_eq_mod)

lemma dur_trunc_nonneg: "0 \<le> a \<Longrightarrow> 0 < b \<Longrightarrow> dur_trunc a b = a - a mod b"
  by (simp add: dur_trunc_def go_rem_nonneg)

lemma dur_trunc_ge: "0 < b \<Longrightarrow> b \<le> a \<Longrightarrow> b \<le> dur_trunc a b"
proof -
  assume b: "0 < b" "b \<le> a"
  then have "1 \<le> a div b" by (simp add: pos_imp_zdiv_pos_iff int_one_le_iff_zero_less)
  then have "b * 1 \<le> b * (a div b)" using b by simp
  with b show ?thesis by (simp add: dur_trunc_nonneg minus_mod_eq_mult_div)
qed

lemma dur_trunc_le: "0 \<le> a \<Longrightarrow> dur_trunc a b \<le> a"
  by (cases "0 < b") (simp_all add: dur_trunc_nonneg, simp add: dur_trunc_def)

lemma dur_trunc_mod: "0 \<le> a \<Longrightarrow> 0 < b \<Longrightarrow> dur_trunc a b mod b = 0"
  by (simp add: dur_trunc_nonneg minus_mod_eq_mult_div)


text \<open>\<open>int64\<close> arithmetic wraps around.\<close>

definition wrap_int64 :: "int \<Rightarrow> int" where
  "wrap_int64 x = (x + 9223372036854775808) mod 18446744073709551616 - 9223372036854775808"

lemma wrap_int64_id: "- 9223372036854775808 \<le> x \<Longrightarrow> x < 9223372036854775808 \<Longrightarrow> wrap_int64 x = x"
  by (simp add: wrap_int64_def)

lemma wrap_int64_range: "- 9223372036854775808 \<le> wrap_int64 x \<and> wrap_int64 x < 9223372036854775808"
  by (simp add: wrap_int64_def)

subsection \<open>Strings\<close>

definition lower_char :: "char \<Rightarrow> char" where
  [str_defs]: "lower_char c =
     (let n = (of_char c :: nat) in if 65 \<le> n \<and> n \<le> 90 then char_of (n + 32) else c)"

definition to_lower :: "string \<Rightarrow> string" where
  [str_defs]: "to_lower s = map lower_char s"

definition equal_fold :: "string \<Rightarrow> string \<Rightarrow> bool" where
  [str_defs]: "equal_fold a b \<longleftrightarrow> to_lower a = to_lower b"

definition is_space :: "char \<Rightarrow> bool" where
  [str_defs]: "is_space c \<longleftrightarrow> (let n = (of_char c :: nat) in (9 \<le> n \<and> n \<le> 13) \<or> n = 32)"

definition is_digit :: "char \<Rightarrow> bool" where
  [str_defs]: "is_digit c \<longleftrightarrow> (let n = (of_char c :: nat) in 48 \<le> n \<and> n \<le> 57)"

definition is_alpha :: "char \<Rightarrow> bool" where
  [str_defs]: "is_alpha c \<longleftrightarrow>
     (let n = (of_char c :: nat) in (65 \<le> n \<and> n \<le> 90) \<or> (97 \<le> n \<and> n \<le> 122))"

definition trim_left :: "string \<Rightarrow> string" where
  [str_defs]: "trim_left s = dropWhile is_space s"

definition trim_space :: "string \<Rightarrow> string" where
  [str_defs]: "trim_space s = rev (dropWhile is_space (rev (dropWhile is_space s)))"

definition has_prefix :: "string \<Rightarrow> string \<Rightarrow> bool" where
  [str_defs]: "has_prefix p s \<longleftrightarrow> take (length p) s = p"

definition has_suffix :: "string \<Rightarrow> string \<Rightarrow> bool" where
  [str_defs]: "has_suffix p s \<longleftrightarrow> has_prefix (rev p) (rev s)"

definition trim_prefix :: "string \<Rightarrow> string \<Rightarrow> string" where
  [str_defs]: "trim_prefix p s = (if has_prefix p s then drop (length p) s else s)"

definition trim_suffix :: "string \<Rightarrow> string \<Rightarrow> string" where
  [str_defs]: "trim_suffix p s = (if has_suffix p s then take (length s - length p) s else s)"

fun str_contains :: "string \<Rightarrow> string \<Rightarrow> bool" where
  "str_contains sub [] = (sub = [])"
| "str_contains sub (c # cs) = (has_prefix sub (c # cs) \<or> str_contains sub cs)"

text \<open>\<open>strings.Cut(s, sep)\<close>: the text before and after the first \<open>sep\<close>, or the whole of \<open>s\<close>.\<close>

fun str_cut :: "string \<Rightarrow> string \<Rightarrow> string \<times> string \<times> bool" where
  "str_cut sep [] = (if sep = [] then ([], [], True) else ([], [], False))"
| "str_cut sep (c # cs) =
     (if has_prefix sep (c # cs) then ([], drop (length sep) (c # cs), True)
      else (case str_cut sep cs of
              (b, a, True) \<Rightarrow> (c # b, a, True)
            | (b, a, False) \<Rightarrow> (c # cs, [], False)))"

text \<open>\<open>strings.Split(s, sep)\<close> for a separator of one byte, and \<open>strings.Join\<close>.\<close>

fun split_char :: "char \<Rightarrow> string \<Rightarrow> string list" where
  "split_char sep [] = [[]]"
| "split_char sep (c # cs) =
     (if c = sep then [] # split_char sep cs
      else (case split_char sep cs of
              [] \<Rightarrow> [[c]]
            | w # ws \<Rightarrow> (c # w) # ws))"

fun str_join :: "string \<Rightarrow> string list \<Rightarrow> string" where
  "str_join sep [] = []"
| "str_join sep [x] = x"
| "str_join sep (x # y # ys) = x @ sep @ str_join sep (y # ys)"

lemma split_char_not_Nil [simp]: "split_char sep s \<noteq> []"
  by (cases s) (auto split: list.splits)

lemma join_split: "str_join [sep] (split_char sep s) = s"
proof (induction s)
  case Nil
  show ?case by simp
next
  case (Cons c cs)
  obtain w ws where w: "split_char sep cs = w # ws"
    by (cases "split_char sep cs") auto
  with Cons.IH show ?case by (cases ws) auto
qed

lemma split_char_no_sep: "w \<in> set (split_char sep s) \<Longrightarrow> sep \<notin> set w"
proof (induction s arbitrary: w)
  case Nil
  then show ?case by simp
next
  case (Cons c cs)
  then show ?case by (auto split: if_splits list.splits)
qed

lemma split_char_id: "sep \<notin> set s \<Longrightarrow> split_char sep s = [s]"
  by (induction s) auto

lemma split_char_append: "sep \<notin> set u \<Longrightarrow> split_char sep (u @ sep # v) = u # split_char sep v"
  by (induction u) auto

lemma split_join:
  "xs \<noteq> [] \<Longrightarrow> \<forall>x \<in> set xs. sep \<notin> set x \<Longrightarrow> split_char sep (str_join [sep] xs) = xs"
  by (induction "[sep]" xs rule: str_join.induct) (auto simp: split_char_id split_char_append)

lemma to_lower_Nil [simp]: "to_lower [] = []" "to_lower s = [] \<longleftrightarrow> s = []"
  by (simp_all add: to_lower_def)

lemma equal_fold_refl [simp]: "equal_fold a a"
  by (simp add: equal_fold_def)

lemma has_prefix_append [simp]: "has_prefix p (p @ s)"
  by (simp add: has_prefix_def)

lemma has_prefix_iff: "has_prefix p s \<longleftrightarrow> (\<exists>r. s = p @ r)"
  by (metis append_take_drop_id append_eq_conv_conj has_prefix_def)

lemma has_prefix_Cons:
  "has_prefix [] s" "has_prefix (a # p) (b # s) \<longleftrightarrow> b = a \<and> has_prefix p s"
  "\<not> has_prefix (a # p) []"
  by (auto simp: has_prefix_def)

lemma str_contains_iff: "str_contains sub s \<longleftrightarrow> (\<exists>u v. s = u @ sub @ v)"
proof (induction s)
  case Nil
  then show ?case by simp
next
  case (Cons c cs)
  have "(\<exists>u v. c # cs = u @ sub @ v) \<longleftrightarrow>
      (\<exists>v. c # cs = sub @ v) \<or> (\<exists>u v. cs = u @ sub @ v)" (is "?l \<longleftrightarrow> ?r")
  proof
    assume ?l
    then obtain u v where "c # cs = u @ sub @ v" by blast
    then show ?r by (cases u) auto
  next
    assume ?r
    then show ?l by (metis append_Cons append_Nil)
  qed
  then show ?case using Cons.IH by (simp add: has_prefix_iff)
qed

end
