(* ===== verification/GoText.thy ===== *)
theory GoText
  imports Prelude
begin

text \<open>
  The text conversions of Go's standard library that cf2otel's decisions depend on: decimal
  integers (\<open>strconv\<close>), RFC 3339 instants in UTC (\<open>Time.Format\<close>) and \<open>Duration.String\<close>.
  Error texts are compared and searched by the code, so they are modelled down to the byte.
\<close>

subsection \<open>Decimal integers\<close>

definition digit_char :: "int \<Rightarrow> char" where
  "digit_char d = ''0123456789'' ! nat d"

text \<open>The decimal digits of a nonnegative integer.\<close>

function dec_digits :: "int \<Rightarrow> string" where
  "dec_digits n =
     (if n < 10 then [digit_char n] else dec_digits (n div 10) @ [digit_char (n mod 10)])"
  by pat_completeness auto
termination
  by (relation "measure nat") auto

declare dec_digits.simps [simp del]

definition itoa :: "int \<Rightarrow> string" where
  "itoa i = (if i < 0 then CHR ''-'' # dec_digits (- i) else dec_digits i)"

definition digit_val :: "char \<Rightarrow> int" where
  "digit_val c = of_char c - 48"

definition parse_digits :: "string \<Rightarrow> int option" where
  "parse_digits s =
     (if s = [] \<or> \<not> list_all is_digit s then None
      else Some (foldl (\<lambda>n c. 10 * n + digit_val c) 0 s))"

text \<open>\<open>strconv.ParseUint(s, 10, 64)\<close> and \<open>strconv.ParseInt(s, 10, 64)\<close>, \<open>None\<close> for any error.\<close>

definition parse_uint64 :: "string \<Rightarrow> int option" where
  "parse_uint64 s = (case parse_digits s of
      None \<Rightarrow> None
    | Some n \<Rightarrow> if n < 18446744073709551616 then Some n else None)"

definition parse_int64 :: "string \<Rightarrow> int option" where
  "parse_int64 s =
     (case s of
        [] \<Rightarrow> None
      | c # cs \<Rightarrow>
          (let neg = (c = CHR ''-'');
               body = (if c = CHR ''-'' \<or> c = CHR ''+'' then cs else s)
           in case parse_digits body of
                None \<Rightarrow> None
              | Some n \<Rightarrow>
                  if neg then (if n \<le> 9223372036854775808 then Some (- n) else None)
                  else (if n < 9223372036854775808 then Some n else None)))"

lemma digit_cases:
  assumes "0 \<le> d" "d < (10::int)"
  shows "d \<in> {0, 1, 2, 3, 4, 5, 6, 7, 8, 9}"
  unfolding insert_iff empty_iff using assms by presburger

lemma digit_char_props:
  assumes "0 \<le> d" "d < 10"
  shows "is_digit (digit_char d) \<and> digit_val (digit_char d) = d"
  using digit_cases [OF assms] by (auto simp: digit_char_def is_digit_def digit_val_def)

lemma dec_digits_digits: "0 \<le> n \<Longrightarrow> list_all is_digit (dec_digits n)"
proof (induction n rule: dec_digits.induct)
  case (1 n)
  then show ?case
    by (simp add: dec_digits.simps [of n] digit_char_props)
qed

lemma dec_digits_not_Nil [simp]: "dec_digits n \<noteq> []"
  by (simp add: dec_digits.simps [of n])

lemma foldl_dec_digits:
  "0 \<le> n \<Longrightarrow> foldl (\<lambda>n c. 10 * n + digit_val c) 0 (dec_digits n) = n"
proof (induction n rule: dec_digits.induct)
  case (1 n)
  then show ?case
    by (simp add: dec_digits.simps [of n] digit_char_props)
qed

lemma parse_dec_digits [simp]: "0 \<le> n \<Longrightarrow> parse_digits (dec_digits n) = Some n"
  by (simp add: parse_digits_def dec_digits_digits foldl_dec_digits)

lemma parse_itoa:
  assumes "min_int64 \<le> i" "i \<le> max_int64"
  shows "parse_int64 (itoa i) = Some i"
proof (cases "i < 0")
  case True
  with assms show ?thesis by (simp add: itoa_def parse_int64_def)
next
  case False
  obtain c cs where d: "dec_digits i = c # cs" by (cases "dec_digits i") auto
  with False dec_digits_digits [of i] have "is_digit c" by simp
  then have "c \<noteq> CHR ''-''" "c \<noteq> CHR ''+''" by (auto simp: is_digit_def)
  moreover have "parse_digits (c # cs) = Some i" using d False by (metis parse_dec_digits not_less)
  ultimately show ?thesis using False assms d by (simp add: itoa_def parse_int64_def)
qed

subsection \<open>RFC 3339\<close>

definition zero_pad :: "nat \<Rightarrow> int \<Rightarrow> string" where
  "zero_pad w n = (let d = dec_digits n in replicate (w - length d) CHR ''0'' @ d)"

definition is_leap :: "int \<Rightarrow> bool" where
  "is_leap y \<longleftrightarrow> y mod 4 = 0 \<and> (y mod 100 \<noteq> 0 \<or> y mod 400 = 0)"

definition month_days :: "int \<Rightarrow> int list" where
  "month_days y = [31, if is_leap y then 29 else 28, 31, 30, 31, 30, 31, 31, 30, 31, 30, 31]"

fun month_of :: "int \<Rightarrow> int \<Rightarrow> int list \<Rightarrow> int \<times> int" where
  "month_of m d [] = (m, d + 1)"
| "month_of m d (n # ns) = (if d < n then (m, d + 1) else month_of (m + 1) (d - n) ns)"

text \<open>The civil date of a day counted from 1 January of year 1: (year, month, day).\<close>

definition civil_date :: "int \<Rightarrow> int \<times> int \<times> int" where
  "civil_date d =
     (let n400 = d div 146097; r = d mod 146097;
          n100 = min 3 (r div 36524); r = r - n100 * 36524;
          n4 = r div 1461; r = r mod 1461;
          n1 = min 3 (r div 365); r = r - n1 * 365;
          y = 400 * n400 + 100 * n100 + 4 * n4 + n1 + 1
      in (y, month_of 1 r (month_days y)))"

definition rfc3339 :: "time \<Rightarrow> string" where
  "rfc3339 t =
     (let s = t div second; d = s div 86400; r = s mod 86400
      in (case civil_date d of (y, m, dd) \<Rightarrow>
           zero_pad 4 y @ ''-'' @ zero_pad 2 m @ ''-'' @ zero_pad 2 dd @ ''T''
           @ zero_pad 2 (r div 3600) @ '':'' @ zero_pad 2 (r mod 3600 div 60) @ '':''
           @ zero_pad 2 (r mod 60) @ ''Z''))"

lemma rfc3339_epoch: "rfc3339 (unix_offset * second) = ''1970-01-01T00:00:00Z''"
  by code_simp

lemma rfc3339_leap_day: "rfc3339 ((unix_offset + 951868799) * second) = ''2000-02-29T23:59:59Z''"
  by code_simp

subsection \<open>Durations\<close>

definition strip_zeros :: "string \<Rightarrow> string" where
  "strip_zeros s = rev (dropWhile (\<lambda>c. c = CHR ''0'') (rev s))"

definition fmt_frac :: "int \<Rightarrow> nat \<Rightarrow> string" where
  "fmt_frac v prec =
     (let f = strip_zeros (zero_pad prec (v mod 10 ^ prec)) in if f = [] then [] else ''.'' @ f)"

definition fmt_duration :: "int \<Rightarrow> string" where
  "fmt_duration u =
     (if u = 0 then ''0s''
      else if u < 1000 then dec_digits u @ ''ns''
      else if u < 1000000 then
        dec_digits (u div 1000) @ fmt_frac u 3 @ [CHR 0xC2, CHR 0xB5, CHR ''s'']
      else if u < 1000000000 then dec_digits (u div 1000000) @ fmt_frac u 6 @ ''ms''
      else
        (let s = u div 1000000000; m = s div 60; h = m div 60
         in (if h > 0 then dec_digits h @ ''h'' else [])
            @ (if m > 0 then dec_digits (m mod 60) @ ''m'' else [])
            @ dec_digits (s mod 60) @ fmt_frac u 9 @ ''s''))"

definition duration_string :: "duration \<Rightarrow> string" where
  "duration_string d =
     (if d < 0 then CHR ''-'' # fmt_duration (- d) else fmt_duration d)"

lemma duration_string_examples:
  "duration_string (90 * minute) = ''1h30m0s''" "duration_string 1500000000 = ''1.5s''"
  by code_simp+

end
