(* ===== verification/GoErrors.thy ===== *)
theory GoErrors
  imports GoText
begin

text \<open>
  Go errors as values. The datatype \<open>gerr\<close> has one constructor per error type of cf2otel that
  the code distinguishes with \<open>errors.Is\<close>, \<open>errors.As\<close> or a type assertion, the sentinel errors
  it compares with, and three generic shapes: a leaf with a text (\<open>errors.New\<close>, \<open>fmt.Errorf\<close>
  without \<open>%w\<close>), a prefixed wrapper (\<open>fmt.Errorf\<close> ending in \<open>%w\<close>) and \<open>errors.Join\<close>.
  A nil error is \<open>None\<close> of type \<open>gerr option\<close>.
\<close>

datatype gerr =
    ErrNew string
  | ErrWrap string gerr
  | ErrJoin "gerr list"
  | ErrCanceled
  | ErrDeadlineExceeded
  | ErrMissingTimestamp
  | ErrWindowIrreducible
  | ErrWindowUnsplittable
  | SaturatedWindowError time time gerr "gerr option"
  | SaturationError string time time int
  | RetentionGapError string time
  | UnentitledError string string bool
  | FieldLimitError string int int
  | GraphQLBudgetError
  | HTTPError int int
  | ResponseTooLargeError int
  | ExportFailure string gerr
  | CommitDeadlineError string duration duration int int gerr

text \<open>\<open>Error()\<close> of the error types; a wrapped error is given by its text.\<close>

definition saturated_window_text :: "time \<Rightarrow> time \<Rightarrow> string \<Rightarrow> string option \<Rightarrow> string" where
  "saturated_window_text f t reason cause =
     (case cause of
        None \<Rightarrow> reason @ '': '' @ rfc3339 f @ ''..'' @ rfc3339 t
      | Some c \<Rightarrow> reason @ '': '' @ rfc3339 f @ ''..'' @ rfc3339 t @ '': '' @ c)"

definition saturation_text :: "string \<Rightarrow> time \<Rightarrow> time \<Rightarrow> int \<Rightarrow> string" where
  "saturation_text ds f t l =
     ''GraphQL dataset '' @ ds @ '' window '' @ rfc3339 f @ ''..'' @ rfc3339 t
     @ '' saturated limit '' @ itoa l"

definition retention_gap_text :: "string \<Rightarrow> time \<Rightarrow> string" where
  "retention_gap_text ds fl = ''dataset '' @ ds @ '' retention gap: floor '' @ rfc3339 fl"

definition unentitled_text :: "string \<Rightarrow> string \<Rightarrow> bool \<Rightarrow> string" where
  "unentitled_text field ds disabled =
     (if field \<noteq> [] then ''not entitled to field '' @ [CHR 0x27] @ field @ [CHR 0x27]
      else if disabled then ''dataset '' @ ds @ '' disabled''
      else ''dataset '' @ ds @ '' has no entitled wanted fields'')"

definition field_limit_text :: "string \<Rightarrow> int \<Rightarrow> int \<Rightarrow> string" where
  "field_limit_text ds w l =
     ''dataset '' @ ds @ '' needs '' @ itoa w @ '' fields, limit '' @ itoa l
     @ ''; no stable join key for split selections''"

definition http_error_text :: "int \<Rightarrow> int \<Rightarrow> string" where
  "http_error_text status code =
     (if code \<noteq> 0 then ''cloudflare HTTP '' @ itoa status @ '': code '' @ itoa code
      else ''cloudflare HTTP '' @ itoa status @ '': request failed'')"

definition too_large_text :: "int \<Rightarrow> string" where
  "too_large_text c = ''cloudflare response exceeds '' @ itoa c @ '' bytes''"

definition commit_deadline_text ::
  "string \<Rightarrow> duration \<Rightarrow> duration \<Rightarrow> int \<Rightarrow> int \<Rightarrow> string \<Rightarrow> string" where
  "commit_deadline_text c w rw b rb inner =
     (if b > 0 then
        (if rb \<ge> b then
           ''collector '' @ c @ '': the smallest '' @ itoa b
           @ ''-byte commit payload cannot fit the aggregate commit budget; checkpoint retained, inspect export latency or timestamp-group volume: ''
           @ inner
         else
           ''collector '' @ c @ '': aggregate commit budget exhausted for a '' @ itoa b
           @ ''-byte payload budget; checkpoint retained, next commit at most '' @ itoa rb
           @ '' bytes: '' @ inner)
      else if w \<le> second then
        ''collector '' @ c
        @ '': one-second source window cannot fit the aggregate commit budget; checkpoint retained, inspect export latency or timestamp-group volume: ''
        @ inner
      else
        ''collector '' @ c @ '': aggregate commit budget exhausted for '' @ duration_string w
        @ ''; checkpoint retained, next source window at most '' @ duration_string rw
        @ '': '' @ inner)"

fun err_text :: "gerr \<Rightarrow> string" where
  "err_text (ErrNew s) = s"
| "err_text (ErrWrap p e) = p @ err_text e"
| "err_text (ErrJoin es) = str_join [CHR 0x0A] (map err_text es)"
| "err_text ErrCanceled = ''context canceled''"
| "err_text ErrDeadlineExceeded = ''context deadline exceeded''"
| "err_text ErrMissingTimestamp = ''telemetry timestamp is required''"
| "err_text ErrWindowIrreducible = ''saturated query window is irreducible''"
| "err_text ErrWindowUnsplittable = ''saturated query window has no aligned split point''"
| "err_text (SaturatedWindowError f t r None) = saturated_window_text f t (err_text r) None"
| "err_text (SaturatedWindowError f t r (Some c)) =
     saturated_window_text f t (err_text r) (Some (err_text c))"
| "err_text (SaturationError ds f t l) = saturation_text ds f t l"
| "err_text (RetentionGapError ds fl) = retention_gap_text ds fl"
| "err_text (UnentitledError field ds disabled) = unentitled_text field ds disabled"
| "err_text (FieldLimitError ds w l) = field_limit_text ds w l"
| "err_text GraphQLBudgetError = ''graphql rate limited: budget exhausted''"
| "err_text (HTTPError st code) = http_error_text st code"
| "err_text (ResponseTooLargeError c) = too_large_text c"
| "err_text (ExportFailure sig e) = sig @ '': '' @ err_text e"
| "err_text (CommitDeadlineError c w rw b rb e) = commit_deadline_text c w rw b rb (err_text e)"

text \<open>The errors an error wraps: \<open>Unwrap() error\<close> or \<open>Unwrap() []error\<close>.\<close>

fun err_unwrap :: "gerr \<Rightarrow> gerr list" where
  "err_unwrap (ErrWrap _ e) = [e]"
| "err_unwrap (ErrJoin es) = es"
| "err_unwrap (SaturatedWindowError _ _ r None) = [r]"
| "err_unwrap (SaturatedWindowError _ _ r (Some c)) = [r, c]"
| "err_unwrap (ExportFailure _ e) = [e]"
| "err_unwrap (CommitDeadlineError _ _ _ _ _ e) = [e]"
| "err_unwrap _ = []"

text \<open>All errors of the tree in the preorder in which \<open>errors.Is\<close> and \<open>errors.As\<close> visit them.\<close>

fun err_nodes :: "gerr \<Rightarrow> gerr list" where
  "err_nodes (ErrWrap p e) = ErrWrap p e # err_nodes e"
| "err_nodes (ErrJoin es) = ErrJoin es # concat (map err_nodes es)"
| "err_nodes (SaturatedWindowError f t r None) = SaturatedWindowError f t r None # err_nodes r"
| "err_nodes (SaturatedWindowError f t r (Some c)) =
     SaturatedWindowError f t r (Some c) # err_nodes r @ err_nodes c"
| "err_nodes (ExportFailure s e) = ExportFailure s e # err_nodes e"
| "err_nodes (CommitDeadlineError n w rw b rb e) =
     CommitDeadlineError n w rw b rb e # err_nodes e"
| "err_nodes e = [e]"

definition errors_is :: "gerr \<Rightarrow> gerr \<Rightarrow> bool" where
  "errors_is e target \<longleftrightarrow> List.member (err_nodes e) target"

fun first_some :: "('a \<Rightarrow> 'b option) \<Rightarrow> 'a list \<Rightarrow> 'b option" where
  "first_some f [] = None"
| "first_some f (x # xs) = (case f x of Some y \<Rightarrow> Some y | None \<Rightarrow> first_some f xs)"

text \<open>\<open>errors.As\<close>: the first error of the tree of the wanted type, given by a selector.\<close>

definition errors_as :: "(gerr \<Rightarrow> 'b option) \<Rightarrow> gerr \<Rightarrow> 'b option" where
  "errors_as sel e = first_some sel (err_nodes e)"

text \<open>\<open>errors.Join\<close>: nil errors are dropped; nil if all are.\<close>

definition errors_join :: "gerr option list \<Rightarrow> gerr option" where
  "errors_join es = (case List.map_filter id es of [] \<Rightarrow> None | xs \<Rightarrow> Some (ErrJoin xs))"

lemma err_nodes_unwrap: "err_nodes e = e # concat (map err_nodes (err_unwrap e))"
  by (cases e rule: err_nodes.cases) simp_all

lemma err_nodes_self [simp]: "e \<in> set (err_nodes e)"
  by (subst err_nodes_unwrap) simp

lemma errors_is_iff: "errors_is e t \<longleftrightarrow> t \<in> set (err_nodes e)"
  by (simp add: errors_is_def)

lemma first_some_None: "first_some f xs = None \<longleftrightarrow> (\<forall>x \<in> set xs. f x = None)"
  by (induction xs) (auto split: option.splits)

lemma first_some_SomeD: "first_some f xs = Some y \<Longrightarrow> \<exists>x \<in> set xs. f x = Some y"
  by (induction xs) (auto split: option.splits)

lemma errors_as_None: "errors_as sel e = None \<longleftrightarrow> (\<forall>x \<in> set (err_nodes e). sel x = None)"
  by (simp add: errors_as_def first_some_None)

lemma errors_join_None: "errors_join es = None \<longleftrightarrow> (\<forall>e \<in> set es. e = None)"
proof -
  have "List.map_filter id es = [] \<longleftrightarrow> (\<forall>e \<in> set es. e = None)"
    by (induction es) (auto simp: List.map_filter_simps split: option.splits)
  then show ?thesis by (auto simp: errors_join_def split: list.splits)
qed

text \<open>A property of every error of a tree holds of a tree exactly when it holds of the root and
  of every wrapped tree: the induction principle the walks over error trees use.\<close>

lemma err_size_unwrap: "x \<in> set (err_unwrap e) \<Longrightarrow> size x < size e"
proof (cases e rule: err_unwrap.cases)
  case (2 es)
  assume "x \<in> set (err_unwrap e)"
  with 2 show ?thesis by (auto dest: size_list_estimation' [where f = size, OF _ order_refl])
qed auto

lemma err_tree_induct [case_names node]:
  assumes "\<And>e. (\<And>x. x \<in> set (err_unwrap e) \<Longrightarrow> P x) \<Longrightarrow> P e"
  shows "P e"
proof (induction e rule: measure_induct_rule [where f = size])
  case (less e)
  show ?case by (rule assms) (blast intro: less err_size_unwrap)
qed

end
