(* ===== verification/Splitter.thy ===== *)
theory Splitter
  imports GoErrors
begin

text \<open>
  Window bisection, \<open>internal/collector/splitter.go\<close>. \<open>split_window\<close> is \<open>SplitWindow\<close>,
  \<open>bisect\<close> is \<open>Bisect\<close>. The query is a callback with effects (it sends HTTP requests), so it
  takes and returns a state; the rows, the saturation flag and the error are its results.
\<close>

definition split_window :: "time \<Rightarrow> time \<Rightarrow> duration \<Rightarrow> duration \<Rightarrow> gerr + time" where
  "split_window fr to step minimum =
     (if time_sub to fr \<le> minimum then Inl ErrWindowIrreducible
      else
        (let mid = time_trunc (fr + go_quot (time_sub to fr) 2) step
         in if \<not> mid > fr \<or> \<not> mid < to then Inl ErrWindowUnsplittable else Inr mid))"

type_synonym ('s, 'a) window_query =
  "'s \<Rightarrow> time \<Rightarrow> time \<Rightarrow> 's \<times> 'a list \<times> bool \<times> gerr option"

lemma split_window_inside:
  "split_window fr to step minimum = Inr mid \<Longrightarrow> fr < mid \<and> mid < to"
  by (auto simp: split_window_def Let_def split: if_splits)

function bisect ::
  "time \<Rightarrow> time \<Rightarrow> duration \<Rightarrow> duration \<Rightarrow> ('s, 'a) window_query \<Rightarrow> 's \<Rightarrow> 's \<times> (gerr + 'a list)"
where
  "bisect fr to step minimum query s =
     (case query s fr to of
        (s1, rows, saturated, err) \<Rightarrow>
          if \<not> saturated then
            (case err of Some e \<Rightarrow> (s1, Inl e) | None \<Rightarrow> (s1, Inr rows))
          else
            (case split_window fr to step minimum of
               Inl reason \<Rightarrow> (s1, Inl (SaturatedWindowError fr to reason err))
             | Inr mid \<Rightarrow>
                 (case bisect fr mid step minimum query s1 of
                    (s2, Inl e) \<Rightarrow> (s2, Inl e)
                  | (s2, Inr left) \<Rightarrow>
                      (case bisect mid to step minimum query s2 of
                         (s3, Inl e) \<Rightarrow> (s3, Inl e)
                       | (s3, Inr right) \<Rightarrow> (s3, Inr (left @ right))))))"
  by pat_completeness auto
termination
  by (relation "measure (\<lambda>(fr, to, step, minimum, query, s). nat (to - fr))")
    (auto dest!: split_window_inside)

declare bisect.simps [simp del]

text \<open>The bisection points are aligned to the step.\<close>

lemma split_window_aligned:
  "0 < step \<Longrightarrow> split_window fr to step minimum = Inr mid \<Longrightarrow> mid mod step = 0"
  by (auto simp: split_window_def Let_def split: if_splits)

text \<open>
  The specification of a successful bisection: the window is cut into consecutive leaves, each
  queried once, in time order, unsaturated and without error, and the rows are theirs.
\<close>

inductive leaves ::
  "('s, 'a) window_query \<Rightarrow> time \<Rightarrow> time \<Rightarrow> 's \<Rightarrow> (time \<times> time \<times> 'a list) list \<Rightarrow> 's \<Rightarrow> bool"
  for query
where
  leaf: "query s fr to = (s', rows, False, None) \<Longrightarrow> leaves query fr to s [(fr, to, rows)] s'"
| fork: "query s fr to = (s1, rows, True, err) \<Longrightarrow> fr < mid \<Longrightarrow> mid < to \<Longrightarrow>
     leaves query fr mid s1 ls s2 \<Longrightarrow> leaves query mid to s2 rs s3 \<Longrightarrow>
     leaves query fr to s (ls @ rs) s3"

text \<open>Consecutive half-open windows that tile \<open>[fr, to)\<close>.\<close>

fun tiles :: "time \<Rightarrow> time \<Rightarrow> (time \<times> time \<times> 'a) list \<Rightarrow> bool" where
  "tiles fr to [] \<longleftrightarrow> fr = to"
| "tiles fr to ((a, b, _) # ws) \<longleftrightarrow> a = fr \<and> tiles b to ws"

definition leaf_rows :: "(time \<times> time \<times> 'a list) list \<Rightarrow> 'a list" where
  "leaf_rows ls = concat (map (\<lambda>(a, b, rows). rows) ls)"

lemma leaf_rows_simps [simp]:
  "leaf_rows [] = []" "leaf_rows ((a, b, rows) # ls) = rows @ leaf_rows ls"
  "leaf_rows (ls @ rs) = leaf_rows ls @ leaf_rows rs"
  by (simp_all add: leaf_rows_def)

lemma tiles_append: "tiles a b ls \<Longrightarrow> tiles b c rs \<Longrightarrow> tiles a c (ls @ rs)"
  by (induction a b ls rule: tiles.induct) auto

lemma leaves_tile: "leaves query fr to s ls s' \<Longrightarrow> tiles fr to ls"
  by (induction rule: leaves.induct) (auto intro: tiles_append)

lemma leaves_unsaturated:
  "leaves query fr to s ls s' \<Longrightarrow> (a, b, rows) \<in> set ls \<Longrightarrow>
   \<exists>t t'. query t a b = (t', rows, False, None)"
  by (induction rule: leaves.induct) auto

lemma leaves_nonempty: "leaves query fr to s ls s' \<Longrightarrow> ls \<noteq> []"
  by (induction rule: leaves.induct) auto

lemma bisect_leaves:
  "bisect fr to step minimum query s = (s', Inr rows) \<Longrightarrow>
   \<exists>ls. leaves query fr to s ls s' \<and> rows = leaf_rows ls"
proof (induction fr to step minimum query s arbitrary: s' rows rule: bisect.induct)
  case (1 fr to step minimum query s)
  obtain s1 rs sat err where q: "query s fr to = (s1, rs, sat, err)"
    by (cases "query s fr to") auto
  show ?case
  proof (cases sat)
    case False
    with "1.prems" q have "err = None" "s' = s1" "rows = rs"
      by (auto simp: bisect.simps [of fr] split: option.splits)
    with q False show ?thesis by (auto intro!: exI [of _ "[(fr, to, rs)]"] leaves.leaf)
  next
    case True
    with "1.prems" q obtain mid s2 l r where mid: "split_window fr to step minimum = Inr mid"
      and l: "bisect fr mid step minimum query s1 = (s2, Inr l)"
      and r: "bisect mid to step minimum query s2 = (s', Inr r)" and rows: "rows = l @ r"
      by (auto simp: bisect.simps [of fr to] split: sum.splits prod.splits)
    from "1.IH"(1) [OF q [symmetric] refl refl _ mid l] True obtain ls where
      ls: "leaves query fr mid s1 ls s2" "l = leaf_rows ls" by auto
    from "1.IH"(2) [OF q [symmetric] refl refl _ mid l [symmetric] refl r] True obtain rs' where
      rs: "leaves query mid to s2 rs' s'" "r = leaf_rows rs'" by auto
    from mid have "fr < mid" "mid < to" using split_window_inside by blast+
    with q True ls rs rows show ?thesis
      by (auto intro!: exI [of _ "ls @ rs'"] leaves.fork)
  qed
qed


lemma leaves_step_bounds:
  "leaves query fr to s ls s' \<Longrightarrow> fr < to \<Longrightarrow> w \<in> set ls \<Longrightarrow>
   fr \<le> fst w \<and> fst w < fst (snd w) \<and> fst (snd w) \<le> to"
  by (induction rule: leaves.induct) fastforce+

text \<open>A failed bisection names its cause: the first error of an unsaturated query, or a saturated
  window inside the original one that cannot be cut further.\<close>

inductive bisect_failure ::
  "('s, 'a) window_query \<Rightarrow> duration \<Rightarrow> duration \<Rightarrow> time \<Rightarrow> time \<Rightarrow> gerr \<Rightarrow> bool"
  for query step minimum
where
  query_error: "query t a b = (t', rows, False, Some e) \<Longrightarrow>
     bisect_failure query step minimum fr to e"
| stuck_window: "fr \<le> a \<Longrightarrow> b \<le> to \<Longrightarrow> query t a b = (t', rows, True, err) \<Longrightarrow>
     split_window a b step minimum = Inl reason \<Longrightarrow>
     bisect_failure query step minimum fr to (SaturatedWindowError a b reason err)"

lemma split_window_reason:
  "split_window fr to step minimum = Inl reason \<Longrightarrow>
   reason \<in> {ErrWindowIrreducible, ErrWindowUnsplittable}"
  by (auto simp: split_window_def Let_def split: if_splits)

lemma bisect_failure_widen:
  "bisect_failure query step minimum a b e \<Longrightarrow> fr \<le> a \<Longrightarrow> b \<le> to \<Longrightarrow>
   bisect_failure query step minimum fr to e"
  by (erule bisect_failure.cases) (auto intro: bisect_failure.intros)

lemma bisect_error:
  "bisect fr to step minimum query s = (s', Inl e) \<Longrightarrow>
   bisect_failure query step minimum fr to e"
proof (induction fr to step minimum query s arbitrary: s' rule: bisect.induct)
  case (1 fr to step minimum query s)
  obtain s1 rs sat err where q: "query s fr to = (s1, rs, sat, err)"
    by (cases "query s fr to") auto
  show ?case
  proof (cases "sat")
    case False
    with "1.prems" q have "query s fr to = (s1, rs, False, Some e)"
      by (auto simp: bisect.simps [of fr] split: option.splits)
    then show ?thesis by (rule query_error)
  next
    case sat: True
    show ?thesis
    proof (cases "split_window fr to step minimum")
      case (Inl reason)
      with "1.prems" q sat have "e = SaturatedWindowError fr to reason err"
        by (simp add: bisect.simps [of fr])
      with Inl q sat show ?thesis by (auto intro: stuck_window)
    next
      case (Inr mid)
      note inside = split_window_inside [OF Inr]
      show ?thesis
      proof (cases "bisect fr mid step minimum query s1")
        case (Pair s2 l)
        show ?thesis
        proof (cases l)
          case (Inl e')
          with "1.prems" q sat Inr Pair have "e = e'"
            by (simp add: bisect.simps [of fr to])
          with "1.IH"(1) [OF q [symmetric] refl refl _ Inr] sat Pair Inl
          have "bisect_failure query step minimum fr mid e" by simp
          then show ?thesis by (rule bisect_failure_widen) (use inside in simp_all)
        next
          case Inr': (Inr left)
          with "1.prems" q sat Inr Pair
          obtain s3 where "bisect mid to step minimum query s2 = (s3, Inl e)"
            by (auto simp: bisect.simps [of fr to] split: sum.splits prod.splits)
          with "1.IH"(2) [OF q [symmetric] refl refl _ Inr Pair [symmetric] Inr'] sat
          have "bisect_failure query step minimum mid to e" by simp
          then show ?thesis by (rule bisect_failure_widen) (use inside in simp_all)
        qed
      qed
    qed
  qed
qed

subsection \<open>Properties\<close>

text \<open>C12. A successful \<open>Bisect\<close> never returns a partial window: its rows are the concatenation, in
  time order, of the rows of consecutive windows that tile \<open>[from, to)\<close> exactly, each of which
  was queried without error and was not saturated.\<close>

theorem bisect_complete_partition:
  assumes "bisect fr to step minimum query s = (s', Inr rows)"
  shows "\<exists>ls. tiles fr to ls \<and> rows = leaf_rows ls \<and> ls \<noteq> [] \<and>
    (\<forall>(a, b, r) \<in> set ls. \<exists>t t'. query t a b = (t', r, False, None))"
proof -
  from bisect_leaves [OF assms] obtain ls where "leaves query fr to s ls s'"
    and "rows = leaf_rows ls" by blast
  then show ?thesis
    by (auto intro!: exI [of _ ls] dest: leaves_tile leaves_unsaturated leaves_nonempty)
qed

text \<open>A source with one row per second, saturated at four rows; the state counts the queries.\<close>

definition sample_query :: "(nat, time) window_query" where
  "sample_query n a b =
     (let rows = map (\<lambda>i. a + int i * second) [0..<nat ((b - a) div second)]
      in (Suc n, rows, 4 \<le> length rows, None))"

theorem bisect_complete_partition_witness:
  "bisect 0 (8 * second) second second sample_query 0 = (7, Inr (map (\<lambda>i. int i * second) [0..<8]))
   \<and> (\<exists>ls. tiles 0 (8 * second) ls \<and> map (\<lambda>i. int i * second) [0..<8] = leaf_rows ls)"
proof -
  have run: "bisect 0 (8 * second) second second sample_query 0
      = (7, Inr (map (\<lambda>i. int i * second) [0..<8]))"
    by (simp add: bisect.simps sample_query_def split_window_def time_defs upt_rec sgn_if)
  from bisect_complete_partition [OF this] run show ?thesis by blast
qed


text \<open>C18. A failed \<open>Bisect\<close> names its cause: the error of an unsaturated query, or a saturated window
  inside the original one that cannot be cut further, wrapped with that window, the reason and the
  query's own error. It never fails for another reason, and saturation is never dropped.\<close>

theorem bisect_failure_cause:
  assumes "bisect fr to step minimum query s = (s', Inl e)"
  shows "(\<exists>t a b t' rows. query t a b = (t', rows, False, Some e)) \<or>
    (\<exists>t a b t' rows reason err. fr \<le> a \<and> b \<le> to \<and> query t a b = (t', rows, True, err) \<and>
       split_window a b step minimum = Inl reason \<and> e = SaturatedWindowError a b reason err)"
  using bisect_error [OF assms] by (cases rule: bisect_failure.cases) blast+

theorem bisect_failure_cause_witness:
  "\<exists>a b reason err t rows. 0 \<le> a \<and> b \<le> 4 * second \<and> fst (snd (snd (sample_query t a b))) \<and>
     split_window a b second (4 * second) = Inl reason \<and>
     snd (bisect 0 (4 * second) second (4 * second) sample_query 0)
       = (Inl (SaturatedWindowError a b reason err) :: gerr + time list)"
proof -
  let ?e = "SaturatedWindowError 0 (4 * second) ErrWindowIrreducible None"
  have run: "bisect 0 (4 * second) second (4 * second) sample_query 0 = (1, Inl ?e)"
    by (simp add: bisect.simps sample_query_def split_window_def time_defs upt_rec sgn_if)
  have "\<not> (\<exists>t a b t' rows. sample_query t a b = (t', rows, False, Some ?e))"
    by (simp add: sample_query_def Let_def)
  with bisect_failure_cause [OF run] obtain t a b t' rows reason err where
    "0 \<le> a" "b \<le> 4 * second" and q: "sample_query t a b = (t', rows, True, err)"
    and "split_window a b second (4 * second) = Inl reason"
    and e: "?e = SaturatedWindowError a b reason err" by blast
  moreover from q have "fst (snd (snd (sample_query t a b)))" by simp
  moreover have "snd (bisect 0 (4 * second) second (4 * second) sample_query 0)
      = (Inl (SaturatedWindowError a b reason err) :: gerr + time list)"
    unfolding e [symmetric] run by simp
  ultimately show ?thesis by blast
qed


subsection \<open>The number of queries\<close>

text \<open>The query with a counter beside its state.\<close>

definition counted :: "('s, 'a) window_query \<Rightarrow> ('s \<times> nat, 'a) window_query" where
  "counted query = (\<lambda>(s, n) fr to. case query s fr to of (s', res) \<Rightarrow> ((s', Suc n), res))"

text \<open>The multiples of the step strictly inside a window.\<close>

definition inner_steps :: "time \<Rightarrow> time \<Rightarrow> duration \<Rightarrow> nat" where
  "inner_steps fr to step = nat ((to - 1) div step - fr div step)"

lemma inner_steps_split:
  assumes "0 < step" "fr < mid" "mid < to" "mid mod step = 0"
  shows "inner_steps fr to step = Suc (inner_steps fr mid step + inner_steps mid to step)"
proof -
  from assms(4) obtain q where q: "mid = q * step" by (metis mod_0_imp_dvd dvd_def mult.commute)
  have mid: "mid div step = q" using q assms(1) by simp
  have "mid - 1 = step * (q - 1) + (step - 1)" using q by (simp add: algebra_simps)
  then have pred: "(mid - 1) div step = q - 1" by (rule int_div_pos_eq) (use assms(1) in simp_all)
  have "fr div step \<le> (mid - 1) div step" "mid div step \<le> (to - 1) div step"
    using assms(1-3) by (auto intro: zdiv_mono1)
  then show ?thesis unfolding inner_steps_def mid pred by linarith
qed

lemma bisect_counted:
  "0 < step \<Longrightarrow> bisect fr to step minimum (counted query) (s, n) = ((s', n'), r) \<Longrightarrow>
    bisect fr to step minimum query s = (s', r) \<and> n' \<le> Suc (n + 2 * inner_steps fr to step)"
proof (induction fr to step minimum query s arbitrary: n s' n' r rule: bisect.induct)
  case (1 fr to step minimum query s)
  note pos = "1.prems"(1) and run = "1.prems"(2)
  obtain s1 rows sat err where q: "query s fr to = (s1, rows, sat, err)" by (cases "query s fr to") auto
  then have cq: "counted query (s, n) fr to = ((s1, Suc n), rows, sat, err)" by (simp add: counted_def)
  show ?case
  proof (cases "sat \<and> (\<exists>mid. split_window fr to step minimum = Inr mid)")
    case False
    with run q cq show ?thesis
      by (auto simp: bisect.simps [of fr to] split: option.splits sum.splits)
  next
    case True
    then obtain mid where mid: "split_window fr to step minimum = Inr mid" and sat by blast
    note parts = split_window_inside [OF mid] split_window_aligned [OF pos mid]
    obtain s2 n2 l where l: "bisect fr mid step minimum (counted query) (s1, Suc n) = ((s2, n2), l)"
      by (metis surj_pair)
    note IHl = "1.IH"(1) [OF q [symmetric] refl refl _ mid pos l]
    show ?thesis
    proof (cases l)
      case (Inl e)
      with l IHl run q cq mid \<open>sat\<close> inner_steps_split [OF pos _ _ parts(2)] parts(1) pos
      show ?thesis by (auto simp: bisect.simps [of fr to])
    next
      case (Inr left)
      obtain s3 n3 g where g: "bisect mid to step minimum (counted query) (s2, n2) = ((s3, n3), g)"
        by (metis surj_pair)
      from IHl Inr \<open>sat\<close> have bl: "bisect fr mid step minimum query s1 = (s2, Inr left)"
        "n2 \<le> Suc (Suc n + 2 * inner_steps fr mid step)" by simp_all
      note IHg = "1.IH"(2) [OF q [symmetric] refl refl _ mid bl(1) [symmetric] refl pos g]
      with \<open>sat\<close> have bg: "bisect mid to step minimum query s2 = (s3, g)"
        "n3 \<le> Suc (n2 + 2 * inner_steps mid to step)" by simp_all
      have "s' = s3 \<and> n' = n3 \<and> bisect fr to step minimum query s = (s', r)"
        using run q cq mid \<open>sat\<close> l Inr bl(1) g bg(1)
        by (auto simp: bisect.simps [of fr to] split: sum.splits)
      with bl(2) bg(2) inner_steps_split [OF pos _ _ parts(2)] parts(1) pos show ?thesis by simp
    qed
  qed
qed

text \<open>C29. \<open>Bisect\<close> ends: whatever the source answers, it asks at most once for the window and twice
  for every multiple of the step inside it, and counting does not change what it returns.\<close>

theorem bisect_query_bound:
  assumes "0 < step"
  shows "\<exists>n. bisect fr to step minimum (counted query) (s, 0) =
      ((fst (bisect fr to step minimum query s), n), snd (bisect fr to step minimum query s)) \<and>
    n \<le> 1 + 2 * nat ((to - 1) div step - fr div step)"
proof -
  obtain s' n r where b: "bisect fr to step minimum (counted query) (s, 0) = ((s', n), r)" by (metis surj_pair)
  from bisect_counted [OF assms this] b show ?thesis by (simp add: inner_steps_def)
qed

theorem bisect_query_bound_witness:
  "\<exists>n. fst (bisect 0 (4 * second) second second (counted sample_query) (0, 0)) =
      (fst (bisect 0 (4 * second) second second sample_query 0), n) \<and> n \<le> 7"
proof -
  have "(0::int) < second" by simp
  from bisect_query_bound [OF this, of 0 "4 * second" second sample_query 0] obtain n where
    n: "bisect 0 (4 * second) second second (counted sample_query) (0, 0) =
      ((fst (bisect 0 (4 * second) second second sample_query 0), n),
       snd (bisect 0 (4 * second) second second sample_query 0))"
    "n \<le> 1 + 2 * nat ((4 * second - 1) div second - 0 div second)" by blast
  show ?thesis using n(2) by (subst n(1)) simp
qed

end
