(* ===== verification/LogBatch.thy ===== *)
theory LogBatch
  imports GoErrors
begin

text \<open>
  The synchronous log batcher, \<open>internal/telemetry/log_batch.go\<close>. The batcher holds \<open>pending\<close> records
  and their estimated size; the wrapped exporter (an OTLP client, not part of the repository) is a
  function from the number of the call and the batch to an error or nil. The state keeps the calls made so
  far with their outcomes, so that what reached the exporter can be stated. A call of \<open>Export\<close>
  runs under the batcher's mutex, and so does a tick of the flush timer: both are single steps.
\<close>

record sdk_log =
  sl_body :: string
  sl_attrs :: "(string \<times> string) list"

definition log_batch_items :: nat where "log_batch_items = 64"
definition log_batch_bytes :: int where "log_batch_bytes = 400 * 1024"

definition estimated_log_bytes :: "sdk_log \<Rightarrow> int" where
  "estimated_log_bytes r =
     int (length (sl_body r)) + 256
     + sum_list (map (\<lambda>(k, v). int (length k) + int (length v)) (sl_attrs r))"

record log_batcher =
  lb_pending :: "sdk_log list"
  lb_bytes :: int
  lb_calls :: "(sdk_log list \<times> gerr option) list"

type_synonym exporter = "nat \<Rightarrow> sdk_log list \<Rightarrow> gerr option"

definition flush_locked :: "exporter \<Rightarrow> log_batcher \<Rightarrow> log_batcher \<times> gerr option" where
  "flush_locked ex b =
     (if lb_pending b = [] then (b, None)
      else
        (let batch = lb_pending b; r = ex (length (lb_calls b)) batch
         in (\<lparr>lb_pending = [], lb_bytes = 0, lb_calls = lb_calls b @ [(batch, r)]\<rparr>, r)))"

text \<open>One iteration of the loop of \<open>Export\<close>.\<close>

definition append_log :: "sdk_log \<Rightarrow> log_batcher \<Rightarrow> log_batcher" where
  "append_log r b =
     b\<lparr>lb_pending := lb_pending b @ [r], lb_bytes := lb_bytes b + estimated_log_bytes r\<rparr>"

definition export_full :: "exporter \<Rightarrow> log_batcher \<Rightarrow> log_batcher \<times> gerr option" where
  "export_full ex b =
     (if log_batch_items \<le> length (lb_pending b) \<or> log_batch_bytes \<le> lb_bytes b
      then flush_locked ex b else (b, None))"

definition export_one :: "exporter \<Rightarrow> sdk_log \<Rightarrow> log_batcher \<Rightarrow> log_batcher \<times> gerr option" where
  "export_one ex r b =
     (let size = estimated_log_bytes r;
          room = (if lb_pending b \<noteq> [] \<and>
                     (log_batch_items \<le> length (lb_pending b) \<or> log_batch_bytes < lb_bytes b + size)
                  then flush_locked ex b else (b, None))
      in case room of
           (b1, Some e) \<Rightarrow> (b1, Some e)
         | (b1, None) \<Rightarrow> export_full ex (append_log r b1))"

fun export_logs :: "exporter \<Rightarrow> sdk_log list \<Rightarrow> log_batcher \<Rightarrow> log_batcher \<times> gerr option" where
  "export_logs ex [] b = (b, None)"
| "export_logs ex (r # rs) b =
     (case export_one ex r b of
        (b1, Some e) \<Rightarrow> (b1, Some e)
      | (b1, None) \<Rightarrow> export_logs ex rs b1)"

text \<open>\<open>ForceFlush\<close>: the batcher's own flush and the wrapped exporter's are joined.\<close>

definition force_flush ::
  "exporter \<Rightarrow> gerr option \<Rightarrow> log_batcher \<Rightarrow> log_batcher \<times> gerr option" where
  "force_flush ex inner b =
     (case flush_locked ex b of (b1, e) \<Rightarrow> (b1, errors_join [e, inner]))"

subsection \<open>Invariant\<close>

definition exported :: "log_batcher \<Rightarrow> sdk_log list" where
  "exported b = concat (map fst (lb_calls b))"

abbreviation batch_size :: "sdk_log list \<Rightarrow> int" where
  "batch_size rs \<equiv> sum_list (map estimated_log_bytes rs)"

definition batch_ok :: "sdk_log list \<Rightarrow> bool" where
  "batch_ok rs \<longleftrightarrow> rs \<noteq> [] \<and> length rs \<le> log_batch_items \<and>
     (batch_size rs \<le> log_batch_bytes \<or> length rs = 1)"

definition batcher_inv :: "log_batcher \<Rightarrow> bool" where
  "batcher_inv b \<longleftrightarrow>
     lb_bytes b = batch_size (lb_pending b) \<and>
     length (lb_pending b) < log_batch_items \<and> lb_bytes b < log_batch_bytes \<and>
     (\<forall>(rs, e) \<in> set (lb_calls b). batch_ok rs)"

lemma log_bytes_pos: "0 < estimated_log_bytes r"
proof -
  have "0 \<le> sum_list (map (\<lambda>(k, v). int (length k) + int (length v)) (sl_attrs r))"
    by (rule sum_list_nonneg) auto
  then show ?thesis by (simp add: estimated_log_bytes_def)
qed

lemma batch_size_nonneg: "0 \<le> batch_size rs"
  by (rule sum_list_nonneg) (auto intro: less_imp_le log_bytes_pos)

lemma flush_locked_inv:
  assumes "flush_locked ex b = (b', e)" "batch_ok (lb_pending b) \<or> lb_pending b = []"
    and "lb_bytes b = batch_size (lb_pending b)" "\<forall>(rs, e) \<in> set (lb_calls b). batch_ok rs"
  shows "batcher_inv b' \<and> lb_pending b' = [] \<and>
    exported b' @ lb_pending b' = exported b @ lb_pending b"
  using assms
  by (auto simp: flush_locked_def batcher_inv_def exported_def Let_def log_batch_items_def
      log_batch_bytes_def split: if_splits)

lemma batcher_pending_ok: "batcher_inv b \<Longrightarrow> batch_ok (lb_pending b) \<or> lb_pending b = []"
  by (auto simp: batcher_inv_def batch_ok_def)

lemma export_full_inv:
  assumes "export_full ex b = (b', e)" "batch_ok (lb_pending b)"
    and "lb_bytes b = batch_size (lb_pending b)" "\<forall>(rs, e) \<in> set (lb_calls b). batch_ok rs"
  shows "batcher_inv b' \<and> exported b' @ lb_pending b' = exported b @ lb_pending b"
  using assms flush_locked_inv [of ex b b' e]
  by (auto simp: export_full_def batcher_inv_def split: if_splits)

lemma append_log_ok:
  assumes "batcher_inv b" "lb_pending b = [] \<or> lb_bytes b + estimated_log_bytes r \<le> log_batch_bytes"
  shows "batch_ok (lb_pending (append_log r b)) \<and>
    lb_bytes (append_log r b) = batch_size (lb_pending (append_log r b)) \<and>
    (\<forall>(rs, e) \<in> set (lb_calls (append_log r b)). batch_ok rs) \<and>
    exported (append_log r b) @ lb_pending (append_log r b) = exported b @ lb_pending b @ [r]"
  using assms by (auto simp: append_log_def batcher_inv_def batch_ok_def exported_def)

lemma export_one_inv:
  assumes "batcher_inv b" "export_one ex r b = (b', e)"
  shows "batcher_inv b' \<and>
    (e = None \<longrightarrow> exported b' @ lb_pending b' = exported b @ lb_pending b @ [r])"
proof -
  let ?full = "lb_pending b \<noteq> [] \<and> (log_batch_items \<le> length (lb_pending b) \<or>
    log_batch_bytes < lb_bytes b + estimated_log_bytes r)"
  obtain b1 e1 where room: "(if ?full then flush_locked ex b else (b, None)) = (b1, e1)"
    by (metis surj_pair)
  have b1: "batcher_inv b1 \<and> exported b1 @ lb_pending b1 = exported b @ lb_pending b \<and>
      (lb_pending b1 = [] \<or> lb_bytes b1 + estimated_log_bytes r \<le> log_batch_bytes)"
  proof (cases ?full)
    case True
    with room have "flush_locked ex b = (b1, e1)" by simp
    from flush_locked_inv [OF this batcher_pending_ok [OF assms(1)]] assms(1)
    show ?thesis by (auto simp: batcher_inv_def)
  next
    case False
    with room have "b1 = b" by auto
    with False assms(1) show ?thesis by auto
  qed
  show ?thesis
  proof (cases e1)
    case (Some x)
    with assms(2) room b1 show ?thesis by (auto simp: export_one_def Let_def)
  next
    case None
    with assms(2) room have "export_full ex (append_log r b1) = (b', e)"
      by (simp add: export_one_def Let_def)
    from export_full_inv [OF this] append_log_ok [of b1 r] b1 show ?thesis by (metis append_assoc)
  qed
qed

lemma export_logs_inv:
  "batcher_inv b \<Longrightarrow> export_logs ex rs b = (b', e) \<Longrightarrow>
   batcher_inv b' \<and> (e = None \<longrightarrow> exported b' @ lb_pending b' = exported b @ lb_pending b @ rs)"
proof (induction rs arbitrary: b)
  case Nil
  then show ?case by simp
next
  case (Cons r rs)
  obtain b1 e1 where one: "export_one ex r b = (b1, e1)" by (cases "export_one ex r b") auto
  note step = export_one_inv [OF Cons.prems(1) one]
  show ?case
  proof (cases e1)
    case None
    with Cons.prems(2) one have "export_logs ex rs b1 = (b', e)" by simp
    from Cons.IH [OF _ this] step None show ?thesis by (metis append_Cons append_Nil append_assoc)
  next
    case (Some x)
    with Cons.prems(2) one step show ?thesis by auto
  qed
qed

lemma flush_logs_inv:
  assumes "batcher_inv b" "flush_locked ex b = (b', e)"
  shows "batcher_inv b' \<and> lb_pending b' = [] \<and> exported b' = exported b @ lb_pending b"
  using flush_locked_inv [OF assms(2) batcher_pending_ok [OF assms(1)]] assms(1)
  by (auto simp: batcher_inv_def)

text \<open>Failures are returned, never swallowed: a call that returns nil made only calls that did.\<close>

lemma flush_locked_calls:
  "flush_locked ex b = (b', None) \<Longrightarrow>
   \<exists>new. lb_calls b' = lb_calls b @ new \<and> (\<forall>(rs, e) \<in> set new. e = None)"
  by (auto simp: flush_locked_def Let_def split: if_splits)

lemma export_one_calls:
  assumes "export_one ex r b = (b', None)"
  shows "\<exists>new. lb_calls b' = lb_calls b @ new \<and> (\<forall>(rs, e) \<in> set new. e = None)"
proof -
  let ?full = "lb_pending b \<noteq> [] \<and> (log_batch_items \<le> length (lb_pending b) \<or>
    log_batch_bytes < lb_bytes b + estimated_log_bytes r)"
  obtain b1 e1 where room: "(if ?full then flush_locked ex b else (b, None)) = (b1, e1)"
    by (metis surj_pair)
  with assms have "e1 = None" and full: "export_full ex (append_log r b1) = (b', None)"
    by (auto simp: export_one_def Let_def split: option.splits)
  with room obtain n1 where n1: "lb_calls b1 = lb_calls b @ n1" "\<forall>(rs, e) \<in> set n1. e = None"
    by (fastforce split: if_splits dest!: flush_locked_calls)
  from full obtain n2 where "lb_calls b' = lb_calls (append_log r b1) @ n2"
    "\<forall>(rs, e) \<in> set n2. e = None"
    by (fastforce simp: export_full_def split: if_splits dest!: flush_locked_calls)
  with n1 show ?thesis by (intro exI [of _ "n1 @ n2"]) (auto simp: append_log_def)
qed

lemma export_logs_calls:
  "export_logs ex rs b = (b', None) \<Longrightarrow>
   \<exists>new. lb_calls b' = lb_calls b @ new \<and> (\<forall>(rs, e) \<in> set new. e = None)"
proof (induction rs arbitrary: b)
  case Nil
  then show ?case by simp
next
  case (Cons r rs)
  then obtain b1 where one: "export_one ex r b = (b1, None)" and "export_logs ex rs b1 = (b', None)"
    by (auto split: prod.splits option.splits)
  from Cons.IH [OF this(2)] export_one_calls [OF one] show ?case
    by (metis Un_iff append_assoc set_append)
qed

subsection \<open>Properties\<close>

text \<open>C22. The batcher loses and reorders nothing while it reports success: after an \<open>Export\<close> that
  returned nil, what was handed to the wrapped exporter followed by what is pending is what
  was there before followed by the new records, every call made for it succeeded, and a
  successful flush empties the pending records into the exporter. Every batch it ever sends
  is nonempty, has at most 64 records, and at most 400 KiB unless it is a single record.\<close>

theorem log_batcher_no_loss:
  assumes "batcher_inv b" and "export_logs ex rs b = (b1, None)" and "flush_locked ex b1 = (b2, r)"
  shows "exported b2 = exported b @ lb_pending b @ rs \<and> lb_pending b2 = [] \<and>
    batcher_inv b1 \<and> batcher_inv b2 \<and>
    (\<forall>(batch, e) \<in> set (lb_calls b2). batch_ok batch) \<and>
    (\<exists>new. lb_calls b1 = lb_calls b @ new \<and> (\<forall>(batch, e) \<in> set new. e = None))"
  using export_logs_inv [OF assms(1,2)] flush_logs_inv [OF _ assms(3)] export_logs_calls [OF assms(2)]
  by (auto simp: batcher_inv_def)

theorem log_batcher_no_loss_witness:
  "let r = \<lparr>sl_body = ''x'', sl_attrs = [(''k'', ''v'')]\<rparr>;
       b0 = \<lparr>lb_pending = [], lb_bytes = 0, lb_calls = []\<rparr>;
       b1 = fst (export_logs (\<lambda>_ _. None) [r, r] b0)
   in exported (fst (flush_locked (\<lambda>_ _. None) b1)) = [r, r]"
proof -
  let ?r = "\<lparr>sl_body = ''x'', sl_attrs = [(''k'', ''v'')]\<rparr>"
  let ?b0 = "\<lparr>lb_pending = [], lb_bytes = 0, lb_calls = []\<rparr>"
  let ?ex = "\<lambda>(_::nat) (_::sdk_log list). None :: gerr option"
  have inv: "batcher_inv ?b0"
    by (simp add: batcher_inv_def log_batch_items_def log_batch_bytes_def)
  obtain b1 where run: "export_logs ?ex [?r, ?r] ?b0 = (b1, None)"
    by (simp add: export_one_def export_full_def append_log_def log_batch_items_def
        log_batch_bytes_def estimated_log_bytes_def)
  obtain b2 r where fl: "flush_locked ?ex b1 = (b2, r)" by (cases "flush_locked ?ex b1") auto
  from log_batcher_no_loss [OF inv run fl] run fl show ?thesis by (simp add: exported_def)
qed

end
