(* ===== verification/Utf8.thy ===== *)
theory Utf8
  imports Prelude
begin

text \<open>
  UTF-8 as Go's \<open>unicode/utf8\<close> reads it, and \<open>validUTF8\<close> of \<open>internal/telemetry/emitter.go\<close>, which
  repairs a string before it reaches the OTLP encoder. A string is a list of bytes. \<open>rune_len\<close> is
  the width of the encoded character a string starts with, 0 when there is none: the ranges are
  those of the standard (no overlong forms, no surrogates, nothing above U+10FFFF).
\<close>

abbreviation byte :: "char \<Rightarrow> nat" where "byte c \<equiv> of_char c"

abbreviation cont_range :: "nat \<times> nat" where "cont_range \<equiv> (128, 191)"

text \<open>The ranges of the bytes that must follow a first byte.\<close>

definition rune_ranges :: "nat \<Rightarrow> (nat \<times> nat) list option" where
  "rune_ranges b =
     (if b < 128 then Some []
      else if b < 194 then None
      else if b < 224 then Some [cont_range]
      else if b = 224 then Some [(160, 191), cont_range]
      else if b = 237 then Some [(128, 159), cont_range]
      else if b < 240 then Some [cont_range, cont_range]
      else if b = 240 then Some [(144, 191), cont_range, cont_range]
      else if b < 244 then Some [cont_range, cont_range, cont_range]
      else if b = 244 then Some [(128, 143), cont_range, cont_range]
      else None)"

fun accept_ranges :: "(nat \<times> nat) list \<Rightarrow> string \<Rightarrow> bool" where
  "accept_ranges [] s = True"
| "accept_ranges (r # rs) [] = False"
| "accept_ranges ((lo, hi) # rs) (c # cs) = (lo \<le> byte c \<and> byte c \<le> hi \<and> accept_ranges rs cs)"

definition rune_len :: "string \<Rightarrow> nat" where
  "rune_len s =
     (case s of
        [] \<Rightarrow> 0
      | c # cs \<Rightarrow>
          (case rune_ranges (byte c) of
             None \<Rightarrow> 0
           | Some rs \<Rightarrow> if accept_ranges rs cs then Suc (length rs) else 0))"

lemma accept_ranges_length: "accept_ranges rs s \<Longrightarrow> length rs \<le> length s"
  by (induction rs s rule: accept_ranges.induct) auto

lemma accept_ranges_take: "accept_ranges rs s \<Longrightarrow> accept_ranges rs (take (length rs) s @ t)"
  by (induction rs s rule: accept_ranges.induct) auto

lemma rune_len_le: "rune_len s \<le> length s"
  by (auto simp: rune_len_def dest: accept_ranges_length split: list.splits option.splits)

lemma rune_len_take:
  assumes "rune_len s \<noteq> 0"
  shows "rune_len (take (rune_len s) s @ t) = rune_len s"
  using assms
  using accept_ranges_take [where t = "[]"]
  by (auto simp: rune_len_def accept_ranges_take split: list.splits option.splits if_splits)

text \<open>\<open>utf8.ValidString\<close>.\<close>

function valid_string :: "string \<Rightarrow> bool" where
  "valid_string s =
     (if s = [] then True
      else if rune_len s = 0 then False
      else valid_string (drop (rune_len s) s))"
  by pat_completeness auto
termination
proof (relation "measure length")
  fix s :: string
  assume "s \<noteq> []" "rune_len s \<noteq> 0"
  then show "(drop (rune_len s) s, s) \<in> measure length"
    by auto
qed simp

declare valid_string.simps [simp del]

text \<open>U+FFFD, and \<open>strings.ToValidUTF8(s, "\uFFFD")\<close>: each run of bytes that are part of no
  character becomes one replacement. The flag says that the previous byte was such a byte.\<close>

definition replacement :: string where
  "replacement = [CHR 0xEF, CHR 0xBF, CHR 0xBD]"

function to_valid_utf8 :: "bool \<Rightarrow> string \<Rightarrow> string" where
  "to_valid_utf8 invalid s =
     (if s = [] then []
      else if rune_len s = 0 then
        (if invalid then [] else replacement) @ to_valid_utf8 True (tl s)
      else take (rune_len s) s @ to_valid_utf8 False (drop (rune_len s) s))"
  by pat_completeness auto
termination
proof (relation "measure (\<lambda>(_, s). length s)")
  fix invalid :: bool and s :: string
  assume "s \<noteq> []" "rune_len s \<noteq> 0"
  then show "((False, drop (rune_len s) s), invalid, s) \<in> measure (\<lambda>(_, s). length s)"
    by auto
qed auto

declare to_valid_utf8.simps [simp del]

definition valid_utf8 :: "string \<Rightarrow> string" where
  "valid_utf8 s = (if valid_string s then s else to_valid_utf8 False s)"

subsection \<open>Lemmas\<close>

lemma valid_string_Nil [simp]: "valid_string []"
  by (subst valid_string.simps) simp

lemma valid_string_rest:
  assumes "valid_string s" "s \<noteq> []"
  shows "rune_len s \<noteq> 0" "valid_string (drop (rune_len s) s)"
  using assms valid_string.simps [of s] by (simp_all split: if_splits)

lemma valid_string_append: "valid_string s \<Longrightarrow> valid_string t \<Longrightarrow> valid_string (s @ t)"
proof (induction s rule: valid_string.induct)
  case (1 s)
  show ?case
  proof (cases "s = []")
    case True
    with 1 show ?thesis by simp
  next
    case False
    with "1.prems"(1) have n: "rune_len s \<noteq> 0" and rest: "valid_string (drop (rune_len s) s)"
      by (simp_all add: valid_string_rest)
    let ?n = "rune_len s"
    have "rune_len (s @ t) = ?n"
      using rune_len_take [OF n, of "drop ?n s @ t"]
      by (simp only: append_assoc [symmetric] append_take_drop_id)
    moreover have "drop ?n (s @ t) = drop ?n s @ t" using rune_len_le [of s] by simp
    ultimately show ?thesis
      using "1.IH" [OF False n rest "1.prems"(2)] n by (subst valid_string.simps) simp
  qed
qed

lemma valid_string_rune: "rune_len s \<noteq> 0 \<Longrightarrow> valid_string (take (rune_len s) s)"
proof -
  assume n: "rune_len s \<noteq> 0"
  then have "rune_len (take (rune_len s) s) = rune_len s" using rune_len_take [of s "[]"] by simp
  with n show ?thesis by (subst valid_string.simps) simp
qed

lemma valid_replacement: "valid_string replacement"
  by code_simp

lemma to_valid_utf8_valid: "valid_string (to_valid_utf8 invalid s)"
proof (induction invalid s rule: to_valid_utf8.induct)
  case (1 invalid s)
  consider "s = []" | "s \<noteq> []" "rune_len s = 0" | "s \<noteq> []" "rune_len s \<noteq> 0" by blast
  then show ?case
  proof cases
    case 1
    then show ?thesis by (simp add: to_valid_utf8.simps)
  next
    case 2
    with "1.IH"(1) show ?thesis
      by (subst to_valid_utf8.simps) (auto intro: valid_string_append valid_replacement)
  next
    case 3
    with "1.IH"(2) valid_string_rune [of s] show ?thesis
      by (subst to_valid_utf8.simps) (auto intro: valid_string_append)
  qed
qed

lemma valid_utf8_valid [simp]: "valid_string (valid_utf8 s)"
  by (simp add: valid_utf8_def to_valid_utf8_valid)

lemma valid_utf8_id: "valid_string s \<Longrightarrow> valid_utf8 s = s"
  by (simp add: valid_utf8_def)

lemma valid_utf8_idem [simp]: "valid_utf8 (valid_utf8 s) = valid_utf8 s"
  by (simp add: valid_utf8_id)

lemma valid_utf8_Nil [simp]: "valid_utf8 s = [] \<longleftrightarrow> s = []"
proof
  show "s = [] \<Longrightarrow> valid_utf8 s = []" by (simp add: valid_utf8_def)
  show "valid_utf8 s = [] \<Longrightarrow> s = []"
    by (auto simp: valid_utf8_def to_valid_utf8.simps [of False s] replacement_def split: if_splits)
qed

lemma rune_len_ascii: "byte c < 128 \<Longrightarrow> rune_len (c # cs) = 1"
  by (simp add: rune_len_def rune_ranges_def)

lemma valid_ascii: "list_all (\<lambda>c. byte c < 128) s \<Longrightarrow> valid_string s"
proof (induction s)
  case (Cons c cs)
  then show ?case by (subst valid_string.simps) (simp add: rune_len_ascii)
qed simp

text \<open>Valid text in front of a string is copied as it is.\<close>

lemma to_valid_utf8_append:
  "valid_string s \<Longrightarrow> to_valid_utf8 False (s @ t) = s @ to_valid_utf8 False t"
proof (induction s rule: valid_string.induct)
  case (1 s)
  show ?case
  proof (cases "s = []")
    case False
    with "1.prems" have n: "rune_len s \<noteq> 0" and rest: "valid_string (drop (rune_len s) s)"
      by (simp_all add: valid_string_rest)
    let ?n = "rune_len s"
    have len: "rune_len (s @ t) = ?n"
      using rune_len_take [OF n, of "drop ?n s @ t"]
      by (simp only: append_assoc [symmetric] append_take_drop_id)
    have "to_valid_utf8 False (s @ t) = take ?n s @ to_valid_utf8 False (drop ?n s @ t)"
      using False n rune_len_le [of s] len by (subst to_valid_utf8.simps) simp
    with "1.IH" [OF False n rest] show ?thesis
      by (metis append.assoc append_take_drop_id)
  qed simp
qed

text \<open>A repaired string contains a byte outside ASCII, so it never becomes an ASCII name.\<close>

lemma to_valid_utf8_mark: "\<not> valid_string s \<Longrightarrow> CHR 0xEF \<in> set (to_valid_utf8 False s)"
proof (induction s rule: valid_string.induct)
  case (1 s)
  consider "s = []" | "s \<noteq> []" "rune_len s = 0" | "s \<noteq> []" "rune_len s \<noteq> 0" by blast
  then show ?case
  proof cases
    case 1
    with "1.prems" show ?thesis by simp
  next
    case 2
    then show ?thesis by (subst to_valid_utf8.simps) (simp add: replacement_def)
  next
    case 3
    with "1.prems" have "\<not> valid_string (drop (rune_len s) s)" by (subst (asm) valid_string.simps) simp
    from "1.IH" [OF 3 this] 3 show ?thesis by (subst to_valid_utf8.simps) simp
  qed
qed

lemma valid_utf8_ascii:
  assumes "list_all (\<lambda>c. byte c < 128) n"
  shows "valid_utf8 s = n \<longleftrightarrow> s = n"
proof
  assume eq: "valid_utf8 s = n"
  show "s = n"
  proof (cases "valid_string s")
    case False
    with to_valid_utf8_mark eq have "CHR 0xEF \<in> set n" by (auto simp: valid_utf8_def)
    with assms show ?thesis by (auto simp: list_all_iff)
  qed (use eq in \<open>simp add: valid_utf8_def\<close>)
qed (simp add: valid_utf8_id valid_ascii assms)

end
