(* ===== verification/Telemetry.thy ===== *)
theory Telemetry
  imports GoErrors Utf8 Complex_Main
begin

text \<open>
  The telemetry data model (\<open>internal/telemetry/emitter.go\<close>), the emitter interface and the window
  buffer (\<open>internal/telemetry/buffer.go\<close>).

  The five methods of the Go interface \<open>Emitter\<close> are the five constructors of \<open>emission\<close>; an
  emitter is a function that consumes one emission, updates its state and may fail. The locale
  \<open>emitter\<close> states what every emitter of cf2otel promises. Values are immutable here, so the
  defensive copies of the code are identities. Float64 values are exact rationals: rounding, NaN
  and infinities are not modelled.
\<close>

type_synonym f64 = rat

record attr =
  key :: string
  val :: string

datatype attr_value = AString string | ABool bool | AOther string

record kv =
  kv_key :: string
  kv_value :: attr_value

text \<open>\<open>attrs\<close>: what reaches the SDK of a bag. Empty keys are dropped, keys and values repaired.\<close>

definition otel_attrs :: "attr list \<Rightarrow> attr list" where
  "otel_attrs as =
     map (\<lambda>a. \<lparr>key = valid_utf8 (key a), val = valid_utf8 (val a)\<rparr>) (filter (\<lambda>a. key a \<noteq> []) as)"

record link =
  link_context :: string
  link_attributes :: "kv list"

record span_event =
  ev_name :: string
  ev_at :: time
  ev_attrs :: "attr list"

record log_record =
  lr_name :: string
  lr_body :: string
  lr_at :: time
  lr_severity :: int
  lr_attrs :: "attr list"

record span_spec =
  sp_name :: string
  sp_start :: time
  sp_end :: time
  sp_kind :: int
  sp_links :: "link list"
  sp_events :: "span_event list"
  sp_logs :: "log_record list"
  sp_attrs :: "attr list"
  sp_error :: "gerr option"

datatype emission =
    EGauge string f64 "attr list"
  | ECounter string f64 "attr list"
  | EHistogram string f64 "attr list"
  | ELogEvent string string time int "attr list"
  | ESpan span_spec

type_synonym 's emit = "'s \<Rightarrow> emission \<Rightarrow> 's \<times> gerr option"

fun is_record :: "emission \<Rightarrow> bool" where
  "is_record (ELogEvent _ _ _ _ _) = True"
| "is_record (ESpan _) = True"
| "is_record _ = False"

abbreviation is_metric :: "emission \<Rightarrow> bool" where
  "is_metric e \<equiv> \<not> is_record e"

subsection \<open>The buffer\<close>

record buffered_record =
  br_event :: string
  br_body :: string
  br_at :: time
  br_severity :: int
  br_attrs :: "attr list"
  br_span :: "span_spec option"

record buffered_metric =
  bm_kind :: string
  bm_name :: string
  bm_value :: f64
  bm_attrs :: "attr list"

record buffer =
  records :: "buffered_record list"
  metrics :: "buffered_metric list"

definition empty_buffer :: buffer where
  "empty_buffer = \<lparr>records = [], metrics = []\<rparr>"

definition buffer_metric :: "string \<Rightarrow> string \<Rightarrow> f64 \<Rightarrow> attr list \<Rightarrow> buffer \<Rightarrow> buffer" where
  "buffer_metric kind n v a b =
     b\<lparr>metrics := metrics b @ [\<lparr>bm_kind = kind, bm_name = n, bm_value = v, bm_attrs = a\<rparr>]\<rparr>"

definition buffer_log_event ::
  "buffer \<Rightarrow> string \<Rightarrow> string \<Rightarrow> time \<Rightarrow> int \<Rightarrow> attr list \<Rightarrow> buffer \<times> gerr option" where
  "buffer_log_event b event body ts severity a =
     (if ts = 0 then (b, Some ErrMissingTimestamp)
      else (b\<lparr>records := records b @ [\<lparr>br_event = event, br_body = body, br_at = ts,
               br_severity = severity, br_attrs = a, br_span = None\<rparr>]\<rparr>, None))"

definition span_record :: "span_spec \<Rightarrow> buffered_record" where
  "span_record s = \<lparr>br_event = [], br_body = [], br_at = 0, br_severity = 0, br_attrs = [],
     br_span = Some s\<rparr>"

definition buffer_span :: "buffer \<Rightarrow> span_spec \<Rightarrow> buffer \<times> gerr option" where
  "buffer_span b s =
     (if sp_start s = 0 \<or> sp_end s = 0 then (b, Some ErrMissingTimestamp)
      else if sp_end s < sp_start s then (b, Some (ErrNew ''span end before start''))
      else if list_ex (\<lambda>r. lr_at r = 0) (sp_logs s) then (b, Some ErrMissingTimestamp)
      else (b\<lparr>records := records b @ [span_record s]\<rparr>, None))"

fun buffer_emit :: "buffer emit" where
  "buffer_emit b (EGauge n v a) = (buffer_metric ''gauge'' n v a b, None)"
| "buffer_emit b (ECounter n v a) = (buffer_metric ''counter'' n v a b, None)"
| "buffer_emit b (EHistogram n v a) = (buffer_metric ''histogram'' n v a b, None)"
| "buffer_emit b (ELogEvent event body ts severity a) = buffer_log_event b event body ts severity a"
| "buffer_emit b (ESpan s) = buffer_span b s"

definition attrs_bytes :: "attr list \<Rightarrow> int" where
  "attrs_bytes as = sum_list (map (\<lambda>a. int (length (key a)) + int (length (val a))) as)"

definition record_bytes :: "buffered_record \<Rightarrow> int" where
  "record_bytes r =
     int (length (br_event r)) + int (length (br_body r)) + 64 + attrs_bytes (br_attrs r)
     + (case br_span r of None \<Rightarrow> 0 | Some s \<Rightarrow>
          int (length (sp_name s)) + 64 + attrs_bytes (sp_attrs s)
          + sum_list (map (\<lambda>ev. int (length (ev_name ev)) + 64 + attrs_bytes (ev_attrs ev)) (sp_events s))
          + sum_list (map (\<lambda>l. int (length (lr_name l)) + int (length (lr_body l)) + 64
                              + attrs_bytes (lr_attrs l)) (sp_logs s)))"

definition buffer_bytes :: "buffer \<Rightarrow> int" where
  "buffer_bytes b = sum_list (map record_bytes (records b))"

definition record_emission :: "buffered_record \<Rightarrow> emission" where
  "record_emission r =
     (case br_span r of
        Some s \<Rightarrow> ESpan s
      | None \<Rightarrow> ELogEvent (br_event r) (br_body r) (br_at r) (br_severity r) (br_attrs r))"

definition metric_emission :: "buffered_metric \<Rightarrow> emission" where
  "metric_emission m =
     (if bm_kind m = ''gauge'' then EGauge (bm_name m) (bm_value m) (bm_attrs m)
      else if bm_kind m = ''counter'' then ECounter (bm_name m) (bm_value m) (bm_attrs m)
      else EHistogram (bm_name m) (bm_value m) (bm_attrs m))"

text \<open>Calls in sequence, stopping at the first error, as the loops of the code do.\<close>

fun emit_all :: "'s emit \<Rightarrow> 's \<Rightarrow> emission list \<Rightarrow> 's \<times> gerr option" where
  "emit_all emit s [] = (s, None)"
| "emit_all emit s (e # es) =
     (case emit s e of (s', Some r) \<Rightarrow> (s', Some r) | (s', None) \<Rightarrow> emit_all emit s' es)"

definition replay_into :: "'s emit \<Rightarrow> 's \<Rightarrow> buffer \<Rightarrow> 's \<times> gerr option" where
  "replay_into emit s b =
     (case emit_all emit s (map record_emission (records b)) of
        (s', Some e) \<Rightarrow> (s', Some e)
      | (s', None) \<Rightarrow> emit_all emit s' (map metric_emission (metrics b)))"

definition buffer_emissions :: "buffer \<Rightarrow> emission list" where
  "buffer_emissions b = map record_emission (records b) @ map metric_emission (metrics b)"

lemma emit_all_append:
  "emit_all emit s (xs @ ys) =
     (case emit_all emit s xs of (s', Some e) \<Rightarrow> (s', Some e) | (s', None) \<Rightarrow> emit_all emit s' ys)"
  by (induction xs arbitrary: s) (auto split: prod.splits option.splits)

lemma replay_into_all: "replay_into emit s b = emit_all emit s (buffer_emissions b)"
  by (simp add: replay_into_def buffer_emissions_def emit_all_append)

subsection \<open>The emitter interface\<close>

text \<open>
  \<open>recs\<close> and \<open>mets\<close> are what the emitter has accepted of each kind, in order; \<open>view\<close> is what it
  keeps of one emission (everything for a buffer, less for a filter).
\<close>

locale emitter =
  fixes emit :: "'s emit"
    and recs :: "'s \<Rightarrow> emission list"
    and mets :: "'s \<Rightarrow> emission list"
    and view :: "emission \<Rightarrow> emission list"
  assumes emit_recs: "emit s e = (s', None) \<Longrightarrow> recs s' = recs s @ filter is_record (view e)"
    and emit_mets: "emit s e = (s', None) \<Longrightarrow> mets s' = mets s @ filter (\<lambda>e. is_metric e) (view e)"
    and emit_failed: "emit s e = (s', Some r) \<Longrightarrow> recs s' = recs s \<and> mets s' = mets s"
begin

lemma emit_all_recs:
  "emit_all emit s es = (s', None) \<Longrightarrow>
   recs s' = recs s @ filter is_record (concat (map view es))"
  by (induction es arbitrary: s) (auto split: prod.splits option.splits dest: emit_recs)

lemma emit_all_mets:
  "emit_all emit s es = (s', None) \<Longrightarrow>
   mets s' = mets s @ filter (\<lambda>e. is_metric e) (concat (map view es))"
  by (induction es arbitrary: s) (auto split: prod.splits option.splits dest: emit_mets)

text \<open>A sequence of calls that fails has delivered a prefix of it.\<close>

lemma emit_all_failed:
  "emit_all emit s es = (s', Some r) \<Longrightarrow>
   \<exists>pre post. es = pre @ post \<and> post \<noteq> [] \<and>
     recs s' = recs s @ filter is_record (concat (map view pre)) \<and>
     mets s' = mets s @ filter (\<lambda>e. is_metric e) (concat (map view pre))"
proof (induction es arbitrary: s)
  case Nil
  then show ?case by simp
next
  case (Cons e es)
  obtain s1 r1 where e: "emit s e = (s1, r1)" by (cases "emit s e") auto
  show ?case
  proof (cases r1)
    case None
    with Cons.prems e have "emit_all emit s1 es = (s', Some r)" by simp
    from Cons.IH [OF this] obtain pre post where "es = pre @ post" "post \<noteq> []"
      "recs s' = recs s1 @ filter is_record (concat (map view pre))"
      "mets s' = mets s1 @ filter (\<lambda>e. is_metric e) (concat (map view pre))" by blast
    with emit_recs [OF e [unfolded None]] emit_mets [OF e [unfolded None]] show ?thesis
      by (intro exI [of _ "e # pre"] exI [of _ post]) simp
  next
    case (Some x)
    with Cons.prems e emit_failed [of s e s1 x] show ?thesis
      by (intro exI [of _ "[]"] exI [of _ "e # es"]) simp
  qed
qed

lemma replay_into_view:
  assumes "replay_into emit s b = (s', None)"
  shows "recs s' = recs s @ filter is_record (concat (map view (buffer_emissions b))) \<and>
    mets s' = mets s @ filter (\<lambda>e. is_metric e) (concat (map view (buffer_emissions b)))"
  using assms by (simp add: replay_into_all emit_all_recs emit_all_mets)

end

definition buffer_recs :: "buffer \<Rightarrow> emission list" where
  "buffer_recs b = map record_emission (records b)"

definition buffer_mets :: "buffer \<Rightarrow> emission list" where
  "buffer_mets b = map metric_emission (metrics b)"

lemma record_emission_simps [simp]:
  "is_record (record_emission r)" "\<not> is_record (metric_emission m)"
  "record_emission (span_record s) = ESpan s"
  by (auto simp: record_emission_def metric_emission_def span_record_def split: option.splits)

interpretation buf: emitter buffer_emit buffer_recs buffer_mets "\<lambda>e. [e]"
  by unfold_locales
    (auto elim!: buffer_emit.elims simp: buffer_metric_def buffer_recs_def buffer_mets_def
      buffer_log_event_def buffer_span_def record_emission_def metric_emission_def
      span_record_def split: if_splits)

lemma filter_records [simp]:
  "filter is_record (map record_emission rs) = map record_emission rs"
  "filter is_record (map metric_emission ms) = []"
  "filter (\<lambda>e. is_metric e) (map record_emission rs) = []"
  "filter (\<lambda>e. is_metric e) (map metric_emission ms) = map metric_emission ms"
  by (induction rs) simp_all


subsection \<open>Properties\<close>

text \<open>What the buffer accepts: records with a timestamp, spans that do not end before they start
  and whose log records all have a timestamp.\<close>

fun emission_ok :: "emission \<Rightarrow> bool" where
  "emission_ok (ELogEvent _ _ ts _ _) = (ts \<noteq> 0)"
| "emission_ok (ESpan s) = (sp_start s \<noteq> 0 \<and> sp_end s \<noteq> 0 \<and> sp_start s \<le> sp_end s \<and>
     list_all (\<lambda>r. lr_at r \<noteq> 0) (sp_logs s))"
| "emission_ok _ = True"

lemma buffer_emit_ok: "snd (buffer_emit b e) = None \<longleftrightarrow> emission_ok e"
  by (cases e) (auto simp: buffer_log_event_def buffer_span_def list_ex_iff list_all_iff not_less)

lemma buffer_emit_all_ok: "snd (emit_all buffer_emit b es) = None \<longleftrightarrow> list_all emission_ok es"
proof (induction es arbitrary: b)
  case Nil
  then show ?case by simp
next
  case (Cons e es)
  obtain b1 r where e: "buffer_emit b e = (b1, r)" by (cases "buffer_emit b e") auto
  with buffer_emit_ok [of b e] Cons.IH [of b1] show ?case by (cases r) auto
qed



end
