(* ===== verification/DenyFilter.thy ===== *)
theory DenyFilter
  imports Telemetry
begin

text \<open>
  The deny policy, \<open>internal/telemetry/filter.go\<close>: denied metrics and attributes are removed at the
  source boundary. A policy is two sets of exact names; no policy (\<open>None\<close>) leaves the emitter as
  it is. \<open>filtered_emit\<close> is the five methods of \<open>filteredEmitter\<close> over any emitter, \<open>deny_points\<close>
  and \<open>deny_snapshots\<close> are the snapshot variants.
\<close>

record deny_policy =
  dp_metrics :: "string list"
  dp_attributes :: "string list"

definition new_deny_policy :: "string list \<Rightarrow> string list \<Rightarrow> deny_policy option" where
  "new_deny_policy ms as =
     (if ms = [] \<and> as = [] then None
      else Some \<lparr>dp_metrics = remdups ms, dp_attributes = remdups as\<rparr>)"

definition deny_metric :: "deny_policy option \<Rightarrow> string \<Rightarrow> bool" where
  "deny_metric p name = (case p of None \<Rightarrow> False | Some q \<Rightarrow> List.member (dp_metrics q) name)"

definition deny_attribute :: "deny_policy option \<Rightarrow> string \<Rightarrow> bool" where
  "deny_attribute p name = (case p of None \<Rightarrow> False | Some q \<Rightarrow> List.member (dp_attributes q) name)"

definition attr_inferred :: string where
  "attr_inferred = ''cloudflare.access.identity.inferred''"

definition identity_keys :: "string list" where
  "identity_keys = [''cloudflare.access.user.email'', ''cloudflare.access.user.id'',
     ''cloudflare.access.user.ip_address'', ''cloudflare.access.identity.login_ray_id'']"

definition drop_attribute :: "deny_policy option \<Rightarrow> string \<Rightarrow> bool \<Rightarrow> bool" where
  "drop_attribute p k suppress_identity \<longleftrightarrow>
     deny_attribute p k \<or> (suppress_identity \<and> List.member identity_keys k)"

definition suppress_identity :: "deny_policy option \<Rightarrow> attr list \<Rightarrow> bool" where
  "suppress_identity p input \<longleftrightarrow>
     deny_attribute p attr_inferred \<and>
     list_ex (\<lambda>a. key a = attr_inferred \<and> val a = ''true'') input"

definition deny_attrs :: "deny_policy option \<Rightarrow> attr list \<Rightarrow> attr list" where
  "deny_attrs p input =
     (case p of
        None \<Rightarrow> input
      | Some q \<Rightarrow>
          if dp_attributes q = [] then input
          else filter (\<lambda>a. \<not> drop_attribute p (key a) (suppress_identity p input)) input)"

definition link_suppress :: "deny_policy option \<Rightarrow> kv list \<Rightarrow> bool" where
  "link_suppress p input \<longleftrightarrow>
     deny_attribute p attr_inferred \<and>
     list_ex (\<lambda>a. kv_key a = attr_inferred \<and>
       (kv_value a = ABool True \<or> kv_value a = AString ''true'')) input"

definition deny_link_attrs :: "deny_policy option \<Rightarrow> kv list \<Rightarrow> kv list" where
  "deny_link_attrs p input =
     filter (\<lambda>a. \<not> drop_attribute p (kv_key a) (link_suppress p input)) input"

definition deny_span :: "deny_policy \<Rightarrow> span_spec \<Rightarrow> span_spec" where
  "deny_span q s =
     (if dp_attributes q = [] then s
      else s\<lparr>sp_attrs := deny_attrs (Some q) (sp_attrs s),
             sp_events := map (\<lambda>ev. ev\<lparr>ev_attrs := deny_attrs (Some q) (ev_attrs ev)\<rparr>) (sp_events s),
             sp_logs := map (\<lambda>l. l\<lparr>lr_attrs := deny_attrs (Some q) (lr_attrs l)\<rparr>) (sp_logs s),
             sp_links := map (\<lambda>l. l\<lparr>link_attributes := deny_link_attrs (Some q) (link_attributes l)\<rparr>)
               (sp_links s)\<rparr>)"

text \<open>\<open>filteredEmitter\<close>: a denied metric is accepted and goes nowhere.\<close>

fun filtered_emit :: "deny_policy \<Rightarrow> 's emit \<Rightarrow> 's emit" where
  "filtered_emit q emit s (EGauge n v a) =
     (if deny_metric (Some q) n then (s, None) else emit s (EGauge n v (deny_attrs (Some q) a)))"
| "filtered_emit q emit s (ECounter n v a) =
     (if deny_metric (Some q) n then (s, None) else emit s (ECounter n v (deny_attrs (Some q) a)))"
| "filtered_emit q emit s (EHistogram n v a) =
     (if deny_metric (Some q) n then (s, None) else emit s (EHistogram n v (deny_attrs (Some q) a)))"
| "filtered_emit q emit s (ELogEvent n body ts severity a) =
     emit s (ELogEvent n body ts severity (deny_attrs (Some q) a))"
| "filtered_emit q emit s (ESpan sp) = emit s (ESpan (deny_span q sp))"

text \<open>\<open>FilterEmitter\<close>: an empty policy returns the emitter itself.\<close>

definition filter_emitter :: "'s emit \<Rightarrow> string list \<Rightarrow> string list \<Rightarrow> 's emit" where
  "filter_emitter emit ms as =
     (case new_deny_policy ms as of None \<Rightarrow> emit | Some q \<Rightarrow> filtered_emit q emit)"

subsection \<open>Gauge snapshots\<close>

record gauge_point =
  gp_value :: f64
  gp_attrs :: "attr list"

text \<open>The SDK's attribute set of a bag: the keys that reach it, each with its last value. Two bags
  are the same series when their sets are equal.\<close>

definition series_key :: "attr list \<Rightarrow> (string \<times> string) list" where
  "series_key as =
     (let kvs = otel_attrs as;
          ks = sort (remdups (map key kvs));
          lookup = (\<lambda>k. map_of (rev (map (\<lambda>a. (key a, val a)) kvs)) k)
      in map (\<lambda>k. (k, the (lookup k))) ks)"

text \<open>The reverse traversal of \<open>points\<close>, keeping the first point of each series it meets.\<close>

fun collapse :: "(string \<times> string) list list \<Rightarrow> gauge_point list \<Rightarrow> gauge_point list" where
  "collapse seen [] = []"
| "collapse seen (p # ps) =
     (if List.member seen (series_key (gp_attrs p)) then collapse seen ps
      else p # collapse (series_key (gp_attrs p) # seen) ps)"

definition deny_points :: "deny_policy option \<Rightarrow> gauge_point list \<Rightarrow> gauge_point list" where
  "deny_points p input =
     rev (collapse [] (rev (map (\<lambda>x. x\<lparr>gp_attrs := deny_attrs p (gp_attrs x)\<rparr>) input)))"

definition deny_snapshots ::
  "deny_policy option \<Rightarrow> (string \<times> gauge_point list) list \<Rightarrow> (string \<times> gauge_point list) list" where
  "deny_snapshots p input =
     map (\<lambda>(n, ps). (n, deny_points p ps)) (filter (\<lambda>(n, ps). \<not> deny_metric p n) input)"

subsection \<open>Lemmas\<close>

text \<open>The names of an emission and of everything nested in it.\<close>

fun emission_bags :: "emission \<Rightarrow> string list list" where
  "emission_bags (EGauge n v a) = [map key a]"
| "emission_bags (ECounter n v a) = [map key a]"
| "emission_bags (EHistogram n v a) = [map key a]"
| "emission_bags (ELogEvent n b t s a) = [map key a]"
| "emission_bags (ESpan s) =
     map key (sp_attrs s) # map (\<lambda>e. map key (ev_attrs e)) (sp_events s)
     @ map (\<lambda>l. map key (lr_attrs l)) (sp_logs s)
     @ map (\<lambda>l. map kv_key (link_attributes l)) (sp_links s)"

fun metric_name :: "emission \<Rightarrow> string option" where
  "metric_name (EGauge n v a) = Some n"
| "metric_name (ECounter n v a) = Some n"
| "metric_name (EHistogram n v a) = Some n"
| "metric_name _ = None"

fun deny_emission :: "deny_policy \<Rightarrow> emission \<Rightarrow> emission" where
  "deny_emission q (EGauge n v a) = EGauge n v (deny_attrs (Some q) a)"
| "deny_emission q (ECounter n v a) = ECounter n v (deny_attrs (Some q) a)"
| "deny_emission q (EHistogram n v a) = EHistogram n v (deny_attrs (Some q) a)"
| "deny_emission q (ELogEvent n b t s a) = ELogEvent n b t s (deny_attrs (Some q) a)"
| "deny_emission q (ESpan s) = ESpan (deny_span q s)"

text \<open>What a filtered emitter lets through of one emission.\<close>

definition deny_view :: "deny_policy \<Rightarrow> emission \<Rightarrow> emission list" where
  "deny_view q e =
     (case metric_name e of
        Some n \<Rightarrow> if deny_metric (Some q) n then [] else [deny_emission q e]
      | None \<Rightarrow> [deny_emission q e])"

lemma filtered_emit_view:
  "filtered_emit q emit s e = (case deny_view q e of [] \<Rightarrow> (s, None) | e' # _ \<Rightarrow> emit s e')"
  by (cases e) (simp_all add: deny_view_def)

lemma is_record_deny [simp]: "is_record (deny_emission q e) = is_record e"
  by (cases e) simp_all

lemma deny_attrs_subseq: "subseq (deny_attrs p as) as"
  by (auto simp: deny_attrs_def subseq_filter_left split: option.splits)

lemma deny_attrs_denied: "deny_attribute p k \<Longrightarrow> k \<notin> key ` set (deny_attrs p as)"
  by (auto simp: deny_attrs_def deny_attribute_def drop_attribute_def split: option.splits if_splits)

lemma deny_link_attrs_denied: "deny_attribute p k \<Longrightarrow> k \<notin> kv_key ` set (deny_link_attrs p as)"
  by (auto simp: deny_link_attrs_def drop_attribute_def)

lemma no_denied_key:
  "deny_attribute (Some q) k \<Longrightarrow> bag \<in> set (emission_bags (deny_emission q e)) \<Longrightarrow> k \<notin> set bag"
  using deny_attrs_denied [of "Some q" k] deny_link_attrs_denied [of "Some q" k]
  by (cases e) (auto simp: deny_span_def deny_attribute_def split: if_splits)

context emitter
begin

lemma filtered_emitter_view:
  "emitter (filtered_emit q emit) recs mets (\<lambda>e. concat (map view (deny_view q e)))"
proof
  fix s e s'
  assume run: "filtered_emit q emit s e = (s', None)"
  show "recs s' = recs s @ filter is_record (concat (map view (deny_view q e)))"
    using run emit_recs
    by (auto simp: filtered_emit_view deny_view_def split: option.splits if_splits)
  show "mets s' = mets s @ filter (\<lambda>e. is_metric e) (concat (map view (deny_view q e)))"
    using run emit_mets
    by (auto simp: filtered_emit_view deny_view_def split: option.splits if_splits)
next
  fix s e s' r
  assume "filtered_emit q emit s e = (s', Some r)"
  then show "recs s' = recs s \<and> mets s' = mets s"
    using emit_failed by (auto simp: filtered_emit_view split: list.splits)
qed

text \<open>Filtering any emitter gives an emitter, which keeps the filtered view.\<close>

lemma filtered_emitter:
  assumes one: "\<And>e. view e = [e]"
  shows "emitter (filtered_emit q emit) recs mets (deny_view q)"
proof -
  have "concat (map view es) = es" for es by (induction es) (simp_all add: one)
  with filtered_emitter_view [of q] show ?thesis by (simp cong: map_cong)
qed

end

interpretation fbuf: emitter "filtered_emit q buffer_emit" buffer_recs buffer_mets "deny_view q" for q
  by (rule buf.filtered_emitter) simp


lemma attr_eq_iff: "key a = k \<and> val a = v \<longleftrightarrow> (a :: attr) = \<lparr>key = k, val = v\<rparr>"
  by (cases a) auto

lemma identity_suppressed:
  assumes "deny_attribute p attr_inferred" "\<lparr>key = attr_inferred, val = ''true''\<rparr> \<in> set as"
  shows "set identity_keys \<inter> key ` set (deny_attrs p as) = {}"
proof -
  have "suppress_identity p as"
    unfolding suppress_identity_def list_ex_iff attr_eq_iff using assms by blast
  then show ?thesis using assms(1)
    by (auto simp: deny_attrs_def drop_attribute_def deny_attribute_def split: option.splits if_splits)
qed

lemma deny_view_clean:
  assumes "e' \<in> set (deny_view q e)"
  shows "(\<forall>n. metric_name e' = Some n \<longrightarrow> \<not> deny_metric (Some q) n) \<and>
    (\<forall>bag \<in> set (emission_bags e'). \<forall>k \<in> set bag. \<not> deny_attribute (Some q) k)"
proof -
  from assms have e': "e' = deny_emission q e"
    by (auto simp: deny_view_def split: option.splits if_splits)
  have "metric_name e' = metric_name e" by (cases e) (simp_all add: e')
  with assms have "\<forall>n. metric_name e' = Some n \<longrightarrow> \<not> deny_metric (Some q) n"
    by (auto simp: deny_view_def split: if_splits)
  with e' no_denied_key show ?thesis by blast
qed

abbreviation point_series :: "gauge_point \<Rightarrow> (string \<times> string) list" where
  "point_series x \<equiv> series_key (gp_attrs x)"

lemma collapse_filter:
  "filter (\<lambda>x. point_series x = k) (collapse seen ps) =
     (if k \<in> set seen then [] else take 1 (filter (\<lambda>x. point_series x = k) ps))"
  by (induction ps arbitrary: seen) auto

lemma collapse_subseq: "subseq (collapse seen ps) ps"
  by (induction ps arbitrary: seen) auto

lemma subseq_rev: "subseq xs ys \<Longrightarrow> subseq (rev xs) (rev ys)"
  by (induction rule: list_emb.induct) (auto intro: list_emb_append_mono list_emb_append2)

lemma collapse_distinct:
  "distinct (map point_series (collapse seen ps)) \<and>
   set (map point_series (collapse seen ps)) \<inter> set seen = {}"
proof (induction ps arbitrary: seen)
  case Nil
  then show ?case by simp
next
  case (Cons p ps)
  show ?case
    using Cons.IH [of seen] Cons.IH [of "point_series p # seen"]
    by (cases "point_series p \<in> set seen") auto
qed

subsection \<open>Properties\<close>

text \<open>C20. No denied name leaves the process through a filtered emitter: whatever is emitted, no accepted
  emission carries a denied metric name or, in any attribute bag of it (of the metric, the log
  record, the span, its events, logs and links), a denied attribute; and what is accepted is
  exactly the filtered emissions, in order within each kind.\<close>

theorem filter_no_leak:
  assumes "emit_all (filter_emitter buffer_emit ms as) empty_buffer es = (b, None)"
    and "new_deny_policy ms as = Some q"
  shows "(\<forall>e \<in> set (buffer_emissions b).
      (\<forall>n. metric_name e = Some n \<longrightarrow> n \<notin> set ms) \<and>
      (\<forall>bag \<in> set (emission_bags e). set bag \<inter> set as = {})) \<and>
    buffer_recs b = filter is_record (concat (map (deny_view q) es)) \<and>
    buffer_mets b = filter (\<lambda>e. is_metric e) (concat (map (deny_view q) es))"
proof -
  from assms have run: "emit_all (filtered_emit q buffer_emit) empty_buffer es = (b, None)"
    by (simp add: filter_emitter_def)
  have recs: "buffer_recs b = filter is_record (concat (map (deny_view q) es))"
    using fbuf.emit_all_recs [OF run] by (simp add: buffer_recs_def empty_buffer_def)
  have mets: "buffer_mets b = filter (\<lambda>e. is_metric e) (concat (map (deny_view q) es))"
    using fbuf.emit_all_mets [OF run] by (simp add: buffer_mets_def empty_buffer_def)
  have q: "dp_metrics q = remdups ms" "dp_attributes q = remdups as"
    using assms(2) by (auto simp: new_deny_policy_def split: if_splits)
  have from_view: "\<exists>e0. e \<in> set (deny_view q e0)" if "e \<in> set (buffer_emissions b)" for e
  proof -
    from that have "e \<in> set (buffer_recs b) \<or> e \<in> set (buffer_mets b)"
      by (auto simp: buffer_emissions_def buffer_recs_def buffer_mets_def)
    then show ?thesis unfolding recs mets by auto
  qed
  have "(\<forall>n. metric_name e = Some n \<longrightarrow> n \<notin> set ms) \<and>
      (\<forall>bag \<in> set (emission_bags e). set bag \<inter> set as = {})"
    if e: "e \<in> set (buffer_emissions b)" for e
  proof -
    obtain e0 where "e \<in> set (deny_view q e0)" using from_view [OF e] by blast
    from deny_view_clean [OF this] q show ?thesis
      by (auto simp: deny_metric_def deny_attribute_def)
  qed
  with recs mets show ?thesis by blast
qed

theorem filter_no_leak_witness:
  "(''secret'' :: string) \<notin> set (concat (concat (map emission_bags (buffer_emissions
      (fst (emit_all (filter_emitter buffer_emit [''m''] [''secret'']) empty_buffer
        [EGauge ''m'' 1 [],
         EGauge ''n'' 2 [\<lparr>key = ''secret'', val = ''x''\<rparr>, \<lparr>key = ''zone'', val = ''y''\<rparr>]]))))))"
proof -
  let ?es = "[EGauge ''m'' 1 [],
    EGauge ''n'' 2 [\<lparr>key = ''secret'', val = ''x''\<rparr>, \<lparr>key = ''zone'', val = ''y''\<rparr>]]"
  let ?q = "\<lparr>dp_metrics = [''m''], dp_attributes = [''secret'']\<rparr>"
  have q: "new_deny_policy [''m''] [''secret''] = Some ?q" by (simp add: new_deny_policy_def)
  obtain b where run: "emit_all (filter_emitter buffer_emit [''m''] [''secret'']) empty_buffer ?es
      = (b, None)"
    by (simp add: filter_emitter_def q deny_metric_def)
  from filter_no_leak [OF run q] run show ?thesis by fastforce
qed

text \<open>Dropping the inference qualifier also drops what it qualifies: when the policy denies
  \<open>cloudflare.access.identity.inferred\<close>, a bag that marks its identity as inferred loses the
  qualifier and all four identity attributes; a bag that does not mark it keeps every
  attribute that is not denied, in order.\<close>

theorem deny_inferred_identity:
  assumes "deny_attribute p attr_inferred"
  shows "(\<lparr>key = attr_inferred, val = ''true''\<rparr> \<in> set as \<longrightarrow>
      key ` set (deny_attrs p as) \<inter> (insert attr_inferred (set identity_keys)) = {}) \<and>
    (\<lparr>key = attr_inferred, val = ''true''\<rparr> \<notin> set as \<longrightarrow>
      deny_attrs p as = filter (\<lambda>a. \<not> deny_attribute p (key a)) as)"
proof (intro conjI impI)
  assume "\<lparr>key = attr_inferred, val = ''true''\<rparr> \<in> set as"
  with identity_suppressed [OF assms this] deny_attrs_denied [OF assms, of as]
  show "key ` set (deny_attrs p as) \<inter> (insert attr_inferred (set identity_keys)) = {}"
    by (simp only: Int_insert_left if_False Int_commute)
next
  assume unmarked: "\<lparr>key = attr_inferred, val = ''true''\<rparr> \<notin> set as"
  have "\<not> suppress_identity p as"
    unfolding suppress_identity_def list_ex_iff attr_eq_iff using unmarked by blast
  then have "drop_attribute p k (suppress_identity p as) = deny_attribute p k" for k
    by (simp add: drop_attribute_def)
  with assms show "deny_attrs p as = filter (\<lambda>a. \<not> deny_attribute p (key a)) as"
    by (cases p) (auto simp: deny_attrs_def deny_attribute_def)
qed

theorem deny_inferred_identity_witness:
  "deny_attrs (new_deny_policy [] [attr_inferred])
     [\<lparr>key = attr_inferred, val = ''false''\<rparr>,
      \<lparr>key = ''cloudflare.access.user.email'', val = ''a@b''\<rparr>]
   = [\<lparr>key = ''cloudflare.access.user.email'', val = ''a@b''\<rparr>]"
proof -
  let ?p = "new_deny_policy [] [attr_inferred]"
  have p: "deny_attribute ?p attr_inferred" by (simp add: new_deny_policy_def deny_attribute_def)
  from deny_inferred_identity [OF p, of "[\<lparr>key = attr_inferred, val = ''false''\<rparr>,
      \<lparr>key = ''cloudflare.access.user.email'', val = ''a@b''\<rparr>]"]
  show ?thesis by (simp add: new_deny_policy_def deny_attribute_def attr_inferred_def)
qed

text \<open>When removing attributes makes snapshot points collide, each series keeps exactly its last
  input point and the survivors keep their input order: the result has one point per series,
  is a subsequence of the stripped input, and the point of every series is the last one.\<close>

theorem deny_points_last_wins:
  defines "stripped p input \<equiv> map (\<lambda>x. x\<lparr>gp_attrs := deny_attrs p (gp_attrs x)\<rparr>) input"
  shows "distinct (map point_series (deny_points p input)) \<and>
    subseq (deny_points p input) (stripped p input) \<and>
    (\<forall>k. let same = filter (\<lambda>x. point_series x = k) (stripped p input) in
      filter (\<lambda>x. point_series x = k) (deny_points p input) = (if same = [] then [] else [last same]))"
proof -
  let ?r = "rev (stripped p input)"
  have out: "deny_points p input = rev (collapse [] ?r)"
    by (simp add: deny_points_def stripped_def)
  have "distinct (map point_series (deny_points p input))"
    using collapse_distinct [of "[]" ?r] by (simp add: out rev_map [symmetric])
  moreover have "subseq (deny_points p input) (stripped p input)"
    using collapse_subseq [of "[]" ?r] unfolding out by (metis rev_rev_ident subseq_rev)
  moreover have "filter (\<lambda>x. point_series x = k) (deny_points p input) =
      (let same = filter (\<lambda>x. point_series x = k) (stripped p input) in
       if same = [] then [] else [last same])" for k
  proof -
    have "take 1 (rev same) = (if same = [] then [] else [last same])" for same :: "gauge_point list"
      by (cases same rule: rev_cases) simp_all
    then show ?thesis by (simp add: out rev_filter [symmetric] collapse_filter Let_def)
  qed
  ultimately show ?thesis by (simp add: Let_def)
qed

end
