(* ===== verification/ExportObserver.thy ===== *)
theory ExportObserver
  imports GoErrors "HOL-Library.Word"
begin

text \<open>
  Export outcomes, \<open>internal/telemetry/export_observer.go\<close> and the flush of
  \<open>internal/telemetry/provider.go\<close>. The observer numbers every failed export of a required signal
  (logs, traces; metrics are best effort) with a 64-bit sequence and remembers the last 1024, so a
  commit can ask what failed since it began. \<open>safe_export_error\<close> replaces exporter errors, whose text
  may quote captured requests, by a fixed vocabulary.
\<close>

record observed_failure =
  of_seq :: "64 word"
  of_signal :: string
  of_err :: gerr

record export_observer =
  eo_seq :: "64 word"
  eo_failures :: "observed_failure list"

definition max_observed_failures :: nat where
  "max_observed_failures = 1024"

definition new_observer :: export_observer where
  "new_observer = \<lparr>eo_seq = 0, eo_failures = []\<rparr>"

definition observer_record ::
  "string \<Rightarrow> gerr option \<Rightarrow> export_observer \<Rightarrow> export_observer" where
  "observer_record signal err o' =
     (case err of
        None \<Rightarrow> o'
      | Some e \<Rightarrow>
          if signal = ''metrics'' then o'
          else
            (let n = eo_seq o' + 1;
                 fs = eo_failures o' @ [\<lparr>of_seq = n, of_signal = signal, of_err = e\<rparr>];
                 fs = (if length fs > max_observed_failures
                       then drop (length fs - max_observed_failures) fs else fs)
             in o'\<lparr>eo_seq := n, eo_failures := fs\<rparr>))"

definition observer_snapshot :: "export_observer \<Rightarrow> 64 word" where
  "observer_snapshot o' = eo_seq o'"

definition failed_since :: "64 word \<Rightarrow> export_observer \<Rightarrow> gerr option" where
  "failed_since seq o' =
     (if eo_seq o' \<noteq> seq then
        errors_join
          (Some (ErrNew ''background OTLP export failed'')
           # (if eo_failures o' = [] \<or> seq + 1 < of_seq (hd (eo_failures o'))
              then [Some (ErrNew ''prior export failures omitted'')] else [])
           @ map (\<lambda>f. Some (ExportFailure (of_signal f) (of_err f)))
               (filter (\<lambda>f. of_seq f > seq) (eo_failures o')))
      else None)"

text \<open>\<open>FlushCommit\<close>: both source pipelines are flushed, and every failure is joined with what
  failed in the background since the commit began.\<close>

definition flush_commit ::
  "gerr option \<Rightarrow> gerr option \<Rightarrow> 64 word \<Rightarrow> export_observer \<Rightarrow> gerr option" where
  "flush_commit log_err trace_err since o' =
     errors_join
       ((case log_err of Some e \<Rightarrow> [Some (ExportFailure ''logs'' e)] | None \<Rightarrow> [])
        @ (case trace_err of Some e \<Rightarrow> [Some (ExportFailure ''traces'' e)] | None \<Rightarrow> [])
        @ (case failed_since since o' of Some e \<Rightarrow> [Some e] | None \<Rightarrow> []))"

subsection \<open>Failed signals of an error tree\<close>

fun export_failure_signal :: "gerr \<Rightarrow> string option" where
  "export_failure_signal (ExportFailure s e) = Some s"
| "export_failure_signal _ = None"

function signal_visit :: "gerr \<Rightarrow> string list" where
  "signal_visit e =
     (case errors_as export_failure_signal e of Some s \<Rightarrow> [s] | None \<Rightarrow> [])
     @ concat (map signal_visit (err_unwrap e))"
  by pat_completeness auto
termination
  by (relation "measure size") (auto dest: err_size_unwrap)

declare signal_visit.simps [simp del]

definition failure_signals :: "gerr option \<Rightarrow> string" where
  "failure_signals err =
     (let found = (case err of None \<Rightarrow> [] | Some e \<Rightarrow> signal_visit e)
      in if found = [] then ''unknown'' else str_join '','' (sort (remdups found)))"

subsection \<open>Sanitised export errors\<close>

text \<open>\<open>http.StatusText\<close> of the codes 100 to 599 that have one.\<close>

definition status_texts :: "(int \<times> string) list" where
  "status_texts =
    [(100, ''Continue''), (101, ''Switching Protocols''), (102, ''Processing''), (103, ''Early Hints''),
     (200, ''OK''), (201, ''Created''), (202, ''Accepted''), (203, ''Non-Authoritative Information''),
     (204, ''No Content''), (205, ''Reset Content''), (206, ''Partial Content''),
     (207, ''Multi-Status''), (208, ''Already Reported''), (226, ''IM Used''),
     (300, ''Multiple Choices''), (301, ''Moved Permanently''), (302, ''Found''), (303, ''See Other''),
     (304, ''Not Modified''), (305, ''Use Proxy''), (307, ''Temporary Redirect''),
     (308, ''Permanent Redirect''),
     (400, ''Bad Request''), (401, ''Unauthorized''), (402, ''Payment Required''), (403, ''Forbidden''),
     (404, ''Not Found''), (405, ''Method Not Allowed''), (406, ''Not Acceptable''),
     (407, ''Proxy Authentication Required''), (408, ''Request Timeout''), (409, ''Conflict''),
     (410, ''Gone''), (411, ''Length Required''), (412, ''Precondition Failed''),
     (413, ''Request Entity Too Large''), (414, ''Request URI Too Long''),
     (415, ''Unsupported Media Type''), (416, ''Requested Range Not Satisfiable''),
     (417, ''Expectation Failed''), (418, [CHR ''I'', CHR 0x27] @ ''m a teapot''),
     (421, ''Misdirected Request''), (422, ''Unprocessable Entity''), (423, ''Locked''),
     (424, ''Failed Dependency''), (425, ''Too Early''), (426, ''Upgrade Required''),
     (428, ''Precondition Required''), (429, ''Too Many Requests''),
     (431, ''Request Header Fields Too Large''), (451, ''Unavailable For Legal Reasons''),
     (500, ''Internal Server Error''), (501, ''Not Implemented''), (502, ''Bad Gateway''),
     (503, ''Service Unavailable''), (504, ''Gateway Timeout''), (505, ''HTTP Version Not Supported''),
     (506, ''Variant Also Negotiates''), (507, ''Insufficient Storage''), (508, ''Loop Detected''),
     (510, ''Not Extended''), (511, ''Network Authentication Required'')]"

definition status_line :: "string \<Rightarrow> string" where
  "status_line s = fst (str_cut ''(body:'' s)"

definition safe_status :: "int \<Rightarrow> string \<Rightarrow> gerr" where
  "safe_status code name = ErrNew (''OTLP export: '' @ itoa code @ '' '' @ name @ '' (response omitted)'')"

definition safe_export_error :: "gerr option \<Rightarrow> gerr option" where
  "safe_export_error err =
     (case err of
        None \<Rightarrow> None
      | Some e \<Rightarrow>
          (let line = status_line (err_text e)
           in case find (\<lambda>(code, name). str_contains ('': '' @ itoa code @ '' '' @ name) line) status_texts of
                Some (code, name) \<Rightarrow> Some (safe_status code name)
              | None \<Rightarrow>
                  if str_contains ''OTLP partial success:'' line
                  then Some (ErrNew ''OTLP partial success: rejected records (message omitted)'')
                  else if str_contains ''invalid UTF-8'' line
                  then Some (ErrNew ''OTLP export: protobuf marshal rejected invalid UTF-8 (value omitted)'')
                  else if errors_is e ErrDeadlineExceeded then Some ErrDeadlineExceeded
                  else if errors_is e ErrCanceled then Some ErrCanceled
                  else Some (ErrNew ''OTLP export failed (details omitted)'')))"

text \<open>The exporters wrapped by the observer: the wrapped exporter's outcome is sanitised, recorded
  under the signal's name and returned.\<close>

definition observed_export ::
  "string \<Rightarrow> gerr option \<Rightarrow> export_observer \<Rightarrow> export_observer \<times> gerr option" where
  "observed_export signal outcome o' =
     (let err = safe_export_error outcome in (observer_record signal err o', err))"

subsection \<open>Lemmas\<close>

fun observer_record_all ::
  "(string \<times> gerr option) list \<Rightarrow> export_observer \<Rightarrow> export_observer" where
  "observer_record_all [] o' = o'"
| "observer_record_all ((s, e) # rs) o' = observer_record_all rs (observer_record s e o')"

text \<open>The failures among the outcomes that the observer counts.\<close>

fun required_failures :: "(string \<times> gerr option) list \<Rightarrow> (string \<times> gerr) list" where
  "required_failures [] = []"
| "required_failures ((s, None) # rs) = required_failures rs"
| "required_failures ((s, Some e) # rs) =
     (if s = ''metrics'' then required_failures rs else (s, e) # required_failures rs)"

text \<open>The observer's memory: the last failures, at most 1024, consecutively numbered up to the
  current sequence. \<open>hist\<close> is the whole history.\<close>

definition observer_inv :: "(string \<times> gerr) list \<Rightarrow> export_observer \<Rightarrow> bool" where
  "observer_inv hist o' \<longleftrightarrow>
     length hist < 2 ^ 64 \<and> eo_seq o' = of_nat (length hist) \<and>
     eo_failures o' =
       (let k = length hist - max_observed_failures
        in map (\<lambda>(i, (s, e)). \<lparr>of_seq = of_nat (Suc i), of_signal = s, of_err = e\<rparr>)
             (drop k (enumerate 0 hist)))"

lemma observer_inv_new: "observer_inv [] new_observer"
  by (simp add: observer_inv_def new_observer_def)

lemma observer_inv_record:
  assumes "observer_inv hist o'" "length hist + 1 < 2 ^ 64"
  shows "observer_inv (hist @ required_failures [(s, e)]) (observer_record s e o')"
proof (cases "e = None \<or> s = ''metrics''")
  case True
  with assms show ?thesis by (auto simp: observer_record_def split: option.splits)
next
  case False
  then obtain x where x: "e = Some x" "s \<noteq> ''metrics''" by auto
  let ?m = "max_observed_failures"
  have en: "enumerate 0 (hist @ [(s, x)]) = enumerate 0 hist @ [(length hist, (s, x))]"
    by (simp add: enumerate_append_eq)
  show ?thesis
  proof (cases "length hist < ?m")
    case True
    with assms x en show ?thesis
      by (simp add: observer_record_def observer_inv_def Let_def)
  next
    case False
    then have "length hist + 1 - ?m = Suc (length hist - ?m)" by simp
    with assms x en False show ?thesis
      by (simp add: observer_record_def observer_inv_def Let_def drop_map [symmetric] drop_Suc
          max_observed_failures_def tl_drop [symmetric] tl_append split: list.splits)
  qed
qed


lemma required_failures_append:
  "required_failures (xs @ ys) = required_failures xs @ required_failures ys"
  by (induction xs rule: required_failures.induct) auto

lemma required_failures_length: "length (required_failures rs) \<le> length rs"
  by (induction rs rule: required_failures.induct) auto

lemma observer_inv_record_all:
  "observer_inv hist o' \<Longrightarrow> length hist + length rs < 2 ^ 64 \<Longrightarrow>
   observer_inv (hist @ required_failures rs) (observer_record_all rs o')"
proof (induction rs arbitrary: hist o')
  case Nil
  then show ?case by simp
next
  case (Cons r rs)
  obtain s e where r: "r = (s, e)" by (cases r) auto
  have len: "length (required_failures [(s, e)]) \<le> 1"
    using required_failures_length [of "[(s, e)]"] by simp
  from Cons.prems have "observer_inv (hist @ required_failures [(s, e)]) (observer_record s e o')"
    by (intro observer_inv_record) simp_all
  from Cons.IH [OF this] Cons.prems len
  show ?case
    using required_failures_append [of "[(s, e)]" rs] by (simp add: r)
qed

lemma filter_enumerate:
  "filter (\<lambda>ix. n \<le> fst ix) (enumerate k xs) = enumerate (max n k) (drop (n - k) xs)"
proof (induction xs arbitrary: k)
  case Nil
  then show ?case by simp
next
  case (Cons x xs)
  show ?case
  proof (cases "n \<le> k")
    case True
    with Cons.IH [of "Suc k"] show ?thesis by (simp add: max_def)
  next
    case False
    then have "n - k = Suc (n - Suc k)" "max n k = max n (Suc k)" by auto
    with False Cons.IH [of "Suc k"] show ?thesis by simp
  qed
qed

lemma drop_enumerate: "drop k (enumerate n xs) = enumerate (n + k) (drop k xs)"
  by (induction xs arbitrary: k n) (auto simp: drop_Cons split: nat.splits)

lemma of_nat_word_less:
  "a < 2 ^ 64 \<Longrightarrow> b < 2 ^ 64 \<Longrightarrow> (of_nat a :: 64 word) < of_nat b \<longleftrightarrow> a < b"
  by (simp add: word_less_nat_alt unat_of_nat take_bit_nat_eq_self)

lemma of_nat_word_eq:
  "a < 2 ^ 64 \<Longrightarrow> b < 2 ^ 64 \<Longrightarrow> (of_nat a :: 64 word) = of_nat b \<longleftrightarrow> a = b"
  by (metis of_nat_word_less linorder_neq_iff order_less_irrefl)

lemma map_filter_Some [simp]: "List.map_filter id (map (\<lambda>x. Some (f x)) xs) = map f xs"
  by (induction xs) (simp_all add: List.map_filter_simps)

lemma errors_join_Some: "errors_join (map (\<lambda>x. Some (f x)) xs) =
    (if xs = [] then None else Some (ErrJoin (map f xs)))"
  by (cases xs) (simp_all add: errors_join_def List.map_filter_simps)

lemma newer_failures:
  assumes "observer_inv (hist @ fails) o'"
  shows "map (\<lambda>f. (of_signal f, of_err f)) (filter (\<lambda>f. of_seq f > of_nat (length hist)) (eo_failures o'))
    = drop (length fails - max_observed_failures) fails"
proof -
  let ?n = "length hist" and ?all = "hist @ fails"
  let ?k = "length ?all - max_observed_failures"
  let ?f = "\<lambda>(i, (s, e)). \<lparr>of_seq = of_nat (Suc i), of_signal = s, of_err = e\<rparr>"
  have bound: "length ?all < 2 ^ 64" using assms by (simp add: observer_inv_def)
  have fs: "eo_failures o' = map ?f (enumerate ?k (drop ?k ?all))"
    using assms by (simp add: observer_inv_def drop_enumerate Let_def)
  have idx: "of_seq (?f ix) > of_nat ?n \<longleftrightarrow> ?n \<le> fst ix"
    if "ix \<in> set (enumerate ?k (drop ?k ?all))" for ix
  proof -
    from that have "fst ix < length (drop ?k ?all) + ?k" by (simp only: in_set_enumerate_eq)
    also have "\<dots> = length ?all" by (simp only: length_drop)
    finally have "Suc (fst ix) < 2 ^ 64" using bound by linarith
    moreover have "?n < 2 ^ 64" using bound by simp
    ultimately show ?thesis
      using of_nat_word_less [of ?n "Suc (fst ix)"] by (cases ix) (auto simp del: of_nat_Suc)
  qed
  have "filter (\<lambda>f. of_seq f > of_nat ?n) (eo_failures o')
      = map ?f (filter (\<lambda>ix. ?n \<le> fst ix) (enumerate ?k (drop ?k ?all)))"
    unfolding fs filter_map comp_def using idx by (metis (no_types, lifting) filter_cong)
  also have "\<dots> = map ?f (enumerate (max ?n ?k) (drop (?n - ?k) (drop ?k ?all)))"
    by (simp only: filter_enumerate)
  finally have "map (\<lambda>f. (of_signal f, of_err f))
      (filter (\<lambda>f. of_seq f > of_nat ?n) (eo_failures o'))
      = map ((\<lambda>f. (of_signal f, of_err f)) \<circ> ?f) (enumerate (max ?n ?k) (drop (?n - ?k) (drop ?k ?all)))"
    by (simp only: map_map)
  also have "(\<lambda>f. (of_signal f, of_err f)) \<circ> ?f = snd" by (auto simp: fun_eq_iff)
  also have "map snd (enumerate (max ?n ?k) (drop (?n - ?k) (drop ?k ?all)))
      = drop (max ?n ?k) ?all"
    by (simp only: map_snd_enumerate drop_drop) (simp only: max_def, cases "?n \<le> ?k"; simp)
  also have "\<dots> = drop (length fails - max_observed_failures) fails"
    by (cases "?k \<le> ?n") (auto simp: max_def)
  finally show ?thesis .
qed

lemma oldest_failure:
  assumes "observer_inv (hist @ fails) o'" "fails \<noteq> []"
  shows "eo_failures o' \<noteq> [] \<and>
    (of_nat (length hist) + 1 < of_seq (hd (eo_failures o')) \<longleftrightarrow>
     max_observed_failures < length fails)"
proof -
  let ?n = "length hist" and ?all = "hist @ fails"
  let ?k = "length ?all - max_observed_failures"
  have bound: "length ?all < 2 ^ 64" using assms(1) by (simp add: observer_inv_def)
  have k: "?k < length ?all" using assms(2) by (simp add: max_observed_failures_def)
  then obtain x xs where d: "drop ?k ?all = x # xs" by (cases "drop ?k ?all") auto
  have fs: "eo_failures o' \<noteq> []" "of_seq (hd (eo_failures o')) = of_nat (Suc ?k)"
    using assms(1) d by (auto simp: observer_inv_def drop_enumerate Let_def case_prod_beta)
  have "of_nat ?n + 1 < (of_nat (Suc ?k) :: 64 word) \<longleftrightarrow> Suc ?n < Suc ?k"
    using of_nat_word_less [of "Suc ?n" "Suc ?k"] bound k assms(2)
    by (cases fails) (auto simp: add.commute)
  also have "\<dots> \<longleftrightarrow> max_observed_failures < length fails" by auto
  finally show ?thesis using fs by simp
qed

subsection \<open>Properties\<close>

text \<open>\<open>failedSince\<close> is exact: asked with the sequence of an earlier snapshot, the observer answers
  nil if and only if no required export failed since, and otherwise joins every failure since
  (the last 1024 of them), in order and under its signal, saying so when older ones were
  dropped. Metric exports and earlier failures never count. The history is bounded by the
  64-bit sequence.\<close>

theorem failed_since_exact:
  assumes "observer_inv hist o'" and "length hist + length rs < 2 ^ 64"
  shows "failed_since (observer_snapshot o') (observer_record_all rs o') =
    (let fails = required_failures rs in
     if fails = [] then None
     else Some (ErrJoin (ErrNew ''background OTLP export failed''
       # (if max_observed_failures < length fails
          then [ErrNew ''prior export failures omitted''] else [])
       @ map (\<lambda>(s, e). ExportFailure s e) (drop (length fails - max_observed_failures) fails))))"
proof -
  let ?o = "observer_record_all rs o'" and ?fails = "required_failures rs"
  have inv: "observer_inv (hist @ ?fails) ?o" by (rule observer_inv_record_all [OF assms])
  have snap: "observer_snapshot o' = of_nat (length hist)"
    using assms(1) by (simp add: observer_inv_def observer_snapshot_def)
  have bound: "length hist + length ?fails < 2 ^ 64" using inv by (simp add: observer_inv_def)
  have seq: "eo_seq ?o = of_nat (length hist + length ?fails)"
    using inv by (simp add: observer_inv_def)
  show ?thesis
  proof (cases "?fails = []")
    case True
    with seq snap show ?thesis by (simp add: failed_since_def)
  next
    case False
    then have "eo_seq ?o \<noteq> of_nat (length hist)"
      unfolding seq using of_nat_word_eq [of "length hist + length ?fails" "length hist"] bound
      by simp
    moreover have "map (\<lambda>f. ExportFailure (of_signal f) (of_err f))
        (filter (\<lambda>f. of_seq f > of_nat (length hist)) (eo_failures ?o))
        = map (\<lambda>(s, e). ExportFailure s e) (drop (length ?fails - max_observed_failures) ?fails)"
      using newer_failures [OF inv] by (simp flip: newer_failures [OF inv] add: comp_def)
    ultimately show ?thesis
      using oldest_failure [OF inv False] False snap
      by (simp add: failed_since_def errors_join_def List.map_filter_simps Let_def)
  qed
qed

theorem failed_since_exact_witness:
  "failed_since (observer_snapshot new_observer) (observer_record_all
      [(''logs'', Some ErrCanceled), (''metrics'', Some ErrCanceled), (''traces'', None)] new_observer)
   = Some (ErrJoin [ErrNew ''background OTLP export failed'', ExportFailure ''logs'' ErrCanceled])"
proof -
  let ?rs = "[(''logs'', Some ErrCanceled), (''metrics'', Some ErrCanceled), (''traces'', None)]"
  have "length ([] :: (string \<times> gerr) list) + length ?rs < 2 ^ 64" by simp
  from failed_since_exact [OF observer_inv_new this]
  show ?thesis by (simp add: Let_def max_observed_failures_def)
qed

text \<open>Nothing an exporter says in an error text leaves the process: a sanitised export error is
  nil exactly when the outcome is, and otherwise its text is one of a fixed set that does not
  depend on the exporter's text: a known HTTP status, two canned OTLP texts, the two context
  errors, or the generic text.\<close>

theorem safe_export_error_closed:
  shows "(safe_export_error err = None \<longleftrightarrow> err = None) \<and>
    set_option (safe_export_error err) \<subseteq>
      (\<lambda>(code, name). safe_status code name) ` set status_texts \<union>
      {ErrNew ''OTLP partial success: rejected records (message omitted)'',
       ErrNew ''OTLP export: protobuf marshal rejected invalid UTF-8 (value omitted)'',
       ErrDeadlineExceeded, ErrCanceled, ErrNew ''OTLP export failed (details omitted)''}"
proof (cases err)
  case None
  then show ?thesis by (simp add: safe_export_error_def)
next
  case (Some e)
  let ?line = "status_line (err_text e)"
  let ?p = "\<lambda>(code, name). str_contains ('': '' @ itoa code @ '' '' @ name) ?line"
  show ?thesis
  proof (cases "find ?p status_texts")
    case None
    with Some show ?thesis by (simp add: safe_export_error_def Let_def)
  next
    case (Some cn)
    then have "cn \<in> set status_texts" by (metis find_Some_iff nth_mem)
    with Some \<open>err = Some e\<close> show ?thesis
      by (cases cn) (auto simp: safe_export_error_def Let_def)
  qed
qed

text \<open>\<open>FailureSignals\<close> names exactly the signals of the export failures anywhere in the error's
  tree, each once and in alphabetical order, and \<open>unknown\<close> when there is none.\<close>

theorem failure_signals_exact:
  "\<exists>sigs. distinct sigs \<and> sorted sigs \<and>
    set sigs = {s. \<exists>e x. err = Some e \<and> ExportFailure s x \<in> set (err_nodes e)} \<and>
    failure_signals err = (if sigs = [] then ''unknown'' else str_join '','' sigs)"
proof -
  have visit: "set (signal_visit e) = {s. \<exists>x. ExportFailure s x \<in> set (err_nodes e)}" for e
  proof (induction e rule: err_tree_induct)
    case (node e)
    have first: "errors_as export_failure_signal e = Some s \<Longrightarrow>
        \<exists>x. ExportFailure s x \<in> set (err_nodes e)" for s
      by (auto simp: errors_as_def dest!: first_some_SomeD elim!: export_failure_signal.elims)
    have own: "e = ExportFailure s x \<Longrightarrow> errors_as export_failure_signal e = Some s" for s x
      by (simp add: errors_as_def)
    show ?case
      unfolding signal_visit.simps [of e] err_nodes_unwrap [of e]
      using node first own err_nodes_unwrap [of e] by (fastforce split: option.splits)
  qed
  let ?found = "case err of None \<Rightarrow> [] | Some e \<Rightarrow> signal_visit e"
  have "set ?found = {s. \<exists>e x. err = Some e \<and> ExportFailure s x \<in> set (err_nodes e)}"
    by (auto simp: visit split: option.splits)
  moreover have "sort (remdups ?found) = [] \<longleftrightarrow> ?found = []"
    by (metis remdups_eq_nil_iff set_empty set_sort)
  ultimately show ?thesis
    by (intro exI [of _ "sort (remdups ?found)"]) (simp add: failure_signals_def Let_def)
qed

end
