(* ===== verification/Checkpoint.thy ===== *)
theory Checkpoint
  imports GoErrors "HOL-Library.AList"
begin

text \<open>
  The durable checkpoint store, \<open>internal/collector/checkpoint.go\<close>. A checkpoint maps a collector
  name to the instant up to which its data has been delivered. The store keeps the map in memory
  (\<open>values\<close>) and in one JSON file. The file system is two files: the checkpoint file and the
  temporary file the store writes and renames over it. A file holds a complete JSON map or a
  fragment (a write that failed half-way). Every system call may fail: an oracle gives the error
  of each stage. \<open>set_checkpoint\<close> also returns the disk states it passes through, which are the
  states a crash can leave behind.
\<close>

type_synonym cp_map = "(string \<times> time) list"

datatype content = JsonMap cp_map | Fragment

record disk =
  main_file :: "content option"
  temp_file :: "content option"

record file_store =
  cp_values :: cp_map

datatype stage = SRead | SMkdir | SCreate | SChmod | SWrite | SSync | SClose | SRename

type_synonym io_oracle = "stage \<Rightarrow> gerr option"

definition new_file_store :: "io_oracle \<Rightarrow> disk \<Rightarrow> gerr + file_store" where
  "new_file_store io d =
     (case io SRead of
        Some e \<Rightarrow> Inl e
      | None \<Rightarrow>
          (case main_file d of
             None \<Rightarrow> Inr \<lparr>cp_values = []\<rparr>
           | Some Fragment \<Rightarrow>
               Inl (ErrWrap ''checkpoint decode: '' (ErrNew ''unexpected end of JSON input''))
           | Some (JsonMap m) \<Rightarrow> Inr \<lparr>cp_values = m\<rparr>))"

definition cp_get :: "file_store \<Rightarrow> string \<Rightarrow> time option" where
  "cp_get s name = map_of (cp_values s) name"

text \<open>\<open>time.MarshalJSON\<close> refuses years outside \<open>[0, 9999]\<close>.\<close>

definition year_ok :: "time \<Rightarrow> bool" where
  "year_ok t \<longleftrightarrow> - 31622400 * second \<le> t \<and> t < 315537897600 * second"

definition marshal_values :: "cp_map \<Rightarrow> gerr + content" where
  "marshal_values m =
     (if list_all (\<lambda>(k, t). year_ok t) m then Inr (JsonMap m)
      else Inl (ErrNew ''Time.MarshalJSON: year outside of range [0,9999]''))"

text \<open>The deferred \<open>os.Remove(tmp)\<close>, after every return once the temporary file exists.\<close>

definition remove_temp :: "disk \<Rightarrow> disk" where
  "remove_temp d = d\<lparr>temp_file := None\<rparr>"

text \<open>Stages that only make the write durable or set its mode leave the modelled disk as it is;
  the error of closing an already failed file is ignored, as is that of syncing the directory.\<close>

definition set_checkpoint ::
  "io_oracle \<Rightarrow> string \<Rightarrow> time \<Rightarrow> file_store \<times> disk \<Rightarrow>
   (file_store \<times> disk) \<times> gerr option \<times> disk list" where
  "set_checkpoint io name t st =
     (case st of (s, d) \<Rightarrow>
      let next = AList.update name t (cp_values s) in
      case marshal_values next of
        Inl e \<Rightarrow> ((s, d), Some e, [d])
      | Inr b \<Rightarrow>
      (case io SMkdir of Some e \<Rightarrow> ((s, d), Some e, [d]) | None \<Rightarrow>
       case io SCreate of Some e \<Rightarrow> ((s, d), Some e, [d]) | None \<Rightarrow>
       let d1 = d\<lparr>temp_file := Some Fragment\<rparr> in
       case io SChmod of Some e \<Rightarrow> ((s, remove_temp d1), Some e, [d, d1, remove_temp d1]) | None \<Rightarrow>
       case io SWrite of Some e \<Rightarrow> ((s, remove_temp d1), Some e, [d, d1, remove_temp d1]) | None \<Rightarrow>
       let d2 = d1\<lparr>temp_file := Some b\<rparr> in
       case io SSync of Some e \<Rightarrow> ((s, remove_temp d2), Some e, [d, d1, d2, remove_temp d2]) | None \<Rightarrow>
       case io SClose of Some e \<Rightarrow> ((s, remove_temp d2), Some e, [d, d1, d2, remove_temp d2]) | None \<Rightarrow>
       case io SRename of Some e \<Rightarrow> ((s, remove_temp d2), Some e, [d, d1, d2, remove_temp d2]) | None \<Rightarrow>
       let d3 = \<lparr>main_file = temp_file d2, temp_file = None\<rparr> in
       ((s\<lparr>cp_values := next\<rparr>, d3), None, [d, d1, d2, d3])))"

abbreviation store_set :: "io_oracle \<Rightarrow> file_store \<times> disk \<Rightarrow> string \<Rightarrow> time \<Rightarrow>
    (file_store \<times> disk) \<times> gerr option" where
  "store_set io st name t \<equiv> (case set_checkpoint io name t st of (st', e, _) \<Rightarrow> (st', e))"

abbreviation store_get :: "file_store \<times> disk \<Rightarrow> string \<Rightarrow> time option" where
  "store_get st name \<equiv> cp_get (fst st) name"

text \<open>The memory and the file agree: a fresh start has no file and no values, and otherwise the
  file holds the values in memory.\<close>

definition store_synced :: "file_store \<times> disk \<Rightarrow> bool" where
  "store_synced st \<longleftrightarrow> (case main_file (snd st) of
      None \<Rightarrow> cp_values (fst st) = []
    | Some c \<Rightarrow> c = JsonMap (cp_values (fst st)))"

lemmas set_checkpoint_splits = option.splits sum.splits prod.splits if_splits

lemma set_checkpoint_ok:
  assumes "set_checkpoint io name t (s, d) = ((s', d'), None, ds)"
  shows "cp_values s' = AList.update name t (cp_values s) \<and>
    main_file d' = Some (JsonMap (cp_values s')) \<and> temp_file d' = None"
  using assms
  by (auto simp: set_checkpoint_def marshal_values_def Let_def split: set_checkpoint_splits)

lemma set_checkpoint_failed:
  assumes "set_checkpoint io name t (s, d) = ((s', d'), Some e, ds)"
  shows "s' = s \<and> main_file d' = main_file d"
  using assms
  by (auto simp: set_checkpoint_def remove_temp_def marshal_values_def Let_def
      split: set_checkpoint_splits)

lemma set_checkpoint_trace:
  assumes "set_checkpoint io name t (s, d) = (st', e, ds)"
  shows "\<forall>x \<in> set ds. main_file x = main_file d \<or>
    main_file x = Some (JsonMap (AList.update name t (cp_values s)))"
  using assms
  by (auto simp: set_checkpoint_def remove_temp_def marshal_values_def Let_def
      split: set_checkpoint_splits)

subsection \<open>The interface the scheduler relies on\<close>

locale checkpoint_store =
  fixes get :: "'st \<Rightarrow> string \<Rightarrow> time option"
    and put :: "'st \<Rightarrow> string \<Rightarrow> time \<Rightarrow> 'st \<times> gerr option"
  assumes put_same: "put st n t = (st', None) \<Longrightarrow> get st' n = Some t"
    and put_other: "put st n t = (st', r) \<Longrightarrow> m \<noteq> n \<Longrightarrow> get st' m = get st m"
    and put_failed: "put st n t = (st', Some e) \<Longrightarrow> get st' m = get st m"
begin

text \<open>A collector's cursor after a \<open>put\<close> is the new instant or the old cursor.\<close>

lemma get_put_cases:
  assumes "put st n t = (st', r)"
  shows "get st' m = get st m \<or> (m = n \<and> r = None \<and> get st' m = Some t)"
  using assms put_same put_other put_failed by (cases r; cases "m = n") fastforce+

lemma get_put_mono:
  assumes "put st n t = (st', r)" "\<forall>c. get st n = Some c \<longrightarrow> c \<le> t"
  shows "\<forall>c. get st m = Some c \<longrightarrow> (\<exists>c'. get st' m = Some c' \<and> c \<le> c')"
  using get_put_cases [OF assms(1), of m] assms(2) by auto

lemma put_known: "put st n t = (st', r) \<Longrightarrow> get st m \<noteq> None \<Longrightarrow> get st' m \<noteq> None"
  using get_put_cases [of st n t st' r m] by auto

end

interpretation cps: checkpoint_store store_get "store_set io" for io
proof unfold_locales
  fix st st' :: "file_store \<times> disk" and n t
  assume "store_set io st n t = (st', None)"
  then show "store_get st' n = Some t"
    by (cases st, cases st')
      (auto dest!: set_checkpoint_ok simp: cp_get_def update_conv split: prod.splits)
next
  fix st st' :: "file_store \<times> disk" and n t r m
  assume "store_set io st n t = (st', r)" "m \<noteq> n"
  then show "store_get st' m = store_get st m"
    by (cases st, cases st', cases r)
      (auto dest!: set_checkpoint_ok set_checkpoint_failed
        simp: cp_get_def update_conv split: prod.splits)
next
  fix st st' :: "file_store \<times> disk" and n t e m
  assume "store_set io st n t = (st', Some e)"
  then show "store_get st' m = store_get st m"
    by (cases st, cases st')
      (auto dest!: set_checkpoint_failed simp: cp_get_def split: prod.splits)
qed

lemma store_synced_set:
  assumes "store_synced (s, d)" "set_checkpoint io name t (s, d) = (st', r, ds)"
  shows "store_synced st'"
proof (cases r)
  case None
  with assms show ?thesis
    by (cases st') (auto dest!: set_checkpoint_ok simp: store_synced_def)
next
  case (Some e)
  with assms show ?thesis
    by (cases st') (auto dest!: set_checkpoint_failed simp: store_synced_def split: option.splits)
qed

lemma marshal_update: "year_ok t \<Longrightarrow> list_all (\<lambda>(k, t). year_ok t) m \<Longrightarrow>
  list_all (\<lambda>(k, t). year_ok t) (AList.update n t m)"
  by (induction m) auto

subsection \<open>Properties\<close>

text \<open>C7. \<open>FileStore.Set\<close> is atomic under crashes: killing the process at any point of a \<open>Set\<close>
  leaves a checkpoint file from which \<open>NewFileStore\<close> reads either the values before the call
  or the values with the new checkpoint, never a fragment and never anything else.\<close>

theorem set_crash_atomic:
  assumes "store_synced (s, d)"
    and "set_checkpoint io name t (s, d) = (st', r, ds)"
    and "x \<in> set ds"
    and "io' SRead = None"
  shows "\<exists>s''. new_file_store io' x = Inr s'' \<and>
    (cp_values s'' = cp_values s \<or> cp_values s'' = AList.update name t (cp_values s))"
proof -
  from set_checkpoint_trace [OF assms(2)] assms(3)
  have "main_file x = main_file d \<or>
      main_file x = Some (JsonMap (AList.update name t (cp_values s)))" by blast
  with assms(1,4) show ?thesis
    by (auto simp: new_file_store_def store_synced_def split: option.splits)
qed

theorem set_crash_atomic_witness:
  "let s = \<lparr>cp_values = [(''a'', 5)]\<rparr>; d = \<lparr>main_file = Some (JsonMap [(''a'', 5)]), temp_file = None\<rparr>
   in \<exists>s''. new_file_store (\<lambda>_. None) (d\<lparr>temp_file := Some Fragment\<rparr>) = Inr s'' \<and>
      (cp_values s'' = [(''a'', 5)] \<or> cp_values s'' = AList.update ''a'' 9 [(''a'', 5)])"
proof -
  let ?s = "\<lparr>cp_values = [(''a'', 5)]\<rparr>"
  let ?d = "\<lparr>main_file = Some (JsonMap [(''a'', 5)]), temp_file = None\<rparr>"
  let ?io = "\<lambda>st. if st = SWrite then Some (ErrNew ''disk full'') else None"
  have "store_synced (?s, ?d)" by (simp add: store_synced_def)
  moreover have "set_checkpoint ?io ''a'' 9 (?s, ?d)
      = ((?s, ?d), Some (ErrNew ''disk full''), [?d, ?d\<lparr>temp_file := Some Fragment\<rparr>, ?d])"
    by (simp add: set_checkpoint_def marshal_values_def year_ok_def remove_temp_def)
  ultimately have "\<exists>s''. new_file_store (\<lambda>_. None) (?d\<lparr>temp_file := Some Fragment\<rparr>) = Inr s'' \<and>
      (cp_values s'' = cp_values ?s \<or> cp_values s'' = AList.update ''a'' 9 (cp_values ?s))"
    by (rule set_crash_atomic) simp_all
  then show ?thesis by simp
qed

text \<open>C19. \<open>FileStore.Set\<close> and \<open>Get\<close> on every branch: a successful \<open>Set\<close> makes \<open>Get\<close> return the new
  instant for that name, in memory and after a restart from the file; a failed \<open>Set\<close>
  changes neither; other names are never affected; memory and file stay in agreement.\<close>

theorem set_get_durable:
  assumes "store_synced (s, d)" and "set_checkpoint io name t (s, d) = ((s', d'), r, ds)"
  shows "store_synced (s', d') \<and>
    (r = None \<longrightarrow> cp_get s' name = Some t \<and>
       new_file_store (\<lambda>_. None) d' = Inr \<lparr>cp_values = cp_values s'\<rparr>) \<and>
    (r \<noteq> None \<longrightarrow> s' = s \<and> main_file d' = main_file d) \<and>
    (\<forall>m. m \<noteq> name \<longrightarrow> cp_get s' m = cp_get s m)"
proof -
  have put: "store_set io (s, d) name t = ((s', d'), r)" using assms(2) by simp
  have "r = None \<Longrightarrow> cp_get s' name = Some t" using cps.put_same put by fastforce
  moreover have "m \<noteq> name \<Longrightarrow> cp_get s' m = cp_get s m" for m
    using cps.put_other [OF put, of m] by simp
  moreover have "r = None \<Longrightarrow> new_file_store (\<lambda>_. None) d' = Inr \<lparr>cp_values = cp_values s'\<rparr>"
    using set_checkpoint_ok [of io name t s d s' d' ds] assms(2) by (simp add: new_file_store_def)
  moreover have "r \<noteq> None \<Longrightarrow> s' = s \<and> main_file d' = main_file d"
    using set_checkpoint_failed [of io name t s d s' d' _ ds] assms(2) by auto
  ultimately show ?thesis using store_synced_set [OF assms] by blast
qed

theorem set_get_durable_witness:
  "let s = \<lparr>cp_values = [(''a'', 5), (''b'', 6)]\<rparr> in
   \<exists>s' d'. cp_get s' ''a'' = Some 9 \<and> cp_get s' ''b'' = Some 6 \<and>
     new_file_store (\<lambda>_. None) d' = Inr \<lparr>cp_values = cp_values s'\<rparr>"
proof -
  let ?s = "\<lparr>cp_values = [(''a'', 5), (''b'', 6)]\<rparr>"
  let ?d = "\<lparr>main_file = Some (JsonMap (cp_values ?s)), temp_file = None\<rparr>"
  obtain s' d' ds where run: "set_checkpoint (\<lambda>_. None) ''a'' 9 (?s, ?d) = ((s', d'), None, ds)"
    by (simp add: set_checkpoint_def marshal_values_def year_ok_def Let_def)
  have "store_synced (?s, ?d)" by (simp add: store_synced_def)
  from set_get_durable [OF this run]
  have "cp_get s' ''a'' = Some 9" "cp_get s' ''b'' = cp_get ?s ''b''"
    "new_file_store (\<lambda>_. None) d' = Inr \<lparr>cp_values = cp_values s'\<rparr>" by auto
  then show ?thesis by (auto simp: cp_get_def)
qed

end
