(* ===== verification/Commit.thy ===== *)
theory Commit
  imports Telemetry ExportObserver Checkpoint
begin

text \<open>
  Delivering one window, \<open>internal/collector/scheduler.go\<close>: \<open>commit\<close> cuts a buffer into export
  chunks, replays each into the emitter and flushes it; \<open>payloadRejected\<close> and \<open>gapFloor\<close> read the
  errors a window ends with.

  Everything outside the scheduler (clock, contexts, collectors, exporters) is one state of the
  type variable \<open>'w\<close>; the record \<open>env\<close> holds the operations the scheduler calls on it. They are
  arbitrary functions, so whatever other collectors do between two calls is covered.
\<close>

type_synonym 'w commit_flusher =
  "('w \<Rightarrow> 'w \<times> 64 word) \<times> ('w \<Rightarrow> 64 word \<Rightarrow> 'w \<times> gerr option)"

record 'w env =
  ctx_err :: "'w \<Rightarrow> 'w \<times> gerr option"
  clock :: "'w \<Rightarrow> 'w \<times> time"
  store_io :: "'w \<Rightarrow> 'w \<times> io_oracle"
  emitter_of :: "'w emit option"
  flusher :: "'w commit_flusher option"
  start_commit :: "duration \<Rightarrow> 'w \<Rightarrow> 'w"
  commit_ctx_err :: "'w \<Rightarrow> 'w \<times> gerr option"
  await_timer :: "duration \<Rightarrow> 'w \<Rightarrow> 'w \<times> bool"
  commit_timeout_override :: duration
  commit_budget_override :: int

definition commit_chunk_bytes :: int where "commit_chunk_bytes = 512 * 1024"
definition max_single_span_bytes :: int where "max_single_span_bytes = 1024 * 1024"
definition commit_chunk_items :: nat where "commit_chunk_items = 512"

text \<open>A call on a nil \<open>Emitter\<close> panics; \<open>RunOnce\<close> turns the panic into this error.\<close>

definition nil_emitter_panic :: gerr where
  "nil_emitter_panic =
     ErrNew ''collector panic: runtime error: invalid memory address or nil pointer dereference''"

definition env_emit :: "'w env \<Rightarrow> 'w emit" where
  "env_emit env w e = (case emitter_of env of None \<Rightarrow> (w, Some nil_emitter_panic) | Some em \<Rightarrow> em w e)"

definition begin_commit :: "'w env \<Rightarrow> 'w \<Rightarrow> 'w \<times> 64 word" where
  "begin_commit env w = (case flusher env of None \<Rightarrow> (w, 0) | Some (begin, _) \<Rightarrow> begin w)"

text \<open>The closure \<open>flush\<close> of \<open>commit\<close>; the state is the world and the captured \<open>seq\<close>.\<close>

definition commit_flush :: "'w env \<Rightarrow> 'w \<times> 64 word \<Rightarrow> ('w \<times> 64 word) \<times> gerr option" where
  "commit_flush env st =
     (case st of (w, seq) \<Rightarrow>
        case flusher env of
          None \<Rightarrow> ((w, seq), None)
        | Some (begin, flush) \<Rightarrow>
            (case flush w seq of (w1, err) \<Rightarrow> (case begin w1 of (w2, seq2) \<Rightarrow> ((w2, seq2), err))))"

definition replay_record ::
  "'w env \<Rightarrow> 'w \<times> 64 word \<Rightarrow> buffered_record \<Rightarrow> ('w \<times> 64 word) \<times> gerr option" where
  "replay_record env st r =
     (case st of (w, seq) \<Rightarrow>
        (case env_emit env w (record_emission r) of (w1, err) \<Rightarrow> ((w1, seq), err)))"

text \<open>Sequencing: stop at the first error.\<close>

definition and_then ::
  "'s \<times> gerr option \<Rightarrow> ('s \<Rightarrow> 's \<times> gerr option) \<Rightarrow> 's \<times> gerr option" where
  "and_then r f = (case r of (s, Some e) \<Rightarrow> (s, Some e) | (s, None) \<Rightarrow> f s)"

fun commit_records ::
  "'w env \<Rightarrow> buffered_record list \<Rightarrow> nat \<Rightarrow> int \<Rightarrow> 'w \<times> 64 word \<Rightarrow> ('w \<times> 64 word) \<times> gerr option"
where
  "commit_records env [] items bytes st = commit_flush env st"
| "commit_records env (r # rs) items bytes st =
     (let size = record_bytes r in
      if size > commit_chunk_bytes then
        if br_span r = None \<or> size > max_single_span_bytes then
          (st, Some (ErrNew (''window record exceeds '' @ itoa max_single_span_bytes
                             @ '' byte export limit'')))
        else
          and_then (if items > 0 then commit_flush env st else (st, None)) (\<lambda>st1.
          and_then (replay_record env st1 r) (\<lambda>st2.
          and_then (commit_flush env st2) (\<lambda>st3. commit_records env rs 0 0 st3)))
      else if items > 0 \<and> (items + 1 > commit_chunk_items \<or> bytes + size > commit_chunk_bytes) then
        and_then (commit_flush env st) (\<lambda>st1.
        and_then (replay_record env st1 r) (\<lambda>st2. commit_records env rs 1 size st2))
      else
        and_then (replay_record env st r) (\<lambda>st1. commit_records env rs (items + 1) (bytes + size) st1))"

definition commit :: "'w env \<Rightarrow> buffer \<Rightarrow> 'w \<Rightarrow> 'w \<times> gerr option" where
  "commit env b w =
     (if emitter_of env = None \<and> records b \<noteq> [] then (w, Some (ErrNew ''window emitter is nil''))
      else
        (case commit_records env (records b) 0 0 (begin_commit env w) of
           ((w', _), err) \<Rightarrow> (w', err)))"

subsection \<open>Chunks\<close>

text \<open>The specification of \<open>commit\<close>: whole chunks, each replayed and then flushed.\<close>

fun replay_chunk ::
  "'w env \<Rightarrow> buffered_record list \<Rightarrow> 'w \<times> 64 word \<Rightarrow> ('w \<times> 64 word) \<times> gerr option" where
  "replay_chunk env [] st = (st, None)"
| "replay_chunk env (r # rs) st = and_then (replay_record env st r) (replay_chunk env rs)"

fun run_chunks ::
  "'w env \<Rightarrow> buffered_record list list \<Rightarrow> 'w \<times> 64 word \<Rightarrow> ('w \<times> 64 word) \<times> gerr option" where
  "run_chunks env [] st = (st, None)"
| "run_chunks env (c # cs) st =
     and_then (replay_chunk env c st) (\<lambda>st1. and_then (commit_flush env st1) (run_chunks env cs))"

abbreviation chunk_bytes :: "buffered_record list \<Rightarrow> int" where
  "chunk_bytes rs \<equiv> sum_list (map record_bytes rs)"

definition chunk_ok :: "buffered_record list \<Rightarrow> bool" where
  "chunk_ok rs \<longleftrightarrow>
     (length rs \<le> commit_chunk_items \<and> chunk_bytes rs \<le> commit_chunk_bytes) \<or>
     (\<exists>r s. rs = [r] \<and> br_span r = Some s \<and> record_bytes r \<le> max_single_span_bytes)"

lemma and_then_simps [simp]:
  "and_then (s, None) f = f s" "and_then (s, Some e) f = (s, Some e)"
  by (simp_all add: and_then_def)

lemma and_then_assoc: "and_then (and_then r f) g = and_then r (\<lambda>s. and_then (f s) g)"
  by (cases r) (auto simp: and_then_def split: option.splits)

lemma and_then_ok: "and_then r f = (s', None) \<longleftrightarrow> (\<exists>s. r = (s, None) \<and> f s = (s', None))"
  by (cases r) (auto simp: and_then_def split: option.splits)

lemma and_then_ret [simp]: "and_then r (\<lambda>s. (s, None)) = r"
  by (cases r) (auto simp: and_then_def split: option.splits)

lemma replay_chunk_append:
  "replay_chunk env (xs @ ys) = (\<lambda>st. and_then (replay_chunk env xs st) (replay_chunk env ys))"
  by (induction xs) (auto simp: and_then_assoc)

text \<open>The open chunk \<open>pre\<close> has been replayed but not yet flushed.\<close>

definition open_ok :: "buffered_record list \<Rightarrow> nat \<Rightarrow> int \<Rightarrow> bool" where
  "open_ok pre items bytes \<longleftrightarrow> length pre = items \<and> chunk_bytes pre = bytes \<and>
     items \<le> commit_chunk_items \<and> bytes \<le> commit_chunk_bytes"

lemma open_ok_chunk: "open_ok pre items bytes \<Longrightarrow> chunk_ok pre"
  by (auto simp: open_ok_def chunk_ok_def)

lemma open_ok_Nil: "open_ok [] 0 0"
  by (simp add: open_ok_def commit_chunk_bytes_def)

lemma commit_records_chunks:
  assumes "commit_records env rs items bytes st = (st', None)" "open_ok pre items bytes"
    and "replay_chunk env pre st0 = (st, None)"
  shows "\<exists>cs. cs \<noteq> [] \<and> concat cs = pre @ rs \<and> (\<forall>c \<in> set cs. chunk_ok c) \<and> run_chunks env cs st0 = (st', None)"
  using assms
proof (induction env rs items bytes st arbitrary: pre st0 rule: commit_records.induct)
  case (1 env items bytes st)
  then show ?case by (intro exI [of _ "[pre]"]) (auto intro: open_ok_chunk)
next
  case (2 env r rs items bytes st)
  let ?size = "record_bytes r"
  note op = "2.prems"(2) and run = "2.prems"(3)
  consider (big) "?size > commit_chunk_bytes"
    | (full) "\<not> ?size > commit_chunk_bytes" "items > 0"
        "items + 1 > commit_chunk_items \<or> bytes + ?size > commit_chunk_bytes"
    | (room) "\<not> ?size > commit_chunk_bytes"
        "\<not> (items > 0 \<and> (items + 1 > commit_chunk_items \<or> bytes + ?size > commit_chunk_bytes))"
    by blast
  then show ?case
  proof cases
    case big
    with "2.prems"(1) have lim: "br_span r \<noteq> None" "?size \<le> max_single_span_bytes"
      by (auto simp: Let_def split: if_splits)
    with big "2.prems"(1) obtain st1 st2 st3 where
      f: "(if items > 0 then commit_flush env st else (st, None)) = (st1, None)"
      and p: "replay_record env st1 r = (st2, None)" and g: "commit_flush env st2 = (st3, None)"
      and rest: "commit_records env rs 0 0 st3 = (st', None)"
      by (auto simp: Let_def and_then_ok)
    from "2.IH"(1) [OF refl big _ rest open_ok_Nil] lim obtain cs where
      cs: "concat cs = rs" "\<forall>c \<in> set cs. chunk_ok c" "run_chunks env cs st3 = (st', None)" by auto
    have r: "chunk_ok [r]" using lim by (auto simp: chunk_ok_def)
    show ?thesis
    proof (cases "items > 0")
      case True
      with cs r op run f p g show ?thesis
        by (intro exI [of _ "pre # [r] # cs"]) (auto intro: open_ok_chunk)
    next
      case False
      with op run f have "pre = []" "st1 = st0" by (auto simp: open_ok_def)
      with cs r p g show ?thesis by (intro exI [of _ "[r] # cs"]) auto
    qed
  next
    case full
    with "2.prems"(1) obtain st1 st2 where f: "commit_flush env st = (st1, None)"
      and p: "replay_record env st1 r = (st2, None)"
      and rest: "commit_records env rs 1 ?size st2 = (st', None)"
      by (auto simp: Let_def and_then_ok)
    have one: "open_ok [r] 1 ?size" using full by (auto simp: open_ok_def commit_chunk_items_def)
    have p1: "replay_chunk env [r] st1 = (st2, None)" using p by simp
    from full have g: "0 < items \<and> (commit_chunk_items < items + 1 \<or>
      commit_chunk_bytes < bytes + ?size)" by simp
    from "2.IH"(2) [OF refl full(1) g rest one p1] obtain cs where
      cs: "concat cs = r # rs" "\<forall>c \<in> set cs. chunk_ok c" "run_chunks env cs st1 = (st', None)"
      by auto
    with op run f show ?thesis by (intro exI [of _ "pre # cs"]) (auto intro: open_ok_chunk)
  next
    case room
    with "2.prems"(1) obtain st1 where p: "replay_record env st r = (st1, None)"
      and rest: "commit_records env rs (items + 1) (bytes + ?size) st1 = (st', None)"
      by (auto simp: Let_def and_then_ok)
    have "open_ok (pre @ [r]) (items + 1) (bytes + ?size)"
      using room op by (auto simp: open_ok_def commit_chunk_items_def)
    moreover have "replay_chunk env (pre @ [r]) st0 = (st1, None)"
      using run p by (simp add: replay_chunk_append)
    ultimately obtain cs where "cs \<noteq> []" "concat cs = (pre @ [r]) @ rs"
      "(\<forall>c \<in> set cs. chunk_ok c) \<and> run_chunks env cs st0 = (st', None)"
      using "2.IH"(3) [OF refl room rest] by blast
    then show ?thesis by (intro exI [of _ cs]) simp
  qed
qed


subsection \<open>Rejected payloads\<close>

definition background_marker :: string where
  "background_marker = ''background OTLP export failed''"

definition ignored_line :: "string \<Rightarrow> bool" where
  "ignored_line line \<longleftrightarrow> line = [] \<or> line = background_marker"

definition payload_line :: "string \<Rightarrow> bool" where
  "payload_line line \<longleftrightarrow> (let status = status_line line in
     str_contains '': 400 Bad Request '' status \<or> str_contains ''OTLP partial success:'' status)"

fun payload_lines :: "string list \<Rightarrow> bool \<Rightarrow> bool" where
  "payload_lines [] seen = seen"
| "payload_lines (l # ls) seen =
     (let line = trim_space l in
      if ignored_line line then payload_lines ls seen
      else if payload_line line then payload_lines ls True
      else False)"

definition text_lines :: "gerr \<Rightarrow> string list" where
  "text_lines e = split_char (CHR 0x0A) (err_text e)"

definition payload_rejected :: "gerr \<Rightarrow> bool" where
  "payload_rejected e = payload_lines (text_lines e) False"

text \<open>An error that says nothing about the payload: the marker of a background failure.\<close>

definition neutral_error :: "gerr \<Rightarrow> bool" where
  "neutral_error e \<longleftrightarrow> (\<forall>l \<in> set (text_lines e). ignored_line (trim_space l))"

lemma payload_lines_iff:
  "payload_lines ls seen \<longleftrightarrow>
     (\<forall>l \<in> set ls. ignored_line (trim_space l) \<or> payload_line (trim_space l)) \<and>
     (seen \<or> (\<exists>l \<in> set ls. \<not> ignored_line (trim_space l)))"
  by (induction ls seen rule: payload_lines.induct) (auto simp: Let_def)

lemma split_char_two:
  "split_char c (x @ c # y) = split_char c x @ split_char c y"
  by (induction x) (auto split: list.splits)

lemma split_join_lines:
  "xs \<noteq> [] \<Longrightarrow> split_char c (str_join [c] xs) = concat (map (split_char c) xs)"
  by (induction "[c]" xs rule: str_join.induct) (auto simp: split_char_two)

lemma text_lines_join: "es \<noteq> [] \<Longrightarrow> text_lines (ErrJoin es) = concat (map text_lines es)"
  by (simp add: text_lines_def [abs_def] split_join_lines comp_def)

lemma payload_rejected_join:
  assumes "es \<noteq> []"
  shows "payload_rejected (ErrJoin es) \<longleftrightarrow>
    (\<forall>e \<in> set es. payload_rejected e \<or> neutral_error e) \<and> (\<exists>e \<in> set es. payload_rejected e)"
    (is "?l \<longleftrightarrow> ?r")
proof
  assume l: ?l
  have "payload_rejected e \<or> neutral_error e" if "e \<in> set es" for e
    using l that unfolding payload_rejected_def neutral_error_def text_lines_join [OF assms]
      payload_lines_iff by fastforce
  moreover from l obtain e x where "e \<in> set es" "x \<in> set (text_lines e)" "\<not> ignored_line (trim_space x)"
    unfolding payload_rejected_def text_lines_join [OF assms] payload_lines_iff by fastforce
  ultimately show ?r unfolding neutral_error_def by blast
next
  assume r: ?r
  show ?l unfolding payload_rejected_def text_lines_join [OF assms] payload_lines_iff
  proof (intro conjI ballI)
    fix l assume "l \<in> set (concat (map text_lines es))"
    then obtain e where "e \<in> set es" "l \<in> set (text_lines e)" by auto
    with r show "ignored_line (trim_space l) \<or> payload_line (trim_space l)"
      unfolding payload_rejected_def neutral_error_def payload_lines_iff by blast
  next
    from r obtain e where "e \<in> set es" "payload_rejected e" by blast
    then show "False \<or> (\<exists>l \<in> set (concat (map text_lines es)). \<not> ignored_line (trim_space l))"
      unfolding payload_rejected_def payload_lines_iff by fastforce
  qed
qed

subsection \<open>Retention gaps\<close>

fun gap_of :: "gerr \<Rightarrow> time option" where
  "gap_of (RetentionGapError _ fl) = Some fl"
| "gap_of _ = None"

function gap_visit :: "gerr \<Rightarrow> time \<Rightarrow> time" where
  "gap_visit e latest =
     fold gap_visit (err_unwrap e)
       (case errors_as gap_of e of
          Some fl \<Rightarrow> if fl > latest then fl else latest
        | None \<Rightarrow> latest)"
  by pat_completeness auto
termination
  by (relation "measure (\<lambda>(e, _). size e)") (auto dest: err_size_unwrap)

declare gap_visit.simps [simp del]

definition gap_floor :: "gerr \<Rightarrow> time" where
  "gap_floor e = gap_visit e 0"

text \<open>The floors of all retention gaps in the tree.\<close>

definition gap_floors :: "gerr \<Rightarrow> time set" where
  "gap_floors e = {fl. \<exists>x \<in> set (err_nodes e). gap_of x = Some fl}"

lemma gap_floors_finite: "finite (gap_floors e)"
proof -
  have "gap_floors e \<subseteq> (\<lambda>x. the (gap_of x)) ` set (err_nodes e)"
    by (force simp: gap_floors_def)
  then show ?thesis by (rule finite_subset) simp
qed

lemma gap_floors_unwrap:
  "gap_floors e = set_option (gap_of e) \<union> \<Union> (gap_floors ` set (err_unwrap e))"
  unfolding gap_floors_def by (subst err_nodes_unwrap) auto

lemma gap_as_floor: "errors_as gap_of e = Some fl \<Longrightarrow> fl \<in> gap_floors e"
  by (auto simp: errors_as_def gap_floors_def dest: first_some_SomeD)

lemma gap_as_root: "gap_of e = Some fl \<Longrightarrow> errors_as gap_of e = Some fl"
  unfolding errors_as_def by (subst err_nodes_unwrap) simp

lemma Max_insert_Max:
  "finite S \<Longrightarrow> S \<noteq> {} \<Longrightarrow> finite B \<Longrightarrow> Max (insert (Max S) B) = Max (S \<union> (B :: int set))"
  by (cases "B = {}") (simp_all add: Max_Un)

lemma fold_Max:
  assumes "\<And>x v. x \<in> set xs \<Longrightarrow> f x v = Max (insert v (A x))" "\<And>x. x \<in> set xs \<Longrightarrow> finite (A x)"
  shows "fold f xs v = Max (insert (v::int) (\<Union> (A ` set xs)))"
  using assms
proof (induction xs arbitrary: v)
  case Nil
  then show ?case by simp
next
  case (Cons x xs)
  then have "fold f (x # xs) v = Max (insert (Max (insert v (A x))) (\<Union> (A ` set xs)))" by simp
  also have "\<dots> = Max (insert v (A x) \<union> \<Union> (A ` set xs))"
    using Cons.prems(2) by (intro Max_insert_Max) auto
  finally show ?case by (simp add: Un_assoc)
qed

lemma Max_insert_max:
  assumes "finite G" "U \<subseteq> G" "w \<in> insert v G" "v \<le> w" "\<And>x. x \<in> G \<Longrightarrow> x \<le> w \<or> x \<in> U"
  shows "Max (insert (w::int) U) = Max (insert v G)"
proof (rule antisym)
  show "Max (insert w U) \<le> Max (insert v G)" using assms(1-3) by (intro Max_mono) auto
  have "finite U" using assms(1,2) finite_subset by blast
  then have "x \<le> Max (insert w U)" if "x \<in> insert v G" for x
    using that assms(4,5) by (metis Max_ge finite_insert insert_iff order_trans)
  then show "Max (insert v G) \<le> Max (insert w U)" using assms(1) by simp
qed

lemma gap_visit_Max: "gap_visit e v = Max (insert v (gap_floors e))"
proof (induction e arbitrary: v rule: err_tree_induct)
  case (node e)
  let ?U = "\<Union> (gap_floors ` set (err_unwrap e))"
  let ?v = "case errors_as gap_of e of Some fl \<Rightarrow> if fl > v then fl else v | None \<Rightarrow> v"
  have "gap_visit e v = Max (insert ?v ?U)"
    by (subst gap_visit.simps) (rule fold_Max, simp_all add: node gap_floors_finite)
  also have "\<dots> = Max (insert v (gap_floors e))"
  proof (rule Max_insert_max)
    show "x \<le> ?v \<or> x \<in> ?U" if "x \<in> gap_floors e" for x
      using that gap_as_root [of e x] by (auto simp: gap_floors_unwrap [of e])
  qed (auto simp: gap_floors_finite gap_floors_unwrap [of e]
         dest!: gap_as_floor split: option.splits)
  finally show ?case .
qed

lemma gap_floor_Max: "gap_floor e = Max (insert 0 (gap_floors e))"
  by (simp add: gap_floor_def gap_visit_Max)


subsection \<open>What a commit delivers\<close>

text \<open>The contract between \<open>commit\<close> and the telemetry provider: the emitter keeps its own
  contract, and beginning or flushing a commit neither adds nor removes what was emitted.\<close>

locale commit_target = emitter emit recs mets view
  for emit :: "'w emit" and recs mets view +
  fixes env :: "'w env"
  assumes target: "emitter_of env = Some emit"
    and begin_keeps: "recs (fst (begin_commit env w)) = recs w \<and> mets (fst (begin_commit env w)) = mets w"
    and flush_keeps: "commit_flush env st = (st', r) \<Longrightarrow>
      recs (fst st') = recs (fst st) \<and> mets (fst st') = mets (fst st)"
begin

lemma replay_chunk_recs:
  "replay_chunk env c st = (st', None) \<Longrightarrow>
   recs (fst st') = recs (fst st) @ filter is_record (concat (map (\<lambda>r. view (record_emission r)) c)) \<and>
   mets (fst st') = mets (fst st) @ filter (\<lambda>e. is_metric e) (concat (map (\<lambda>r. view (record_emission r)) c))"
proof (induction c arbitrary: st)
  case Nil
  then show ?case by simp
next
  case (Cons r c)
  obtain w seq where st: "st = (w, seq)" by (cases st)
  from Cons.prems obtain st1 where r: "replay_record env st r = (st1, None)"
    and c: "replay_chunk env c st1 = (st', None)" by (auto simp: and_then_ok)
  from r st obtain w1 where w1: "st1 = (w1, seq)" "emit w (record_emission r) = (w1, None)"
    by (auto simp: replay_record_def env_emit_def target split: prod.splits)
  from Cons.IH [OF c] emit_recs [OF w1(2)] emit_mets [OF w1(2)] w1(1) st show ?case by simp
qed

lemma run_chunks_recs:
  "run_chunks env cs st = (st', None) \<Longrightarrow>
   recs (fst st') = recs (fst st) @ filter is_record (concat (map (\<lambda>r. view (record_emission r)) (concat cs))) \<and>
   mets (fst st') = mets (fst st) @ filter (\<lambda>e. is_metric e) (concat (map (\<lambda>r. view (record_emission r)) (concat cs)))"
proof (induction cs arbitrary: st)
  case Nil
  then show ?case by simp
next
  case (Cons c cs)
  from Cons.prems obtain st1 st2 where "replay_chunk env c st = (st1, None)"
    "commit_flush env st1 = (st2, None)" "run_chunks env cs st2 = (st', None)"
    by (auto simp: and_then_ok)
  with replay_chunk_recs [of c st st1] flush_keeps [of st1 st2 None] Cons.IH [of st2]
  show ?case by simp
qed

end

lemma commit_chunks:
  assumes "commit env b w = (w', None)"
  shows "\<exists>cs seq'. cs \<noteq> [] \<and> concat cs = records b \<and> (\<forall>c \<in> set cs. chunk_ok c) \<and>
    run_chunks env cs (begin_commit env w) = ((w', seq'), None)"
proof -
  from assms obtain seq' where
    "commit_records env (records b) 0 0 (begin_commit env w) = ((w', seq'), None)"
    by (auto simp: commit_def split: if_splits prod.splits)
  from commit_records_chunks [OF this open_ok_Nil] show ?thesis by fastforce
qed

context commit_target
begin

lemma commit_recs:
  assumes "commit env b w = (w', None)"
  shows "recs w' = recs w @ filter is_record (concat (map (\<lambda>r. view (record_emission r)) (records b))) \<and>
    mets w' = mets w @ filter (\<lambda>e. is_metric e) (concat (map (\<lambda>r. view (record_emission r)) (records b)))"
proof -
  from commit_chunks [OF assms] obtain cs seq' where cs: "concat cs = records b"
    "run_chunks env cs (begin_commit env w) = ((w', seq'), None)" by blast
  from run_chunks_recs [OF this(2)] begin_keeps [of w] cs(1) show ?thesis by simp
qed

end

subsection \<open>Properties\<close>

text \<open>C5. A commit that succeeds replayed every record of the window, in order, in chunks of at most
  512 records and 512 KiB (a larger span, of at most 1 MiB, is a chunk of its own), and after
  each chunk the exporters were flushed and reported no failure.\<close>

theorem commit_delivers_chunks:
  assumes "commit env b w = (w', None)"
  shows "\<exists>cs seq'. concat cs = records b \<and> (\<forall>c \<in> set cs. chunk_ok c) \<and>
    run_chunks env cs (begin_commit env w) = ((w', seq'), None)"
  using commit_chunks [OF assms] by blast

text \<open>An environment that records the calls: emissions, and flushes with their sequence.\<close>

definition trace_env :: "(emission + 64 word) list env" where
  "trace_env = \<lparr>ctx_err = \<lambda>w. (w, None), clock = \<lambda>w. (w, 0), store_io = \<lambda>w. (w, \<lambda>_. None),
     emitter_of = Some (\<lambda>w e. (w @ [Inl e], None)),
     flusher = Some (\<lambda>w. (w, of_nat (length w)), \<lambda>w seq. (w @ [Inr seq], None)),
     start_commit = \<lambda>d w. w, commit_ctx_err = \<lambda>w. (w, None), await_timer = \<lambda>d w. (w, True),
     commit_timeout_override = 0, commit_budget_override = 0\<rparr>"

definition sample_log :: "string \<Rightarrow> buffered_record" where
  "sample_log n = \<lparr>br_event = n, br_body = [], br_at = 7, br_severity = 9, br_attrs = [],
     br_span = None\<rparr>"

theorem commit_delivers_chunks_witness:
  "let b = \<lparr>records = [sample_log ''a'', sample_log ''b''], metrics = []\<rparr> in
   \<exists>cs. concat cs = records b \<and>
     (\<forall>c \<in> set cs. chunk_ok c) \<and> (\<exists>w' seq'. run_chunks trace_env cs ([], 0) = ((w', seq'), None) \<and>
     w' = [Inl (ELogEvent ''a'' [] 7 9 []), Inl (ELogEvent ''b'' [] 7 9 []), Inr 0])"
proof -
  let ?b = "\<lparr>records = [sample_log ''a'', sample_log ''b''], metrics = []\<rparr>"
  let ?w = "[Inl (ELogEvent ''a'' [] 7 9 []), Inl (ELogEvent ''b'' [] 7 9 []), Inr 0]"
  have "commit trace_env ?b [] = (?w, None)"
    by (simp add: commit_def begin_commit_def trace_env_def sample_log_def record_bytes_def
        attrs_bytes_def commit_chunk_bytes_def commit_chunk_items_def replay_record_def env_emit_def
        commit_flush_def record_emission_def)
  from commit_delivers_chunks [OF this] show ?thesis
    by (simp add: begin_commit_def trace_env_def)
qed

text \<open>A flush whose failure counts as a rejected payload failed for no other reason: each failed
  pipeline and each failure recorded since the commit began is itself a payload rejection (a
  400 or a partial success) or carries no status, and at least one is a rejection. One failure of any
  other kind (a 503, a timeout) makes the window retry.\<close>

theorem flush_rejection_exclusive:
  assumes "flush_commit log_err trace_err since o' = Some e" and "payload_rejected e"
  shows "(\<forall>x. log_err = Some x \<longrightarrow> payload_rejected (ExportFailure ''logs'' x) \<or>
                neutral_error (ExportFailure ''logs'' x)) \<and>
    (\<forall>x. trace_err = Some x \<longrightarrow> payload_rejected (ExportFailure ''traces'' x) \<or>
                neutral_error (ExportFailure ''traces'' x)) \<and>
    (eo_seq o' \<noteq> since \<longrightarrow> (\<forall>f \<in> set (eo_failures o'). since < of_seq f \<longrightarrow>
        payload_rejected (ExportFailure (of_signal f) (of_err f)) \<or>
        neutral_error (ExportFailure (of_signal f) (of_err f))))"
proof -
  have join: "payload_rejected x \<or> neutral_error x"
    if "errors_join es = Some j" "payload_rejected j \<or> neutral_error j" "Some x \<in> set es" for es j x
  proof -
    from that(1) have j: "j = ErrJoin (List.map_filter id es)" "List.map_filter id es \<noteq> []"
      by (auto simp: errors_join_def split: list.splits)
    have x: "x \<in> set (List.map_filter id es)" using that(3) by (force simp: map_filter_def)
    from that(2) j x show ?thesis
      using payload_rejected_join [OF j(2)]
      by (auto simp: neutral_error_def text_lines_join)
  qed
  note top = join [OF assms(1) [unfolded flush_commit_def] disjI1 [OF assms(2)]]
  have "payload_rejected (ExportFailure (of_signal f) (of_err f)) \<or>
      neutral_error (ExportFailure (of_signal f) (of_err f))"
    if seq: "eo_seq o' \<noteq> since" and f: "f \<in> set (eo_failures o')" "since < of_seq f" for f
  proof -
    from seq obtain j where j: "failed_since since o' = Some j"
      using errors_join_None by (fastforce simp: failed_since_def)
    with top have "payload_rejected j \<or> neutral_error j" by simp
    from join [OF j [unfolded failed_since_def if_P [OF seq]] this] f show ?thesis by auto
  qed
  with top show ?thesis by auto
qed

theorem flush_rejection_exclusive_witness:
  "\<exists>e. flush_commit (Some (safe_status 400 ''Bad Request'')) None 0 new_observer = Some e \<and>
     payload_rejected e \<and> payload_rejected (ExportFailure ''logs'' (safe_status 400 ''Bad Request'')) \<and>
     \<not> payload_rejected (ExportFailure ''logs'' (safe_status 503 ''Service Unavailable''))"
proof -
  let ?e = "safe_status 400 ''Bad Request''"
  have codes: "itoa 400 = ''400''" "itoa 503 = ''503''" by code_simp+
  note eval = payload_rejected_def text_lines_def safe_status_def codes trim_space_def is_space_def
    ignored_line_def background_marker_def payload_line_def status_line_def has_prefix_Cons
  have r: "payload_rejected (ExportFailure ''logs'' ?e)" by (simp add: eval)
  have n: "\<not> payload_rejected (ExportFailure ''logs'' (safe_status 503 ''Service Unavailable''))"
    by (simp add: eval)
  have flush: "flush_commit (Some ?e) None 0 new_observer = Some (ErrJoin [ExportFailure ''logs'' ?e])"
    by (simp add: flush_commit_def failed_since_def new_observer_def errors_join_def
        List.map_filter_simps)
  have "payload_rejected (ErrJoin [ExportFailure ''logs'' ?e])"
    using r payload_rejected_join [of "[ExportFailure ''logs'' ?e]"] by simp
  from flush_rejection_exclusive [OF flush this] flush this r n show ?thesis by blast
qed

text \<open>\<open>gapFloor\<close> is the latest floor of all retention gaps anywhere in the error tree, and the zero
  time when there is none: the window skip resumes after every floor the sources reported.\<close>

theorem gap_floor_latest:
  "gap_floor e = Max (insert 0 {fl. \<exists>ds. RetentionGapError ds fl \<in> set (err_nodes e)})"
proof -
  have "gap_of x = Some fl \<longleftrightarrow> (\<exists>ds. x = RetentionGapError ds fl)" for x fl
    by (cases x rule: gap_of.cases) auto
  then have "gap_floors e = {fl. \<exists>ds. RetentionGapError ds fl \<in> set (err_nodes e)}"
    by (auto simp: gap_floors_def)
  then show ?thesis by (simp add: gap_floor_Max)
qed

end
