(* ===== verification/Scheduler.thy ===== *)
theory Scheduler
  imports Commit
begin

text \<open>
  The scheduler, \<open>internal/collector/scheduler.go\<close>: one run of a collector (\<open>RunOnce\<close>), the window
  loop (\<open>runWindow\<close>), the commit of one window (\<open>commitWindow\<close>), the retention-gap skip and the
  process-local state that adapts windows and payload budgets to slow exports.

  The mutex \<open>commitMu\<close> protects every access to the scheduler's maps; the maps are keyed by the
  collector and each collector is run by one goroutine, so a run is modelled as a sequential
  function and the steps of the other collectors are changes of the world \<open>'w\<close>. A panic of a
  collector is recovered by \<open>RunOnce\<close> as an error and unwinds through code without effects, so a
  collector that panics is one that returns that error. Durations measured for the poll summary are
  not modelled. A hook (\<open>OnStart\<close>, \<open>OnWindowStart\<close>, \<open>OnCheckpoint\<close>, \<open>OnPoll\<close>) is an entry of
  \<open>hooks\<close>.
\<close>

record reduced_budget =
  rb_bytes :: int
  rb_since :: time

record rejection_state =
  rj_from :: time
  rj_to :: time
  rj_count :: int

record poll_summary =
  ps_outcome :: string
  ps_windows :: int
  ps_logs :: int
  ps_spans :: int

datatype hook =
    HookStart string time
  | HookWindowStart string time
  | HookCheckpoint string time
  | HookPoll string "gerr option"

record 'w sched =
  world :: 'w
  store :: "file_store \<times> disk"
  failed400 :: "string \<rightharpoonup> rejection_state"
  adaptive_windows :: "string \<rightharpoonup> duration"
  commit_budgets :: "string \<rightharpoonup> reduced_budget"
  summary :: poll_summary
  hooks :: "hook list"

record 'w window_collector =
  wc_name :: string
  wc_lag :: duration
  wc_lag_at :: "(time \<Rightarrow> duration) option"
  wc_adaptive :: "bool option"
  wc_collect :: "'w \<Rightarrow> time \<Rightarrow> time \<Rightarrow> 'w \<times> buffer \<times> time \<times> gerr option"
  wc_collect_budget :: "('w \<Rightarrow> time \<Rightarrow> time \<Rightarrow> int \<Rightarrow> 'w \<times> buffer \<times> time \<times> gerr option) option"

datatype 'w collector =
    WindowCollector "'w window_collector"
  | SnapshotCollector string "'w \<Rightarrow> 'w \<times> gerr option"
  | PlainCollector string

record 'w entry =
  en_collector :: "'w collector"
  en_interval :: duration
  en_lookback :: duration
  en_max_window :: duration

fun collector_name :: "'w collector \<Rightarrow> string" where
  "collector_name (WindowCollector c) = wc_name c"
| "collector_name (SnapshotCollector n _) = n"
| "collector_name (PlainCollector n) = n"

subsection \<open>Constants\<close>

definition commit_timeout :: duration where "commit_timeout = 90 * second"
definition commit_budget_bytes :: int where "commit_budget_bytes = 16 * 1024 * 1024"
definition commit_budget_recovery :: duration where "commit_budget_recovery = hour"
definition max_windows_per_tick :: nat where "max_windows_per_tick = 4"

definition effective_commit_timeout :: "'w env \<Rightarrow> duration" where
  "effective_commit_timeout env =
     (if commit_timeout_override env > 0 then commit_timeout_override env else commit_timeout)"

definition configured_commit_budget :: "'w env \<Rightarrow> int" where
  "configured_commit_budget env =
     (if commit_budget_override env > 0 then commit_budget_override env else commit_budget_bytes)"

subsection \<open>Access to the world and the stores\<close>

definition with_world :: "('w \<Rightarrow> 'w \<times> 'a) \<Rightarrow> 'w sched \<Rightarrow> 'w sched \<times> 'a" where
  "with_world f s = (case f (world s) of (w, x) \<Rightarrow> (s\<lparr>world := w\<rparr>, x))"

definition add_hook :: "hook \<Rightarrow> 'w sched \<Rightarrow> 'w sched" where
  "add_hook h s = s\<lparr>hooks := hooks s @ [h]\<rparr>"

definition cursor :: "'w sched \<Rightarrow> string \<Rightarrow> time option" where
  "cursor s n = store_get (store s) n"

definition set_cursor ::
  "'w env \<Rightarrow> string \<Rightarrow> time \<Rightarrow> 'w sched \<Rightarrow> 'w sched \<times> gerr option" where
  "set_cursor env n t s =
     (case with_world (store_io env) s of
        (s1, io) \<Rightarrow> (case store_set io (store s1) n t of (st, err) \<Rightarrow> (s1\<lparr>store := st\<rparr>, err)))"

definition emit_event :: "'w env \<Rightarrow> emission \<Rightarrow> 'w sched \<Rightarrow> 'w sched \<times> gerr option" where
  "emit_event env e s = with_world (\<lambda>w. env_emit env w e) s"

definition clear_failed :: "string \<Rightarrow> 'w sched \<Rightarrow> 'w sched" where
  "clear_failed n s = s\<lparr>failed400 := (failed400 s)(n := None)\<rparr>"

subsection \<open>Collector capabilities\<close>

definition adaptive_window :: "'w window_collector \<Rightarrow> bool" where
  "adaptive_window c = (case wc_adaptive c of Some a \<Rightarrow> a | None \<Rightarrow> False)"

definition budgeted_window :: "'w window_collector \<Rightarrow> bool" where
  "budgeted_window c \<longleftrightarrow> wc_collect_budget c \<noteq> None \<and> adaptive_window c"

definition effective_commit_window :: "'w entry \<Rightarrow> duration" where
  "effective_commit_window e = (if en_max_window e > 0 then en_max_window e else 0)"

subsection \<open>Adaptive limits\<close>

definition source_window_limit :: "'w window_collector \<Rightarrow> 'w entry \<Rightarrow> 'w sched \<Rightarrow> duration" where
  "source_window_limit c e s =
     (let limit = effective_commit_window e in
      if \<not> adaptive_window c then limit
      else
        (let reduced = (case adaptive_windows s (wc_name c) of Some d \<Rightarrow> d | None \<Rightarrow> 0);
             limit = (if reduced > 0 \<and> (limit \<le> 0 \<or> reduced < limit) then reduced else limit)
         in if limit > 0 \<and> limit < second then limit else dur_trunc limit second))"

definition reduce_source_window ::
  "'w window_collector \<Rightarrow> time \<Rightarrow> time \<Rightarrow> gerr \<Rightarrow> 'w sched \<Rightarrow> 'w sched \<times> gerr" where
  "reduce_source_window c fr to err s =
     (let window = time_sub to fr;
          retry = max second (dur_trunc (go_quot window 2) second);
          current = (case adaptive_windows s (wc_name c) of Some d \<Rightarrow> d | None \<Rightarrow> 0);
          s1 = (if current = 0 \<or> retry < current
                then s\<lparr>adaptive_windows := (adaptive_windows s)(wc_name c \<mapsto> retry)\<rparr> else s)
      in (s1, CommitDeadlineError (wc_name c) window retry 0 0 err))"

definition commit_budget :: "'w env \<Rightarrow> 'w window_collector \<Rightarrow> 'w sched \<Rightarrow> int" where
  "commit_budget env c s =
     (case commit_budgets s (wc_name c) of
        Some r \<Rightarrow> if rb_bytes r > 0 then rb_bytes r else configured_commit_budget env
      | None \<Rightarrow> configured_commit_budget env)"

definition reduce_commit_budget ::
  "'w env \<Rightarrow> 'w window_collector \<Rightarrow> int \<Rightarrow> gerr \<Rightarrow> 'w sched \<Rightarrow> 'w sched \<times> gerr" where
  "reduce_commit_budget env c budget err s =
     (let retry = max (min (configured_commit_budget env) commit_chunk_bytes) (go_quot budget 2);
          retry = (if retry > budget then budget else retry)
      in case with_world (clock env) s of
           (s1, now) \<Rightarrow>
             (s1\<lparr>commit_budgets := (commit_budgets s1)(wc_name c \<mapsto> \<lparr>rb_bytes = retry, rb_since = now\<rparr>)\<rparr>,
              CommitDeadlineError (wc_name c) 0 0 budget retry err))"

definition restore_commit_budget :: "'w env \<Rightarrow> 'w window_collector \<Rightarrow> 'w sched \<Rightarrow> 'w sched" where
  "restore_commit_budget env c s =
     (case commit_budgets s (wc_name c) of
        None \<Rightarrow> s
      | Some reduced \<Rightarrow>
          (case with_world (clock env) s of
             (s1, now) \<Rightarrow>
               if time_sub now (rb_since reduced) < commit_budget_recovery then s1
               else
                 (let restored = rb_bytes reduced * 2 in
                  if restored < configured_commit_budget env then
                    (case with_world (clock env) s1 of
                       (s2, now2) \<Rightarrow>
                         s2\<lparr>commit_budgets :=
                           (commit_budgets s2)(wc_name c \<mapsto> \<lparr>rb_bytes = restored, rb_since = now2\<rparr>)\<rparr>)
                  else s1\<lparr>commit_budgets := (commit_budgets s1)(wc_name c := None)\<rparr>)))"

subsection \<open>Retention gaps\<close>

text \<open>\<open>strconv.FormatFloat(x, 'f', 0, 64)\<close>: rounded to an integer, ties to even.\<close>

definition round_half_even :: "rat \<Rightarrow> int" where
  "round_half_even x =
     (let f = \<lfloor>x\<rfloor>; d = x - of_int f in
      if d < 1 / 2 then f else if d > 1 / 2 then f + 1 else if even f then f else f + 1)"

definition dur_seconds :: "duration \<Rightarrow> f64" where
  "dur_seconds d = of_int d / of_int second"

definition gap_mark :: "'w window_collector \<Rightarrow> 'w entry \<Rightarrow> time \<Rightarrow> time \<Rightarrow> time" where
  "gap_mark c e fl to =
     (let mark = time_trunc (fl + (en_interval e + wc_lag c + minute) + (second - 1)) second
      in if mark > to then to else mark)"

definition gap_event :: "string \<Rightarrow> time \<Rightarrow> time \<Rightarrow> f64 \<Rightarrow> time \<Rightarrow> emission" where
  "gap_event name fr fl seconds now =
     ELogEvent ''cf2otel.window.gap'' ''retention floor skipped window'' now 0
       [\<lparr>key = ''cf2otel.collector'', val = name\<rparr>,
        \<lparr>key = ''cf2otel.window.from'', val = rfc3339 fr\<rparr>,
        \<lparr>key = ''cf2otel.window.floor'', val = rfc3339 fl\<rparr>,
        \<lparr>key = ''cf2otel.window.gap_seconds'', val = itoa (round_half_even seconds)\<rparr>]"

definition flush_gap :: "'w env \<Rightarrow> 64 word \<Rightarrow> 'w \<Rightarrow> 'w \<times> gerr option" where
  "flush_gap env seq w =
     (case flusher env of None \<Rightarrow> (w, None) | Some (_, flush) \<Rightarrow> flush w seq)"

definition skip_gap ::
  "'w env \<Rightarrow> 'w window_collector \<Rightarrow> 'w entry \<Rightarrow> time \<Rightarrow> time \<Rightarrow> gerr \<Rightarrow> 'w sched \<Rightarrow>
   'w sched \<times> gerr option" where
  "skip_gap env c e fr to cause s =
     (let fl = gap_floor cause; mark = gap_mark c e fl to in
      if \<not> mark > fr then (s, Some cause)
      else
        (let s1 = s\<lparr>world := start_commit env (effective_commit_timeout env) (world s)\<rparr>;
             seconds = dur_seconds (time_sub mark fr)
         in case with_world (begin_commit env) s1 of (s2, seq) \<Rightarrow>
            case with_world (clock env) s2 of (s3, now) \<Rightarrow>
            and_then (emit_event env (gap_event (wc_name c) fr fl seconds now) s3) (\<lambda>s4.
            and_then (with_world (flush_gap env seq) s4) (\<lambda>s5.
            and_then (emit_event env (ECounter ''cf2otel.window.gap'' seconds
                        [\<lparr>key = ''cf2otel.collector'', val = wc_name c\<rparr>]) s5) (\<lambda>s6.
            and_then (set_cursor env (wc_name c) mark s6) (\<lambda>s7.
              (add_hook (HookCheckpoint (wc_name c) mark) (clear_failed (wc_name c) s7), None)))))))"


subsection \<open>One window\<close>

text \<open>A window that was rejected before is offered again with the same end.\<close>

definition pending_window :: "string \<Rightarrow> time \<Rightarrow> time \<Rightarrow> 'w sched \<Rightarrow> 'w sched \<times> time" where
  "pending_window n fr to s =
     (case failed400 s n of
        Some p \<Rightarrow> if rj_from p = fr then (s, rj_to p) else (clear_failed n s, to)
      | None \<Rightarrow> (s, to))"

text \<open>The strike counter: consecutive rejections of one window; the third drops it.\<close>

definition note_failure ::
  "string \<Rightarrow> time \<Rightarrow> time \<Rightarrow> gerr \<Rightarrow> (string \<rightharpoonup> rejection_state) \<Rightarrow>
   (string \<rightharpoonup> rejection_state) \<times> bool" where
  "note_failure n fr to err m =
     (if payload_rejected err then
        (let p = (case m n of Some p \<Rightarrow> p | None \<Rightarrow> \<lparr>rj_from = 0, rj_to = 0, rj_count = 0\<rparr>);
             p = (if rj_from p \<noteq> fr \<or> rj_to p \<noteq> to
                  then \<lparr>rj_from = fr, rj_to = to, rj_count = 0\<rparr> else p);
             p = p\<lparr>rj_count := rj_count p + 1\<rparr>
         in (m(n \<mapsto> p), rj_count p \<ge> 3))
      else (m(n := None), False))"

definition collect_buffer ::
  "'w env \<Rightarrow> 'w window_collector \<Rightarrow> time \<Rightarrow> time \<Rightarrow> 'w sched \<Rightarrow> 'w sched \<times> buffer \<times> time \<times> gerr option"
where
  "collect_buffer env c fr to s =
     (case (if adaptive_window c then wc_collect_budget c else None) of
        Some collect \<Rightarrow> with_world (\<lambda>w. collect w fr to (commit_budget env c s)) s
      | None \<Rightarrow> with_world (\<lambda>w. wc_collect c w fr to) s)"

text \<open>What the deadline error becomes: only after both the required-signal deadline and the commit's own
  context have expired is anything learned from it.\<close>

definition adapt_deadline ::
  "'w env \<Rightarrow> 'w window_collector \<Rightarrow> int \<Rightarrow> time \<Rightarrow> time \<Rightarrow> gerr \<Rightarrow> 'w sched \<Rightarrow> 'w sched \<times> gerr" where
  "adapt_deadline env c budget fr to err s =
     (if adaptive_window c \<and> errors_is err ErrDeadlineExceeded then
        (case with_world (commit_ctx_err env) s of
           (s1, ce) \<Rightarrow>
             if (case ce of Some x \<Rightarrow> errors_is x ErrDeadlineExceeded | None \<Rightarrow> False) then
               if budgeted_window c then reduce_commit_budget env c budget err s1
               else reduce_source_window c fr to err s1
             else (s1, err))
      else (s, err))"

definition failure_counter :: "string \<Rightarrow> gerr \<Rightarrow> bool \<Rightarrow> emission" where
  "failure_counter n err dropped =
     ECounter ''cf2otel.window.commit_failures'' 1
       [\<lparr>key = ''cf2otel.collector'', val = n\<rparr>,
        \<lparr>key = ''cf2otel.export.signal'', val = failure_signals (Some err)\<rparr>,
        \<lparr>key = ''outcome'', val = (if dropped then ''dropped'' else ''retry'')\<rparr>]"

text \<open>The failure branch: the error to return, or None when the window is dropped. The error of the
  counter is ignored, a nil emitter panics.\<close>

definition commit_failed ::
  "'w env \<Rightarrow> 'w window_collector \<Rightarrow> int \<Rightarrow> time \<Rightarrow> time \<Rightarrow> gerr \<Rightarrow> 'w sched \<Rightarrow> 'w sched \<times> gerr option"
where
  "commit_failed env c budget fr to err s =
     (case adapt_deadline env c budget fr to err s of
        (s1, err1) \<Rightarrow>
          (case note_failure (wc_name c) fr to err1 (failed400 s1) of
             (m, dropped) \<Rightarrow>
               (let s2 = s1\<lparr>failed400 := m\<rparr> in
                if emitter_of env = None then (s2, Some nil_emitter_panic)
                else
                  (case emit_event env (failure_counter (wc_name c) err1 dropped) s2 of
                     (s3, _) \<Rightarrow>
                       if \<not> dropped then (s3, Some err1)
                       else (clear_failed (wc_name c) s3, None)))))"

definition count_delivered :: "buffer \<Rightarrow> poll_summary \<Rightarrow> poll_summary" where
  "count_delivered b ps =
     ps\<lparr>ps_windows := ps_windows ps + 1,
        ps_spans := ps_spans ps + int (length (filter (\<lambda>r. br_span r \<noteq> None) (records b))),
        ps_logs := ps_logs ps + sum_list (map (\<lambda>r. case br_span r of
           Some sp \<Rightarrow> int (length (sp_logs sp)) | None \<Rightarrow> 1) (records b))\<rparr>"

definition replay_metrics :: "'w env \<Rightarrow> buffer \<Rightarrow> 'w sched \<Rightarrow> 'w sched \<times> gerr option" where
  "replay_metrics env b s =
     with_world (\<lambda>w. emit_all (env_emit env) w (map metric_emission (metrics b))) s"

text \<open>The success branch before the checkpoint.\<close>

definition commit_succeeded ::
  "'w env \<Rightarrow> 'w window_collector \<Rightarrow> buffer \<Rightarrow> 'w sched \<Rightarrow> 'w sched \<times> gerr option" where
  "commit_succeeded env c b s =
     (let s1 = clear_failed (wc_name c) s;
          s2 = (if budgeted_window c then restore_commit_budget env c s1 else s1)
      in replay_metrics env b s2)"

definition finish_window ::
  "'w env \<Rightarrow> 'w window_collector \<Rightarrow> bool \<Rightarrow> buffer \<Rightarrow> time \<Rightarrow> 'w sched \<Rightarrow> 'w sched \<times> gerr option" where
  "finish_window env c delivered b mark s =
     and_then (set_cursor env (wc_name c) mark s) (\<lambda>s1.
       (add_hook (HookCheckpoint (wc_name c) mark)
          (if delivered then s1\<lparr>summary := count_delivered b (summary s1)\<rparr> else s1), None))"

text \<open>Guards on what the collector returned.\<close>

definition mark_error :: "'w window_collector \<Rightarrow> time \<Rightarrow> time \<Rightarrow> time \<Rightarrow> gerr option" where
  "mark_error c fr to mark =
     (if mark > to \<or> \<not> mark > fr then
        Some (ErrNew (''collector '' @ wc_name c @ '' returned invalid high-water mark''))
      else if adaptive_window c \<and> (fr mod second \<noteq> 0 \<or> to mod second \<noteq> 0 \<or> mark mod second \<noteq> 0 \<or>
                mark \<noteq> to \<and> \<not> budgeted_window c) then
        Some (ErrNew (''collector '' @ wc_name c
                @ '': adaptive commit requires a complete whole-second source window''))
      else None)"

definition deliver_window ::
  "'w env \<Rightarrow> 'w window_collector \<Rightarrow> int \<Rightarrow> time \<Rightarrow> time \<Rightarrow> buffer \<Rightarrow> time \<Rightarrow> 'w sched \<Rightarrow>
   'w sched \<times> gerr option" where
  "deliver_window env c budget fr to b mark s =
     (let s1 = s\<lparr>world := start_commit env (effective_commit_timeout env) (world s)\<rparr> in
      case with_world (commit env b) s1 of
        (s2, Some err) \<Rightarrow>
          and_then (commit_failed env c budget fr to err s2) (finish_window env c False b mark)
      | (s2, None) \<Rightarrow>
          and_then (commit_succeeded env c b s2) (finish_window env c True b mark))"

definition commit_window ::
  "'w env \<Rightarrow> 'w window_collector \<Rightarrow> 'w entry \<Rightarrow> time \<Rightarrow> time \<Rightarrow> 'w sched \<Rightarrow>
   'w sched \<times> time \<times> gerr option" where
  "commit_window env c e fr to0 s =
     (case pending_window (wc_name c) fr to0 s of (s1, to) \<Rightarrow>
      let budget = commit_budget env c s1 in
      case collect_buffer env c fr to s1 of
        (s2, b, mark, Some err) \<Rightarrow>
          (case errors_as gap_of err of
             Some _ \<Rightarrow>
               (case skip_gap env c e fr to err s2 of
                  (s3, Some x) \<Rightarrow> (s3, fr, Some x)
                | (s3, None) \<Rightarrow>
                    (s3, (case cursor s3 (wc_name c) of Some m \<Rightarrow> m | None \<Rightarrow> 0), None))
           | None \<Rightarrow> (s2, fr, Some err))
      | (s2, b, mark, None) \<Rightarrow>
          (case with_world (ctx_err env) s2 of
             (s3, Some err) \<Rightarrow> (s3, fr, Some err)
           | (s3, None) \<Rightarrow>
               (case mark_error c fr to mark of
                  Some err \<Rightarrow> (s3, fr, Some err)
                | None \<Rightarrow>
                    (case deliver_window env c budget fr to b mark s3 of
                       (s4, Some err) \<Rightarrow> (s4, fr, Some err)
                     | (s4, None) \<Rightarrow> (s4, mark, None)))))"

subsection \<open>One run\<close>

text \<open>The loop of \<open>runWindow\<close>; \<open>n\<close> windows are left of the four a tick may commit.\<close>

fun window_loop ::
  "'w env \<Rightarrow> 'w window_collector \<Rightarrow> 'w entry \<Rightarrow> time \<Rightarrow> nat \<Rightarrow> bool \<Rightarrow> time \<Rightarrow> 'w sched \<Rightarrow>
   'w sched \<times> gerr option" where
  "window_loop env c e to 0 truncated fr s = (s, None)"
| "window_loop env c e to (Suc n) truncated fr s =
     (if \<not> fr < to then (s, None)
      else
        (case with_world (ctx_err env) s of
           (s1, Some err) \<Rightarrow> (s1, Some err)
         | (s1, None) \<Rightarrow>
             (let limit = source_window_limit c e s1; first = (Suc n = max_windows_per_tick) in
              if adaptive_window c \<and> limit > 0 \<and> limit < second then
                (s1, Some (ErrNew (''collector '' @ wc_name c
                       @ '': adaptive source-window bound must be at least one second'')))
              else if \<not> first \<and> \<not> truncated \<and> (limit \<le> 0 \<or> time_sub to fr \<le> limit) then (s1, None)
              else
                (let window_to = (if limit > 0 \<and> time_sub to fr > limit then fr + limit else to) in
                 case commit_window env c e fr window_to s1 of
                   (s2, _, Some err) \<Rightarrow> (s2, Some err)
                 | (s2, mark, None) \<Rightarrow>
                     if \<not> mark > fr then (s2, None)
                     else
                       (let s3 = (if \<not> first \<and> emitter_of env \<noteq> None then
                                    fst (emit_event env (ECounter ''cf2otel.window.catchup_windows'' 1
                                      [\<lparr>key = ''cf2otel.collector'', val = wc_name c\<rparr>]) s2)
                                  else s2)
                        in window_loop env c e to n (budgeted_window c \<and> mark < window_to) mark s3)))))"

definition window_lag :: "'w window_collector \<Rightarrow> time \<Rightarrow> duration" where
  "window_lag c now = (case wc_lag_at c of Some f \<Rightarrow> f now | None \<Rightarrow> wc_lag c)"

definition run_window ::
  "'w env \<Rightarrow> 'w window_collector \<Rightarrow> 'w entry \<Rightarrow> 'w sched \<Rightarrow> 'w sched \<times> gerr option" where
  "run_window env c e s =
     and_then (with_world (ctx_err env) s) (\<lambda>s0.
     case with_world (clock env) s0 of (s1, now) \<Rightarrow>
     let to = time_trunc (now - window_lag c now) second in
     let loop = (\<lambda>fr s'. window_loop env c e to max_windows_per_tick False fr
                    (add_hook (HookWindowStart (wc_name c) fr) s')) in
     case cursor s1 (wc_name c) of
       Some m \<Rightarrow> loop (time_trunc m second) s1
     | None \<Rightarrow>
         if en_lookback e = 0 then
           and_then (set_cursor env (wc_name c) to s1)
             (\<lambda>s2. (add_hook (HookCheckpoint (wc_name c) to) s2, None))
         else
           (let fr = to - en_lookback e;
                fr = (if adaptive_window c then time_trunc fr second else fr)
            in and_then (set_cursor env (wc_name c) fr s1) (loop fr)))"

definition empty_summary :: poll_summary where
  "empty_summary = \<lparr>ps_outcome = [], ps_windows = 0, ps_logs = 0, ps_spans = 0\<rparr>"

definition run_collector :: "'w env \<Rightarrow> 'w entry \<Rightarrow> 'w sched \<Rightarrow> 'w sched \<times> gerr option" where
  "run_collector env e s =
     (case en_collector e of
        WindowCollector c \<Rightarrow> run_window env c e s
      | SnapshotCollector n collect \<Rightarrow> with_world collect s
      | PlainCollector n \<Rightarrow>
          (s, Some (ErrNew (''collector '' @ n @ '' implements no collection mode''))))"

definition run_once :: "'w env \<Rightarrow> 'w entry \<Rightarrow> 'w sched \<Rightarrow> 'w sched \<times> gerr option" where
  "run_once env e s =
     (case with_world (clock env) (s\<lparr>summary := empty_summary\<rparr>) of
        (s1, now) \<Rightarrow>
          (case run_collector env e (add_hook (HookStart (collector_name (en_collector e)) now) s1) of
             (s2, None) \<Rightarrow> (s2\<lparr>summary := (summary s2)\<lparr>ps_outcome := ''success''\<rparr>\<rparr>, None)
           | (s2, Some err) \<Rightarrow>
               (case with_world (ctx_err env) s2 of
                  (s3, ce) \<Rightarrow>
                    (s3\<lparr>summary := (summary s3)\<lparr>ps_outcome :=
                        (if ce \<noteq> None \<and> errors_is err ErrCanceled then ''canceled'' else ''error'')\<rparr>\<rparr>,
                     Some err))))"

subsection \<open>The collector's goroutine\<close>

text \<open>FNV-1a of the name, 32 bits.\<close>

definition fnv32a :: "string \<Rightarrow> 32 word" where
  "fnv32a s = foldl (\<lambda>h c. (xor h (of_nat (of_char c))) * 16777619) 2166136261 s"

text \<open>A product of two \<open>time.Duration\<close>s wraps at 64 bits.\<close>

definition start_delay :: "string \<Rightarrow> duration \<Rightarrow> duration" where
  "start_delay n interval =
     (let delay = go_quot (wrap_int64 (int (unat (fnv32a n)) mod 1000 * interval)) 1000
      in if delay > minute then minute else delay)"

text \<open>The ticks of \<open>runEntry\<close>; the loop has no bound of its own, \<open>n\<close> bounds the ticks observed.\<close>

fun run_ticks :: "'w env \<Rightarrow> 'w entry \<Rightarrow> nat \<Rightarrow> 'w sched \<Rightarrow> 'w sched" where
  "run_ticks env e 0 s = s"
| "run_ticks env e (Suc n) s =
     (case with_world (ctx_err env) s of
        (s1, Some _) \<Rightarrow> s1
      | (s1, None) \<Rightarrow>
          (case run_once env e s1 of
             (s2, err) \<Rightarrow>
               (case with_world (ctx_err env) s2 of
                  (s3, ce) \<Rightarrow>
                    if ce \<noteq> None \<and> (case err of Some x \<Rightarrow> errors_is x ErrCanceled | None \<Rightarrow> False)
                    then s3
                    else
                      (case with_world (clock env) s3 of
                         (s4, now) \<Rightarrow>
                           (case with_world (await_timer env (en_interval e))
                                   (add_hook (HookPoll (collector_name (en_collector e)) err) s4) of
                              (s5, False) \<Rightarrow> s5
                            | (s5, True) \<Rightarrow> run_ticks env e n s5)))))"

definition run_entry :: "'w env \<Rightarrow> 'w entry \<Rightarrow> nat \<Rightarrow> 'w sched \<Rightarrow> 'w sched" where
  "run_entry env e n s =
     (if en_interval e \<le> 0 then s
      else
        (case with_world (await_timer env (start_delay (collector_name (en_collector e)) (en_interval e))) s of
           (s1, False) \<Rightarrow> s1
         | (s1, True) \<Rightarrow> run_ticks env e n s1))"

subsection \<open>An explicit range\<close>

definition collect_range ::
  "'w env \<Rightarrow> 'w window_collector \<Rightarrow> time \<Rightarrow> time \<Rightarrow> 'w sched \<Rightarrow> 'w sched \<times> gerr option" where
  "collect_range env c fr to s =
     and_then (with_world (ctx_err env) s) (\<lambda>s1.
     case with_world (\<lambda>w. wc_collect c w fr to) s1 of (s2, b, mark, err) \<Rightarrow>
     and_then (s2, err) (\<lambda>s3.
     and_then (with_world (ctx_err env) s3) (\<lambda>s4.
       if mark > to \<or> \<not> mark > fr then
         (s4, Some (ErrNew (''collector '' @ wc_name c @ '' returned invalid high-water mark'')))
       else
         and_then (with_world (\<lambda>w. commit env b (start_commit env (effective_commit_timeout env) w)) s4)
           (replay_metrics env b))))"

end
