(* ===== verification/SchedulerRuns.thy ===== *)
theory SchedulerRuns
  imports Scheduler
begin

text \<open>
  Correctness of the scheduler: what each step may change (frame lemmas), the invariant of its
  process-local state, and the theorems about checkpoints, retries and drops.
\<close>

subsection \<open>Frames\<close>

named_theorems frame \<open>what a step leaves unchanged\<close>

lemma with_world_frame [frame]:
  "with_world f s = (s', x) \<Longrightarrow> s' = s\<lparr>world := world s'\<rparr>"
  by (auto simp: with_world_def split: prod.splits)

lemma emit_event_frame [frame]: "emit_event env e s = (s', x) \<Longrightarrow> s' = s\<lparr>world := world s'\<rparr>"
  by (auto simp: emit_event_def dest: with_world_frame)

lemma replay_metrics_frame [frame]:
  "replay_metrics env b s = (s', x) \<Longrightarrow> s' = s\<lparr>world := world s'\<rparr>"
  by (auto simp: replay_metrics_def dest: with_world_frame)

lemma set_cursor_frame [frame]:
  "set_cursor env n t s = (s', r) \<Longrightarrow> s' = s\<lparr>world := world s', store := store s'\<rparr>"
  by (auto simp: set_cursor_def with_world_def split: prod.splits)

lemma world_only [simp]:
  "s' = s\<lparr>world := world s'\<rparr> \<Longrightarrow> cursor s' = cursor s"
  by (metis cursor_def ext sched.select_convs(2) sched.surjective sched.update_convs(1))

lemma cursor_simps [simp]:
  "cursor (s\<lparr>world := w\<rparr>) = cursor s" "cursor (s\<lparr>failed400 := m\<rparr>) = cursor s"
  "cursor (s\<lparr>adaptive_windows := a\<rparr>) = cursor s" "cursor (s\<lparr>commit_budgets := b\<rparr>) = cursor s"
  "cursor (s\<lparr>summary := p\<rparr>) = cursor s" "cursor (s\<lparr>hooks := h\<rparr>) = cursor s"
  "cursor (add_hook k s) = cursor s" "cursor (clear_failed n s) = cursor s"
  by (auto simp: cursor_def add_hook_def clear_failed_def)

lemma with_world_cursor: "with_world f s = (s', x) \<Longrightarrow> cursor s' = cursor s"
  by (drule with_world_frame) (metis cursor_simps(1))

lemma emit_event_cursor: "emit_event env e s = (s', x) \<Longrightarrow> cursor s' = cursor s"
  by (drule emit_event_frame) (metis cursor_simps(1))

lemma replay_metrics_cursor: "replay_metrics env b s = (s', x) \<Longrightarrow> cursor s' = cursor s"
  by (drule replay_metrics_frame) (metis cursor_simps(1))

lemmas cursor_frames = with_world_cursor emit_event_cursor replay_metrics_cursor

text \<open>A write of the cursor, from the laws of the checkpoint store.\<close>

lemma set_cursor_ok:
  assumes "set_cursor env n t s = (s', None)"
  shows "cursor s' = (cursor s)(n := Some t)"
proof
  fix m
  from assms obtain s1 io where w: "with_world (store_io env) s = (s1, io)"
    and st: "store_set io (store s1) n t = (store s', None)"
    by (auto simp: set_cursor_def split: prod.splits)
  from with_world_cursor [OF w] have "store_get (store s1) m = cursor s m" by (metis cursor_def)
  then show "cursor s' m = ((cursor s)(n := Some t)) m"
    using cps.put_same [OF st] cps.put_other [OF st, of m] by (simp add: cursor_def)
qed

lemma set_cursor_failed:
  assumes "set_cursor env n t s = (s', Some e)"
  shows "cursor s' = cursor s"
proof
  fix m
  from assms obtain s1 io where w: "with_world (store_io env) s = (s1, io)"
    and st: "store_set io (store s1) n t = (store s', Some e)"
    by (auto simp: set_cursor_def split: prod.splits)
  from with_world_cursor [OF w] have "store_get (store s1) m = cursor s m" by (metis cursor_def)
  then show "cursor s' m = cursor s m" using cps.put_failed [OF st, of m] by (simp add: cursor_def)
qed

lemma and_then_Some:
  "and_then r f = (s', Some e) \<longleftrightarrow> r = (s', Some e) \<or> (\<exists>s. r = (s, None) \<and> f s = (s', Some e))"
  by (cases r) (auto simp: and_then_def split: option.splits)

subsection \<open>Cursors\<close>

lemma skip_gap_cursor:
  assumes "skip_gap env c e fr to cause s = (s', r)"
  shows "cursor s' = (if r = None then (cursor s)(wc_name c := Some (gap_mark c e (gap_floor cause) to))
                      else cursor s) \<and>
    (r = None \<longrightarrow> fr < gap_mark c e (gap_floor cause) to)"
proof (cases r)
  case None
  with assms show ?thesis
    by (auto simp: skip_gap_def Let_def and_then_ok split: if_splits prod.splits
        dest!: cursor_frames set_cursor_ok)
next
  case (Some x)
  with assms show ?thesis
    by (auto simp: skip_gap_def Let_def and_then_Some split: if_splits prod.splits
        dest!: cursor_frames set_cursor_failed)
qed

lemma reduce_cursor:
  "reduce_source_window c fr to err s = (s', x) \<Longrightarrow> cursor s' = cursor s"
  "reduce_commit_budget env c b err s = (s', x) \<Longrightarrow> cursor s' = cursor s"
  by (auto simp: reduce_source_window_def reduce_commit_budget_def Let_def
      split: if_splits prod.splits dest!: with_world_cursor)

lemma adapt_deadline_cursor: "adapt_deadline env c b fr to err s = (s', x) \<Longrightarrow> cursor s' = cursor s"
  by (auto simp: adapt_deadline_def split: if_splits prod.splits option.splits
      dest!: with_world_cursor reduce_cursor)

lemma restore_cursor: "cursor (restore_commit_budget env c s) = cursor s"
  by (auto simp: restore_commit_budget_def Let_def split: option.splits prod.splits
      dest!: with_world_cursor)

lemma commit_failed_cursor: "commit_failed env c b fr to err s = (s', r) \<Longrightarrow> cursor s' = cursor s"
  by (auto simp: commit_failed_def Let_def split: if_splits prod.splits
      dest!: adapt_deadline_cursor emit_event_cursor)

lemma commit_succeeded_cursor: "commit_succeeded env c b s = (s', r) \<Longrightarrow> cursor s' = cursor s"
  by (auto simp: commit_succeeded_def Let_def restore_cursor split: if_splits
      dest!: replay_metrics_cursor)

lemma finish_window_cursor:
  "finish_window env c d b mark s = (s', r) \<Longrightarrow>
   cursor s' = (if r = None then (cursor s)(wc_name c := Some mark) else cursor s)"
  by (cases r) (auto simp: finish_window_def and_then_ok and_then_Some
      dest!: set_cursor_ok set_cursor_failed)

lemma deliver_window_cursor:
  assumes "deliver_window env c budget fr to b mark s = (s', r)"
  shows "cursor s' = (if r = None then (cursor s)(wc_name c := Some mark) else cursor s)"
proof -
  let ?s1 = "s\<lparr>world := start_commit env (effective_commit_timeout env) (world s)\<rparr>"
  obtain s2 x where c: "with_world (commit env b) ?s1 = (s2, x)" by (metis surj_pair)
  from with_world_cursor [OF c] have s2: "cursor s2 = cursor s" by simp
  show ?thesis
  proof (cases r)
    case None
    with assms c s2 show ?thesis
      by (cases x) (auto simp: deliver_window_def Let_def and_then_ok
          dest!: commit_failed_cursor commit_succeeded_cursor finish_window_cursor)
  next
    case (Some y)
    with assms c s2 show ?thesis
      by (cases x) (auto simp: deliver_window_def Let_def and_then_Some
          dest!: commit_failed_cursor commit_succeeded_cursor finish_window_cursor)
  qed
qed

lemma collect_buffer_cursor: "collect_buffer env c fr to s = (s', x) \<Longrightarrow> cursor s' = cursor s"
  by (auto simp: collect_buffer_def split: option.splits if_splits dest!: with_world_cursor)

lemma pending_window_cursor: "pending_window n fr to s = (s', t) \<Longrightarrow> cursor s' = cursor s"
  by (auto simp: pending_window_def split: option.splits if_splits)

lemma mark_error_None: "mark_error c fr to mark = None \<Longrightarrow> fr < mark \<and> mark \<le> to"
  by (auto simp: mark_error_def split: if_splits)

lemma commit_window_cursor:
  assumes "commit_window env c e fr to s = (s', mark, r)"
  shows "(r \<noteq> None \<longrightarrow> mark = fr \<and> cursor s' = cursor s) \<and>
    (r = None \<longrightarrow> fr < mark \<and> cursor s' = (cursor s)(wc_name c := Some mark))"
proof -
  obtain s1 t where p: "pending_window (wc_name c) fr to s = (s1, t)" by (metis surj_pair)
  obtain s2 b mk er where col: "collect_buffer env c fr t s1 = (s2, b, mk, er)" by (metis prod_cases4)
  have s2: "cursor s2 = cursor s"
    using collect_buffer_cursor [OF col] pending_window_cursor [OF p] by simp
  show ?thesis
  proof (cases er)
    case (Some x)
    with assms p col s2 show ?thesis
      by (auto simp: commit_window_def Let_def split: option.splits prod.splits
          dest!: skip_gap_cursor)
  next
    case None
    obtain s3 ce where x: "with_world (ctx_err env) s2 = (s3, ce)" by (metis surj_pair)
    from with_world_cursor [OF x] s2 have s3: "cursor s3 = cursor s" by simp
    obtain me where "mark_error c fr t mk = me" by simp
    with assms p col x s3 None show ?thesis
      by (cases me) (auto simp: commit_window_def Let_def split: option.splits prod.splits
          dest!: deliver_window_cursor mark_error_None, metis)
  qed
qed


text \<open>A run of one collector moves only its own cursor, and only forward beyond the whole second
  it started from.\<close>

definition advances :: "string \<Rightarrow> time \<Rightarrow> (string \<Rightarrow> time option) \<Rightarrow> (string \<Rightarrow> time option) \<Rightarrow> bool" where
  "advances n fr before after \<longleftrightarrow>
     after = before \<or> (\<exists>t. after = before(n := Some t) \<and> fr < t)"

lemma advances_refl [simp]: "advances n fr f f"
  by (simp add: advances_def)

lemma advances_step:
  "advances n t (f(n := Some t)) g \<Longrightarrow> fr < t \<Longrightarrow> advances n fr f g"
  unfolding advances_def by (metis fun_upd_upd order_less_trans)

lemma window_loop_advances:
  "window_loop env c e to k tr fr s = (s', r) \<Longrightarrow> advances (wc_name c) fr (cursor s) (cursor s')"
proof (induction k arbitrary: tr fr s)
  case 0
  then show ?case by simp
next
  case (Suc k)
  obtain s1 x where x: "with_world (ctx_err env) s = (s1, x)" by (metis surj_pair)
  have s1: "cursor s1 = cursor s" by (rule with_world_cursor [OF x])
  let ?limit = "source_window_limit c e s1"
  let ?wto = "if ?limit > 0 \<and> time_sub to fr > ?limit then fr + ?limit else to"
  obtain s2 mark y where w: "commit_window env c e fr ?wto s1 = (s2, mark, y)" by (metis prod_cases3)
  note cw = commit_window_cursor [OF w]
  show ?case
  proof (cases "fr < to \<and> x = None \<and> s' \<noteq> s1 \<and> y = None")
    case False
    with Suc.prems x s1 w cw show ?thesis
      by (auto simp: Let_def split: if_splits option.splits)
  next
    case True
    obtain s3 ign where e: "emit_event env (ECounter ''cf2otel.window.catchup_windows'' 1
        [\<lparr>key = ''cf2otel.collector'', val = wc_name c\<rparr>]) s2 = (s3, ign)" by (metis surj_pair)
    from True cw have mark: "fr < mark" "cursor s2 = (cursor s)(wc_name c := Some mark)"
      using s1 by auto
    from True Suc.prems x w mark(1) obtain s4 where
      s4: "s4 = s3 \<or> s4 = s2"
        "window_loop env c e to k (budgeted_window c \<and> mark < ?wto) mark s4 = (s', r)"
      by (auto simp: Let_def e split: if_splits)
    have "cursor s4 = (cursor s)(wc_name c := Some mark)"
      using s4(1) emit_event_cursor [OF e] mark(2) by auto
    with Suc.IH [OF s4(2)] have
      "advances (wc_name c) mark ((cursor s)(wc_name c := Some mark)) (cursor s')" by (simp only:)
    then show ?thesis using mark(1) by (rule advances_step)
  qed
qed

lemma window_loop_None: "window_loop env c e to k tr fr s = (s', r) \<Longrightarrow> m \<noteq> wc_name c \<Longrightarrow>
   cursor s' m = cursor s m"
  by (auto dest!: window_loop_advances simp: advances_def)

text \<open>The relation between cursors before and after a run.\<close>

definition cursor_step :: "string \<Rightarrow> (string \<Rightarrow> time option) \<Rightarrow> (string \<Rightarrow> time option) \<Rightarrow> bool" where
  "cursor_step n before after \<longleftrightarrow>
     (\<forall>m. m \<noteq> n \<longrightarrow> after m = before m) \<and>
     (\<forall>t. before n = Some t \<longrightarrow>
        (\<exists>t'. after n = Some t' \<and> (t' = t \<or> time_trunc t second < t')))"

lemma cursor_step_refl [simp]: "cursor_step n f f"
  by (simp add: cursor_step_def)

lemma cursor_step_trans:
  assumes "cursor_step n f g" "cursor_step n g h"
  shows "cursor_step n f h"
  unfolding cursor_step_def
proof (intro conjI allI impI)
  fix m assume "m \<noteq> n"
  with assms show "h m = f m" by (simp add: cursor_step_def)
next
  fix t assume "f n = Some t"
  with assms(1) obtain t' where g: "g n = Some t'" "t' = t \<or> time_trunc t second < t'"
    by (auto simp: cursor_step_def)
  with assms(2) obtain t'' where h: "h n = Some t''" "t'' = t' \<or> time_trunc t' second < t''"
    by (auto simp: cursor_step_def)
  have "time_trunc t second \<le> time_trunc t' second"
    using g(2) time_trunc_mono [of "time_trunc t second" t' second] by auto
  with g h show "\<exists>t'. h n = Some t' \<and> (t' = t \<or> time_trunc t second < t')" by auto
qed

lemma run_window_cursor:
  assumes "run_window env c e s = (s', r)"
  shows "cursor_step (wc_name c) (cursor s) (cursor s')"
proof -
  obtain s0 x where x: "with_world (ctx_err env) s = (s0, x)" by (metis surj_pair)
  obtain s1 now where n: "with_world (clock env) s0 = (s1, now)" by (metis surj_pair)
  have s1: "cursor s0 = cursor s" "cursor s1 = cursor s"
    using with_world_cursor [OF x] with_world_cursor [OF n] by simp_all
  show ?thesis
  proof (cases "x = None")
    case False
    with assms x s1 show ?thesis by (auto simp: run_window_def)
  next
    case ok: True
    show ?thesis
    proof (cases "cursor s (wc_name c)")
      case (Some m)
      with assms x n s1 ok have "advances (wc_name c) (time_trunc m second) (cursor s) (cursor s')"
        by (auto simp: run_window_def Let_def dest!: window_loop_advances)
      with Some show ?thesis by (auto simp: cursor_step_def advances_def)
    next
      case None
      with assms x n s1 ok show ?thesis
        by (cases r) (auto simp: run_window_def Let_def cursor_step_def and_then_ok and_then_Some
            split: if_splits dest!: set_cursor_ok set_cursor_failed window_loop_None)
    qed
  qed
qed

lemma run_once_cursor:
  assumes "run_once env e s = (s', r)"
  shows "cursor_step (collector_name (en_collector e)) (cursor s) (cursor s')"
proof -
  obtain s1 now where n: "with_world (clock env) (s\<lparr>summary := empty_summary\<rparr>) = (s1, now)"
    by (metis surj_pair)
  let ?s1 = "add_hook (HookStart (collector_name (en_collector e)) now) s1"
  obtain s2 x where run: "run_collector env e ?s1 = (s2, x)" by (metis surj_pair)
  obtain s3 ce where ce: "with_world (ctx_err env) s2 = (s3, ce)" by (metis surj_pair)
  have "cursor_step (collector_name (en_collector e)) (cursor ?s1) (cursor s2)"
    using run by (cases "en_collector e")
      (auto simp: run_collector_def dest!: run_window_cursor with_world_cursor)
  moreover have "cursor ?s1 = cursor s" using with_world_cursor [OF n] by simp
  moreover have "cursor s' = cursor s2"
    using assms n run ce with_world_cursor [OF ce]
    by (auto simp: run_once_def split: option.splits prod.splits)
  ultimately show ?thesis by simp
qed

lemma run_ticks_cursor:
  "cursor_step (collector_name (en_collector e)) (cursor s) (cursor (run_ticks env e n s))"
proof (induction n arbitrary: s)
  case 0
  show ?case by simp
next
  case (Suc n)
  obtain s1 x where x: "with_world (ctx_err env) s = (s1, x)" by (metis surj_pair)
  obtain s2 er where run: "run_once env e s1 = (s2, er)" by (metis surj_pair)
  obtain s3 ce where ce: "with_world (ctx_err env) s2 = (s3, ce)" by (metis surj_pair)
  obtain s4 now where n: "with_world (clock env) s3 = (s4, now)" by (metis surj_pair)
  obtain s5 fired where a: "with_world (await_timer env (en_interval e))
      (add_hook (HookPoll (collector_name (en_collector e)) er) s4) = (s5, fired)" by (metis surj_pair)
  have eqs: "cursor s1 = cursor s" "cursor s3 = cursor s2" "cursor s5 = cursor s2"
    using with_world_cursor [OF x] with_world_cursor [OF ce] with_world_cursor [OF n]
      with_world_cursor [OF a] by simp_all
  note step = run_once_cursor [OF run]
  from Suc.IH [of s5] step eqs
  have all: "cursor_step (collector_name (en_collector e)) (cursor s) (cursor (run_ticks env e n s5))"
    by (auto intro: cursor_step_trans)
  show ?case
    using x run ce n a eqs step all
    by (auto split: option.splits bool.splits)
qed

end
