(* ===== verification/SchedulerLimits.thy ===== *)
theory SchedulerLimits
  imports Scheduler
begin

text \<open>
  The process-local state of the scheduler: the invariant of its three maps (adaptive windows, reduced
  payload budgets, rejected windows), and the number of checkpoints a tick may write.
\<close>

definition is_checkpoint :: "hook \<Rightarrow> bool" where
  "is_checkpoint h = (case h of HookCheckpoint _ _ \<Rightarrow> True | _ \<Rightarrow> False)"

definition checkpoints :: "'w sched \<Rightarrow> nat" where
  "checkpoints s = length (filter is_checkpoint (hooks s))"

definition windows_ok :: "(string \<rightharpoonup> duration) \<Rightarrow> bool" where
  "windows_ok a \<longleftrightarrow> (\<forall>n d. a n = Some d \<longrightarrow> second \<le> d \<and> d mod second = 0)"

definition budgets_ok :: "'w env \<Rightarrow> (string \<rightharpoonup> reduced_budget) \<Rightarrow> bool" where
  "budgets_ok env b \<longleftrightarrow>
     (\<forall>n r. b n = Some r \<longrightarrow> 0 < rb_bytes r \<and> rb_bytes r \<le> configured_commit_budget env)"

definition strikes_ok :: "(string \<rightharpoonup> rejection_state) \<Rightarrow> bool" where
  "strikes_ok m \<longleftrightarrow>
     (\<forall>n p. m n = Some p \<longrightarrow> rj_from p < rj_to p \<and> 1 \<le> rj_count p \<and> rj_count p \<le> 2)"

definition sched_inv :: "'w env \<Rightarrow> 'w sched \<Rightarrow> bool" where
  "sched_inv env s \<longleftrightarrow> windows_ok (adaptive_windows s) \<and> budgets_ok env (commit_budgets s) \<and>
     strikes_ok (failed400 s)"

definition windows_shrink :: "(string \<rightharpoonup> duration) \<Rightarrow> (string \<rightharpoonup> duration) \<Rightarrow> bool" where
  "windows_shrink a a' \<longleftrightarrow> (\<forall>n d. a n = Some d \<longrightarrow> (\<exists>d' \<le> d. a' n = Some d'))"

text \<open>A step that keeps the invariant, only shrinks windows and writes at most \<open>k\<close> checkpoints.\<close>

definition good_step :: "'w env \<Rightarrow> nat \<Rightarrow> 'w sched \<Rightarrow> 'w sched \<Rightarrow> bool" where
  "good_step env k s s' \<longleftrightarrow> (sched_inv env s \<longrightarrow> sched_inv env s' \<and>
     windows_shrink (adaptive_windows s) (adaptive_windows s') \<and>
     checkpoints s' \<le> checkpoints s + k)"

lemma configured_budget_pos: "0 < configured_commit_budget env"
  by (simp add: configured_commit_budget_def commit_budget_bytes_def)

lemma windows_shrink_refl [simp]: "windows_shrink a a"
  by (auto simp: windows_shrink_def)

lemma good_step_trans:
  "good_step env j s s' \<Longrightarrow> good_step env k s' s'' \<Longrightarrow> good_step env (j + k) s s''"
  unfolding good_step_def windows_shrink_def by (fastforce intro: order_trans)

lemma good_step_weaken: "good_step env j s s' \<Longrightarrow> j \<le> k \<Longrightarrow> good_step env k s s'"
  by (auto simp: good_step_def)

text \<open>Steps on the world, the store and the summary only.\<close>

definition same_limits :: "'w sched \<Rightarrow> 'w sched \<Rightarrow> bool" where
  "same_limits s s' \<longleftrightarrow> failed400 s' = failed400 s \<and> adaptive_windows s' = adaptive_windows s \<and>
     commit_budgets s' = commit_budgets s \<and> hooks s' = hooks s"

lemma same_limits_good: "same_limits s s' \<Longrightarrow> good_step env k s s'"
  by (auto simp: same_limits_def good_step_def sched_inv_def checkpoints_def)

lemma same_limits_refl [simp]: "same_limits s s" "same_limits s (s\<lparr>world := w\<rparr>)"
  "same_limits s (s\<lparr>summary := p\<rparr>)"
  by (auto simp: same_limits_def)

lemma same_limits_trans: "same_limits s s' \<Longrightarrow> same_limits s' s'' \<Longrightarrow> same_limits s s''"
  by (simp add: same_limits_def)

lemma with_world_limits: "with_world f s = (s', x) \<Longrightarrow> same_limits s s'"
  by (auto simp: with_world_def same_limits_def split: prod.splits)

lemma emit_event_limits: "emit_event env e s = (s', x) \<Longrightarrow> same_limits s s'"
  by (simp add: emit_event_def with_world_limits)

lemma set_cursor_limits: "set_cursor env n t s = (s', x) \<Longrightarrow> same_limits s s'"
  by (auto simp: set_cursor_def same_limits_def with_world_def split: prod.splits)

lemma collect_buffer_limits: "collect_buffer env c fr to s = (s', x) \<Longrightarrow> same_limits s s'"
  by (auto simp: collect_buffer_def split: option.splits if_splits dest!: with_world_limits)

lemma add_hook_good: "good_step env (if is_checkpoint h then 1 else 0) s (add_hook h s)"
  by (simp add: good_step_def add_hook_def checkpoints_def sched_inv_def)

lemma clear_failed_good: "good_step env 0 s (clear_failed n s)"
  by (auto simp: good_step_def clear_failed_def checkpoints_def sched_inv_def strikes_ok_def)

lemmas limit_frames = with_world_limits emit_event_limits set_cursor_limits collect_buffer_limits

subsection \<open>Adaptation\<close>

lemma reduce_window_mod: "max second (dur_trunc (go_quot w 2) second) mod second = 0"
proof (cases "0 \<le> go_quot w 2")
  case True
  then show ?thesis by (simp add: max_def dur_trunc_mod)
next
  case False
  then have "dur_trunc (go_quot w 2) second \<le> 0" by (auto simp: dur_trunc_def time_defs sgn_if)
  then show ?thesis by (simp add: max_def)
qed

lemma reduce_source_window_good:
  "reduce_source_window c fr to err s = (s', x) \<Longrightarrow> good_step env 0 s s'"
  by (fastforce simp: reduce_source_window_def Let_def good_step_def sched_inv_def windows_ok_def
      windows_shrink_def checkpoints_def reduce_window_mod split: option.splits if_splits)

lemma reduce_commit_budget_good:
  assumes "reduce_commit_budget env c b err s = (s', x)" "0 < b" "b \<le> configured_commit_budget env"
  shows "good_step env 0 s s'"
proof -
  obtain s1 now where n: "with_world (clock env) s = (s1, now)" by (metis surj_pair)
  have l: "failed400 s1 = failed400 s" "adaptive_windows s1 = adaptive_windows s"
    "commit_budgets s1 = commit_budgets s" "hooks s1 = hooks s"
    using with_world_limits [OF n] by (simp_all add: same_limits_def)
  let ?r = "min b (max (min (configured_commit_budget env) commit_chunk_bytes) (go_quot b 2))"
  have r: "0 < ?r" "?r \<le> configured_commit_budget env"
    using assms(2,3) configured_budget_pos [of env] by (auto simp: commit_chunk_bytes_def)
  have s': "s' = s1\<lparr>commit_budgets := (commit_budgets s1)(wc_name c \<mapsto> \<lparr>rb_bytes = ?r, rb_since = now\<rparr>)\<rparr>"
    using assms(1) n by (auto simp: reduce_commit_budget_def Let_def min_def)
  show ?thesis using r l
    unfolding s' by (auto simp: good_step_def sched_inv_def budgets_ok_def checkpoints_def)
qed

lemma commit_budget_range:
  "sched_inv env s \<Longrightarrow> 0 < commit_budget env c s \<and> commit_budget env c s \<le> configured_commit_budget env"
  using configured_budget_pos [of env]
  by (auto simp: commit_budget_def sched_inv_def budgets_ok_def split: option.splits)

lemma restore_commit_budget_good: "good_step env 0 s (restore_commit_budget env c s)"
proof (cases "commit_budgets s (wc_name c)")
  case None
  then show ?thesis by (simp add: restore_commit_budget_def same_limits_good)
next
  case (Some red)
  obtain s1 now where n: "with_world (clock env) s = (s1, now)" by (metis surj_pair)
  obtain s2 now2 where n2: "with_world (clock env) s1 = (s2, now2)" by (metis surj_pair)
  have l: "failed400 s1 = failed400 s" "adaptive_windows s1 = adaptive_windows s"
    "commit_budgets s1 = commit_budgets s" "hooks s1 = hooks s" "failed400 s2 = failed400 s"
    "adaptive_windows s2 = adaptive_windows s" "commit_budgets s2 = commit_budgets s" "hooks s2 = hooks s"
    using with_world_limits [OF n] with_world_limits [OF n2] by (simp_all add: same_limits_def)
  show ?thesis
    using Some n n2 l
    by (auto simp: restore_commit_budget_def Let_def good_step_def sched_inv_def budgets_ok_def
        checkpoints_def)
qed

lemma good_step0_trans: "good_step env 0 s s' \<Longrightarrow> good_step env k s' s'' \<Longrightarrow> good_step env k s s''"
  using good_step_trans [of env 0 s s' k s''] by simp

lemma adapt_deadline_good:
  assumes "adapt_deadline env c b fr to err s = (s', x)"
    and "budgeted_window c \<Longrightarrow> 0 < b \<and> b \<le> configured_commit_budget env"
  shows "good_step env 0 s s'"
proof -
  obtain s1 ce where w: "with_world (commit_ctx_err env) s = (s1, ce)" by (metis surj_pair)
  have s1: "good_step env 0 s s1" using with_world_limits [OF w] by (rule same_limits_good)
  have "s' = s \<or> good_step env 0 s1 s'"
    using assms w
    by (auto simp: adapt_deadline_def same_limits_good split: if_splits
        dest: reduce_source_window_good [where env = env] reduce_commit_budget_good)
  then show ?thesis using s1 by (auto intro: same_limits_good good_step0_trans)
qed

lemma note_failure_strikes:
  assumes "note_failure n fr to err m = (m', dropped)" "strikes_ok m" "fr < to"
  shows "if dropped then strikes_ok (m'(n := None)) else strikes_ok m'"
  using assms by (fastforce simp: note_failure_def strikes_ok_def Let_def split: if_splits option.splits)

lemma commit_failed_good:
  assumes "commit_failed env c b fr to err s = (s', r)" "fr < to" "emitter_of env \<noteq> None"
    and "budgeted_window c \<Longrightarrow> 0 < b \<and> b \<le> configured_commit_budget env"
  shows "good_step env 0 s s'"
proof -
  obtain s1 err1 where a: "adapt_deadline env c b fr to err s = (s1, err1)" by (metis surj_pair)
  have s1: "good_step env 0 s s1" by (rule adapt_deadline_good [OF a assms(4)])
  obtain m d where n: "note_failure (wc_name c) fr to err1 (failed400 s1) = (m, d)" by (metis surj_pair)
  obtain s3 y where e: "emit_event env (failure_counter (wc_name c) err1 d) (s1\<lparr>failed400 := m\<rparr>) = (s3, y)"
    by (metis surj_pair)
  have l: "failed400 s3 = m" "adaptive_windows s3 = adaptive_windows s1"
    "commit_budgets s3 = commit_budgets s1" "hooks s3 = hooks s1"
    using emit_event_limits [OF e] by (simp_all add: same_limits_def)
  have "s' = (if d then clear_failed (wc_name c) s3 else s3)"
    using assms(1,3) a n e by (auto simp: commit_failed_def split: if_splits)
  then have "good_step env 0 s1 s'"
    using note_failure_strikes [OF n _ assms(2)] l
    by (auto simp: good_step_def sched_inv_def checkpoints_def clear_failed_def)
  with s1 show ?thesis by (rule good_step0_trans)
qed


lemma start_commit_good: "good_step env 0 s (s\<lparr>world := w\<rparr>)"
  by (rule same_limits_good) simp

lemma finish_window_good:
  assumes "finish_window env c d b mark s = (s', r)"
  shows "good_step env 1 s s'"
proof -
  obtain s1 x where w: "set_cursor env (wc_name c) mark s = (s1, x)" by (metis surj_pair)
  let ?s2 = "if d then s1\<lparr>summary := count_delivered b (summary s1)\<rparr> else s1"
  have "good_step env 0 s ?s2"
    using set_cursor_limits [OF w] by (intro same_limits_good) (simp add: same_limits_def)
  moreover have "good_step env 1 ?s2 (add_hook (HookCheckpoint (wc_name c) mark) ?s2)"
    using add_hook_good [of env "HookCheckpoint (wc_name c) mark" ?s2] by (simp add: is_checkpoint_def)
  ultimately have "good_step env 1 s (add_hook (HookCheckpoint (wc_name c) mark) ?s2)"
    by (rule good_step0_trans)
  then show ?thesis
    using assms w set_cursor_limits [OF w]
    by (cases x) (auto simp: finish_window_def intro: same_limits_good)
qed

lemma commit_succeeded_good:
  assumes "commit_succeeded env c b s = (s', r)"
  shows "good_step env 0 s s'"
proof -
  let ?s1 = "clear_failed (wc_name c) s"
  let ?s2 = "if budgeted_window c then restore_commit_budget env c ?s1 else ?s1"
  have "good_step env 0 ?s1 ?s2" by (simp add: restore_commit_budget_good same_limits_good)
  moreover have "same_limits ?s2 s'"
    using assms by (auto simp: commit_succeeded_def replay_metrics_def intro: with_world_limits)
  ultimately show ?thesis
    using clear_failed_good [of env s "wc_name c"] same_limits_good [of ?s2 s' env 0]
    by (blast intro: good_step0_trans)
qed

lemma deliver_window_good:
  assumes "deliver_window env c budget fr to b mark s = (s', r)" "fr < to" "emitter_of env \<noteq> None"
    and "budgeted_window c \<Longrightarrow> 0 < budget \<and> budget \<le> configured_commit_budget env"
  shows "good_step env 1 s s'"
proof -
  let ?s1 = "s\<lparr>world := start_commit env (effective_commit_timeout env) (world s)\<rparr>"
  obtain s2 x where w: "with_world (commit env b) ?s1 = (s2, x)" by (metis surj_pair)
  have "good_step env 0 s s2"
    using start_commit_good same_limits_good [OF with_world_limits [OF w]]
    by (rule good_step0_trans)
  moreover have "good_step env 1 s2 s'"
  proof (cases x)
    case (Some err)
    obtain s3 y where f: "commit_failed env c budget fr to err s2 = (s3, y)" by (metis surj_pair)
    have "good_step env 0 s2 s3" by (rule commit_failed_good [OF f assms(2-4)])
    moreover have "s3 = s' \<or> good_step env 1 s3 s'"
      using assms(1) w Some f
      by (cases y) (auto simp: deliver_window_def dest: finish_window_good)
    ultimately show ?thesis by (auto intro: good_step0_trans good_step_weaken)
  next
    case None
    obtain s3 y where f: "commit_succeeded env c b s2 = (s3, y)" by (metis surj_pair)
    have "good_step env 0 s2 s3" by (rule commit_succeeded_good [OF f])
    moreover have "s3 = s' \<or> good_step env 1 s3 s'"
      using assms(1) w None f
      by (cases y) (auto simp: deliver_window_def dest: finish_window_good)
    ultimately show ?thesis by (auto intro: good_step0_trans good_step_weaken)
  qed
  ultimately show ?thesis by (rule good_step0_trans)
qed

lemma skip_gap_good:
  assumes "skip_gap env c e fr to cause s = (s', r)"
  shows "good_step env 1 s s'"
proof -
  have "\<exists>s1. same_limits s s1 \<and> (s' = s1 \<or>
      s' = add_hook (HookCheckpoint (wc_name c) (gap_mark c e (gap_floor cause) to))
             (clear_failed (wc_name c) s1))"
  proof (cases r)
    case None
    with assms show ?thesis
      by (fastforce simp: skip_gap_def Let_def and_then_ok same_limits_def split: if_splits prod.splits
          dest!: limit_frames)
  next
    case (Some x)
    with assms show ?thesis
      by (auto simp: skip_gap_def Let_def and_then_def same_limits_def
          split: if_splits prod.splits option.splits dest!: limit_frames)
  qed
  then obtain s1 where "same_limits s s1" and s': "s' = s1 \<or>
      s' = add_hook (HookCheckpoint (wc_name c) (gap_mark c e (gap_floor cause) to))
             (clear_failed (wc_name c) s1)" by blast
  moreover have "good_step env 1 s1 s'"
    using s' add_hook_good [of env "HookCheckpoint (wc_name c) (gap_mark c e (gap_floor cause) to)"
        "clear_failed (wc_name c) s1"] clear_failed_good [of env s1 "wc_name c"]
    by (auto simp: is_checkpoint_def intro: good_step0_trans same_limits_good)
  ultimately show ?thesis by (blast intro: good_step0_trans same_limits_good)
qed

lemma commit_window_good:
  assumes "commit_window env c e fr to s = (s', mark, r)" "emitter_of env \<noteq> None"
  shows "good_step env 1 s s'"
proof (cases "sched_inv env s")
  case inv: True
  obtain s1 t where p: "pending_window (wc_name c) fr to s = (s1, t)" by (metis surj_pair)
  have s1: "good_step env 0 s s1"
    using p clear_failed_good [of env s "wc_name c"]
    by (auto simp: pending_window_def same_limits_good split: option.splits if_splits)
  then have budget: "0 < commit_budget env c s1 \<and> commit_budget env c s1 \<le> configured_commit_budget env"
    using inv by (intro commit_budget_range) (simp add: good_step_def)
  obtain s2 b mk er where col: "collect_buffer env c fr t s1 = (s2, b, mk, er)" by (metis prod_cases4)
  have s2: "good_step env 0 s s2"
    using s1 same_limits_good [OF collect_buffer_limits [OF col]] by (rule good_step0_trans)
  obtain s3 ce where x: "with_world (ctx_err env) s2 = (s3, ce)" by (metis surj_pair)
  have s3: "good_step env 0 s s3"
    using s2 same_limits_good [OF with_world_limits [OF x]] by (rule good_step0_trans)
  consider "s' = s2" | "s' = s3" | er' where "er = Some er'" "skip_gap env c e fr t er' s2 = (s', r)"
    | "mark_error c fr t mk = None" "deliver_window env c (commit_budget env c s1) fr t b mk s3 = (s', r)"
    using assms(1) p col x
    by (auto simp: commit_window_def Let_def split: option.splits prod.splits)
  then show ?thesis
  proof cases
    case 3
    from good_step0_trans [OF s2 skip_gap_good [OF 3(2)]] show ?thesis .
  next
    case 4
    then have "fr < t" by (auto simp: mark_error_def split: if_splits)
    from good_step0_trans [OF s3 deliver_window_good [OF 4(2) this assms(2) budget]] show ?thesis .
  qed (use s2 s3 in \<open>auto intro: good_step_weaken\<close>)
qed (simp add: good_step_def)


lemma window_loop_good:
  assumes "emitter_of env \<noteq> None"
  shows "window_loop env c e to k tr fr s = (s', r) \<Longrightarrow> good_step env k s s'"
proof (induction k arbitrary: tr fr s)
  case 0
  then show ?case by (simp add: same_limits_good)
next
  case (Suc k)
  obtain s1 x where x: "with_world (ctx_err env) s = (s1, x)" by (metis surj_pair)
  have s1: "good_step env 0 s s1" by (rule same_limits_good [OF with_world_limits [OF x]])
  let ?limit = "source_window_limit c e s1"
  let ?wto = "if ?limit > 0 \<and> time_sub to fr > ?limit then fr + ?limit else to"
  obtain s2 mark y where w: "commit_window env c e fr ?wto s1 = (s2, mark, y)" by (metis prod_cases3)
  have s2: "good_step env 1 s s2"
    by (rule good_step0_trans [OF s1 commit_window_good [OF w assms]])
  obtain s3 ign where e: "emit_event env (ECounter ''cf2otel.window.catchup_windows'' 1
      [\<lparr>key = ''cf2otel.collector'', val = wc_name c\<rparr>]) s2 = (s3, ign)" by (metis surj_pair)
  have s3: "good_step env 1 s s3"
    using good_step_trans [OF s2 same_limits_good [OF emit_event_limits [OF e], where k = 0]] by simp
  have "s' = s \<or> s' = s1 \<or> s' = s2 \<or> (\<exists>s4 tr' fr'. (s4 = s2 \<or> s4 = s3) \<and>
      window_loop env c e to k tr' fr' s4 = (s', r))"
    using Suc.prems x w by (auto simp: Let_def e split: if_splits option.splits)
  then show ?case
    using same_limits_good [of s s env "Suc k"] good_step_weaken [OF s1, of "Suc k"]
      good_step_weaken [OF s2, of "Suc k"] good_step_trans [OF s2 Suc.IH] good_step_trans [OF s3 Suc.IH]
    by auto
qed

lemma run_window_good:
  assumes "run_window env c e s = (s', r)" "emitter_of env \<noteq> None"
  shows "good_step env max_windows_per_tick s s'"
proof -
  let ?k = max_windows_per_tick
  obtain s0 x where x: "with_world (ctx_err env) s = (s0, x)" by (metis surj_pair)
  obtain s1 now where n: "with_world (clock env) s0 = (s1, now)" by (metis surj_pair)
  let ?to = "time_trunc (now - window_lag c now) second"
  let ?fr0 = "?to - en_lookback e"
  let ?fr = "if adaptive_window c then time_trunc ?fr0 second else ?fr0"
  have s0: "good_step env 0 s s0" and s1: "good_step env 0 s s1"
    using same_limits_good [OF with_world_limits [OF x]]
      same_limits_good [OF same_limits_trans [OF with_world_limits [OF x] with_world_limits [OF n]]]
    by simp_all
  have loop: "good_step env ?k s s'"
    if "window_loop env c e ?to ?k False fr (add_hook (HookWindowStart (wc_name c) fr) s2) = (s', r)"
      "good_step env 0 s s2" for fr s2
    using good_step0_trans [OF that(2) good_step0_trans [OF _ window_loop_good [OF assms(2) that(1)]]]
      add_hook_good [of env "HookWindowStart (wc_name c) fr" s2] by (simp add: is_checkpoint_def)
  show ?thesis
  proof (cases "cursor s1 (wc_name c)")
    case (Some m)
    with assms(1) x n loop [OF _ s1] s0 show ?thesis
      by (cases x) (auto simp: run_window_def Let_def intro: good_step_weaken)
  next
    case None
    obtain s2 y where c2: "set_cursor env (wc_name c) ?to s1 = (s2, y)" by (metis surj_pair)
    obtain s3 z where c3: "set_cursor env (wc_name c) ?fr s1 = (s3, z)" by (metis surj_pair)
    have s2: "good_step env 0 s s2" and s3: "good_step env 0 s s3"
      using good_step0_trans [OF s1 same_limits_good [OF set_cursor_limits [OF c2]]]
        good_step0_trans [OF s1 same_limits_good [OF set_cursor_limits [OF c3]]] by simp_all
    have "good_step env 1 s (add_hook (HookCheckpoint (wc_name c) ?to) s2)"
      using good_step0_trans [OF s2 add_hook_good [of env "HookCheckpoint (wc_name c) ?to"]]
      by (simp add: is_checkpoint_def)
    note weak = good_step_weaken [OF this, of ?k] good_step_weaken [OF s2, of ?k]
      good_step_weaken [OF s3, of ?k] good_step_weaken [OF s0, of ?k]
    have k: "1 \<le> ?k" by (simp add: max_windows_per_tick_def)
    show ?thesis
    proof (cases "x = None \<and> en_lookback e \<noteq> 0 \<and> z = None")
      case True
      with assms(1) x n c3 None loop [OF _ s3, of ?fr] show ?thesis
        by (simp add: run_window_def Let_def)
    next
      case False
      with assms(1) x n c2 c3 None weak k show ?thesis
        by (cases x; cases y; cases z) (auto simp: run_window_def Let_def split: if_splits)
    qed
  qed
qed

lemma run_once_good:
  assumes "run_once env e s = (s', r)" "emitter_of env \<noteq> None"
  shows "good_step env max_windows_per_tick s s'"
proof -
  obtain s1 now where n: "with_world (clock env) (s\<lparr>summary := empty_summary\<rparr>) = (s1, now)"
    by (metis surj_pair)
  let ?s1 = "add_hook (HookStart (collector_name (en_collector e)) now) s1"
  obtain s2 x where run: "run_collector env e ?s1 = (s2, x)" by (metis surj_pair)
  obtain s3 ce where ce: "with_world (ctx_err env) s2 = (s3, ce)" by (metis surj_pair)
  have "good_step env 0 s ?s1"
    using good_step0_trans [OF same_limits_good
        [OF same_limits_trans [OF same_limits_refl(3) with_world_limits [OF n]]]
        add_hook_good [of env "HookStart (collector_name (en_collector e)) now" s1]]
    by (simp add: is_checkpoint_def)
  moreover have "good_step env max_windows_per_tick ?s1 s2"
    using run by (cases "en_collector e")
      (auto simp: run_collector_def intro: run_window_good [OF _ assms(2)] same_limits_good
        dest: with_world_limits)
  moreover have "same_limits s2 s'"
    using assms(1) n run ce with_world_limits [OF ce]
    by (cases x) (auto simp: run_once_def same_limits_def)
  ultimately have "good_step env (max_windows_per_tick + 0) s s'"
    by (blast intro: good_step0_trans good_step_trans same_limits_good)
  then show ?thesis by simp
qed

end
