(* ===== verification/SchedulerProps.thy ===== *)
theory SchedulerProps
  imports SchedulerRuns SchedulerLimits
begin

text \<open>
  The theorems about the scheduler as a whole: how a window is settled, that a failed one changes no
  cursor, when a rejected window is dropped, and how a cursor moves over any number of ticks.
\<close>

subsection \<open>How a window is settled\<close>

lemma adapt_deadline_failed400:
  "adapt_deadline env c b fr to err s = (s', x) \<Longrightarrow> failed400 s' = failed400 s"
  by (auto simp: adapt_deadline_def reduce_source_window_def reduce_commit_budget_def Let_def
      with_world_def split: if_splits prod.splits option.splits)

lemma note_failure_dropped:
  "note_failure n fr to err m = (m', True) \<Longrightarrow>
   payload_rejected err \<and> (\<exists>p. m n = Some p \<and> rj_from p = fr \<and> rj_to p = to \<and> 2 \<le> rj_count p)"
  by (auto simp: note_failure_def Let_def split: if_splits option.splits)

lemma commit_failed_None:
  assumes "commit_failed env c b fr to err s = (s', None)"
  shows "\<exists>p. failed400 s (wc_name c) = Some p \<and> rj_from p = fr \<and> rj_to p = to \<and> 2 \<le> rj_count p"
proof -
  obtain s1 err1 where a: "adapt_deadline env c b fr to err s = (s1, err1)" by (metis surj_pair)
  obtain m d where n: "note_failure (wc_name c) fr to err1 (failed400 s1) = (m, d)" by (metis surj_pair)
  from assms a n have "d" by (auto simp: commit_failed_def Let_def split: if_splits prod.splits)
  with n note_failure_dropped adapt_deadline_failed400 [OF a] show ?thesis by (metis (full_types))
qed

definition settled_by_delivery :: "'w env \<Rightarrow> buffer \<Rightarrow> bool" where
  "settled_by_delivery env b \<longleftrightarrow>
     (\<exists>w w'. commit env b w = (w', None)) \<and>
     (\<exists>w w'. emit_all (env_emit env) w (map metric_emission (metrics b)) = (w', None))"

definition settled_by_strikes ::
  "'w env \<Rightarrow> string \<Rightarrow> time \<Rightarrow> time \<Rightarrow> (string \<rightharpoonup> rejection_state) \<Rightarrow> buffer \<Rightarrow> bool" where
  "settled_by_strikes env n fr to m b \<longleftrightarrow>
     (\<exists>err w w'. commit env b w = (w', Some err)) \<and>
     (\<exists>p. m n = Some p \<and> rj_from p = fr \<and> rj_to p = to \<and> 2 \<le> rj_count p)"

definition settled_by_gap ::
  "'w env \<Rightarrow> 'w window_collector \<Rightarrow> 'w entry \<Rightarrow> time \<Rightarrow> time \<Rightarrow> gerr \<Rightarrow> time \<Rightarrow> bool" where
  "settled_by_gap env c e fr to cause mark \<longleftrightarrow>
     errors_as gap_of cause \<noteq> None \<and> mark = gap_mark c e (gap_floor cause) to \<and>
     (\<exists>w w' now. env_emit env w (gap_event (wc_name c) fr (gap_floor cause)
         (dur_seconds (time_sub mark fr)) now) = (w', None)) \<and>
     (\<exists>seq w w'. flush_gap env seq w = (w', None))"

lemma deliver_window_settled:
  assumes "deliver_window env c budget fr to b mark s = (s', None)"
  shows "settled_by_delivery env b \<or> settled_by_strikes env (wc_name c) fr to (failed400 s) b"
proof -
  let ?s1 = "s\<lparr>world := start_commit env (effective_commit_timeout env) (world s)\<rparr>"
  obtain w x where w: "commit env b (world ?s1) = (w, x)" by (metis surj_pair)
  show ?thesis
  proof (cases x)
    case None
    with assms w obtain s3 where "commit_succeeded env c b (?s1\<lparr>world := w\<rparr>) = (s3, None)"
      by (auto simp: deliver_window_def with_world_def and_then_ok)
    then have "\<exists>w w'. emit_all (env_emit env) w (map metric_emission (metrics b)) = (w', None)"
      by (auto simp: commit_succeeded_def replay_metrics_def with_world_def Let_def
          split: prod.splits if_splits)
    with w None show ?thesis unfolding settled_by_delivery_def by blast
  next
    case (Some err)
    with assms w obtain s3 where "commit_failed env c budget fr to err (?s1\<lparr>world := w\<rparr>) = (s3, None)"
      by (auto simp: deliver_window_def with_world_def and_then_ok)
    from commit_failed_None [OF this] w Some show ?thesis unfolding settled_by_strikes_def by auto
  qed
qed

lemma skip_gap_settled:
  assumes "skip_gap env c e fr to cause s = (s', None)" "errors_as gap_of cause \<noteq> None"
  shows "settled_by_gap env c e fr to cause (gap_mark c e (gap_floor cause) to)"
proof -
  let ?mark = "gap_mark c e (gap_floor cause) to"
  from assms(1) obtain s3 s4 s5 seq now where
    "emit_event env (gap_event (wc_name c) fr (gap_floor cause) (dur_seconds (time_sub ?mark fr)) now) s3
       = (s4, None)"
    "with_world (flush_gap env seq) s4 = (s5, None)"
    by (auto simp: skip_gap_def Let_def and_then_ok split: if_splits prod.splits)
  then show ?thesis using assms(2)
    unfolding settled_by_gap_def by (auto simp: emit_event_def with_world_def split: prod.splits)
qed

lemma gap_mark_le: "gap_mark c e fl to \<le> to"
  by (simp add: gap_mark_def Let_def)

lemma pending_failed400:
  assumes "pending_window n fr to s = (s1, t)" "failed400 s1 n = Some p"
  shows "failed400 s n = Some p"
  using assms by (auto simp: pending_window_def clear_failed_def split: option.splits if_splits)

subsection \<open>Strikes\<close>

text \<open>One attempt at a window: the error of its commit, or None. The bookkeeping of \<open>commitWindow\<close>.\<close>

type_synonym attempt = "time \<times> time \<times> gerr option"

fun strike_step :: "string \<Rightarrow> (string \<rightharpoonup> rejection_state) \<Rightarrow> attempt \<Rightarrow> (string \<rightharpoonup> rejection_state) \<times> bool"
where
  "strike_step n m (fr, to, None) = (m(n := None), False)"
| "strike_step n m (fr, to, Some err) =
     (case note_failure n fr to err m of (m', dropped) \<Rightarrow>
        (if dropped then m'(n := None) else m', dropped))"

fun strike_run :: "string \<Rightarrow> (string \<rightharpoonup> rejection_state) \<Rightarrow> attempt list \<Rightarrow> (string \<rightharpoonup> rejection_state)" where
  "strike_run n m [] = m"
| "strike_run n m (a # as) = strike_run n (fst (strike_step n m a)) as"

definition rejects :: "time \<Rightarrow> time \<Rightarrow> attempt \<Rightarrow> bool" where
  "rejects fr to a = (case a of (f, t, Some err) \<Rightarrow> f = fr \<and> t = to \<and> payload_rejected err | _ \<Rightarrow> False)"

text \<open>The number of rejections of the window at the end of the history.\<close>

definition trailing :: "time \<Rightarrow> time \<Rightarrow> attempt list \<Rightarrow> nat" where
  "trailing fr to as = length (takeWhile (rejects fr to) (rev as))"

lemma trailing_snoc:
  "trailing fr to (as @ [a]) = (if rejects fr to a then Suc (trailing fr to as) else 0)"
  by (simp add: trailing_def)

lemma strike_run_append: "strike_run n m (as @ bs) = strike_run n (strike_run n m as) bs"
  by (induction as arbitrary: m) auto

text \<open>The counter of the map is the number of trailing rejections modulo three.\<close>

definition strikes_of :: "(string \<rightharpoonup> rejection_state) \<Rightarrow> string \<Rightarrow> time \<Rightarrow> time \<Rightarrow> int" where
  "strikes_of m n fr to = (case m n of
      Some p \<Rightarrow> if rj_from p = fr \<and> rj_to p = to then rj_count p else 0 | None \<Rightarrow> 0)"

lemma strike_step_count:
  assumes "\<forall>f t. strikes_of m n f t = int (trailing f t as mod 3)"
  shows "strikes_of (fst (strike_step n m a)) n fr to = int (trailing fr to (as @ [a]) mod 3) \<and>
    (snd (strike_step n m a) \<longleftrightarrow>
      (\<exists>f t e. a = (f, t, Some e) \<and> 0 < trailing f t (as @ [a]) \<and> trailing f t (as @ [a]) mod 3 = 0))"
proof -
  obtain f t r where a: "a = (f, t, r)" by (cases a)
  show ?thesis
  proof (cases "\<exists>e. r = Some e \<and> payload_rejected e")
    case False
    with a show ?thesis
      by (cases r) (auto simp: note_failure_def trailing_snoc rejects_def strikes_of_def)
  next
    case True
    then obtain e where e: "r = Some e" "payload_rejected e" by blast
    let ?k = "trailing f t as"
    have k: "strikes_of m n f t = int (?k mod 3)" using assms by blast
    have ae: "a = (f, t, Some e)" using a e by simp
    have count: "strike_step n m (f, t, Some e) =
        (if strikes_of m n f t = 2 then (m(n := None), True)
         else (m(n \<mapsto> \<lparr>rj_from = f, rj_to = t, rj_count = strikes_of m n f t + 1\<rparr>), False))"
      using e k by (auto simp: note_failure_def strikes_of_def Let_def zmod_int split: option.splits)
    have sn: "trailing f' t' (as @ [(f, t, Some e)]) = (if f' = f \<and> t' = t then Suc ?k else 0)" for f' t'
      using e by (auto simp: trailing_snoc rejects_def)
    show ?thesis
    proof (cases "?k mod 3 = 2")
      case True
      with k show ?thesis
        by (simp add: ae count sn mod_Suc del: strike_step.simps) (simp add: strikes_of_def)
    next
      case False
      with k have "strikes_of m n f t \<noteq> 2" by simp
      with k False show ?thesis
        by (simp add: ae count sn mod_Suc del: strike_step.simps) (simp add: strikes_of_def)
    qed
  qed
qed

lemma strike_run_count:
  "m n = None \<Longrightarrow> strikes_of (strike_run n m as) n fr to = int (trailing fr to as mod 3)"
proof (induction as arbitrary: fr to rule: rev_induct)
  case Nil
  then show ?case by (simp add: strikes_of_def trailing_def)
next
  case (snoc a as)
  from strike_step_count [of "strike_run n m as" n as a fr to] snoc show ?case
    by (simp add: strike_run_append)
qed

subsection \<open>A concrete run\<close>

definition sample_env :: "(emission + 64 word) list env" where
  "sample_env = trace_env\<lparr>clock := \<lambda>w. (w, 120 * second)\<rparr>"

definition sample_collector :: "(emission + 64 word) list window_collector" where
  "sample_collector = \<lparr>wc_name = ''dns'', wc_lag = 0, wc_lag_at = None, wc_adaptive = None,
     wc_collect = \<lambda>w fr to. (w, \<lparr>records = [sample_log ''a''], metrics = []\<rparr>, to, None),
     wc_collect_budget = None\<rparr>"

definition down_collector :: "(emission + 64 word) list window_collector" where
  "down_collector = sample_collector\<lparr>wc_collect := \<lambda>w fr to. (w, empty_buffer, fr, Some (ErrNew ''down''))\<rparr>"

definition sample_entry :: "(emission + 64 word) list entry" where
  "sample_entry = \<lparr>en_collector = WindowCollector sample_collector, en_interval = minute,
     en_lookback = 0, en_max_window = 0\<rparr>"

definition sample_sched :: "(emission + 64 word) list sched" where
  "sample_sched = \<lparr>world = [], store = (\<lparr>cp_values = [(''dns'', 60 * second)]\<rparr>,
       \<lparr>main_file = Some (JsonMap [(''dns'', 60 * second)]), temp_file = None\<rparr>),
     failed400 = \<lambda>_. None, adaptive_windows = \<lambda>_. None, commit_budgets = \<lambda>_. None,
     summary = empty_summary, hooks = []\<rparr>"

lemmas sample_defs = sample_env_def trace_env_def sample_collector_def sample_entry_def sample_sched_def
  down_collector_def sample_log_def empty_buffer_def

lemmas window_eval = commit_window_def pending_window_def collect_buffer_def adaptive_window_def
  with_world_def mark_error_def deliver_window_def commit_def begin_commit_def record_bytes_def
  attrs_bytes_def commit_chunk_bytes_def replay_record_def env_emit_def commit_flush_def
  record_emission_def commit_succeeded_def clear_failed_def budgeted_window_def replay_metrics_def
  finish_window_def set_cursor_def set_checkpoint_def marshal_values_def year_ok_def add_hook_def
  errors_as_def cursor_def cp_get_def

lemma sample_window:
  "\<exists>s'. commit_window sample_env sample_collector sample_entry (60 * second) (120 * second) sample_sched
     = (s', 120 * second, None) \<and>
   world s' = [Inl (ELogEvent ''a'' [] 7 9 []), Inr 0] \<and> cursor s' ''dns'' = Some (120 * second)"
  by (simp add: sample_defs window_eval Let_def)

lemma down_window:
  "\<exists>s'. commit_window sample_env down_collector sample_entry (60 * second) (120 * second) sample_sched
     = (s', 60 * second, Some (ErrNew ''down'')) \<and> cursor s' ''dns'' = Some (60 * second)"
  by (simp add: sample_defs window_eval Let_def)

subsection \<open>Properties\<close>



text \<open>C17. A window whose commit returns an error leaves every collector's checkpoint where it was, in memory and
  for the next run, so the window is collected again.\<close>

theorem failed_window_keeps_cursors:
  assumes "commit_window env c e fr to s = (s', mark, Some err)"
  shows "mark = fr \<and> (\<forall>n. cursor s' n = cursor s n)"
  using commit_window_cursor [OF assms] by simp

theorem failed_window_keeps_cursors_witness:
  "\<exists>s'. commit_window sample_env down_collector sample_entry (60 * second) (120 * second) sample_sched
       = (s', 60 * second, Some (ErrNew ''down'')) \<and>
     (\<forall>n. cursor s' n = cursor sample_sched n) \<and> cursor sample_sched ''dns'' = Some (60 * second)"
proof -
  obtain s' where run: "commit_window sample_env down_collector sample_entry (60 * second)
      (120 * second) sample_sched = (s', 60 * second, Some (ErrNew ''down''))" using down_window by blast
  have "cursor sample_sched ''dns'' = Some (60 * second)"
    by (simp add: sample_defs cursor_def cp_get_def)
  with failed_window_keeps_cursors [OF run] run show ?thesis by blast
qed



text \<open>C2. However many ticks a collector's goroutine runs, and whatever fails, its checkpoint is never lost and
  never moves back before the whole second it stood at, and the checkpoints of other collectors do
  not change.\<close>

theorem ticks_never_regress:
  "(\<forall>m. m \<noteq> collector_name (en_collector e) \<longrightarrow> cursor (run_entry env e n s) m = cursor s m) \<and>
   (\<forall>t. cursor s (collector_name (en_collector e)) = Some t \<longrightarrow>
      (\<exists>t'. cursor (run_entry env e n s) (collector_name (en_collector e)) = Some t' \<and>
         (t' = t \<or> time_trunc t second < t')))"
proof -
  obtain s1 x where w: "with_world (await_timer env
      (start_delay (collector_name (en_collector e)) (en_interval e))) s = (s1, x)" by (metis surj_pair)
  have "cursor_step (collector_name (en_collector e)) (cursor s) (cursor (run_entry env e n s))"
    using run_ticks_cursor [of e s1 env n] with_world_cursor [OF w]
    by (cases x) (auto simp: run_entry_def w)
  then show ?thesis by (simp add: cursor_step_def)
qed


theorem ticks_never_regress_witness:
  "cursor (run_entry sample_env sample_entry 3 sample_sched) ''http'' = None \<and>
   (\<exists>t'. cursor (run_entry sample_env sample_entry 3 sample_sched) ''dns'' = Some t' \<and>
      (t' = 60 * second \<or> 60 * second < t'))"
proof -
  have n: "collector_name (en_collector sample_entry) = ''dns''"
    and c: "cursor sample_sched ''dns'' = Some (60 * second)" "cursor sample_sched ''http'' = None"
    by (simp_all add: sample_defs cursor_def cp_get_def)
  have t: "time_trunc (60 * second) second = 60 * second" by (simp add: time_trunc_def)
  from ticks_never_regress [of sample_entry sample_env 3 sample_sched] n c t show ?thesis by simp
qed



text \<open>The start delay spreads collectors without ever exceeding a minute or the collector's own
  interval, for every interval up to 100 days (longer ones could wrap the 64-bit product).\<close>

theorem start_delay_bounds:
  assumes "0 < interval" and "interval \<le> 100 * 24 * hour"
  shows "0 \<le> start_delay n interval \<and> start_delay n interval \<le> minute \<and>
    start_delay n interval < interval"
proof -
  let ?h = "int (unat (fnv32a n)) mod 1000"
  have h: "0 \<le> ?h" "?h \<le> 999" by simp_all
  have prod: "0 \<le> ?h * interval" "?h * interval \<le> 999 * interval"
    using h assms(1) by (simp_all add: mult_right_mono)
  then have w: "wrap_int64 (?h * interval) = ?h * interval"
    using assms(2) by (simp add: wrap_int64_def)
  have q: "go_quot (?h * interval) 1000 = ?h * interval div 1000"
    using prod by (simp add: go_quot_nonneg)
  have "p div 1000 < interval \<and> 0 \<le> p div 1000"
    if "0 \<le> p" "p \<le> 999 * interval" for p :: int
    using that assms(1) by auto
  from this [OF prod] have "?h * interval div 1000 < interval" "0 \<le> ?h * interval div 1000"
    by blast+
  moreover have "start_delay n interval = min minute (?h * interval div 1000)"
    unfolding start_delay_def Let_def w q by (simp add: min_def)
  ultimately show ?thesis by linarith
qed

theorem start_delay_bounds_witness:
  "start_delay ''dns'' minute \<le> minute \<and> 0 \<le> start_delay ''dns'' minute"
  using start_delay_bounds [of minute "''dns''"] by simp

text \<open>For an interval of 200 days the product wraps, and the delay is negative: the timer fires at once.\<close>

lemma fnv_http: "fnv32a ''http'' = 3378792613"
  by (simp add: fnv32a_def)

lemma start_delay_overflow: "start_delay ''http'' (200 * 24 * hour) < 0"
  by (simp add: start_delay_def fnv_http wrap_int64_def go_quot_def Let_def)

end
