(* ===== verification/RateConfig.thy ===== *)
theory RateConfig
  imports Telemetry
begin

text \<open>
  The rate-limit section of the configuration, \<open>internal/config/config.go\<close>: the buckets of the request
  classes, the legacy fields that override them, and their validation. Rates are exact rationals,
  so NaN and infinities (which \<open>Validate\<close> rejects) do not occur.
\<close>

record bucket_config =
  bc_rate :: rat
  bc_burst :: int

record rate_limit_config =
  rl_rate :: rat
  rl_burst :: int
  rl_total :: bucket_config
  rl_rest :: bucket_config
  rl_graphql :: bucket_config
  rl_max_pause :: duration
  rl_account_based :: bool
  rl_scope :: bucket_config

definition config_buckets :: "rate_limit_config \<Rightarrow> bucket_config \<times> bucket_config" where
  "config_buckets c =
     (let set_rate = (\<lambda>b. if rl_rate c \<noteq> 0 then b\<lparr>bc_rate := rl_rate c\<rparr> else b);
          set_burst = (\<lambda>b. if rl_burst c \<noteq> 0 then b\<lparr>bc_burst := rl_burst c\<rparr> else b)
      in (set_burst (set_rate (rl_rest c)), set_burst (set_rate (rl_graphql c))))"

definition bucket_error :: "bucket_config \<Rightarrow> gerr option" where
  "bucket_error b =
     (if bc_rate b \<le> 0 then
        Some (ErrNew ''cloudflare.rate_limit.requests_per_second must be finite and positive'')
      else if bc_burst b < 1 \<or> bc_burst b > 1000 then
        Some (ErrNew ''cloudflare.rate_limit.burst must be an integer in [1, 1000]'')
      else None)"

fun first_bucket_error :: "(string \<times> bucket_config) list \<Rightarrow> gerr option" where
  "first_bucket_error [] = None"
| "first_bucket_error ((n, b) # bs) =
     (case bucket_error b of
        Some e \<Rightarrow> Some (ErrWrap (''cloudflare.rate_limit.'' @ n @ '': '') e)
      | None \<Rightarrow> first_bucket_error bs)"

definition rate_limit_error :: "rate_limit_config \<Rightarrow> gerr option" where
  "rate_limit_error c =
     (if rl_max_pause c < second \<or> rl_max_pause c > hour then
        Some (ErrNew ''cloudflare.rate_limit.max_pause must be a duration in [1s, 60m]'')
      else
        (case config_buckets c of (rest, graphql) \<Rightarrow>
           first_bucket_error [(''total'', rl_total c), (''rest'', rest), (''graphql'', graphql),
             (''graphql_scope'', rl_scope c)]))"

definition general_api_limit :: rat where "general_api_limit = 4"

definition exceeds_general_limit :: "rate_limit_config \<Rightarrow> bool" where
  "exceeds_general_limit c \<longleftrightarrow>
     (case config_buckets c of (rest, graphql) \<Rightarrow>
        min (bc_rate (rl_total c)) (bc_rate rest + bc_rate graphql) > general_api_limit)"

definition bucket_valid :: "bucket_config \<Rightarrow> bool" where
  "bucket_valid b \<longleftrightarrow> 0 < bc_rate b \<and> 1 \<le> bc_burst b \<and> bc_burst b \<le> 1000"

lemma bucket_error_None: "bucket_error b = None \<longleftrightarrow> bucket_valid b"
  by (auto simp: bucket_error_def bucket_valid_def)

lemma first_bucket_error_None:
  "first_bucket_error bs = None \<longleftrightarrow> (\<forall>(n, b) \<in> set bs. bucket_valid b)"
  unfolding bucket_error_None [symmetric]
  by (induction bs rule: first_bucket_error.induct) (auto split: option.splits)

lemma rate_limit_error_None:
  "rate_limit_error c = None \<longleftrightarrow> second \<le> rl_max_pause c \<and> rl_max_pause c \<le> hour \<and>
     bucket_valid (rl_total c) \<and> bucket_valid (fst (config_buckets c)) \<and>
     bucket_valid (snd (config_buckets c)) \<and> bucket_valid (rl_scope c)"
  by (auto simp: rate_limit_error_def first_bucket_error_None simp del: first_bucket_error.simps
      split: prod.splits)

text \<open>The defaults, \<open>config.Default().Cloudflare.RateLimit\<close>.\<close>

definition default_rate_limit :: rate_limit_config where
  "default_rate_limit =
     \<lparr>rl_rate = 0, rl_burst = 0, rl_total = \<lparr>bc_rate = 375 / 100, bc_burst = 5\<rparr>,
      rl_rest = \<lparr>bc_rate = 375 / 100, bc_burst = 5\<rparr>,
      rl_graphql = \<lparr>bc_rate = 25 / 10, bc_burst = 5\<rparr>, rl_max_pause = 5 * minute,
      rl_account_based = True, rl_scope = \<lparr>bc_rate = 9 / 10, bc_burst = 2\<rparr>\<rparr>"

lemma default_rate_limit_valid:
  "rate_limit_error default_rate_limit = None" "\<not> exceeds_general_limit default_rate_limit"
  by (simp_all add: rate_limit_error_None default_rate_limit_def config_buckets_def bucket_valid_def
      exceeds_general_limit_def general_api_limit_def)

end
