(* ===== verification/Limiter.thy ===== *)
theory Limiter
  imports RateConfig
begin

text \<open>
  The process-wide request budgets, \<open>internal/cfapi/limiter.go\<close>: token buckets for the REST and GraphQL
  classes, the total ceiling, and one bucket per zone or account. A request takes one token from
  each of its buckets at one instant, or none and waits.

  The buckets are the global variables of the Go package, as one state; the code locks the
  buckets of a request together, so one iteration of \<open>acquireBudgets\<close> is one step. Rates and tokens
  are exact rationals.
\<close>

record token_bucket =
  tb_rate :: rat
  tb_capacity :: rat
  tb_tokens :: rat
  tb_burst :: int
  tb_last :: time
  tb_paused_until :: time
  tb_max_pause :: duration
  tb_started :: bool

definition new_token_bucket :: "rat \<Rightarrow> int \<Rightarrow> token_bucket" where
  "new_token_bucket rate burst =
     \<lparr>tb_rate = rate, tb_capacity = of_int burst, tb_tokens = of_int burst, tb_burst = burst,
      tb_last = 0, tb_paused_until = 0, tb_max_pause = 0, tb_started = False\<rparr>"

record budgets =
  rest_budget :: token_bucket
  graphql_budget :: token_bucket
  total_budget :: token_bucket
  scope_account_based :: bool
  scope_cfg :: bucket_config
  scope_buckets :: "string \<rightharpoonup> token_bucket"

datatype bucket_ref = RestB | GraphqlB | TotalB | ScopeB string

fun get_bucket :: "bucket_ref \<Rightarrow> budgets \<Rightarrow> token_bucket option" where
  "get_bucket RestB p = Some (rest_budget p)"
| "get_bucket GraphqlB p = Some (graphql_budget p)"
| "get_bucket TotalB p = Some (total_budget p)"
| "get_bucket (ScopeB k) p = scope_buckets p k"

fun map_bucket :: "(token_bucket \<Rightarrow> token_bucket) \<Rightarrow> bucket_ref \<Rightarrow> budgets \<Rightarrow> budgets" where
  "map_bucket f RestB p = p\<lparr>rest_budget := f (rest_budget p)\<rparr>"
| "map_bucket f GraphqlB p = p\<lparr>graphql_budget := f (graphql_budget p)\<rparr>"
| "map_bucket f TotalB p = p\<lparr>total_budget := f (total_budget p)\<rparr>"
| "map_bucket f (ScopeB k) p =
     p\<lparr>scope_buckets := (scope_buckets p)(k := map_option f (scope_buckets p k))\<rparr>"

definition map_buckets :: "(token_bucket \<Rightarrow> token_bucket) \<Rightarrow> bucket_ref list \<Rightarrow> budgets \<Rightarrow> budgets" where
  "map_buckets f refs p = fold (map_bucket f) refs p"

subsection \<open>Resource buckets\<close>

definition scope_bucket :: "string \<Rightarrow> budgets \<Rightarrow> budgets \<times> bucket_ref option" where
  "scope_bucket k p =
     (if \<not> scope_account_based p \<or> k = [] then (p, None)
      else
        (case scope_buckets p k of
           Some _ \<Rightarrow> (p, Some (ScopeB k))
         | None \<Rightarrow>
             (p\<lparr>scope_buckets := (scope_buckets p)(k \<mapsto>
                  new_token_bucket (bc_rate (scope_cfg p)) (bc_burst (scope_cfg p)))\<rparr>,
              Some (ScopeB k))))"

definition quota_scope :: "string \<Rightarrow> string \<Rightarrow> string" where
  "quota_scope scope ident = (if ident = [] then [] else scope @ ''/'' @ ident)"

subsection \<open>Admission\<close>

definition refill :: "time \<Rightarrow> token_bucket \<Rightarrow> token_bucket" where
  "refill now b0 =
     (let b = (if \<not> tb_started b0 then b0\<lparr>tb_last := now, tb_started := True\<rparr> else b0) in
      b\<lparr>tb_tokens := min (tb_capacity b)
           (tb_tokens b + of_int (time_sub now (tb_last b)) / of_int second * tb_rate b),
        tb_last := now\<rparr>)"

definition refill_delay :: "token_bucket \<Rightarrow> duration" where
  "refill_delay b =
     (if tb_rate b = 0 then max_int64
      else
        (let seconds = (1 - tb_tokens b) / tb_rate b in
         if seconds < of_int max_int64 / of_int second then \<lceil>seconds * of_int second\<rceil> else max_int64))"

definition bucket_delay :: "time \<Rightarrow> token_bucket \<Rightarrow> duration" where
  "bucket_delay now b =
     max (time_sub (tb_paused_until b) now) (if tb_tokens b < 1 then refill_delay b else 0)"

definition total_delay :: "time \<Rightarrow> bucket_ref list \<Rightarrow> budgets \<Rightarrow> duration" where
  "total_delay now refs p =
     fold (\<lambda>r d. case get_bucket r p of None \<Rightarrow> d | Some b \<Rightarrow> max d (bucket_delay now b)) refs 0"

definition take_token :: "token_bucket \<Rightarrow> token_bucket" where
  "take_token b = b\<lparr>tb_tokens := tb_tokens b - 1\<rparr>"

text \<open>One iteration: the delay to wait, which is 0 exactly when the tokens were taken.\<close>

definition acquire_step :: "time \<Rightarrow> bucket_ref list \<Rightarrow> budgets \<Rightarrow> budgets \<times> duration" where
  "acquire_step now refs p =
     (let p1 = map_buckets (refill now) refs p; delay = total_delay now refs p1 in
      if delay \<le> 0 then (map_buckets take_token refs p1, delay) else (p1, delay))"

record 'w net =
  net_ctx :: "'w \<Rightarrow> 'w \<times> gerr option"
  net_now :: "'w \<Rightarrow> 'w \<times> time"
  net_wait :: "duration \<Rightarrow> 'w \<Rightarrow> 'w \<times> gerr option"

text \<open>The loop; \<open>n\<close> bounds the iterations observed, None means it is still waiting.\<close>

fun acquire_budgets ::
  "'w net \<Rightarrow> bucket_ref list \<Rightarrow> nat \<Rightarrow> 'w \<Rightarrow> budgets \<Rightarrow> ('w \<times> budgets \<times> gerr option) option" where
  "acquire_budgets net refs 0 w p = None"
| "acquire_budgets net refs (Suc n) w p =
     (case net_ctx net w of
        (w1, Some e) \<Rightarrow> Some (w1, p, Some e)
      | (w1, None) \<Rightarrow>
          (case net_now net w1 of
             (w2, now) \<Rightarrow>
               (case acquire_step now refs p of
                  (p1, delay) \<Rightarrow>
                    if delay \<le> 0 then Some (w2, p1, None)
                    else
                      (case net_wait net delay w2 of
                         (w3, Some e) \<Rightarrow> Some (w3, p1, Some e)
                       | (w3, None) \<Rightarrow> acquire_budgets net refs n w3 p1))))"

subsection \<open>Pauses and clamps\<close>

definition pause_bucket :: "time \<Rightarrow> duration \<Rightarrow> token_bucket \<Rightarrow> token_bucket" where
  "pause_bucket now delay b =
     (if delay \<le> 0 then b
      else if now + delay > tb_paused_until b then b\<lparr>tb_paused_until := now + delay\<rparr> else b)"

definition per_token_safe_rate :: rat where "per_token_safe_rate = 9 / 10"

definition clamp_rate :: "rat \<Rightarrow> token_bucket \<Rightarrow> token_bucket \<times> bool" where
  "clamp_rate rate b = (if tb_rate b \<le> rate then (b, False) else (b\<lparr>tb_rate := rate\<rparr>, True))"

subsection \<open>Configuration\<close>

definition fill_rate_config :: "rate_limit_config \<Rightarrow> rate_limit_config" where
  "fill_rate_config c0 =
     (let zero = \<lparr>bc_rate = 0, bc_burst = 0\<rparr>;
          c = (if rl_max_pause c0 = 0 then c0\<lparr>rl_max_pause := rl_max_pause default_rate_limit\<rparr> else c0);
          c = (if rl_scope c = zero then c\<lparr>rl_scope := rl_scope default_rate_limit\<rparr> else c)
      in if rl_total c = zero then
           (case config_buckets c of (rest, graphql) \<Rightarrow>
              c\<lparr>rl_total := \<lparr>bc_rate = bc_rate rest + bc_rate graphql,
                  bc_burst = min 1000 (bc_burst rest + bc_burst graphql)\<rparr>\<rparr>)
         else c)"

definition same_bucket :: "token_bucket \<Rightarrow> bucket_config \<Rightarrow> bool" where
  "same_bucket b c \<longleftrightarrow> tb_rate b = bc_rate c \<and> tb_burst b = bc_burst c"

definition set_bucket :: "bucket_config \<Rightarrow> token_bucket \<Rightarrow> token_bucket" where
  "set_bucket c b = b\<lparr>tb_rate := bc_rate c, tb_burst := bc_burst c,
     tb_capacity := of_int (bc_burst c), tb_tokens := of_int (bc_burst c)\<rparr>"

definition same_config :: "rate_limit_config \<Rightarrow> budgets \<Rightarrow> bool" where
  "same_config c p \<longleftrightarrow>
     (case config_buckets c of (rest, graphql) \<Rightarrow>
        same_bucket (rest_budget p) rest \<and> same_bucket (graphql_budget p) graphql \<and>
        same_bucket (total_budget p) (rl_total c) \<and> tb_max_pause (rest_budget p) = rl_max_pause c \<and>
        scope_account_based p = rl_account_based c \<and> scope_cfg p = rl_scope c)"

definition budgets_started :: "budgets \<Rightarrow> bool" where
  "budgets_started p \<longleftrightarrow> tb_started (rest_budget p) \<or> tb_started (graphql_budget p) \<or>
     tb_started (total_budget p) \<or> scope_buckets p \<noteq> Map.empty"

definition apply_rate_config :: "rate_limit_config \<Rightarrow> budgets \<Rightarrow> budgets" where
  "apply_rate_config c p =
     (case config_buckets c of (rest, graphql) \<Rightarrow>
        p\<lparr>rest_budget := set_bucket rest ((rest_budget p)\<lparr>tb_max_pause := rl_max_pause c\<rparr>),
          graphql_budget := set_bucket graphql (graphql_budget p),
          total_budget := set_bucket (rl_total c) ((total_budget p)\<lparr>tb_max_pause := rl_max_pause c\<rparr>),
          scope_account_based := rl_account_based c, scope_cfg := rl_scope c\<rparr>)"

definition configure_rate_limit :: "rate_limit_config \<Rightarrow> budgets \<Rightarrow> budgets \<times> gerr option" where
  "configure_rate_limit c0 p =
     (let c = fill_rate_config c0 in
      case rate_limit_error c of
        Some e \<Rightarrow> (p, Some e)
      | None \<Rightarrow>
          if same_config c p then (p, None)
          else if budgets_started p then
            (p, Some (ErrNew ''cloudflare process rate limit already in use''))
          else (apply_rate_config c p, None))"

text \<open>The package variables before any configuration.\<close>

definition initial_budgets :: budgets where
  "initial_budgets =
     (let c = default_rate_limit; b = (\<lambda>k. new_token_bucket (bc_rate k) (bc_burst k)) in
      \<lparr>rest_budget = (b (rl_rest c))\<lparr>tb_max_pause := rl_max_pause c\<rparr>,
       graphql_budget = b (rl_graphql c),
       total_budget = (b (rl_total c))\<lparr>tb_max_pause := rl_max_pause c\<rparr>,
       scope_account_based = rl_account_based c, scope_cfg = rl_scope c,
       scope_buckets = Map.empty\<rparr>)"


subsection \<open>Lemmas\<close>

lemma get_map_bucket:
  "get_bucket r (map_bucket f q p) = (if r = q then map_option f (get_bucket r p) else get_bucket r p)"
  by (cases r; cases q) auto

lemma get_map_buckets:
  "distinct refs \<Longrightarrow> get_bucket r (map_buckets f refs p) =
     (if r \<in> set refs then map_option f (get_bucket r p) else get_bucket r p)"
  unfolding map_buckets_def
  by (induction refs arbitrary: p) (auto simp: get_map_bucket)

lemma fold_max_delay:
  "fold (\<lambda>r d. case g r of None \<Rightarrow> d | Some b \<Rightarrow> max d (h b)) refs (d::int) \<le> x \<longleftrightarrow>
     d \<le> x \<and> (\<forall>r \<in> set refs. \<forall>b. g r = Some b \<longrightarrow> h b \<le> x)"
  by (induction refs arbitrary: d) (auto split: option.splits)

lemma total_delay_le:
  "total_delay now refs p \<le> 0 \<longleftrightarrow>
     (\<forall>r \<in> set refs. \<forall>b. get_bucket r p = Some b \<longrightarrow> bucket_delay now b \<le> 0)"
  by (simp add: total_delay_def fold_max_delay)

lemma refill_delay_pos:
  assumes "tb_tokens b < 1" "0 \<le> tb_rate b"
  shows "0 < refill_delay b"
  using assms by (simp add: refill_delay_def)

lemma bucket_delay_le:
  "0 \<le> tb_rate b \<Longrightarrow> bucket_delay now b \<le> 0 \<Longrightarrow> 1 \<le> tb_tokens b \<and> tb_paused_until b \<le> now"
  using refill_delay_pos [of b]
  by (fastforce simp: bucket_delay_def time_sub_def split: if_splits)

text \<open>Well-formed buckets.\<close>

definition bucket_ok :: "token_bucket \<Rightarrow> bool" where
  "bucket_ok b \<longleftrightarrow> 0 \<le> tb_rate b \<and> 0 \<le> tb_tokens b \<and> tb_tokens b \<le> tb_capacity b"

text \<open>The potential of a bucket at an instant: the tokens it may have handed out by then, at a rate \<open>R\<close>.\<close>

definition level :: "rat \<Rightarrow> time \<Rightarrow> token_bucket \<Rightarrow> rat" where
  "level R t b = tb_tokens b + of_int (t - tb_last b) / of_int second * R"

lemma refill_ok:
  assumes "bucket_ok b" "tb_started b \<longrightarrow> tb_last b \<le> now"
  shows "bucket_ok (refill now b) \<and> tb_last (refill now b) = now \<and>
    tb_started (refill now b) \<and> tb_rate (refill now b) = tb_rate b \<and>
    tb_capacity (refill now b) = tb_capacity b"
  using assms
  by (auto simp: refill_def bucket_ok_def Let_def time_sub_def min_def intro!: add_nonneg_nonneg mult_nonneg_nonneg)

lemma refill_level:
  assumes "bucket_ok b" "tb_started b" "tb_last b \<le> now" "now \<le> t" "tb_rate b \<le> R"
  shows "level R t (refill now b) \<le> level R t b"
proof -
  let ?d = "of_int (time_sub now (tb_last b)) / of_int second :: rat"
  let ?e = "of_int (now - tb_last b) / of_int second :: rat"
  have "time_sub now (tb_last b) \<le> now - tb_last b" using assms(3) by (rule time_sub_le)
  then have de: "?d \<le> ?e" by (intro divide_right_mono) (simp_all del: of_int_diff)
  have "0 \<le> time_sub now (tb_last b)" using assms(3) by (simp add: time_sub_def)
  then have prod: "?d * tb_rate b \<le> ?e * R"
    using de assms(1,5) by (intro mult_mono) (auto simp: bucket_ok_def)
  have tok: "tb_tokens (refill now b) \<le> tb_tokens b + ?d * tb_rate b"
    and last: "tb_last (refill now b) = now" using assms(2) by (simp_all add: refill_def)
  have split: "of_int (t - tb_last b) / of_int second * R
      = ?e * R + of_int (t - now) / of_int second * R"
    by (simp add: field_simps)
  have gen: "x \<le> y + d \<Longrightarrow> d \<le> e \<Longrightarrow> z = e + w \<Longrightarrow> x + w \<le> y + z" for x y d e z w :: rat
    by simp
  show ?thesis unfolding level_def last by (rule gen [OF tok prod split])
qed


lemma refill_level_start:
  assumes "bucket_ok b" "tb_started b \<longrightarrow> tb_last b \<le> now" "s \<le> now" "now \<le> t" "tb_rate b \<le> R"
  shows "level R t (refill now b) \<le> tb_capacity b + of_int (t - s) / of_int second * R"
proof -
  have R: "0 \<le> R" using assms(1,5) by (simp add: bucket_ok_def)
  have "tb_tokens (refill now b) \<le> tb_capacity b" "tb_last (refill now b) = now"
    using refill_ok [OF assms(1,2)] by (auto simp: bucket_ok_def)
  moreover have "of_int (t - now) / of_int second * R \<le> of_int (t - s) / of_int second * R"
    using R assms(3) by (intro mult_right_mono divide_right_mono) (simp_all del: of_int_diff)
  ultimately show ?thesis by (simp add: level_def)
qed

subsection \<open>Histories\<close>

text \<open>What can happen to the budgets while requests are served.\<close>

datatype limiter_event =
    EvAcquire time "bucket_ref list"
  | EvScope string
  | EvPause bucket_ref time duration
  | EvClamp bucket_ref rat

fun run_event :: "limiter_event \<Rightarrow> budgets \<Rightarrow> budgets" where
  "run_event (EvAcquire now refs) p = fst (acquire_step now refs p)"
| "run_event (EvScope k) p = fst (scope_bucket k p)"
| "run_event (EvPause r now d) p = map_bucket (pause_bucket now d) r p"
| "run_event (EvClamp r rate) p = map_bucket (\<lambda>b. fst (clamp_rate rate b)) r p"

text \<open>Does the event send a request that is metered by \<open>r\<close>?\<close>

fun sends :: "bucket_ref \<Rightarrow> limiter_event \<Rightarrow> budgets \<Rightarrow> bool" where
  "sends r (EvAcquire now refs) p \<longleftrightarrow> r \<in> set refs \<and> snd (acquire_step now refs p) \<le> 0"
| "sends r e p \<longleftrightarrow> False"

fun sent :: "bucket_ref \<Rightarrow> limiter_event list \<Rightarrow> budgets \<Rightarrow> nat" where
  "sent r [] p = 0"
| "sent r (e # es) p = (if sends r e p then 1 else 0) + sent r es (run_event e p)"

fun events_within :: "time \<Rightarrow> time \<Rightarrow> limiter_event list \<Rightarrow> bool" where
  "events_within s t [] \<longleftrightarrow> s \<le> t"
| "events_within s t (EvAcquire now refs # es) \<longleftrightarrow>
     s \<le> now \<and> distinct refs \<and> events_within now t es"
| "events_within s t (EvClamp r rate # es) \<longleftrightarrow> 0 \<le> rate \<and> events_within s t es"
| "events_within s t (e # es) \<longleftrightarrow> events_within s t es"

lemma events_within_le: "events_within s t es \<Longrightarrow> s \<le> t"
  by (induction s t es rule: events_within.induct) auto

lemma acquire_step_get:
  assumes "distinct refs"
  shows "get_bucket r (fst (acquire_step now refs p)) =
    (if r \<in> set refs then map_option ((if snd (acquire_step now refs p) \<le> 0 then take_token else id) \<circ> refill now)
       (get_bucket r p) else get_bucket r p)"
  using assms
  by (simp add: acquire_step_def Let_def get_map_buckets option.map_comp option.map_id0)

lemma acquire_step_admit:
  assumes "distinct refs" "snd (acquire_step now refs p) \<le> 0" "r \<in> set refs"
    "get_bucket r p = Some b" "0 \<le> tb_rate b"
  shows "1 \<le> tb_tokens (refill now b) \<and> tb_paused_until (refill now b) \<le> now"
proof -
  have "bucket_delay now (refill now b) \<le> 0"
    using assms(1-4) by (auto simp: acquire_step_def Let_def total_delay_le get_map_buckets split: if_splits)
  moreover have "tb_rate (refill now b) = tb_rate b" by (simp add: refill_def Let_def)
  ultimately show ?thesis using bucket_delay_le assms(5) by simp
qed

lemma other_event_get:
  assumes "get_bucket r p = Some b" "bucket_ok b" "\<forall>now refs. e \<noteq> EvAcquire now refs"
    "events_within s t (e # es)"
  shows "\<exists>b'. get_bucket r (run_event e p) = Some b' \<and> bucket_ok b' \<and> tb_rate b' \<le> tb_rate b \<and>
    tb_tokens b' = tb_tokens b \<and> tb_capacity b' = tb_capacity b \<and> tb_last b' = tb_last b \<and>
    tb_started b' = tb_started b \<and> events_within s t es"
proof (cases e)
  case (EvAcquire now refs)
  with assms(3) show ?thesis by blast
next
  case (EvScope k)
  with assms show ?thesis
    by (cases r) (auto simp: scope_bucket_def split: option.splits)
next
  case (EvPause q now d)
  with assms show ?thesis
    by (intro exI [of _ "if r = q then pause_bucket now d b else b"])
      (auto simp: get_map_bucket pause_bucket_def bucket_ok_def)
next
  case (EvClamp q rate)
  with assms show ?thesis
    by (intro exI [of _ "if r = q then fst (clamp_rate rate b) else b"])
      (auto simp: get_map_bucket clamp_rate_def bucket_ok_def)
qed

lemma sent_bound:
  assumes "get_bucket r p = Some b" "bucket_ok b" "tb_started b \<longrightarrow> tb_last b \<le> s"
    "events_within s t es" "tb_rate b \<le> R"
    "tb_capacity b + of_int (t - s) / of_int second * R \<le> X \<or> (tb_started b \<and> level R t b \<le> X)"
  shows "of_nat (sent r es p) \<le> X"
  using assms
proof (induction es arbitrary: p b s X)
  case Nil
  have "0 \<le> R" "0 \<le> tb_tokens b" "0 \<le> tb_capacity b" using Nil.prems by (auto simp: bucket_ok_def)
  moreover have "tb_started b \<Longrightarrow> 0 \<le> of_int (t - tb_last b) / of_int second * R"
    "0 \<le> of_int (t - s) / of_int second * R"
    using \<open>0 \<le> R\<close> Nil.prems(3,4) by (auto intro!: mult_nonneg_nonneg divide_nonneg_nonneg simp del: of_int_diff)
  ultimately show ?case using Nil.prems(6) by (auto simp: level_def)
next
  case (Cons e es)
  show ?case
  proof (cases "\<exists>now refs. e = EvAcquire now refs")
    case False
    then have ne: "\<forall>now refs. e \<noteq> EvAcquire now refs" by blast
    from other_event_get [OF Cons.prems(1,2) ne Cons.prems(4)] obtain b' where
      b': "get_bucket r (run_event e p) = Some b'" "bucket_ok b'" "tb_rate b' \<le> tb_rate b"
        "tb_tokens b' = tb_tokens b" "tb_capacity b' = tb_capacity b" "tb_last b' = tb_last b"
        "tb_started b' = tb_started b" "events_within s t es" by blast
    have "of_nat (sent r es (run_event e p)) \<le> X"
      using b' Cons.prems by (intro Cons.IH [OF b'(1,2)]) (auto simp: level_def)
    moreover have "\<not> sends r e p" using ne by (cases e) auto
    ultimately show ?thesis by simp
  next
    case True
    then obtain now refs where e: "e = EvAcquire now refs" by blast
    with Cons.prems(4) have w: "s \<le> now" "distinct refs" "events_within now t es" by simp_all
    have t: "now \<le> t" by (rule events_within_le [OF w(3)])
    let ?p = "run_event e p"
    have R: "0 \<le> R" using Cons.prems(2,5) by (simp add: bucket_ok_def)
    show ?thesis
    proof (cases "r \<in> set refs")
      case False
      then have g: "get_bucket r ?p = Some b" using Cons.prems(1) e acquire_step_get [OF w(2)] by simp
      have "of_int (t - now) / of_int second * R \<le> of_int (t - s) / of_int second * R"
        using R w(1) by (intro mult_right_mono divide_right_mono) (simp_all del: of_int_diff)
      then have "of_nat (sent r es ?p) \<le> X"
        using Cons.prems w by (intro Cons.IH [OF g Cons.prems(2) _ w(3)]) auto
      then show ?thesis using False e by simp
    next
      case r: True
      let ?b = "refill now b"
      have last: "tb_started b \<longrightarrow> tb_last b \<le> now" using Cons.prems(3) w(1) by auto
      note ok = refill_ok [OF Cons.prems(2) last]
      have lev: "level R t ?b \<le> X"
        using Cons.prems(6) refill_level [OF Cons.prems(2) _ _ t Cons.prems(5)] last
          refill_level_start [OF Cons.prems(2) last w(1) t Cons.prems(5)] by force
      show ?thesis
      proof (cases "snd (acquire_step now refs p) \<le> 0")
        case False
        then have g: "get_bucket r ?p = Some ?b"
          using Cons.prems(1) e r acquire_step_get [OF w(2)] by simp
        have "of_nat (sent r es ?p) \<le> X"
          using ok lev Cons.prems(5) by (intro Cons.IH [OF g _ _ w(3)]) auto
        then show ?thesis using False e by simp
      next
        case True
        have one: "1 \<le> tb_tokens ?b"
          using acquire_step_admit [OF w(2) True r Cons.prems(1)] Cons.prems(2) by (simp add: bucket_ok_def)
        have g: "get_bucket r ?p = Some (take_token ?b)"
          using Cons.prems(1) e r True acquire_step_get [OF w(2)] by simp
        have "of_nat (sent r es ?p) \<le> X - 1"
          using ok lev one Cons.prems(5)
          by (intro Cons.IH [OF g _ _ w(3)]) (auto simp: take_token_def bucket_ok_def level_def)
        then show ?thesis using True r e by simp
      qed
    qed
  qed
qed


subsection \<open>Progress\<close>

lemma time_sub_ge: "c \<le> t - u \<Longrightarrow> c \<le> max_int64 \<Longrightarrow> c \<le> time_sub t u"
  by (simp add: time_sub_def)

text \<open>Waiting for the reported delay is enough for one bucket.\<close>

lemma delay_is_enough:
  assumes ok: "bucket_ok b" "tb_started b" "tb_last b = now" "1 / 10 ^ 9 \<le> tb_rate b" "1 \<le> tb_capacity b"
    and D: "bucket_delay now b \<le> D" "now + D \<le> later" "0 \<le> D" "tb_paused_until b - now \<le> max_int64"
  shows "bucket_delay later (refill later b) \<le> 0"
proof -
  have "tb_paused_until b - now \<le> time_sub (tb_paused_until b) now"
    using D(4) by (simp add: time_sub_def)
  then have paused: "tb_paused_until b \<le> later" using D(1,2) by (simp add: bucket_delay_def)
  let ?d = "time_sub later now"
  have d0: "0 \<le> ?d" using D(2,3) by (simp add: time_sub_def)
  have rate: "0 < tb_rate b" using ok(4) by (simp add: order_less_le_trans [of 0 "1 / 10 ^ 9"])
  have "1 \<le> tb_tokens b + of_int ?d / of_int second * tb_rate b"
  proof (cases "tb_tokens b < 1")
    case False
    moreover have "0 \<le> of_int ?d / of_int second * tb_rate b"
      using d0 rate by (intro mult_nonneg_nonneg divide_nonneg_nonneg) simp_all
    ultimately show ?thesis by simp
  next
    case True
    let ?s = "(1 - tb_tokens b) / tb_rate b"
    have "1 - tb_tokens b \<le> 1" using ok(1) by (simp add: bucket_ok_def)
    then have "?s \<le> 1 / tb_rate b" using rate by (simp add: divide_right_mono)
    also have "\<dots> \<le> 10 ^ 9" using ok(4) rate by (simp add: field_simps)
    finally have s: "?s \<le> 10 ^ 9" .
    have "?s < of_int max_int64 / of_int second" by (rule order_le_less_trans [OF s]) simp
    then have "\<lceil>?s * of_int second\<rceil> \<le> D"
      using D(1) True rate by (simp add: bucket_delay_def refill_delay_def Let_def)
    moreover have "\<lceil>?s * of_int second\<rceil> \<le> max_int64"
    proof -
      have "?s * of_int second \<le> 10 ^ 9 * of_int second" by (rule mult_right_mono [OF s]) simp
      then have "?s * of_int second \<le> of_int max_int64" by (rule order_trans) simp
      then show ?thesis by (rule ceiling_le_iff [THEN iffD2])
    qed
    ultimately have "\<lceil>?s * of_int second\<rceil> \<le> ?d" using D(2) by (intro time_sub_ge) linarith+
    then have "?s * of_int second \<le> of_int ?d" by (simp add: ceiling_le_iff)
    then have "?s \<le> of_int ?d / of_int second" by (simp add: field_simps)
    then have "?s * tb_rate b \<le> of_int ?d / of_int second * tb_rate b"
      using rate by (intro mult_right_mono) simp_all
    then show ?thesis using rate by simp
  qed
  then have "1 \<le> tb_tokens (refill later b)"
    using ok(2,3,5) by (simp add: refill_def Let_def)
  moreover have "tb_paused_until (refill later b) = tb_paused_until b"
    by (simp add: refill_def Let_def)
  ultimately show ?thesis using paused by (simp add: bucket_delay_def time_sub_def)
qed

definition bucket_ready :: "time \<Rightarrow> token_bucket \<Rightarrow> bool" where
  "bucket_ready now b \<longleftrightarrow> bucket_ok b \<and> (tb_started b \<longrightarrow> tb_last b \<le> now) \<and>
     1 / 10 ^ 9 \<le> tb_rate b \<and> 1 \<le> tb_capacity b \<and> tb_paused_until b - now \<le> max_int64"

lemma acquire_again:
  assumes "distinct refs" "\<forall>r \<in> set refs. \<forall>b. get_bucket r p = Some b \<longrightarrow> bucket_ready now b"
    and "acquire_step now refs p = (p1, D)" "0 < D" "now + D \<le> later"
  shows "snd (acquire_step later refs p1) \<le> 0"
proof -
  have p1: "p1 = map_buckets (refill now) refs p" and D: "total_delay now refs p1 = D"
    using assms(3,4) by (auto simp: acquire_step_def Let_def split: if_splits)
  have le: "total_delay later refs (map_buckets (refill later) refs p1) \<le> 0"
    unfolding total_delay_le
  proof (intro ballI allI impI)
    fix r b assume r: "r \<in> set refs" and b: "get_bucket r (map_buckets (refill later) refs p1) = Some b"
    with p1 assms(1) obtain b0 where b0: "get_bucket r p = Some b0" "b = refill later (refill now b0)"
      by (auto simp: get_map_buckets)
    with assms(2) r have rdy: "bucket_ready now b0" by blast
    have "get_bucket r p1 = Some (refill now b0)" using p1 assms(1) r b0 by (simp add: get_map_buckets)
    then have "bucket_delay now (refill now b0) \<le> D"
      using D [unfolded total_delay_def] fold_max_delay [where g = "\<lambda>r. get_bucket r p1" and h = "bucket_delay now"
          and refs = refs and d = 0 and x = D] r
      by blast
    then show "bucket_delay later b \<le> 0"
      unfolding b0(2) using rdy assms(4,5) refill_ok [of b0 now]
      by (intro delay_is_enough [of _ now D]) (auto simp: bucket_ready_def refill_def Let_def)
  qed
  then show ?thesis by (simp add: acquire_step_def Let_def)
qed

subsection \<open>Properties\<close>

text \<open>C9. No bucket is ever exceeded: whatever requests, pauses and clamps happen in an interval, the
  requests sent that are metered by a bucket number at most its capacity plus its rate times the
  length of the interval, for the class budgets, the total ceiling and every zone or account.\<close>

theorem budget_rate_bound:
  assumes "get_bucket r p = Some b" and "bucket_ok b" and "tb_started b \<longrightarrow> tb_last b \<le> s"
    and "events_within s t es"
  shows "of_nat (sent r es p) \<le> tb_capacity b + of_int (t - s) / of_int second * tb_rate b"
  using sent_bound [OF assms order_refl] by blast

theorem budget_rate_bound_witness:
  "of_nat (sent GraphqlB (replicate 9 (EvAcquire (5 * second) [ScopeB ''zone/z'', GraphqlB, TotalB]))
     initial_budgets) \<le> 5 + 1 * (25 / 10 :: rat)"
proof -
  let ?es = "replicate 9 (EvAcquire (5 * second) [ScopeB ''zone/z'', GraphqlB, TotalB])"
  have "get_bucket GraphqlB initial_budgets = Some (new_token_bucket (25 / 10) 5)"
    by (simp add: initial_budgets_def default_rate_limit_def)
  moreover have "bucket_ok (new_token_bucket (25 / 10) 5)"
    by (simp add: bucket_ok_def new_token_bucket_def)
  moreover have "events_within (5 * second) (6 * second) ?es" by (simp add: numeral_eq_Suc)
  ultimately have "of_nat (sent GraphqlB ?es initial_budgets)
      \<le> tb_capacity (new_token_bucket (25 / 10) 5)
        + of_int (6 * second - 5 * second) / of_int second * tb_rate (new_token_bucket (25 / 10) 5)"
    by (intro budget_rate_bound) (simp_all add: new_token_bucket_def)
  then show ?thesis by (simp add: new_token_bucket_def)
qed

text \<open>Admission is all or nothing: a request goes out only if every one of its buckets holds a token
  and none is paused, and then takes exactly one token from each; otherwise no bucket loses one.\<close>

theorem acquire_all_or_none:
  assumes "distinct refs" and "acquire_step now refs p = (p', delay)"
    and "r \<in> set refs" and "get_bucket r p = Some b" and "0 \<le> tb_rate b"
  shows "get_bucket r p' = Some (if delay \<le> 0 then take_token (refill now b) else refill now b) \<and>
    (delay \<le> 0 \<longrightarrow> 1 \<le> tb_tokens (refill now b) \<and> tb_paused_until b \<le> now)"
proof -
  have "tb_paused_until (refill now b) = tb_paused_until b" by (simp add: refill_def Let_def)
  then show ?thesis
    using acquire_step_get [OF assms(1), of r now p] acquire_step_admit [OF assms(1) _ assms(3-5), of now]
      assms(2-4) by auto
qed

theorem acquire_all_or_none_witness:
  "\<exists>p' delay. acquire_step (5 * second) [RestB, TotalB] initial_budgets = (p', delay) \<and>
     (\<exists>b'. get_bucket TotalB p' = Some b') \<and> (delay \<le> 0 \<longrightarrow> tb_paused_until (total_budget initial_budgets) \<le> 5 * second)"
proof -
  obtain p' delay where run: "acquire_step (5 * second) [RestB, TotalB] initial_budgets = (p', delay)"
    by (metis surj_pair)
  have b: "get_bucket TotalB initial_budgets = Some (total_budget initial_budgets)" by simp
  have "0 \<le> tb_rate (total_budget initial_budgets)"
    by (simp add: initial_budgets_def default_rate_limit_def new_token_bucket_def)
  from acquire_all_or_none [OF _ run _ b this] run show ?thesis by auto
qed

text \<open>C23. Waiting is bounded and never in vain: when nothing else takes tokens, a request whose context
  stays alive is sent at the latest after one wait of the delay that \<open>acquireBudgets\<close> computed
  (for rates of at least one request in 10^9 seconds, so that the delay does not saturate).\<close>

theorem acquire_terminates:
  assumes "\<And>w. net_ctx net w = (w, None)" and "\<And>w. net_now net w = (w, clk w)"
    and "\<And>d w. \<exists>w'. net_wait net d w = (w', None) \<and> clk w + d \<le> clk w'"
    and "distinct refs"
    and "\<forall>r \<in> set refs. \<forall>b. get_bucket r p = Some b \<longrightarrow> bucket_ready (clk w) b"
  shows "\<exists>w' p'. acquire_budgets net refs 2 w p = Some (w', p', None)"
proof -
  obtain p1 D where a: "acquire_step (clk w) refs p = (p1, D)" by (metis surj_pair)
  show ?thesis
  proof (cases "D \<le> 0")
    case True
    with a show ?thesis by (simp add: numeral_2_eq_2 assms(1,2))
  next
    case False
    obtain w2 where w2: "net_wait net D w = (w2, None)" "clk w + D \<le> clk w2" using assms(3) by blast
    obtain p2 D2 where a2: "acquire_step (clk w2) refs p1 = (p2, D2)" by (metis surj_pair)
    have "D2 \<le> 0" using acquire_again [OF assms(4,5) a _ w2(2)] a2 False by simp
    with a w2 a2 False show ?thesis by (simp add: numeral_2_eq_2 assms(1,2))
  qed
qed

definition clock_net :: "time net" where
  "clock_net = \<lparr>net_ctx = \<lambda>w. (w, None), net_now = \<lambda>w. (w, w), net_wait = \<lambda>d w. (w + d, None)\<rparr>"

theorem acquire_terminates_witness:
  "\<exists>w' p'. acquire_budgets clock_net [RestB, TotalB] 2 (5 * second)
     (map_bucket (\<lambda>b. b\<lparr>tb_tokens := 0, tb_started := True, tb_last := 5 * second\<rparr>) RestB initial_budgets)
     = Some (w', p', None)"
  by (rule acquire_terminates [where clk = "\<lambda>w. w"])
    (auto simp: clock_net_def initial_budgets_def default_rate_limit_def new_token_bucket_def
      bucket_ready_def bucket_ok_def)

text \<open>\<open>ConfigureProcessRateLimit\<close> is atomic and idempotent and cannot reset a budget in use: an error
  changes nothing, a success leaves every class, the ceiling and the scope at the (completed)
  configuration, and once traffic has started only the same configuration succeeds, without effect.\<close>

theorem configure_atomic:
  "configure_rate_limit c p = (p', e) \<Longrightarrow>
   (e \<noteq> None \<longrightarrow> p' = p) \<and>
   (e = None \<longrightarrow> same_config (fill_rate_config c) p' \<and> rate_limit_error (fill_rate_config c) = None \<and>
      (budgets_started p \<longrightarrow> p' = p)) \<and>
   (e = None \<longrightarrow> configure_rate_limit c p' = (p', None))"
  by (auto simp: configure_rate_limit_def Let_def same_config_def apply_rate_config_def same_bucket_def
      set_bucket_def split: option.splits if_splits prod.splits)

theorem configure_atomic_witness:
  "\<exists>p'. configure_rate_limit default_rate_limit initial_budgets = (p', None) \<and>
     configure_rate_limit default_rate_limit p' = (p', None)"
proof -
  have fill: "fill_rate_config default_rate_limit = default_rate_limit"
    by (simp add: fill_rate_config_def default_rate_limit_def)
  obtain p' e where run: "configure_rate_limit default_rate_limit initial_budgets = (p', e)"
    by (metis surj_pair)
  have "\<not> budgets_started initial_budgets"
    by (simp add: budgets_started_def initial_budgets_def new_token_bucket_def Let_def)
  with run default_rate_limit_valid(1) have "e = None"
    by (auto simp: configure_rate_limit_def fill split: if_splits)
  note run = run [unfolded this]
  from configure_atomic [OF run] run show ?thesis by blast
qed

end
