(* ===== verification/RateHeaders.thy ===== *)
theory RateHeaders
  imports Limiter
begin

text \<open>
  Rate-limit response headers, \<open>internal/cfapi/ratelimit_headers.go\<close>: \<open>Retry-After\<close> and the policies of
  \<open>Ratelimit\<close>, and the pause they cause. The date formats of \<open>http.ParseTime\<close> are a parameter
  \<open>parse_time\<close> of the model.
\<close>

definition max_seconds :: int where
  "max_seconds = max_int64 div second"

definition retry_after_delay ::
  "(string \<Rightarrow> time option) \<Rightarrow> string \<Rightarrow> time \<Rightarrow> duration option" where
  "retry_after_delay parse_time value0 now =
     (let value = trim_space value0 in
      case parse_uint64 value of
        Some seconds \<Rightarrow> if seconds > max_seconds then None else Some (seconds * second)
      | None \<Rightarrow>
          (case parse_time value of
             Some when \<Rightarrow> Some (max 0 (time_sub when now))
           | None \<Rightarrow> None))"

text \<open>The parameters of one policy; -1 stands for a parameter not seen yet, as in the code.\<close>

fun policy_params :: "string list \<Rightarrow> int \<Rightarrow> int \<Rightarrow> (int \<times> int) option" where
  "policy_params [] remaining seconds = Some (remaining, seconds)"
| "policy_params (p # ps) remaining seconds =
     (case str_cut ''='' (trim_space p) of
        (_, _, False) \<Rightarrow> None
      | (k, txt, True) \<Rightarrow>
          if k \<noteq> ''r'' \<and> k \<noteq> ''t'' then policy_params ps remaining seconds
          else
            (case parse_int64 (trim_space txt) of
               None \<Rightarrow> None
             | Some n \<Rightarrow>
                 if n < 0 then None
                 else if k = ''r'' then
                   (if remaining \<ge> 0 then None else policy_params ps n seconds)
                 else (if seconds \<ge> 0 then None else policy_params ps remaining n)))"

text \<open>The pause one policy asks for, or None when it is blank or malformed.\<close>

definition policy_delay :: "int \<Rightarrow> string \<Rightarrow> duration option" where
  "policy_delay burst policy =
     (case split_char (CHR '';'') policy of
        [] \<Rightarrow> None
      | name # params \<Rightarrow>
          if trim_space name = [] then None
          else
            (case policy_params params (- 1) (- 1) of
               None \<Rightarrow> None
             | Some (remaining, seconds) \<Rightarrow>
                 if remaining < 0 \<or> remaining > burst \<or> seconds < 0 \<or> seconds > max_seconds then None
                 else Some (seconds * second)))"

definition ratelimit_delay :: "string list \<Rightarrow> int \<Rightarrow> duration" where
  "ratelimit_delay values burst =
     fold (\<lambda>policy delay. case policy_delay burst policy of
             Some d \<Rightarrow> if d > delay then d else delay | None \<Rightarrow> delay)
       (concat (map (split_char (CHR '','')) values)) 0"

definition rest_pause :: "token_bucket \<Rightarrow> duration \<Rightarrow> duration" where
  "rest_pause b delay = min delay (tb_max_pause b)"

definition observe_rest_headers ::
  "(string \<Rightarrow> time option) \<Rightarrow> string list \<Rightarrow> string \<Rightarrow> time \<Rightarrow> token_bucket \<Rightarrow> token_bucket" where
  "observe_rest_headers parse_time ratelimit retry_after now b =
     (let delay = ratelimit_delay ratelimit (tb_burst b);
          delay = (case retry_after_delay parse_time retry_after now of
                     Some r \<Rightarrow> max delay r | None \<Rightarrow> delay);
          delay = (if delay > tb_max_pause b then tb_max_pause b else delay)
      in pause_bucket now delay b)"

subsection \<open>Lemmas\<close>

lemma policy_delay_range: "policy_delay burst policy = Some d \<Longrightarrow> 0 \<le> d \<and> d \<le> max_int64"
  by (auto simp: policy_delay_def max_seconds_def split: list.splits option.splits if_splits)

lemma Max_insert_max_two:
  "finite A \<Longrightarrow> Max (insert (max m d) A) = Max (insert m (insert (d::int) A))"
  by (cases "A = {}") (simp_all add: max.assoc)

lemma fold_option_max:
  "fold (\<lambda>x (m::int). case f x of Some d \<Rightarrow> if d > m then d else m | None \<Rightarrow> m) xs m
     = Max (insert m {d. \<exists>x \<in> set xs. f x = Some d})"
proof (induction xs arbitrary: m)
  case Nil
  then show ?case by simp
next
  case (Cons x xs)
  let ?A = "{d. \<exists>x \<in> set xs. f x = Some d}"
  have fin: "finite ?A"
    by (rule finite_subset [of _ "(the \<circ> f) ` set xs"]) (force+)
  show ?case
  proof (cases "f x")
    case None
    with Cons show ?thesis by simp
  next
    case (Some d)
    then have "{e. \<exists>y \<in> set (x # xs). f y = Some e} = insert d ?A" by auto
    moreover have "(if d > m then d else m) = max m d" by auto
    ultimately show ?thesis
      using Cons [of "max m d"] Some Max_insert_max_two [OF fin, of m d] by simp
  qed
qed

subsection \<open>Properties\<close>

text \<open>The pause that the \<open>Ratelimit\<close> headers ask for is the largest of their well-formed policies and 0
  when there is none: a malformed policy neither causes a pause nor hides another one, and the
  result fits a 64-bit duration.\<close>

theorem ratelimit_delay_max:
  "ratelimit_delay values burst =
     Max (insert 0 {d. \<exists>v \<in> set values. \<exists>policy \<in> set (split_char (CHR '','') v).
                         policy_delay burst policy = Some d})"
proof -
  have "{d. \<exists>p \<in> set (concat (map (split_char (CHR '','')) values)). policy_delay burst p = Some d}
      = {d. \<exists>v \<in> set values. \<exists>policy \<in> set (split_char (CHR '','') v). policy_delay burst policy = Some d}"
    by auto
  then show ?thesis unfolding ratelimit_delay_def fold_option_max by (simp only:)
qed

text \<open>Response headers are untrusted: whatever they contain, observing them only ever extends the pause
  of the bucket, by at most the configured ceiling from now, and changes nothing else.\<close>

theorem header_pause_bounded:
  "\<exists>u. observe_rest_headers parse_time ratelimit retry_after now b = b\<lparr>tb_paused_until := u\<rparr> \<and>
    tb_paused_until b \<le> u \<and> u \<le> max (tb_paused_until b) (now + tb_max_pause b)"
proof -
  have "\<exists>d. observe_rest_headers parse_time ratelimit retry_after now b = pause_bucket now d b \<and>
      d \<le> tb_max_pause b"
    unfolding observe_rest_headers_def Let_def by (intro exI conjI, rule refl) simp
  then obtain d where d: "observe_rest_headers parse_time ratelimit retry_after now b = pause_bucket now d b"
    "d \<le> tb_max_pause b" by blast
  show ?thesis
    by (rule exI [of _ "if d \<le> 0 \<or> \<not> now + d > tb_paused_until b then tb_paused_until b else now + d"])
      (use d(2) in \<open>simp add: d(1) pause_bucket_def\<close>)
qed

end
