(* ===== verification/Json.thy ===== *)
theory Json
  imports GoErrors "HOL-Library.AList"
begin

text \<open>
  JSON as \<open>encoding/json\<close> presents it to cf2otel. A JSON text (\<open>json.RawMessage\<close>) is modelled by its syntax
  tree: white space and the spelling of strings are not distinguished, numbers keep their text.
  A Go map is an association list with distinct keys in increasing order.
\<close>

datatype json =
    JNull
  | JBool bool
  | JNum string
  | JStr string
  | JArr "json list"
  | JObj "(string \<times> json) list"

text \<open>The last of several members with one name wins.\<close>

definition json_map :: "(string \<times> json) list \<Rightarrow> (string \<times> json) list" where
  "json_map kvs =
     map (\<lambda>k. (k, case map_of (rev kvs) k of Some v \<Rightarrow> v | None \<Rightarrow> JNull))
       (sort (remdups (map fst kvs)))"

text \<open>\<open>json.Unmarshal\<close> into a nil \<open>map[string]json.RawMessage\<close>; null leaves the map nil.\<close>

fun decode_obj :: "json \<Rightarrow> (string \<times> json) list option" where
  "decode_obj (JObj kvs) = Some (json_map kvs)"
| "decode_obj JNull = Some []"
| "decode_obj _ = None"

fun decode_list :: "json \<Rightarrow> json list option" where
  "decode_list (JArr xs) = Some xs"
| "decode_list JNull = Some []"
| "decode_list _ = None"

text \<open>Decoding into a string, a boolean or an integer; null leaves the variable at its zero value.\<close>

fun decode_str :: "json \<Rightarrow> string option" where
  "decode_str (JStr s) = Some s"
| "decode_str JNull = Some []"
| "decode_str _ = None"

fun decode_int :: "json \<Rightarrow> int option" where
  "decode_int (JNum s) = parse_int64 s"
| "decode_int JNull = Some 0"
| "decode_int _ = None"

definition json_error :: gerr where
  "json_error = ErrNew ''json: cannot unmarshal''"

text \<open>A map with one entry set, and the entries of a map put into another (\<open>json.Unmarshal\<close> into a
  map that is not nil keeps its entries).\<close>

definition map_set :: "string \<Rightarrow> 'a \<Rightarrow> (string \<times> 'a) list \<Rightarrow> (string \<times> 'a) list" where
  "map_set k v m = insort_key fst (k, v) (filter (\<lambda>(k', _). k' \<noteq> k) m)"

definition map_override :: "(string \<times> 'a) list \<Rightarrow> (string \<times> 'a) list \<Rightarrow> (string \<times> 'a) list" where
  "map_override m new = fold (\<lambda>(k, v). map_set k v) new m"

text \<open>Go's loops that build a list and stop at the first error.\<close>

fun sum_map :: "('a \<Rightarrow> 'e + 'b) \<Rightarrow> 'a list \<Rightarrow> 'e + 'b list" where
  "sum_map f [] = Inr []"
| "sum_map f (x # xs) =
     (case f x of
        Inl e \<Rightarrow> Inl e
      | Inr y \<Rightarrow> (case sum_map f xs of Inl e \<Rightarrow> Inl e | Inr ys \<Rightarrow> Inr (y # ys)))"

lemma sum_map_cong [fundef_cong]:
  "xs = ys \<Longrightarrow> (\<And>x. x \<in> set ys \<Longrightarrow> f x = g x) \<Longrightarrow> sum_map f xs = sum_map g ys"
  by (induction ys arbitrary: xs) (auto split: sum.splits)

lemma sum_map_Inr:
  "sum_map f xs = Inr ys \<longleftrightarrow> length ys = length xs \<and> (\<forall>i < length xs. f (xs ! i) = Inr (ys ! i))"
proof (induction xs arbitrary: ys)
  case Nil
  then show ?case by auto
next
  case (Cons x xs)
  show ?case
  proof
    assume "sum_map f (x # xs) = Inr ys"
    then obtain y ys' where "f x = Inr y" "sum_map f xs = Inr ys'" "ys = y # ys'"
      by (auto split: sum.splits)
    with Cons.IH [of ys'] show "length ys = length (x # xs) \<and>
        (\<forall>i < length (x # xs). f ((x # xs) ! i) = Inr (ys ! i))"
      by (auto simp: nth_Cons split: nat.splits)
  next
    assume r: "length ys = length (x # xs) \<and> (\<forall>i < length (x # xs). f ((x # xs) ! i) = Inr (ys ! i))"
    then obtain y ys' where ys: "ys = y # ys'" by (cases ys) auto
    from r have "f x = Inr y" unfolding ys by (metis length_Cons nth_Cons_0 zero_less_Suc)
    moreover have "sum_map f xs = Inr ys'"
      using r Cons.IH [of ys'] unfolding ys by (metis Suc_inject Suc_mono length_Cons nth_Cons_Suc)
    ultimately show "sum_map f (x # xs) = Inr ys" by (simp add: ys)
  qed
qed

lemma json_map_keys: "map fst (json_map kvs) = sort (remdups (map fst kvs))"
  by (simp add: json_map_def comp_def)

lemma json_map_lookup: "map_of (json_map kvs) k = map_of (rev kvs) k"
proof -
  have "map_of (json_map kvs) k
      = (if k \<in> fst ` set kvs then Some (case map_of (rev kvs) k of Some v \<Rightarrow> v | None \<Rightarrow> JNull) else None)"
    unfolding json_map_def by (simp add: map_of_map_restrict restrict_map_def)
  moreover have "map_of (rev kvs) k = None \<longleftrightarrow> k \<notin> fst ` set kvs"
    by (simp add: map_of_eq_None_iff)
  ultimately show ?thesis by (auto split: option.splits)
qed

lemma json_map_set: "(k, v) \<in> set (json_map kvs) \<Longrightarrow> (k, v) \<in> set kvs"
proof -
  assume "(k, v) \<in> set (json_map kvs)"
  moreover have "distinct (map fst (json_map kvs))" by (simp add: json_map_keys)
  ultimately have "map_of (rev kvs) k = Some v" using json_map_lookup by (metis map_of_is_SomeI)
  then show ?thesis by (metis map_of_SomeD set_rev)
qed

lemma decode_obj_distinct: "decode_obj j = Some m \<Longrightarrow> distinct (map fst m) \<and> sorted (map fst m)"
  by (cases j rule: decode_obj.cases) (auto simp: json_map_keys)

lemma decode_obj_size: "decode_obj j = Some m \<Longrightarrow> (k, v) \<in> set m \<Longrightarrow> size v < size j"
proof (cases j)
  case (JObj kvs)
  assume "decode_obj j = Some m" "(k, v) \<in> set m"
  with JObj have "(k, v) \<in> set kvs" by (auto dest: json_map_set)
  then have "size v < size_list (size_prod (\<lambda>_. 0) size) kvs"
    by (induction kvs) auto
  with JObj show ?thesis by simp
qed auto

lemma map_of_map_set: "map_of (map_set k v m) = (map_of m)(k \<mapsto> v)"
proof -
  have ins: "map_of (insort_key fst (k, v) m') = (map_of m')(k \<mapsto> v)" if "k \<notin> fst ` set m'" for m'
    using that by (induction m') (auto simp: fun_upd_twist)
  have "map_of (filter (\<lambda>(k', _). k' \<noteq> k) m) k' = (if k' = k then None else map_of m k')" for k'
    by (induction m) auto
  then show ?thesis unfolding map_set_def
    by (subst ins) auto
qed

lemma map_set_keys:
  "sorted (map fst m) \<Longrightarrow> distinct (map fst m) \<Longrightarrow>
   sorted (map fst (map_set k v m)) \<and> distinct (map fst (map_set k v m))"
proof -
  assume a: "sorted (map fst m)" "distinct (map fst m)"
  have "sorted (map fst (filter (\<lambda>(k', _). k' \<noteq> k) m))"
    "distinct (map fst (filter (\<lambda>(k', _). k' \<noteq> k) m))" using a by (simp_all add: sorted_filter distinct_map_filter)
  moreover have "k \<notin> fst ` set (filter (\<lambda>(k', _). k' \<noteq> k) m)" by auto
  moreover have "distinct (map fst (insort_key fst (k, v) xs))"
    if "distinct (map fst xs)" "k \<notin> fst ` set xs" for xs
    using that by (induction xs) (auto simp: set_insort_key)
  ultimately show ?thesis by (simp add: map_set_def sorted_insort_key)
qed

subsection \<open>Strings\<close>

definition hex_digit :: "nat \<Rightarrow> char" where
  "hex_digit n = ''0123456789abcdef'' ! n"

definition quote_char :: "char \<Rightarrow> string" where
  "quote_char c =
     (let n = (of_char c :: nat) in
      if n = 34 \<or> n = 92 then [CHR 0x5C, c]
      else if n = 8 then [CHR 0x5C, CHR ''b'']
      else if n = 12 then [CHR 0x5C, CHR ''f'']
      else if n = 10 then [CHR 0x5C, CHR ''n'']
      else if n = 13 then [CHR 0x5C, CHR ''r'']
      else if n = 9 then [CHR 0x5C, CHR ''t'']
      else if n < 32 \<or> n = 60 \<or> n = 62 \<or> n = 38 then
        [CHR 0x5C, CHR ''u'', CHR ''0'', CHR ''0'', hex_digit (n div 16), hex_digit (n mod 16)]
      else [c])"

text \<open>\<open>json.Marshal\<close> of a string; bytes from 128 are taken to be valid UTF-8 and are kept.\<close>

definition json_quote :: "string \<Rightarrow> string" where
  "json_quote s = CHR 0x22 # concat (map quote_char s) @ [CHR 0x22]"

text \<open>Reading a string literal: the string and the text after it.\<close>

definition hex_val :: "char \<Rightarrow> nat option" where
  "hex_val c = (let n = (of_char c :: nat) in
     if 48 \<le> n \<and> n \<le> 57 then Some (n - 48)
     else if 97 \<le> n \<and> n \<le> 102 then Some (n - 87)
     else if 65 \<le> n \<and> n \<le> 70 then Some (n - 55) else None)"

fun unquote_body :: "string \<Rightarrow> (string \<times> string) option" where
  "unquote_body [] = None"
| "unquote_body (c # cs) =
     (if c = CHR 0x22 then Some ([], cs)
      else if c = CHR 0x5C then
        (case cs of
           [] \<Rightarrow> None
         | e # es \<Rightarrow>
             if e = CHR ''u'' then
               (case es of
                  z1 # z2 # h # l # rest \<Rightarrow>
                    (case (hex_val h, hex_val l) of
                       (Some a, Some b) \<Rightarrow>
                         map_option (\<lambda>(s, r). (char_of (16 * a + b) # s, r)) (unquote_body rest)
                     | _ \<Rightarrow> None)
                | _ \<Rightarrow> None)
             else
               map_option (\<lambda>(s, r).
                 ((if e = CHR ''b'' then char_of (8::nat) else if e = CHR ''f'' then char_of (12::nat)
                   else if e = CHR ''n'' then char_of (10::nat) else if e = CHR ''r'' then char_of (13::nat)
                   else if e = CHR ''t'' then char_of (9::nat) else e) # s, r)) (unquote_body es))
      else map_option (\<lambda>(s, r). (c # s, r)) (unquote_body cs))"

lemma hex_val_digit: "n < 16 \<Longrightarrow> hex_val (hex_digit n) = Some n"
proof -
  assume "n < 16"
  then have "n \<in> set [0..<16]" by simp
  moreover have "list_all (\<lambda>n. hex_val (hex_digit n) = Some n) [0..<16]"
    by (simp add: hex_val_def hex_digit_def upt_rec)
  ultimately show ?thesis by (simp add: list_all_iff)
qed

lemma unquote_quote_char:
  "unquote_body (quote_char c @ rest) = map_option (\<lambda>(s, r). (c # s, r)) (unquote_body rest)"
proof -
  let ?n = "of_char c :: nat"
  have n: "?n < 256" by simp
  have c: "c = char_of ?n" by simp
  have hex: "hex_val (hex_digit (?n div 16)) = Some (?n div 16)"
    "hex_val (hex_digit (?n mod 16)) = Some (?n mod 16)"
    using n by (auto intro!: hex_val_digit simp: less_mult_imp_div_less)
  have eqc: "c = char_of k" if "?n = k" for k using c that by simp
  consider "?n = 34 \<or> ?n = 92" | "?n \<in> {8, 9, 10, 12, 13}"
    | "?n < 32 \<or> ?n = 60 \<or> ?n = 62 \<or> ?n = 38" "?n \<notin> {8, 9, 10, 12, 13}"
    | "\<not> (?n < 32 \<or> ?n = 60 \<or> ?n = 62 \<or> ?n = 38 \<or> ?n = 34 \<or> ?n = 92)" by auto
  then show ?thesis
  proof cases
    case 1
    moreover have "char_of (34::nat) = CHR 0x22" "char_of (92::nat) = CHR 0x5C"
      by (simp_all add: char_of_def bit_0)
    ultimately have "c = CHR 0x22 \<or> c = CHR 0x5C" using eqc [of 34] eqc [of 92] by metis
    then show ?thesis by (auto simp: quote_char_def)
  next
    case 2
    then consider "c = char_of (8::nat)" | "c = char_of (9::nat)" | "c = char_of (10::nat)"
      | "c = char_of (12::nat)" | "c = char_of (13::nat)"
      using eqc [of 8] eqc [of 9] eqc [of 10] eqc [of 12] eqc [of 13]
      unfolding insert_iff empty_iff by blast
    then show ?thesis by cases (simp_all add: quote_char_def)
  next
    case 3
    then have "quote_char c = [CHR 0x5C, CHR ''u'', CHR ''0'', CHR ''0'', hex_digit (?n div 16), hex_digit (?n mod 16)]"
      by (auto simp: quote_char_def Let_def)
    then show ?thesis using hex by simp
  next
    case 4
    then have "c \<noteq> CHR 0x22" "c \<noteq> CHR 0x5C" by auto
    with 4 show ?thesis by (simp add: quote_char_def)
  qed
qed

text \<open>Quoting is injective and self-delimiting: whatever follows the literal, reading it returns the
  string and the rest, so a quoted string cannot end early or run on.\<close>

lemma unquote_quote: "unquote_body (concat (map quote_char s) @ CHR 0x22 # rest) = Some (s, rest)"
  by (induction s) (simp_all add: unquote_quote_char)

end
