(* ===== verification/Client.thy ===== *)
theory Client
  imports RateHeaders Json
begin

text \<open>
  The HTTP client, \<open>internal/cfapi/client.go\<close> with \<open>request_observer.go\<close> and \<open>poll_requests.go\<close>: the
  request loop with retries, redirects and quota, the result envelope, and pagination.

  The network, the clock and the URL and date parsers of the Go library are the record \<open>api\<close> of
  operations on a world \<open>'w\<close>. A response body is its size and its JSON tree (None when it is not
  JSON); member names are matched exactly. \<open>acquireBudgets\<close> may wait for ever, so the operations
  return an option: None says that the quota loop has not ended within \<open>api_fuel\<close> iterations.
\<close>

record url =
  u_scheme :: string
  u_host :: string
  u_rest :: string

record http_request =
  rq_method :: string
  rq_url :: url
  rq_headers :: "(string \<times> string) list"
  rq_body :: "string option"

record http_response =
  hr_status :: int
  hr_ratelimit :: "string list"
  hr_retry_after :: string
  hr_location :: string
  hr_size :: int
  hr_read_err :: "gerr option"
  hr_json :: "json option"

type_synonym url_values = "(string \<times> string list) list"

record 'w api =
  api_net :: "'w net"
  api_send :: "http_request \<Rightarrow> 'w \<Rightarrow> 'w \<times> http_response option \<times> gerr option"
  api_parse_time :: "string \<Rightarrow> time option"
  api_url :: "string \<Rightarrow> url_values option \<Rightarrow> gerr + url"
  api_resolve :: "url \<Rightarrow> string \<Rightarrow> gerr + url"
  api_is_timeout :: "gerr \<Rightarrow> bool"
  api_token :: string
  api_cap :: int
  api_role :: string
  api_fuel :: nat
  api_backoff :: duration
  api_jitter :: "'w \<Rightarrow> 'w \<times> duration"

record request_totals =
  rt_requests :: int
  rt_failures :: int
  rt_list :: int
  rt_detail :: int
  rt_body :: int
  rt_other :: int

record observation =
  ob_method :: string
  ob_status :: int
  ob_class :: string

record dataset_settings =
  ds_enabled :: bool
  ds_fields :: "string list option"
  ds_max_fields :: int
  ds_max_duration :: int
  ds_not_older :: int
  ds_page_size :: int

record cached_settings =
  cs_value :: dataset_settings
  cs_expires :: time

record 'w conn =
  cn_world :: 'w
  cn_budgets :: budgets
  cn_sent :: "http_request list"
  cn_totals :: request_totals
  cn_observed :: "observation list"
  cn_settings :: "string \<rightharpoonup> cached_settings"

type_synonym ('w, 'a) outcome = "('w conn \<times> (gerr + 'a)) option"

definition obind ::
  "('w, 'a) outcome \<Rightarrow> ('a \<Rightarrow> 'w conn \<Rightarrow> ('w, 'b) outcome) \<Rightarrow> ('w, 'b) outcome" where
  "obind m f = (case m of
      None \<Rightarrow> None
    | Some (c, Inl e) \<Rightarrow> Some (c, Inl e)
    | Some (c, Inr x) \<Rightarrow> f x c)"

subsection \<open>Observation\<close>

definition request_error_class :: "(gerr \<Rightarrow> bool) \<Rightarrow> int \<Rightarrow> gerr option \<Rightarrow> string" where
  "request_error_class is_timeout status err =
     (case err of
        Some e \<Rightarrow> if errors_is e ErrDeadlineExceeded \<or> is_timeout e then ''timeout'' else ''other''
      | None \<Rightarrow>
          if status = 429 then ''rate_limited''
          else if status = 401 \<or> status = 403 then ''auth''
          else if status \<ge> 400 then ''other'' else [])"

definition observe_poll_request :: "string \<Rightarrow> bool \<Rightarrow> request_totals \<Rightarrow> request_totals" where
  "observe_poll_request role failed t0 =
     (let t = t0\<lparr>rt_requests := rt_requests t0 + 1,
                 rt_failures := rt_failures t0 + (if failed then 1 else 0)\<rparr>
      in if role = ''list'' then t\<lparr>rt_list := rt_list t + 1\<rparr>
         else if role = ''detail'' then t\<lparr>rt_detail := rt_detail t + 1\<rparr>
         else if role = ''body'' then t\<lparr>rt_body := rt_body t + 1\<rparr>
         else t\<lparr>rt_other := rt_other t + 1\<rparr>)"

definition request_role :: "string \<Rightarrow> string" where
  "request_role role = (if role = ''list'' \<or> role = ''detail'' \<or> role = ''body'' then role else ''other'')"

subsection \<open>One exchange\<close>

definition has_header :: "string \<Rightarrow> http_request \<Rightarrow> bool" where
  "has_header k r \<longleftrightarrow> k \<in> fst ` set (rq_headers r)"

definition del_header :: "string \<Rightarrow> http_request \<Rightarrow> http_request" where
  "del_header k r = r\<lparr>rq_headers := filter (\<lambda>(k', _). k' \<noteq> k) (rq_headers r)\<rparr>"

definition acquire_conn ::
  "'w api \<Rightarrow> bucket_ref list \<Rightarrow> 'w conn \<Rightarrow> ('w, unit) outcome" where
  "acquire_conn api refs c =
     (case acquire_budgets (api_net api) refs (api_fuel api) (cn_world c) (cn_budgets c) of
        None \<Rightarrow> None
      | Some (w, b, r) \<Rightarrow>
          (let c1 = c\<lparr>cn_world := w, cn_budgets := b\<rparr>
           in case r of Some e \<Rightarrow> Some (c1, Inl e) | None \<Rightarrow> Some (c1, Inr ())))"

definition note_request ::
  "'w api \<Rightarrow> http_request \<Rightarrow> http_response option \<Rightarrow> gerr option \<Rightarrow> 'w conn \<Rightarrow> 'w conn" where
  "note_request api r resp err c =
     (let status = (case resp of Some x \<Rightarrow> hr_status x | None \<Rightarrow> 0);
          class = request_error_class (api_is_timeout api) status err
      in c\<lparr>cn_totals := observe_poll_request (api_role api) (class \<noteq> []) (cn_totals c),
           cn_observed := cn_observed c @ [\<lparr>ob_method = (if rq_method r = ''POST'' then ''graphql'' else ''rest''),
             ob_status = status, ob_class = class\<rparr>]\<rparr>)"

definition observe_headers :: "'w api \<Rightarrow> http_response \<Rightarrow> 'w conn \<Rightarrow> 'w conn" where
  "observe_headers api x c =
     (case net_now (api_net api) (cn_world c) of
        (w, now) \<Rightarrow> c\<lparr>cn_world := w, cn_budgets :=
          map_bucket (observe_rest_headers (api_parse_time api) (hr_ratelimit x) (hr_retry_after x) now)
            RestB (cn_budgets c)\<rparr>)"

definition exchange ::
  "'w api \<Rightarrow> bucket_ref list \<Rightarrow> http_request \<Rightarrow> 'w conn \<Rightarrow> ('w, http_response) outcome" where
  "exchange api refs r c =
     obind (acquire_conn api refs c) (\<lambda>_ c1.
     case api_send api r (cn_world c1) of
       (w, resp, err) \<Rightarrow>
         (let c2 = c1\<lparr>cn_world := w, cn_sent := cn_sent c1 @ [r]\<rparr>;
              c3 = (case resp of
                      Some x \<Rightarrow> if rq_method r \<noteq> ''POST'' then observe_headers api x c2 else c2
                    | None \<Rightarrow> c2);
              c4 = note_request api r resp err c3
          in case err of
               Some e \<Rightarrow> Some (c4, Inl e)
             | None \<Rightarrow> (case resp of
                 Some x \<Rightarrow> Some (c4, Inr x)
               | None \<Rightarrow> Some (c4, Inl (ErrNew ''nil response'')))))"

subsection \<open>Redirects\<close>

definition next_request :: "http_request \<Rightarrow> url \<Rightarrow> bool \<Rightarrow> http_request" where
  "next_request r u replay =
     (let n = r\<lparr>rq_url := u, rq_body := (if replay then rq_body r else None)\<rparr>;
          n = (if u_scheme (rq_url r) \<noteq> u_scheme u \<or> u_host (rq_url r) \<noteq> u_host u
               then del_header ''Cookie'' (del_header ''Authorization'' n) else n)
      in if replay then n else del_header ''Content-Length'' (del_header ''Content-Type'' n))"

definition redirect_kind :: "int \<Rightarrow> bool option" where
  "redirect_kind status =
     (if status = 301 \<or> status = 302 \<or> status = 303 then Some False
      else if status = 307 \<or> status = 308 then Some True else None)"

text \<open>\<open>n\<close> redirects may still be followed.\<close>

fun follow_redirects ::
  "'w api \<Rightarrow> bucket_ref list \<Rightarrow> nat \<Rightarrow> http_request \<Rightarrow> 'w conn \<Rightarrow> ('w, http_response) outcome" where
  "follow_redirects api refs n r c =
     obind (exchange api refs r c) (\<lambda>x c1.
       case redirect_kind (hr_status x) of
         None \<Rightarrow> Some (c1, Inr x)
       | Some replay \<Rightarrow>
           if rq_method r \<noteq> ''GET'' \<and> rq_method r \<noteq> ''HEAD'' then Some (c1, Inr x)
           else if hr_location x = [] then Some (c1, Inr x)
           else
             (case n of
                0 \<Rightarrow> Some (c1, Inl (ErrNew ''cloudflare stopped after 10 redirects''))
              | Suc m \<Rightarrow>
                  (case api_resolve api (rq_url r) (hr_location x) of
                     Inl e \<Rightarrow> Some (c1, Inl e)
                   | Inr u \<Rightarrow> follow_redirects api refs m (next_request r u replay) c1)))"

declare follow_redirects.simps [simp del]

definition max_redirects :: nat where "max_redirects = 9"

definition do_redirects ::
  "'w api \<Rightarrow> string \<Rightarrow> http_request \<Rightarrow> 'w conn \<Rightarrow> ('w, http_response) outcome" where
  "do_redirects api scope_key r c =
     (if rq_method r = ''POST'' then
        (case scope_bucket scope_key (cn_budgets c) of
           (b, resource) \<Rightarrow>
             follow_redirects api
               ((case resource of Some q \<Rightarrow> [q] | None \<Rightarrow> []) @ [GraphqlB, TotalB]) max_redirects r
               (c\<lparr>cn_budgets := b\<rparr>))
      else follow_redirects api [RestB, TotalB] max_redirects r c)"

subsection \<open>Retries\<close>

definition decode_codes :: "json \<Rightarrow> int list option" where
  "decode_codes j =
     (case decode_obj j of
        None \<Rightarrow> None
      | Some m \<Rightarrow>
          (case decode_list (case map_of m ''errors'' of Some v \<Rightarrow> v | None \<Rightarrow> JNull) of
             None \<Rightarrow> None
           | Some es \<Rightarrow>
               those (map (\<lambda>e. case decode_obj e of
                   None \<Rightarrow> None
                 | Some em \<Rightarrow> decode_int (case map_of em ''code'' of Some v \<Rightarrow> v | None \<Rightarrow> JNull)) es)))"

definition error_code :: "json option \<Rightarrow> int" where
  "error_code raw =
     (case raw of
        None \<Rightarrow> 0
      | Some j \<Rightarrow> (case decode_codes j of Some (code # _) \<Rightarrow> code | _ \<Rightarrow> 0))"

definition safe_error :: "json option \<Rightarrow> string" where
  "safe_error raw =
     (if error_code raw \<noteq> 0 then ''code '' @ itoa (error_code raw) else ''request failed'')"

definition retryable :: "int \<Rightarrow> bool" where
  "retryable status \<longleftrightarrow> status = 429 \<or> status = 502 \<or> status = 503 \<or> status = 504"

definition retry_delay ::
  "'w api \<Rightarrow> string \<Rightarrow> nat \<Rightarrow> http_response \<Rightarrow> 'w conn \<Rightarrow> 'w conn \<times> duration" where
  "retry_delay api method attempt x c =
     (case net_now (api_net api) (cn_world c) of
        (w, now) \<Rightarrow>
          (let delay = 2 ^ attempt * 100 * millisecond;
               delay = (case retry_after_delay (api_parse_time api) (hr_retry_after x) now of
                          Some d \<Rightarrow> (if method = ''GET'' then rest_pause (rest_budget (cn_budgets c)) d else d)
                        | None \<Rightarrow> delay)
           in (c\<lparr>cn_world := w\<rparr>, min (max delay 0) (10 * second))))"

definition response_result :: "'w api \<Rightarrow> http_response \<Rightarrow> gerr + json option" where
  "response_result api x =
     (if hr_status x < 200 \<or> hr_status x \<ge> 300
      then Inl (HTTPError (hr_status x) (error_code (hr_json x))) else Inr (hr_json x))"

text \<open>The attempts; \<open>n\<close> of the five are left.\<close>

fun attempt_request ::
  "'w api \<Rightarrow> string \<Rightarrow> http_request \<Rightarrow> nat \<Rightarrow> 'w conn \<Rightarrow> ('w, json option) outcome" where
  "attempt_request api scope_key r 0 c = Some (c, Inl (ErrNew ''cloudflare retries exhausted''))"
| "attempt_request api scope_key r (Suc n) c =
     obind (do_redirects api scope_key r c) (\<lambda>x c1.
       case hr_read_err x of
         Some e \<Rightarrow> Some (c1, Inl e)
       | None \<Rightarrow>
           if hr_size x > api_cap api then Some (c1, Inl (ResponseTooLargeError (api_cap api)))
           else if retryable (hr_status x) \<and> n > 0 then
             (case retry_delay api (rq_method r) (4 - n) x c1 of
                (c2, delay) \<Rightarrow>
                  (case net_wait (api_net api) delay (cn_world c2) of
                     (w, Some e) \<Rightarrow> Some (c2\<lparr>cn_world := w\<rparr>, Inl e)
                   | (w, None) \<Rightarrow> attempt_request api scope_key r n (c2\<lparr>cn_world := w\<rparr>)))
           else Some (c1, response_result api x))"

definition build_request ::
  "'w api \<Rightarrow> string \<Rightarrow> url \<Rightarrow> string option \<Rightarrow> 'w conn \<Rightarrow> http_request" where
  "build_request api method u body c =
     \<lparr>rq_method = method, rq_url = u,
      rq_headers = [(''Authorization'', ''Bearer '' @ api_token api), (''Accept'', ''application/json'')]
        @ (if body \<noteq> None then [(''Content-Type'', ''application/json'')] else [])
        @ (if method = ''POST'' \<and> scope_account_based (cn_budgets c)
           then [(''X-Rate-Limit-Type'', ''account-based'')] else []),
      rq_body = body\<rparr>"

definition do_request ::
  "'w api \<Rightarrow> string \<Rightarrow> string \<Rightarrow> string \<Rightarrow> url_values option \<Rightarrow> string option \<Rightarrow> 'w conn \<Rightarrow>
   ('w, json option) outcome" where
  "do_request api scope_key method path query body c =
     (if method \<noteq> ''GET'' \<and> (method \<noteq> ''POST'' \<or> path \<noteq> ''/graphql'') then
        Some (c, Inl (ErrNew (''cloudflare client refuses '' @ method @ '' '' @ path)))
      else if \<not> has_prefix ''/'' path \<or> has_prefix ''//'' path then
        Some (c, Inl (ErrNew ''invalid API path''))
      else
        (case api_url api path query of
           Inl e \<Rightarrow> Some (c, Inl e)
         | Inr u \<Rightarrow> attempt_request api scope_key (build_request api method u body c) 5 c))"

subsection \<open>Envelopes\<close>

definition member :: "string \<Rightarrow> (string \<times> json) list \<Rightarrow> json option" where
  "member k m = map_of m k"

text \<open>\<open>success\<close> is a \<open>*bool\<close>: absent and null are nil.\<close>

definition envelope_error :: "json option \<Rightarrow> gerr + (string \<times> json) list" where
  "envelope_error raw =
     (case raw of
        None \<Rightarrow> Inl json_error
      | Some j \<Rightarrow>
          (case decode_obj j of
             None \<Rightarrow> Inl json_error
           | Some m \<Rightarrow>
               (case member ''success'' m of
                  Some (JBool False) \<Rightarrow> Inl (ErrNew (''cloudflare API: '' @ safe_error raw))
                | Some (JBool True) \<Rightarrow> Inr m
                | Some JNull \<Rightarrow> Inr m
                | None \<Rightarrow> Inr m
                | _ \<Rightarrow> Inl json_error)))"

definition result_member :: "(string \<times> json) list \<Rightarrow> gerr + json" where
  "result_member m =
     (case member ''result'' m of
        Some v \<Rightarrow> Inr v | None \<Rightarrow> Inl (ErrNew ''cloudflare result missing''))"

definition api_get :: "'w api \<Rightarrow> string \<Rightarrow> url_values option \<Rightarrow> 'w conn \<Rightarrow> ('w, json) outcome" where
  "api_get api path query c =
     obind (do_request api [] ''GET'' path query None c) (\<lambda>raw c1.
       case envelope_error raw of
         Inl e \<Rightarrow> Some (c1, Inl e)
       | Inr m \<Rightarrow> Some (c1, result_member m))"

text \<open>\<open>GetRaw\<close> into a \<open>json.RawMessage\<close> returns the body as it is.\<close>

definition api_get_raw :: "'w api \<Rightarrow> string \<Rightarrow> url_values option \<Rightarrow> 'w conn \<Rightarrow> ('w, json option) outcome" where
  "api_get_raw api path query c = do_request api [] ''GET'' path query None c"

definition api_get_page :: "'w api \<Rightarrow> string \<Rightarrow> url_values option \<Rightarrow> 'w conn \<Rightarrow> ('w, json) outcome" where
  "api_get_page api path query c =
     obind (do_request api [] ''GET'' path query None c) (\<lambda>raw c1.
       case envelope_error raw of
         Inl e \<Rightarrow> Some (c1, Inl e)
       | Inr m \<Rightarrow>
           (case result_member m of
              Inl e \<Rightarrow> Some (c1, Inl e)
            | Inr _ \<Rightarrow> Some (c1, (case raw of Some j \<Rightarrow> Inr j | None \<Rightarrow> Inl json_error))))"


subsection \<open>Pagination\<close>

record page =
  pg_result :: "json option"
  pg_per_page :: int
  pg_cursor :: string

definition decode_page :: "json \<Rightarrow> page option" where
  "decode_page j =
     (case decode_obj j of
        None \<Rightarrow> None
      | Some m \<Rightarrow>
          (case decode_obj (case member ''result_info'' m of Some v \<Rightarrow> v | None \<Rightarrow> JNull) of
             None \<Rightarrow> None
           | Some ri \<Rightarrow>
               (let field = (\<lambda>k. case member k ri of Some v \<Rightarrow> v | None \<Rightarrow> JNull) in
                case (decode_int (field ''page''), decode_int (field ''per_page''),
                      decode_int (field ''total_count''), decode_str (field ''cursor'')) of
                  (Some _, Some per, Some _, Some cur) \<Rightarrow>
                    Some \<lparr>pg_result = member ''result'' m, pg_per_page = per, pg_cursor = cur\<rparr>
                | _ \<Rightarrow> None)))"

text \<open>One page request: the page and its rows.\<close>

definition fetch_page ::
  "'w api \<Rightarrow> string \<Rightarrow> url_values \<Rightarrow> 'w conn \<Rightarrow> ('w, page \<times> json list) outcome" where
  "fetch_page api path q c =
     obind (do_request api [] ''GET'' path (Some q) None c) (\<lambda>raw c1.
       Some (c1, (case Option.bind raw decode_page of
           None \<Rightarrow> Inl json_error
         | Some pg \<Rightarrow>
             (case Option.bind (pg_result pg) decode_list of
                None \<Rightarrow> Inl json_error
              | Some chunk \<Rightarrow> Inr (pg, chunk)))))"

definition max_pages :: nat where "max_pages = 10000"

definition page_query :: "url_values \<Rightarrow> nat \<Rightarrow> int \<Rightarrow> url_values" where
  "page_query q page per_page =
     map_set ''per_page'' [itoa per_page] (map_set ''page'' [itoa (int page)] q)"

text \<open>\<open>n\<close> pages may still be fetched.\<close>

fun pages_loop ::
  "'w api \<Rightarrow> string \<Rightarrow> url_values \<Rightarrow> int \<Rightarrow> nat \<Rightarrow> json list \<Rightarrow> 'w conn \<Rightarrow> ('w, json list) outcome" where
  "pages_loop api path q per_page 0 rows c = Some (c, Inr rows)"
| "pages_loop api path q per_page (Suc n) rows c =
     obind (fetch_page api path (page_query q (max_pages - n) per_page) c) (\<lambda>(pg, chunk) c1.
       let size = (if pg_per_page pg > 0 then pg_per_page pg else per_page) in
       if int (length chunk) < size then Some (c1, Inr (rows @ chunk))
       else if n = 0 then Some (c1, Inl (ErrNew ''cloudflare pagination limit reached''))
       else pages_loop api path q per_page n (rows @ chunk) c1)"

definition api_pages ::
  "'w api \<Rightarrow> string \<Rightarrow> url_values \<Rightarrow> int \<Rightarrow> 'w conn \<Rightarrow> ('w, json list) outcome" where
  "api_pages api path q per_page c =
     pages_loop api path q (if per_page \<le> 0 then 100 else per_page) max_pages [] c"

fun cursors_loop ::
  "'w api \<Rightarrow> string \<Rightarrow> url_values \<Rightarrow> nat \<Rightarrow> string \<Rightarrow> string list \<Rightarrow> json list \<Rightarrow> 'w conn \<Rightarrow>
   ('w, json list) outcome" where
  "cursors_loop api path q 0 cursor seen rows c =
     Some (c, Inl (ErrNew ''cloudflare cursor pagination limit reached''))"
| "cursors_loop api path q (Suc n) cursor seen rows c =
     obind (fetch_page api path (if cursor \<noteq> [] then map_set ''cursor'' [cursor] q else q) c)
       (\<lambda>(pg, chunk) c1.
       if pg_cursor pg = [] then Some (c1, Inr (rows @ chunk))
       else if List.member seen (pg_cursor pg) then
         Some (c1, Inl (ErrNew ''cloudflare cursor repeated''))
       else cursors_loop api path q n (pg_cursor pg) (pg_cursor pg # seen) (rows @ chunk) c1)"

definition api_cursors ::
  "'w api \<Rightarrow> string \<Rightarrow> url_values \<Rightarrow> 'w conn \<Rightarrow> ('w, json list) outcome" where
  "api_cursors api path q c = cursors_loop api path q max_pages [] [] [] c"

subsection \<open>Bounded route names\<close>

definition route_placeholder :: "string \<Rightarrow> string option" where
  "route_placeholder p =
     (if p = ''accounts'' then Some ''{account_id}''
      else if p = ''zones'' then Some ''{zone_id}''
      else if p = ''gateways'' then Some ''{gateway_id}''
      else if p = ''logs'' then Some ''{log_id}'' else None)"

text \<open>The loop reads the previous part after its own replacement.\<close>

fun route_parts :: "string \<Rightarrow> string list \<Rightarrow> string list" where
  "route_parts prev [] = []"
| "route_parts prev (p # ps) =
     (let p' = (case route_placeholder prev of Some r \<Rightarrow> if p \<noteq> [] then r else p | None \<Rightarrow> p)
      in p' # route_parts p' ps)"

definition route_name :: "string \<Rightarrow> string" where
  "route_name path =
     (case split_char (CHR ''/'') path of
        [] \<Rightarrow> []
      | p # ps \<Rightarrow> str_join ''/'' (p # route_parts p ps))"

subsection \<open>What is sent\<close>

definition origin :: "url \<Rightarrow> string \<times> string" where
  "origin u = (u_scheme u, u_host u)"

text \<open>The requests sent by an operation satisfy \<open>P\<close> and number at most \<open>k\<close>.\<close>

definition sends_only :: "(http_request \<Rightarrow> bool) \<Rightarrow> nat \<Rightarrow> 'w conn \<Rightarrow> 'w conn \<Rightarrow> bool" where
  "sends_only P k c c' \<longleftrightarrow>
     (\<exists>rs. cn_sent c' = cn_sent c @ rs \<and> length rs \<le> k \<and> (\<forall>r \<in> set rs. P r))"

lemma sends_only_refl [simp]: "sends_only P k c c"
  by (auto simp: sends_only_def)

lemma sends_only_trans:
  "sends_only P j c c' \<Longrightarrow> sends_only P k c' c'' \<Longrightarrow> sends_only P (j + k) c c''"
  unfolding sends_only_def by (force intro: add_mono)

lemma sends_only_mono:
  "sends_only P j c c' \<Longrightarrow> j \<le> k \<Longrightarrow> (\<And>r. P r \<Longrightarrow> Q r) \<Longrightarrow> sends_only Q k c c'"
  unfolding sends_only_def by (meson order_trans)

lemma sends_only_same: "cn_sent c' = cn_sent c \<Longrightarrow> sends_only P k c c'"
  by (auto simp: sends_only_def)

lemma obind_Some:
  "obind m f = Some (c', r) \<longleftrightarrow>
     (\<exists>c e. m = Some (c, Inl e) \<and> c' = c \<and> r = Inl e) \<or>
     (\<exists>c x. m = Some (c, Inr x) \<and> f x c = Some (c', r))"
  by (auto simp: obind_def split: option.splits sum.splits)

lemma acquire_conn_sent: "acquire_conn api refs c = Some (c', x) \<Longrightarrow> cn_sent c' = cn_sent c"
  by (auto simp: acquire_conn_def Let_def split: option.splits prod.splits)

lemma observe_sent [simp]:
  "cn_sent (observe_headers api x c) = cn_sent c" "cn_sent (note_request api r resp err c) = cn_sent c"
  by (simp_all add: observe_headers_def note_request_def Let_def split: prod.splits)

lemma exchange_sent:
  assumes "exchange api refs r c = Some (c', x)"
  shows "sends_only (\<lambda>q. q = r) 1 c c'"
proof -
  from assms consider (stop) e where "acquire_conn api refs c = Some (c', Inl e)"
    | (go) c1 where "acquire_conn api refs c = Some (c1, Inr ())"
        "(case api_send api r (cn_world c1) of
           (w, resp, err) \<Rightarrow>
             (let c2 = c1\<lparr>cn_world := w, cn_sent := cn_sent c1 @ [r]\<rparr>;
                  c3 = (case resp of
                      Some x \<Rightarrow> if rq_method r \<noteq> ''POST'' then observe_headers api x c2 else c2
                    | None \<Rightarrow> c2);
                  c4 = note_request api r resp err c3
              in case err of
                   Some e \<Rightarrow> Some (c4, Inl e)
                 | None \<Rightarrow> (case resp of
                     Some x \<Rightarrow> Some (c4, Inr x)
                   | None \<Rightarrow> Some (c4, Inl (ErrNew ''nil response''))))) = Some (c', x)"
    unfolding exchange_def obind_Some by force
  then show ?thesis
  proof cases
    case stop
    then show ?thesis by (intro sends_only_same acquire_conn_sent)
  next
    case go
    obtain w resp err where s: "api_send api r (cn_world c1) = (w, resp, err)" by (metis prod_cases3)
    have "cn_sent c' = cn_sent c1 @ [r]"
      using go(2) unfolding s by (cases resp; cases err) (auto simp: Let_def split: if_splits)
    with acquire_conn_sent [OF go(1)] show ?thesis by (auto simp: sends_only_def)
  qed
qed

text \<open>A request in a redirect chain that started at \<open>u0\<close> with method \<open>m\<close>: it keeps the method, and
  carries credentials only to the origin of \<open>u0\<close>.\<close>

definition chain_ok :: "url \<Rightarrow> string \<Rightarrow> http_request \<Rightarrow> bool" where
  "chain_ok u0 m r \<longleftrightarrow> rq_method r = m \<and>
     (has_header ''Authorization'' r \<longrightarrow> origin (rq_url r) = origin u0) \<and>
     (m \<noteq> ''GET'' \<and> m \<noteq> ''HEAD'' \<longrightarrow> rq_url r = u0)"

lemma del_header_simps [simp]:
  "has_header k (del_header k' r) \<longleftrightarrow> k \<noteq> k' \<and> has_header k r"
  "rq_method (del_header k r) = rq_method r" "rq_url (del_header k r) = rq_url r"
  "rq_body (del_header k r) = rq_body r"
  by (auto simp: has_header_def del_header_def)

lemma has_header_update [simp]:
  "has_header k (r\<lparr>rq_url := u\<rparr>) = has_header k r" "has_header k (r\<lparr>rq_body := b\<rparr>) = has_header k r"
  by (simp_all add: has_header_def)

lemma next_request_ok:
  "chain_ok u0 m r \<Longrightarrow> m = ''GET'' \<or> m = ''HEAD'' \<Longrightarrow> chain_ok u0 m (next_request r u replay)"
  by (auto simp: chain_ok_def next_request_def origin_def Let_def)

lemma follow_redirects_cases:
  assumes "follow_redirects api refs n r c = Some (c', x)"
  obtains (ends) y where "exchange api refs r c = Some (c', y)"
  | (hop) y u replay c1 k where "n = Suc k" "exchange api refs r c = Some (c1, Inr y)"
      "rq_method r = ''GET'' \<or> rq_method r = ''HEAD''"
      "follow_redirects api refs k (next_request r u replay) c1 = Some (c', x)"
proof -
  note run = assms [unfolded follow_redirects.simps [of api refs n]]
  from run consider e where "exchange api refs r c = Some (c', Inl e)"
    | y c1 where "exchange api refs r c = Some (c1, Inr y)"
    unfolding obind_Some by blast
  then show thesis
  proof cases
    case 1
    then show thesis by (rule ends)
  next
    case 2
    show thesis
    proof (cases "redirect_kind (hr_status y) = None \<or> \<not> (rq_method r = ''GET'' \<or> rq_method r = ''HEAD'') \<or>
        hr_location y = [] \<or> n = 0 \<or> (\<exists>e. api_resolve api (rq_url r) (hr_location y) = Inl e)")
      case True
      with run 2 have "c1 = c'" by (auto simp: obind_def split: option.splits if_splits nat.splits)
      with 2 show thesis by (auto intro: ends)
    next
      case False
      then obtain replay k u where "redirect_kind (hr_status y) = Some replay" "n = Suc k"
        "api_resolve api (rq_url r) (hr_location y) = Inr u"
        by (cases "api_resolve api (rq_url r) (hr_location y)") (auto simp: gr0_conv_Suc)
      with run 2 False show thesis by (intro hop [of k c1 y u replay]) (auto simp: obind_def)
    qed
  qed
qed

lemma follow_redirects_sent:
  "follow_redirects api refs n r c = Some (c', x) \<Longrightarrow> chain_ok u0 m r \<Longrightarrow>
   sends_only (chain_ok u0 m) (if m = ''GET'' \<or> m = ''HEAD'' then Suc n else 1) c c'"
proof (induction n arbitrary: r c rule: less_induct)
  case (less n)
  note ok = less.prems(2)
  from less.prems(1) show ?case
  proof (cases rule: follow_redirects_cases)
    case ends
    from sends_only_mono [OF exchange_sent [OF this]] ok show ?thesis by auto
  next
    case (hop y u replay c1 k)
    have m: "m = ''GET'' \<or> m = ''HEAD''" using hop(3) ok by (simp add: chain_ok_def)
    have "sends_only (chain_ok u0 m) 1 c c1"
      using sends_only_mono [OF exchange_sent [OF hop(2)]] ok by auto
    moreover have "sends_only (chain_ok u0 m) (Suc k) c1 c'"
      using less.IH [OF _ hop(4) next_request_ok [OF ok m]] hop(1) m by simp
    ultimately have "sends_only (chain_ok u0 m) (1 + Suc k) c c'" by (rule sends_only_trans)
    then show ?thesis using m hop(1) by simp
  qed
qed

lemma do_redirects_sent:
  assumes "do_redirects api scope_key r c = Some (c', x)" "chain_ok u0 m r"
  shows "sends_only (chain_ok u0 m) 10 c c'"
proof -
  have "\<exists>refs b. follow_redirects api refs max_redirects r (c\<lparr>cn_budgets := b\<rparr>) = Some (c', x)"
  proof (cases "rq_method r = ''POST''")
    case True
    with assms(1) show ?thesis by (auto simp: do_redirects_def split: prod.splits)
  next
    case False
    with assms(1) show ?thesis
      by (intro exI [of _ "[RestB, TotalB]"] exI [of _ "cn_budgets c"]) (simp add: do_redirects_def)
  qed
  then obtain refs b where "follow_redirects api refs max_redirects r (c\<lparr>cn_budgets := b\<rparr>) = Some (c', x)"
    by blast
  from follow_redirects_sent [OF this assms(2)]
  have "sends_only (chain_ok u0 m) 10 (c\<lparr>cn_budgets := b\<rparr>) c'"
    by (rule sends_only_mono) (auto simp: max_redirects_def)
  then show ?thesis by (simp add: sends_only_def)
qed

lemma retry_delay_sent: "retry_delay api m k x c = (c', d) \<Longrightarrow> cn_sent c' = cn_sent c \<and> 0 \<le> d \<and> d \<le> 10 * second"
  by (auto simp: retry_delay_def Let_def split: prod.splits)

lemma attempt_request_sent:
  "attempt_request api scope_key r n c = Some (c', x) \<Longrightarrow> chain_ok u0 m r \<Longrightarrow>
   sends_only (chain_ok u0 m) (10 * n) c c'"
proof (induction n arbitrary: c)
  case 0
  then show ?case by simp
next
  case (Suc n)
  obtain c1 y where d: "do_redirects api scope_key r c = Some (c1, y)"
    using Suc.prems(1) by (cases "do_redirects api scope_key r c") (auto simp: obind_def)
  note sent = do_redirects_sent [OF d Suc.prems(2)]
  show ?case
  proof (cases "c' = c1")
    case True
    then show ?thesis using sends_only_mono [OF sent] by simp
  next
    case False
    with Suc.prems(1) d obtain z where z: "y = Inr z" "retryable (hr_status z) \<and> n > 0"
      by (auto simp: obind_def split: sum.splits option.splits if_splits)
    obtain c2 delay where r: "retry_delay api (rq_method r) (4 - n) z c1 = (c2, delay)" by (metis surj_pair)
    obtain w e where wt: "net_wait (api_net api) delay (cn_world c2) = (w, e)" by (metis surj_pair)
    have c2: "sends_only (chain_ok u0 m) 10 c (c2\<lparr>cn_world := w\<rparr>)"
      using sent retry_delay_sent [OF r] by (simp add: sends_only_def)
    have "c' = c2\<lparr>cn_world := w\<rparr> \<or> attempt_request api scope_key r n (c2\<lparr>cn_world := w\<rparr>) = Some (c', x)"
      using Suc.prems(1) d z r wt False
      by (cases e) (auto simp: obind_def split: option.splits if_splits)
    then show ?thesis
      using sends_only_mono [OF c2] sends_only_trans [OF c2 Suc.IH [OF _ Suc.prems(2)]] by auto
  qed
qed

lemma build_request_chain:
  "chain_ok u method (build_request api method u body c)"
  by (simp add: chain_ok_def build_request_def origin_def)

subsection \<open>Pagination, specified\<close>

text \<open>The pages from number \<open>k\<close> on: every page but the last is full.\<close>

inductive page_chain ::
  "'w api \<Rightarrow> string \<Rightarrow> url_values \<Rightarrow> int \<Rightarrow> nat \<Rightarrow> 'w conn \<Rightarrow> json list list \<Rightarrow> 'w conn \<Rightarrow> bool"
  for api path q per where
  short_page: "fetch_page api path (page_query q k per) c = Some (c1, Inr (pg, chunk)) \<Longrightarrow>
     int (length chunk) < (if pg_per_page pg > 0 then pg_per_page pg else per) \<Longrightarrow> k \<le> max_pages \<Longrightarrow>
     page_chain api path q per k c [chunk] c1"
| full_page: "fetch_page api path (page_query q k per) c = Some (c1, Inr (pg, chunk)) \<Longrightarrow>
     (if pg_per_page pg > 0 then pg_per_page pg else per) \<le> int (length chunk) \<Longrightarrow> k < max_pages \<Longrightarrow>
     page_chain api path q per (Suc k) c1 chunks c2 \<Longrightarrow>
     page_chain api path q per k c (chunk # chunks) c2"

definition page_size :: "int \<Rightarrow> page \<Rightarrow> int" where
  "page_size per pg = (if pg_per_page pg > 0 then pg_per_page pg else per)"

lemma page_chain_fails:
  "\<nexists>c1 pg chunk. fetch_page api path (page_query q k per) c = Some (c1, Inr (pg, chunk)) \<Longrightarrow>
   \<not> page_chain api path q per k c chunks c'"
  by (auto elim: page_chain.cases)

lemma page_chain_step:
  assumes "fetch_page api path (page_query q k per) c = Some (c1, Inr (pg, chunk))"
  shows "page_chain api path q per k c chunks c' \<longleftrightarrow>
    (if int (length chunk) < page_size per pg then k \<le> max_pages \<and> chunks = [chunk] \<and> c' = c1
     else k < max_pages \<and> (\<exists>rest. chunks = chunk # rest \<and> page_chain api path q per (Suc k) c1 rest c'))"
  unfolding page_size_def using assms by (subst page_chain.simps) auto

lemma pages_loop_Suc:
  "pages_loop api path q per (Suc n) rows c =
     (case fetch_page api path (page_query q (max_pages - n) per) c of
        None \<Rightarrow> None
      | Some (c1, Inl e) \<Rightarrow> Some (c1, Inl e)
      | Some (c1, Inr (pg, chunk)) \<Rightarrow>
          if int (length chunk) < page_size per pg then Some (c1, Inr (rows @ chunk))
          else if n = 0 then Some (c1, Inl (ErrNew ''cloudflare pagination limit reached''))
          else pages_loop api path q per n (rows @ chunk) c1)"
  by (simp add: obind_def page_size_def Let_def split: option.splits sum.splits prod.splits)

lemma pages_loop_chain:
  "n \<le> max_pages \<Longrightarrow> 0 < n \<Longrightarrow>
   pages_loop api path q per n rows c = Some (c', Inr all) \<longleftrightarrow>
   (\<exists>chunks. page_chain api path q per (Suc (max_pages - n)) c chunks c' \<and> all = rows @ concat chunks)"
proof (induction n arbitrary: rows c)
  case (Suc n)
  let ?k = "max_pages - n"
  have k: "Suc (max_pages - Suc n) = ?k" using Suc.prems by simp
  show ?case
  proof (cases "\<exists>c1 pg chunk. fetch_page api path (page_query q ?k per) c = Some (c1, Inr (pg, chunk))")
    case False
    then show ?thesis unfolding k pages_loop_Suc using page_chain_fails [OF False]
      by (auto split: option.splits sum.splits)
  next
    case True
    then obtain c1 pg chunk where f: "fetch_page api path (page_query q ?k per) c = Some (c1, Inr (pg, chunk))"
      by blast
    consider "int (length chunk) < page_size per pg" | "\<not> int (length chunk) < page_size per pg" "n = 0"
      | "\<not> int (length chunk) < page_size per pg" "0 < n" by blast
    then show ?thesis
    proof cases
      case 1
      then show ?thesis unfolding k pages_loop_Suc page_chain_step [OF f] f by auto
    next
      case 2
      then show ?thesis unfolding k pages_loop_Suc page_chain_step [OF f] f by simp
    next
      case 3
      then have "?k < max_pages" using Suc.prems by simp
      moreover have "pages_loop api path q per n (rows @ chunk) c1 = Some (c', Inr all) \<longleftrightarrow>
          (\<exists>chunks. page_chain api path q per (Suc ?k) c1 chunks c' \<and> all = (rows @ chunk) @ concat chunks)"
        using Suc.IH Suc.prems 3 by simp
      ultimately show ?thesis unfolding k pages_loop_Suc page_chain_step [OF f] f using 3 by force
    qed
  qed
qed simp

lemma page_chain_length: "page_chain api path q per k c chunks c' \<Longrightarrow> length chunks + k \<le> Suc max_pages"
  by (induction rule: page_chain.induct) auto

text \<open>C24. A paginated read is complete or fails: it returns rows exactly when pages 1, 2, ... were fetched in
  order, each full until a first short one, and then the rows are all their rows in order; at most
  10000 pages are read, and a listing that never ends is an error, never a truncated success.\<close>

theorem pages_complete:
  "api_pages api path q per c = Some (c', Inr rows) \<longleftrightarrow>
    (\<exists>chunks. page_chain api path q (if per \<le> 0 then 100 else per) 1 c chunks c' \<and> rows = concat chunks)"
  using pages_loop_chain [of max_pages api path q "if per \<le> 0 then 100 else per" "[]" c c' rows]
  unfolding api_pages_def by (simp add: max_pages_def)

end
