(* ===== verification/ClientProps.thy ===== *)
theory ClientProps
  imports Client
begin

text \<open>
  That the client is read-only and keeps its credentials, and a server that answers every request at once
  with the runs of the client against it that the examples of this and later theories use.
\<close>

definition stocked_bucket :: "nat \<Rightarrow> token_bucket \<Rightarrow> bool" where
  "stocked_bucket k b \<longleftrightarrow> of_nat k \<le> tb_tokens b \<and> tb_tokens b \<le> tb_capacity b \<and> tb_paused_until b \<le> 0 \<and>
     0 \<le> tb_max_pause b \<and> (tb_started b \<longrightarrow> tb_last b = 0)"

text \<open>A connection at time 0 whose process buckets hold at least \<open>k\<close> tokens, with no resource buckets.\<close>

definition stocked :: "nat \<Rightarrow> time conn \<Rightarrow> bool" where
  "stocked k c \<longleftrightarrow> cn_world c = 0 \<and> \<not> scope_account_based (cn_budgets c) \<and>
     stocked_bucket k (rest_budget (cn_budgets c)) \<and> stocked_bucket k (graphql_budget (cn_budgets c)) \<and>
     stocked_bucket k (total_budget (cn_budgets c))"

definition calm :: "time api \<Rightarrow> (http_request \<Rightarrow> http_response) \<Rightarrow> bool" where
  "calm api resp \<longleftrightarrow> api_net api = clock_net \<and> api_fuel api \<noteq> 0 \<and> api_parse_time api [] = None \<and>
     (\<forall>r w. api_send api r w = (w, Some (resp r), None)) \<and>
     (\<forall>r. hr_ratelimit (resp r) = [] \<and> hr_retry_after (resp r) = [] \<and> hr_read_err (resp r) = None \<and>
        hr_size (resp r) \<le> api_cap api)"

lemma stocked_refill: "stocked_bucket k b \<Longrightarrow> stocked_bucket k (refill 0 b)"
  by (auto simp: stocked_bucket_def refill_def Let_def time_sub_def)

lemma stocked_take: "stocked_bucket (Suc k) b \<Longrightarrow> stocked_bucket k (take_token b)"
  by (auto simp: stocked_bucket_def take_token_def)

lemma stocked_less: "stocked_bucket (Suc k) b \<Longrightarrow> stocked_bucket k b"
  by (simp add: stocked_bucket_def)

lemma stocked_delay: "stocked_bucket (Suc k) b \<Longrightarrow> bucket_delay 0 b \<le> 0"
  by (auto simp: stocked_bucket_def bucket_delay_def time_sub_def)

lemmas stocked_intros = stocked_less stocked_take stocked_refill

lemma acquire_stocked:
  assumes "stocked (Suc k) c" "api_net api = clock_net" "api_fuel api \<noteq> 0"
    and refs: "refs = [RestB, TotalB] \<or> refs = [GraphqlB, TotalB]"
  shows "\<exists>b. acquire_conn api refs c = Some (c\<lparr>cn_budgets := b\<rparr>, Inr ()) \<and> stocked k (c\<lparr>cn_budgets := b\<rparr>)"
proof -
  obtain n where n: "api_fuel api = Suc n" using assms(3) by (cases "api_fuel api") auto
  obtain p D where a: "acquire_step 0 refs (cn_budgets c) = (p, D)" by (metis surj_pair)
  let ?m = "map_buckets (refill 0) refs (cn_budgets c)"
  have "total_delay 0 refs ?m \<le> 0"
    using assms(1) refs unfolding total_delay_le
    by (auto simp: get_map_buckets stocked_def intro!: stocked_delay stocked_refill)
  then have D: "D \<le> 0" "p = map_buckets take_token refs ?m"
    using a by (auto simp: acquire_step_def Let_def split: if_splits)
  from refs have "stocked k (c\<lparr>cn_budgets := p\<rparr>)"
    by (rule disjE) (use assms(1) D(2) in \<open>auto simp: stocked_def map_buckets_def intro: stocked_intros\<close>)
  with assms(1,2) a D(1) n show ?thesis
    by (intro exI [of _ p]) (simp add: acquire_conn_def clock_net_def stocked_def)
qed

lemma observe_calm:
  assumes "calm api resp" "stocked k c"
  shows "stocked k (observe_headers api (resp r) c)"
proof -
  have "retry_after_delay (api_parse_time api) [] 0 = None"
    using assms(1) by (simp add: calm_def retry_after_delay_def trim_space_def parse_uint64_def parse_digits_def)
  then show ?thesis using assms
    by (auto simp: calm_def observe_headers_def clock_net_def stocked_def stocked_bucket_def
        observe_rest_headers_def pause_bucket_def Let_def ratelimit_delay_def)
qed

text \<open>One exchange with such a server.\<close>

lemma exchange_calm:
  assumes "calm api resp" "stocked (Suc k) c"
    and refs: "refs = [RestB, TotalB] \<or> refs = [GraphqlB, TotalB]"
  shows "\<exists>c'. exchange api refs r c = Some (c', Inr (resp r)) \<and> stocked k c' \<and>
    cn_sent c' = cn_sent c @ [r] \<and> cn_settings c' = cn_settings c"
proof -
  from assms(1) have q: "api_net api = clock_net" "api_fuel api \<noteq> 0" "\<And>w. api_send api r w = (w, Some (resp r), None)"
    by (simp_all add: calm_def)
  obtain b where b: "acquire_conn api refs c = Some (c\<lparr>cn_budgets := b\<rparr>, Inr ())"
      "stocked k (c\<lparr>cn_budgets := b\<rparr>)"
    using acquire_stocked [OF assms(2) q(1,2) refs] by blast
  let ?c = "c\<lparr>cn_budgets := b, cn_sent := cn_sent c @ [r]\<rparr>"
  have s: "stocked k ?c" using b(2) by (simp add: stocked_def)
  have note_stocked: "stocked k d \<Longrightarrow> stocked k (note_request api r (Some (resp r)) None d)" for d
    by (simp add: stocked_def note_request_def Let_def)
  have set: "cn_settings (note_request api r x y d) = cn_settings d" "cn_settings (observe_headers api y' d) = cn_settings d"
    for x y y' d by (simp_all add: note_request_def observe_headers_def Let_def split: prod.split)
  show ?thesis
    using b(1) q s note_stocked observe_calm [OF assms(1) s] set
    by (cases "rq_method r = ''POST''") (simp_all add: exchange_def obind_def Let_def)
qed

text \<open>A request that is not redirected.\<close>

lemma do_redirects_calm:
  assumes "calm api resp" "stocked (Suc k) c" "redirect_kind (hr_status (resp r)) = None"
  shows "\<exists>c'. do_redirects api qk r c = Some (c', Inr (resp r)) \<and> stocked k c' \<and>
    cn_sent c' = cn_sent c @ [r] \<and> cn_settings c' = cn_settings c"
proof -
  have no_scope: "scope_bucket qk (cn_budgets c) = (cn_budgets c, None)"
    using assms(2) by (simp add: scope_bucket_def stocked_def)
  have one: "follow_redirects api refs n r c = Some (c', Inr (resp r))"
    if "exchange api refs r c = Some (c', Inr (resp r))" for refs n c'
    using that assms(3) by (subst follow_redirects.simps) (simp add: obind_def)
  let ?refs = "if rq_method r = ''POST'' then [GraphqlB, TotalB] else [RestB, TotalB]"
  have refs: "?refs = [RestB, TotalB] \<or> ?refs = [GraphqlB, TotalB]" by simp
  obtain c' where e: "exchange api ?refs r c = Some (c', Inr (resp r))" "stocked k c'"
    "cn_sent c' = cn_sent c @ [r]" "cn_settings c' = cn_settings c"
    using exchange_calm [OF assms(1,2) refs, of r] by blast
  have "do_redirects api qk r c = follow_redirects api ?refs max_redirects r c"
    using no_scope by (simp add: do_redirects_def)
  with one [OF e(1)] e show ?thesis by auto
qed

text \<open>A server that redirects every request to another host.\<close>

definition evil_api :: "time api" where
  "evil_api =
     \<lparr>api_net = clock_net,
      api_send = \<lambda>r w. (w, Some \<lparr>hr_status = (if rq_url r = \<lparr>u_scheme = ''https'', u_host = ''api'', u_rest = ''/zones''\<rparr>
          then 302 else 200), hr_ratelimit = [], hr_retry_after = [], hr_location = ''http://evil/'', hr_size = 2,
          hr_read_err = None, hr_json = Some (JObj [])\<rparr>, None),
      api_parse_time = \<lambda>_. None,
      api_url = \<lambda>p q. Inr \<lparr>u_scheme = ''https'', u_host = ''api'', u_rest = p\<rparr>,
      api_resolve = \<lambda>u l. Inr \<lparr>u_scheme = ''http'', u_host = ''evil'', u_rest = ''/''\<rparr>,
      api_is_timeout = \<lambda>_. False, api_token = ''t'', api_cap = 100, api_role = ''other'', api_fuel = 2,
      api_backoff = 0, api_jitter = \<lambda>w. (w, 0)\<rparr>"

definition sample_conn :: "time conn" where
  "sample_conn = \<lparr>cn_world = 0, cn_budgets = initial_budgets\<lparr>scope_account_based := False\<rparr>, cn_sent = [],
     cn_totals = \<lparr>rt_requests = 0, rt_failures = 0, rt_list = 0, rt_detail = 0, rt_body = 0, rt_other = 0\<rparr>,
     cn_observed = [], cn_settings = Map.empty\<rparr>"

definition evil_response :: "http_request \<Rightarrow> http_response" where
  "evil_response r = \<lparr>hr_status = (if rq_url r = \<lparr>u_scheme = ''https'', u_host = ''api'', u_rest = ''/zones''\<rparr>
     then 302 else 200), hr_ratelimit = [], hr_retry_after = [], hr_location = ''http://evil/'', hr_size = 2,
     hr_read_err = None, hr_json = Some (JObj [])\<rparr>"

lemma evil_calm: "calm evil_api evil_response"
  by (simp add: calm_def evil_api_def evil_response_def)

lemma sample_conn_stocked: "k \<le> 2 \<Longrightarrow> stocked k sample_conn"
  by (simp add: stocked_def stocked_bucket_def sample_conn_def initial_budgets_def default_rate_limit_def
      new_token_bucket_def Let_def)

text \<open>C10. The client is read-only and keeps its credentials to itself: one call sends at most 50 requests
  (five attempts of ten hops); each is a GET, or a POST to the GraphQL endpoint exactly as
  configured; and a request that carries the Authorization header goes to the scheme and host of the configured
  API, whatever redirects the server answers. Other methods and paths send nothing.\<close>

theorem client_read_only:
  assumes "do_request api scope_key method path query body c = Some (c', x)"
  shows "\<exists>rs. cn_sent c' = cn_sent c @ rs \<and> length rs \<le> 50 \<and>
    (rs \<noteq> [] \<longrightarrow> method = ''GET'' \<or> method = ''POST'' \<and> path = ''/graphql'') \<and>
    (\<forall>r \<in> set rs. rq_method r = method \<and>
       (\<exists>u. api_url api path query = Inr u \<and>
          (has_header ''Authorization'' r \<longrightarrow> origin (rq_url r) = origin u) \<and>
          (method = ''POST'' \<longrightarrow> rq_url r = u)))"
proof (cases "method \<noteq> ''GET'' \<and> (method \<noteq> ''POST'' \<or> path \<noteq> ''/graphql'')")
  case True
  with assms show ?thesis by (auto simp: do_request_def)
next
  case False
  show ?thesis
  proof (cases "(\<not> has_prefix ''/'' path \<or> has_prefix ''//'' path) \<or> (\<exists>e. api_url api path query = Inl e)")
    case True
    with assms False have "c' = c" by (auto simp: do_request_def split: if_splits sum.splits)
    then show ?thesis by simp
  next
    case ok: False
    then obtain u where u: "api_url api path query = Inr u" by (cases "api_url api path query") auto
    let ?r = "build_request api method u body c"
    from assms False ok u have run: "attempt_request api scope_key ?r 5 c = Some (c', x)"
      by (auto simp: do_request_def split: if_splits)
    from attempt_request_sent [OF run build_request_chain] obtain rs where
      "cn_sent c' = cn_sent c @ rs" "length rs \<le> 50" "\<forall>r \<in> set rs. chain_ok u method r"
      by (auto simp: sends_only_def)
    with False u show ?thesis by (intro exI [of _ rs]) (auto simp: chain_ok_def)
  qed
qed


lemma do_request_GET:
  "has_prefix ''/'' path \<Longrightarrow> \<not> has_prefix ''//'' path \<Longrightarrow> api_url api path q = Inr u \<Longrightarrow>
   do_request api k ''GET'' path q b c = attempt_request api k (build_request api ''GET'' u b c) 5 c"
  by (simp add: do_request_def)

lemma has_header_build: "has_header ''Authorization'' (build_request api m u b c)"
  by (simp add: has_header_def build_request_def)

lemma next_request_strips:
  "u_host (rq_url r) \<noteq> u_host u \<Longrightarrow> \<not> has_header ''Authorization'' (next_request r u replay)"
  by (auto simp: has_header_def next_request_def del_header_def Let_def)

lemma evil_run:
  "\<exists>c'. do_request evil_api [] ''GET'' ''/zones'' None None sample_conn = Some (c', Inr (Some (JObj []))) \<and>
     map (\<lambda>r. (u_host (rq_url r), has_header ''Authorization'' r)) (cn_sent c') = [(''api'', True), (''evil'', False)]"
proof -
  let ?u = "\<lparr>u_scheme = ''https'', u_host = ''api'', u_rest = ''/zones''\<rparr>"
  let ?v = "\<lparr>u_scheme = ''http'', u_host = ''evil'', u_rest = ''/''\<rparr>"
  let ?r = "build_request evil_api ''GET'' ?u None sample_conn"
  let ?n = "next_request ?r ?v False"
  have m: "rq_method ?r = ''GET''" "rq_method ?n = ''GET''" "rq_url ?r = ?u" "rq_url ?n = ?v"
    by (simp_all add: build_request_def next_request_def del_header_def Let_def)
  have "stocked (Suc (Suc 0)) sample_conn" by (rule sample_conn_stocked) simp
  from exchange_calm [OF evil_calm this, of "[RestB, TotalB]" ?r] obtain c1 where c1:
    "exchange evil_api [RestB, TotalB] ?r sample_conn = Some (c1, Inr (evil_response ?r))"
    "stocked (Suc 0) c1" "cn_sent c1 = [?r]" by (auto simp: sample_conn_def)
  from exchange_calm [OF evil_calm c1(2), of "[RestB, TotalB]" ?n] obtain c2 where c2:
    "exchange evil_api [RestB, TotalB] ?n c1 = Some (c2, Inr (evil_response ?n))"
    "cn_sent c2 = [?r, ?n]" by (auto simp: c1(3))
  have u: "api_url evil_api ''/zones'' None = Inr ?u" "api_resolve evil_api w l = Inr ?v" "api_cap evil_api = 100" for w l
    by (simp_all add: evil_api_def)
  have "u_host (rq_url ?r) \<noteq> u_host ?v" unfolding m(3) by simp
  from next_request_strips [OF this] have strip: "has_header ''Authorization'' ?n = False" by simp
  have p: "has_prefix ''/'' ''/zones'' " "\<not> has_prefix ''//'' ''/zones''" by code_simp+
  have st: "hr_status (evil_response ?r) = 302" "hr_status (evil_response ?n) = 200"
    "hr_location (evil_response ?r) \<noteq> []" "hr_read_err (evil_response x) = None" "hr_size (evil_response x) = 2"
    "hr_json (evil_response x) = Some (JObj [])" for x
    by (simp_all add: evil_response_def m(3,4))
  have "follow_redirects evil_api [RestB, TotalB] 8 ?n c1 = Some (c2, Inr (evil_response ?n))"
    using c2(1) st by (subst follow_redirects.simps) (simp add: obind_def redirect_kind_def)
  then have "follow_redirects evil_api [RestB, TotalB] (Suc 8) ?r sample_conn = Some (c2, Inr (evil_response ?n))"
    using c1(1) st m(1) u by (subst follow_redirects.simps) (simp add: obind_def redirect_kind_def)
  then have "do_redirects evil_api [] ?r sample_conn = Some (c2, Inr (evil_response ?n))"
    using m(1) by (simp add: do_redirects_def max_redirects_def)
  then have "attempt_request evil_api [] ?r (Suc 4) sample_conn = Some (c2, Inr (Some (JObj [])))"
    using st u by (subst attempt_request.simps) (simp add: obind_def retryable_def response_result_def)
  then have "do_request evil_api [] ''GET'' ''/zones'' None None sample_conn = Some (c2, Inr (Some (JObj [])))"
    by (simp only: do_request_GET [OF p(1) p(2) u(1)] eval_nat_numeral)
  moreover have "map (\<lambda>r. (u_host (rq_url r), has_header ''Authorization'' r)) (cn_sent c2) = [(''api'', True), (''evil'', False)]"
    unfolding c2(2) list.map m(3,4) strip by (simp add: has_header_build)
  ultimately show ?thesis by (intro exI [of _ c2] conjI)
qed

theorem client_read_only_witness:
  "\<exists>c'. do_request evil_api [] ''GET'' ''/zones'' None None sample_conn = Some (c', Inr (Some (JObj []))) \<and>
     (\<exists>rs. cn_sent c' = cn_sent sample_conn @ rs \<and> length rs \<le> 50)"
proof -
  from evil_run obtain c' where run: "do_request evil_api [] ''GET'' ''/zones'' None None sample_conn = Some (c', Inr (Some (JObj [])))"
    by blast
  from client_read_only [OF run] show ?thesis using run by blast
qed

lemma post_calm:
  assumes "calm api resp" "stocked (Suc k) c" "api_url api ''/graphql'' None = Inr u" "\<And>r. hr_status (resp r) = 200"
  shows "\<exists>c' r. do_request api qk ''POST'' ''/graphql'' None body c = Some (c', Inr (hr_json (resp r))) \<and>
    stocked k c' \<and> cn_settings c' = cn_settings c"
proof -
  let ?r = "build_request api ''POST'' u body c"
  have "redirect_kind (hr_status (resp ?r)) = None" by (simp add: redirect_kind_def assms(4))
  from do_redirects_calm [where qk = qk, OF assms(1,2) this] obtain c' where d:
    "do_redirects api qk ?r c = Some (c', Inr (resp ?r))" "stocked k c'" "cn_settings c' = cn_settings c"
    by blast
  have "hr_read_err (resp ?r) = None" "hr_size (resp ?r) \<le> api_cap api" using assms(1) by (simp_all add: calm_def)
  with d(1) have "attempt_request api qk ?r (Suc 4) c = Some (c', Inr (hr_json (resp ?r)))"
    by (subst attempt_request.simps) (simp add: obind_def retryable_def response_result_def assms(4))
  moreover have "do_request api qk ''POST'' ''/graphql'' None body c = attempt_request api qk ?r 5 c"
    using assms(3) by (simp add: do_request_def has_prefix_Cons)
  ultimately show ?thesis using d(2,3) by (metis Suc_numeral add_One numeral_eq_iff semiring_norm(2,8) eval_nat_numeral(3))
qed

end
