(* ===== verification/GqlText.thy ===== *)
theory GqlText
  imports Json "HOL-Library.Sublist"
begin

text \<open>
  The text of a GraphQL query, \<open>internal/cfapi/graphql.go\<close>: request validation, the fields of a
  dataset, the selection set and filter values. Strings are lists of bytes; the case-insensitive
  matches of Go are modelled on ASCII.
\<close>

subsection \<open>Requests\<close>

definition ident_start :: "char \<Rightarrow> bool" where
  [str_defs]: "ident_start c \<longleftrightarrow> is_alpha c \<or> c = CHR ''_''"

definition is_identifier :: "string \<Rightarrow> bool" where
  [str_defs]: "is_identifier s \<longleftrightarrow>
     (case s of [] \<Rightarrow> False | c # cs \<Rightarrow> ident_start c \<and> list_all (\<lambda>d. ident_start d \<or> is_digit d) cs)"

text \<open>A value of type \<open>any\<close> in a filter: \<open>GNum\<close> holds the JSON text of a float64, int or int64, and \<open>GOther\<close>
  the name of any other type.\<close>

datatype gql_val =
    GStr string
  | GBool bool
  | GNum string
  | GNil
  | GMap "(string \<times> gql_val) list"
  | GList "gql_val list"
  | GOther string

record graphql_request =
  gr_scope :: string
  gr_scope_id :: string
  gr_dataset :: string
  gr_wanted :: "string list"
  gr_join :: "string list"
  gr_filter :: "(string \<times> gql_val) list"
  gr_from :: time
  gr_to :: time
  gr_limit :: int

definition account_scope :: string where "account_scope = ''account''"
definition zone_scope :: string where "zone_scope = ''zone''"

text \<open>\<open>%q\<close>.\<close>

definition go_quote_char :: "char \<Rightarrow> string" where
  "go_quote_char c =
     (let n = (of_char c :: nat) in
      if n = 34 \<or> n = 92 then [CHR 0x5C, c]
      else if n = 7 then [CHR 0x5C, CHR ''a'']
      else if n = 8 then [CHR 0x5C, CHR ''b'']
      else if n = 12 then [CHR 0x5C, CHR ''f'']
      else if n = 10 then [CHR 0x5C, CHR ''n'']
      else if n = 13 then [CHR 0x5C, CHR ''r'']
      else if n = 9 then [CHR 0x5C, CHR ''t'']
      else if n = 11 then [CHR 0x5C, CHR ''v'']
      else if n < 32 \<or> n = 127 then [CHR 0x5C, CHR ''x'', hex_digit (n div 16), hex_digit (n mod 16)]
      else [c])"

definition go_quote :: "string \<Rightarrow> string" where
  "go_quote s = CHR 0x22 # concat (map go_quote_char s) @ [CHR 0x22]"

definition field_valid :: "string \<Rightarrow> bool" where
  "field_valid f \<longleftrightarrow> list_all is_identifier (split_char (CHR ''.'') f)"

definition valid_request :: "graphql_request \<Rightarrow> gerr option" where
  "valid_request r =
     (if gr_scope r \<noteq> account_scope \<and> gr_scope r \<noteq> zone_scope then Some (ErrNew ''invalid GraphQL scope'')
      else if \<not> is_identifier (gr_dataset r) then Some (ErrNew ''invalid GraphQL dataset'')
      else if gr_scope_id r = [] then Some (ErrNew ''empty GraphQL scope ID'')
      else
        (case find (\<lambda>f. \<not> field_valid f) (gr_wanted r @ gr_join r) of
           Some f \<Rightarrow> Some (ErrNew (''invalid GraphQL field '' @ go_quote f))
         | None \<Rightarrow>
             if \<not> gr_from r < gr_to r then Some (ErrNew ''invalid GraphQL window'') else None))"

subsection \<open>Fields\<close>

definition field_prefixes :: "string list" where
  "field_prefixes = [''dimensions_'', ''sum_'', ''avg_'', ''max_'', ''uniq_'', ''quantiles_'']"

definition dotted :: "string \<Rightarrow> string \<Rightarrow> string" where
  "dotted p f = trim_suffix ''_'' p @ ''.'' @ trim_prefix p f"

definition normal_field :: "string \<Rightarrow> string" where
  "normal_field f =
     (case find (\<lambda>p. has_prefix p f) field_prefixes of Some p \<Rightarrow> dotted p f | None \<Rightarrow> f)"

text \<open>The keys under which an available field can be wanted.\<close>

definition available_keys :: "string list \<Rightarrow> string set" where
  "available_keys available =
     set (concat (map (\<lambda>f. to_lower f # map (\<lambda>p. to_lower (dotted p f)) (filter (\<lambda>p. has_prefix p f) field_prefixes))
       available))"

fun pick_fields :: "string set \<Rightarrow> string set \<Rightarrow> string list \<Rightarrow> string list" where
  "pick_fields avail seen [] = []"
| "pick_fields avail seen (f # fs) =
     (if to_lower f \<in> avail \<and> to_lower f \<notin> seen then f # pick_fields avail (insert (to_lower f) seen) fs
      else pick_fields avail seen fs)"

definition intersect_fields :: "string list \<Rightarrow> string list \<Rightarrow> string list" where
  "intersect_fields wanted available =
     pick_fields (available_keys available) {}
       (if wanted = [] then map normal_field available else wanted)"

lemma pick_fields_set:
  "set (pick_fields avail seen fs) \<subseteq> {f \<in> set fs. to_lower f \<in> avail \<and> to_lower f \<notin> seen}"
  by (induction avail seen fs rule: pick_fields.induct) auto

lemma pick_fields_covers:
  "f \<in> set fs \<Longrightarrow> to_lower f \<in> avail \<Longrightarrow> to_lower f \<notin> seen \<Longrightarrow>
   \<exists>g \<in> set (pick_fields avail seen fs). to_lower g = to_lower f"
proof (induction avail seen fs rule: pick_fields.induct)
  case (2 avail seen g fs)
  show ?case
  proof (cases "to_lower g = to_lower f")
    case False
    with 2 show ?thesis by (cases "to_lower g \<in> avail \<and> to_lower g \<notin> seen") auto
  qed (use 2 in auto)
qed simp

lemma pick_fields_distinct: "distinct (map to_lower (pick_fields avail seen fs))"
proof (induction avail seen fs rule: pick_fields.induct)
  case (2 avail seen f fs)
  have "to_lower f \<notin> to_lower ` set (pick_fields avail (insert (to_lower f) seen) fs)"
    using pick_fields_set [of avail "insert (to_lower f) seen" fs] by auto
  with 2 show ?case by simp
qed simp

lemma pick_fields_subseq: "subseq (pick_fields avail seen fs) fs"
  by (induction avail seen fs rule: pick_fields.induct) auto

text \<open>\<open>intersect\<close> selects exactly the entitled fields: only wanted ones, in the wanted order, only
  available ones, no field twice, and every wanted field that is available.\<close>

theorem intersect_exact:
  assumes "wanted \<noteq> []"
  shows "subseq (intersect_fields wanted available) wanted \<and>
    distinct (map to_lower (intersect_fields wanted available)) \<and>
    to_lower ` set (intersect_fields wanted available) = to_lower ` set wanted \<inter> available_keys available"
proof -
  let ?a = "available_keys available"
  have r: "intersect_fields wanted available = pick_fields ?a {} wanted"
    using assms by (simp add: intersect_fields_def)
  have "to_lower ` set (pick_fields ?a {} wanted) = to_lower ` set wanted \<inter> ?a"
  proof
    show "to_lower ` set (pick_fields ?a {} wanted) \<subseteq> to_lower ` set wanted \<inter> ?a"
      using pick_fields_set [of ?a "{}" wanted] by auto
    show "to_lower ` set wanted \<inter> ?a \<subseteq> to_lower ` set (pick_fields ?a {} wanted)"
    proof
      fix k assume "k \<in> to_lower ` set wanted \<inter> ?a"
      then obtain f where "f \<in> set wanted" "to_lower f \<in> ?a" "k = to_lower f" by auto
      with pick_fields_covers [of f wanted ?a "{}"] show "k \<in> to_lower ` set (pick_fields ?a {} wanted)"
        by (metis empty_iff image_eqI)
    qed
  qed
  then show ?thesis unfolding r by (intro conjI pick_fields_distinct pick_fields_subseq)
qed

lemma intersect_sample:
  "intersect_fields [''sum.visits'', ''count'', ''count'', ''x''] [''count'', ''sum_visits''] = [''sum.visits'', ''count'']"
  by (simp add: intersect_fields_def available_keys_def field_prefixes_def dotted_def has_prefix_Cons
      trim_suffix_def trim_prefix_def has_suffix_def to_lower_def lower_char_def)

theorem intersect_exact_witness:
  "to_lower ` set [''sum.visits'', ''count''] =
   to_lower ` set [''sum.visits'', ''count'', ''count'', ''x''] \<inter> available_keys [''count'', ''sum_visits'']"
  using intersect_exact [of "[''sum.visits'', ''count'', ''count'', ''x'']" "[''count'', ''sum_visits'']"]
  unfolding intersect_sample by blast

subsection \<open>Selection sets\<close>

text \<open>The local type \<open>node\<close>: a tree of field names.\<close>

datatype sel_node = SelNode "(string \<times> sel_node) list"

fun add_path :: "string list \<Rightarrow> sel_node \<Rightarrow> sel_node" where
  "add_path [] n = n"
| "add_path (p # ps) (SelNode m) =
     SelNode (map_set p (add_path ps (case map_of m p of Some n \<Rightarrow> n | None \<Rightarrow> SelNode [])) m)"

definition selection_tree :: "string list \<Rightarrow> sel_node" where
  "selection_tree fs = fold (\<lambda>f. add_path (split_char (CHR ''.'') f)) fs (SelNode [])"

fun render_node :: "sel_node \<Rightarrow> string" where
  "render_node (SelNode m) =
     str_join '' '' (map (\<lambda>(k, n). if n = SelNode [] then k else k @ ''{'' @ render_node n @ ''}'') (sort_key fst m))"

definition selection :: "string list \<Rightarrow> string" where
  "selection fs = render_node (selection_tree fs)"

text \<open>The paths of a tree, and its leaves: the fields a query with this selection returns.\<close>

fun has_path :: "string list \<Rightarrow> sel_node \<Rightarrow> bool" where
  "has_path [] n = True"
| "has_path (p # ps) (SelNode m) = (case map_of m p of Some n \<Rightarrow> has_path ps n | None \<Rightarrow> False)"

fun is_leaf :: "string list \<Rightarrow> sel_node \<Rightarrow> bool" where
  "is_leaf [] n = (n = SelNode [])"
| "is_leaf (p # ps) (SelNode m) = (case map_of m p of Some n \<Rightarrow> is_leaf ps n | None \<Rightarrow> False)"

lemma has_path_empty [simp]: "has_path ps (SelNode []) \<longleftrightarrow> ps = []"
  by (cases ps) auto

lemma has_path_add: "has_path ps (add_path qs n) \<longleftrightarrow> has_path ps n \<or> prefix ps qs"
proof (induction qs n arbitrary: ps rule: add_path.induct)
  case (2 q qs m)
  then show ?case by (cases ps) (auto simp: map_of_map_set split: option.splits)
qed auto

lemma has_path_tree:
  "has_path ps (selection_tree fs) \<longleftrightarrow>
     ps = [] \<or> (\<exists>f \<in> set fs. prefix ps (split_char (CHR ''.'') f))"
proof -
  have "has_path ps (fold (\<lambda>f. add_path (split_char (CHR ''.'') f)) fs n) \<longleftrightarrow>
      has_path ps n \<or> (\<exists>f \<in> set fs. prefix ps (split_char (CHR ''.'') f))" for n
    by (induction fs arbitrary: n) (auto simp: has_path_add)
  then show ?thesis by (simp add: selection_tree_def)
qed

text \<open>A leaf is a path that no path of the tree extends.\<close>

lemma is_leaf_iff: "is_leaf ps n \<longleftrightarrow> has_path ps n \<and> (\<forall>q. \<not> has_path (ps @ [q]) n)"
proof (induction ps n rule: is_leaf.induct)
  case (1 n)
  obtain m where n: "n = SelNode m" by (cases n)
  have "m = [] \<longleftrightarrow> (\<forall>q. map_of m q = None)"
    by (cases m) (auto simp: map_of_eq_None_iff split: if_splits dest: spec [of _ "fst (hd m)"])
  then show ?case by (simp add: n split: option.splits)
next
  case (2 p ps m)
  then show ?case by (auto split: option.splits)
qed

text \<open>\<open>selection\<close> asks for what was wanted: the leaves of the tree it renders are exactly the
  wanted field paths that no longer wanted path extends, whatever the order and the repetitions
  of the fields.\<close>

theorem selection_leaves:
  "is_leaf ps (selection_tree fs) \<longleftrightarrow>
     (if fs = [] then ps = []
      else (\<exists>f \<in> set fs. ps = split_char (CHR ''.'') f) \<and>
           \<not> (\<exists>f \<in> set fs. strict_prefix ps (split_char (CHR ''.'') f)))"
proof -
  have ext: "(\<exists>q. prefix (ps @ [q]) qs) \<longleftrightarrow> strict_prefix ps qs" for qs :: "string list"
    by (auto simp: strict_prefix_def prefix_def) (metis append_Cons append_Nil2 neq_Nil_conv)
  have "(\<forall>q. \<not> has_path (ps @ [q]) (selection_tree fs)) \<longleftrightarrow>
      (\<forall>f \<in> set fs. \<not> strict_prefix ps (split_char (CHR ''.'') f))"
    unfolding has_path_tree using ext by auto
  moreover have "\<exists>f \<in> set fs. strict_prefix [] (split_char (CHR ''.'') f)" if "fs \<noteq> []"
    using that by (cases fs) (auto simp: strict_prefix_def dest!: split_char_not_Nil [THEN notE, OF sym])
  ultimately show ?thesis
    unfolding is_leaf_iff has_path_tree by (auto simp: strict_prefix_def)
qed

end
