(* ===== verification/GqlFilter.thy ===== *)
theory GqlFilter
  imports GqlText
begin

text \<open>
  Filter values, \<open>gqlValue\<close> of \<open>internal/cfapi/graphql.go\<close>, and a reader of the literals it writes. Go
  checks the keys of a map in any order; the model reports the first bad key in key order.
\<close>

lemma size_sort_key [termination_simp]:
  "(k, v) \<in> set (sort_key fst m) \<Longrightarrow> size v < Suc (size_list (size_prod (\<lambda>_. 0) size) m)"
proof -
  assume "(k, v) \<in> set (sort_key fst m)"
  then have "(k, v) \<in> set m" by simp
  then show ?thesis by (induction m) auto
qed

fun gql_value :: "gql_val \<Rightarrow> gerr + string" where
  "gql_value (GStr s) = Inr (json_quote s)"
| "gql_value (GBool b) = Inr (if b then ''true'' else ''false'')"
| "gql_value (GNum t) = Inr t"
| "gql_value GNil = Inr ''null''"
| "gql_value (GMap m) =
     (case find (\<lambda>kv. \<not> is_identifier (fst kv)) (sort_key fst m) of
        Some kv \<Rightarrow> Inl (ErrNew (''invalid filter key '' @ go_quote (fst kv)))
      | None \<Rightarrow>
          (case sum_map (\<lambda>(k, v). case gql_value v of Inl e \<Rightarrow> Inl e | Inr s \<Rightarrow> Inr (k @ '':'' @ s)) (sort_key fst m) of
             Inl e \<Rightarrow> Inl e
           | Inr parts \<Rightarrow> Inr (''{'' @ str_join '','' parts @ ''}'')))"
| "gql_value (GList xs) =
     (case sum_map gql_value xs of
        Inl e \<Rightarrow> Inl e
      | Inr parts \<Rightarrow> Inr (''['' @ str_join '','' parts @ '']''))"
| "gql_value (GOther t) = Inl (ErrNew (''unsupported filter value '' @ t))"

subsection \<open>Reading a literal\<close>

definition value_end :: "char \<Rightarrow> bool" where
  "value_end c \<longleftrightarrow> c = CHR '','' \<or> c = CHR ''}'' \<or> c = CHR '']''"

definition read_word :: "string \<Rightarrow> (gql_val \<times> string) option" where
  "read_word s =
     (let w = takeWhile (\<lambda>c. \<not> value_end c) s; r = dropWhile (\<lambda>c. \<not> value_end c) s in
      if w = ''true'' then Some (GBool True, r)
      else if w = ''false'' then Some (GBool False, r)
      else if w = ''null'' then Some (GNil, r)
      else if w \<noteq> [] then Some (GNum w, r) else None)"

text \<open>The recursion is bounded by the depth and width of the literal; \<open>n\<close> is more than its size.\<close>

fun read_value :: "nat \<Rightarrow> string \<Rightarrow> (gql_val \<times> string) option"
  and read_members :: "nat \<Rightarrow> string \<Rightarrow> ((string \<times> gql_val) list \<times> string) option"
  and read_items :: "nat \<Rightarrow> string \<Rightarrow> (gql_val list \<times> string) option" where
  "read_value 0 s = None"
| "read_value (Suc n) s =
     (case s of
        [] \<Rightarrow> None
      | c # cs \<Rightarrow>
          if c = CHR 0x22 then map_option (\<lambda>(t, r). (GStr t, r)) (unquote_body cs)
          else if c = CHR ''{'' then
            (case cs of
               [] \<Rightarrow> None
             | d # ds \<Rightarrow> if d = CHR ''}'' then Some (GMap [], ds)
                 else map_option (\<lambda>(m, r). (GMap m, r)) (read_members n cs))
          else if c = CHR ''['' then
            (case cs of
               [] \<Rightarrow> None
             | d # ds \<Rightarrow> if d = CHR '']'' then Some (GList [], ds)
                 else map_option (\<lambda>(xs, r). (GList xs, r)) (read_items n cs))
          else read_word s)"
| "read_members 0 s = None"
| "read_members (Suc n) s =
     (let k = takeWhile (\<lambda>c. c \<noteq> CHR '':'') s; t = dropWhile (\<lambda>c. c \<noteq> CHR '':'') s in
      case read_value n (tl t) of
        None \<Rightarrow> None
      | Some (v, r) \<Rightarrow>
          (case r of
             [] \<Rightarrow> None
           | c # cs \<Rightarrow>
               if c = CHR ''}'' then Some ([(k, v)], cs)
               else if c = CHR '','' then map_option (\<lambda>(m, r). ((k, v) # m, r)) (read_members n cs)
               else None))"
| "read_items 0 s = None"
| "read_items (Suc n) s =
     (case read_value n s of
        None \<Rightarrow> None
      | Some (v, r) \<Rightarrow>
          (case r of
             [] \<Rightarrow> None
           | c # cs \<Rightarrow>
               if c = CHR '']'' then Some ([v], cs)
               else if c = CHR '','' then map_option (\<lambda>(xs, r). (v # xs, r)) (read_items n cs)
               else None))"

text \<open>Values as \<open>Query\<close> passes them: maps are sorted, numbers are JSON numbers.\<close>

definition number_text :: "string \<Rightarrow> bool" where
  "number_text t \<longleftrightarrow> (case t of [] \<Rightarrow> False | c # _ \<Rightarrow> is_digit c \<or> c = CHR ''-'') \<and>
     list_all (\<lambda>c. is_digit c \<or> c \<in> {CHR ''-'', CHR ''+'', CHR ''.'', CHR ''e''}) t"

fun gql_ok :: "gql_val \<Rightarrow> bool" where
  "gql_ok (GNum t) = number_text t"
| "gql_ok (GMap m) = (sorted (map fst m) \<and> list_all (\<lambda>(k, v). gql_ok v) m)"
| "gql_ok (GList xs) = list_all gql_ok xs"
| "gql_ok v = True"

fun gql_fuel :: "gql_val \<Rightarrow> nat" where
  "gql_fuel (GMap m) = Suc (sum_list (map (\<lambda>(k, v). Suc (gql_fuel v)) m))"
| "gql_fuel (GList xs) = Suc (sum_list (map (\<lambda>v. Suc (gql_fuel v)) xs))"
| "gql_fuel v = 1"

definition rest_ok :: "string \<Rightarrow> bool" where
  "rest_ok r \<longleftrightarrow> (case r of [] \<Rightarrow> True | c # _ \<Rightarrow> value_end c)"

lemma rest_ok_Cons [simp]: "rest_ok (c # r) \<longleftrightarrow> value_end c"
  by (simp add: rest_ok_def)

lemma value_end_simps [simp]: "value_end (CHR '','')" "value_end (CHR ''}'')" "value_end (CHR '']'')"
  by (simp_all add: value_end_def)

lemma read_word_append:
  assumes "list_all (\<lambda>c. \<not> value_end c) w" "rest_ok r"
  shows "read_word (w @ r) =
     (if w = ''true'' then Some (GBool True, r)
      else if w = ''false'' then Some (GBool False, r)
      else if w = ''null'' then Some (GNil, r)
      else if w \<noteq> [] then Some (GNum w, r) else None)"
proof -
  have "takeWhile (\<lambda>c. \<not> value_end c) (w @ r) = w" "dropWhile (\<lambda>c. \<not> value_end c) (w @ r) = r"
    using assms by (induction w) (auto simp: rest_ok_def split: list.splits)
  then show ?thesis by (simp add: read_word_def Let_def)
qed

lemma read_value_word:
  assumes "list_all (\<lambda>c. \<not> value_end c) (c # cs)" "rest_ok r" "c \<notin> {CHR 0x22, CHR ''{'', CHR ''[''}"
  shows "read_value (Suc n) ((c # cs) @ r) = read_word ((c # cs) @ r)"
  using assms(3) by simp

lemma number_word:
  assumes "number_text t" "rest_ok r"
  shows "read_value (Suc n) (t @ r) = Some (GNum t, r)"
proof -
  obtain c cs where t: "t = c # cs" using assms(1) by (cases t) (auto simp: number_text_def)
  have "list_all (\<lambda>c. \<not> value_end c) t"
    using assms(1) by (auto simp: number_text_def list_all_iff value_end_def is_digit_def)
  moreover have "c \<notin> {CHR 0x22, CHR ''{'', CHR ''['', CHR ''t'', CHR ''f'', CHR ''n''}"
    using assms(1) by (auto simp: t number_text_def is_digit_def)
  ultimately show ?thesis
    using assms(2) read_value_word [of c cs r n] read_word_append [of t r] unfolding t by auto
qed

lemma literal_word:
  assumes "rest_ok r"
  shows "read_value (Suc n) (''true'' @ r) = Some (GBool True, r)"
    "read_value (Suc n) (''false'' @ r) = Some (GBool False, r)"
    "read_value (Suc n) (''null'' @ r) = Some (GNil, r)"
  using read_word_append [of "''true''" r] read_word_append [of "''false''" r] read_word_append [of "''null''" r] assms
  by (simp_all add: value_end_def)

lemma value_text_start: "gql_value v = Inr t \<Longrightarrow> gql_ok v \<Longrightarrow> \<exists>c cs. t = c # cs \<and> \<not> value_end c"
  by (cases v) (auto simp: json_quote_def value_end_def number_text_def is_digit_def
      split: if_splits sum.splits option.splits list.splits)

lemma identifier_chars:
  "is_identifier k \<Longrightarrow> \<exists>c cs. k = c # cs \<and> c \<noteq> CHR ''}'' \<and> list_all (\<lambda>d. d \<noteq> CHR '':'') k"
  by (cases k) (auto simp: is_identifier_def ident_start_def is_alpha_def is_digit_def list_all_iff)

lemma str_join_Cons: "str_join sep (x # xs) = x @ (if xs = [] then [] else sep @ str_join sep xs)"
  by (cases xs) auto

lemma sum_map_Cons_Inr:
  "sum_map f (x # xs) = Inr ys \<longleftrightarrow> (\<exists>y ys'. f x = Inr y \<and> sum_map f xs = Inr ys' \<and> ys = y # ys')"
  by (auto split: sum.splits)

definition reads_back :: "gql_val \<Rightarrow> bool" where
  "reads_back v \<longleftrightarrow> (\<forall>t r n. gql_value v = Inr t \<longrightarrow> rest_ok r \<longrightarrow> gql_fuel v \<le> n \<longrightarrow> read_value n (t @ r) = Some (v, r))"

lemma read_items_back:
  "\<forall>x \<in> set xs. reads_back x \<Longrightarrow> xs \<noteq> [] \<Longrightarrow> sum_map gql_value xs = Inr parts \<Longrightarrow>
   sum_list (map (\<lambda>v. Suc (gql_fuel v)) xs) \<le> n \<Longrightarrow>
   read_items n (str_join '','' parts @ CHR '']'' # r) = Some (xs, r)"
proof (induction xs arbitrary: parts n)
  case (Cons x xs)
  from Cons.prems(3) obtain t ts where t: "gql_value x = Inr t" "sum_map gql_value xs = Inr ts" "parts = t # ts"
    unfolding sum_map_Cons_Inr by blast
  obtain m where n: "n = Suc m" "gql_fuel x \<le> m" "sum_list (map (\<lambda>v. Suc (gql_fuel v)) xs) \<le> m"
    using Cons.prems(4) by (cases n) auto
  have head: "rest_ok q \<Longrightarrow> read_value m (t @ q) = Some (x, q)" for q
    using Cons.prems(1) t(1) n(2) by (simp add: reads_back_def)
  show ?case
  proof (cases "xs = []")
    case True
    with t have "ts = []" by simp
    with True t n(1) head show ?thesis by simp
  next
    case False
    with t(2) have "ts \<noteq> []" by (cases xs) (auto split: sum.splits)
    with False t n Cons.IH [OF _ False t(2) n(3)] Cons.prems(1) head show ?thesis
      by (simp add: str_join_Cons)
  qed
qed simp

lemma read_members_back:
  "\<forall>(k, v) \<in> set m. reads_back v \<and> is_identifier k \<Longrightarrow> m \<noteq> [] \<Longrightarrow>
   sum_map (\<lambda>(k, v). case gql_value v of Inl e \<Rightarrow> Inl e | Inr s \<Rightarrow> Inr (k @ '':'' @ s)) m = Inr parts \<Longrightarrow>
   sum_list (map (\<lambda>(k, v). Suc (gql_fuel v)) m) \<le> n \<Longrightarrow>
   read_members n (str_join '','' parts @ CHR ''}'' # r) = Some (m, r)"
proof (induction m arbitrary: parts n)
  case (Cons kv m)
  obtain k v where kv: "kv = (k, v)" by (cases kv)
  from Cons.prems(3) obtain t ts where t: "gql_value v = Inr t"
    "sum_map (\<lambda>(k, v). case gql_value v of Inl e \<Rightarrow> Inl e | Inr s \<Rightarrow> Inr (k @ '':'' @ s)) m = Inr ts"
    "parts = (k @ '':'' @ t) # ts"
    unfolding sum_map_Cons_Inr kv by (auto split: sum.splits)
  obtain p where n: "n = Suc p" "gql_fuel v \<le> p" "sum_list (map (\<lambda>(k, v). Suc (gql_fuel v)) m) \<le> p"
    using Cons.prems(4) kv by (cases n) auto
  have head: "rest_ok q \<Longrightarrow> read_value p (t @ q) = Some (v, q)" for q
    using Cons.prems(1) t(1) n(2) kv by (simp add: reads_back_def)
  have k: "list_all (\<lambda>d. d \<noteq> CHR '':'') k"
    using Cons.prems(1) kv identifier_chars [of k] by auto
  then have key: "takeWhile (\<lambda>c. c \<noteq> CHR '':'') (k @ CHR '':'' # q) = k"
    "dropWhile (\<lambda>c. c \<noteq> CHR '':'') (k @ CHR '':'' # q) = CHR '':'' # q" for q
    by (induction k) auto
  show ?case
  proof (cases "m = []")
    case True
    with t have "ts = []" by simp
    with True t n(1) head key kv show ?thesis by simp
  next
    case False
    with t(2) have "ts \<noteq> []" by (cases m) (auto split: sum.splits)
    with False t n Cons.IH [OF _ False t(2) n(3)] Cons.prems(1) head key kv show ?thesis
      by (simp add: str_join_Cons)
  qed
qed simp

lemma gql_reads_back: "gql_ok v \<Longrightarrow> reads_back v"
proof (induction v)
  case (GMap m)
  then have IH: "\<forall>(k, v) \<in> set m. reads_back v" by (fastforce simp: list_all_iff)
  have srt: "sort_key fst m = m" using GMap.prems by (simp add: sort_key_id_if_sorted)
  show ?case unfolding reads_back_def
  proof (intro allI impI)
    fix t r n assume t: "gql_value (GMap m) = Inr t" and r: "rest_ok r" and n: "gql_fuel (GMap m) \<le> n"
    from t obtain parts where ids: "\<forall>(k, v) \<in> set m. is_identifier k"
      and parts: "sum_map (\<lambda>(k, v). case gql_value v of Inl e \<Rightarrow> Inl e | Inr s \<Rightarrow> Inr (k @ '':'' @ s)) m = Inr parts"
      and eq: "t = ''{'' @ str_join '','' parts @ ''}''"
      by (auto simp: srt find_None_iff split: option.splits sum.splits)
    obtain p where p: "n = Suc p" using n by (cases n) auto
    show "read_value n (t @ r) = Some (GMap m, r)"
    proof (cases m)
      case Nil
      with parts show ?thesis by (simp add: eq p)
    next
      case (Cons kv m')
      have m: "read_members p (str_join '','' parts @ CHR ''}'' # r) = Some (m, r)"
        using IH ids parts n p Cons by (intro read_members_back) auto
      have "is_identifier (fst kv)" using ids Cons by auto
      then obtain c cs where "fst kv = c # cs" "c \<noteq> CHR ''}''" using identifier_chars by blast
      moreover obtain w ws where "parts = (fst kv @ w) # ws"
        using parts unfolding Cons by (cases kv) (auto split: sum.splits)
      ultimately obtain q where "str_join '','' parts @ CHR ''}'' # r = c # q" "c \<noteq> CHR ''}''"
        by (auto simp: str_join_Cons)
      with m show ?thesis by (simp add: eq p)
    qed
  qed
next
  case (GList xs)
  then have IH: "\<forall>x \<in> set xs. reads_back x" by (auto simp: list_all_iff)
  show ?case unfolding reads_back_def
  proof (intro allI impI)
    fix t r n assume t: "gql_value (GList xs) = Inr t" and r: "rest_ok r" and n: "gql_fuel (GList xs) \<le> n"
    from t obtain parts where parts: "sum_map gql_value xs = Inr parts" and eq: "t = ''['' @ str_join '','' parts @ '']''"
      by (auto split: sum.splits)
    obtain p where p: "n = Suc p" using n by (cases n) auto
    show "read_value n (t @ r) = Some (GList xs, r)"
    proof (cases xs)
      case Nil
      with parts show ?thesis by (simp add: eq p)
    next
      case (Cons x xs')
      have m: "read_items p (str_join '','' parts @ CHR '']'' # r) = Some (xs, r)"
        using IH parts n p Cons by (intro read_items_back) auto
      obtain w ws where w: "parts = w # ws" "gql_value x = Inr w"
        using parts unfolding Cons by (auto split: sum.splits)
      with value_text_start [of x w] GList.prems Cons obtain c cs where "w = c # cs" "\<not> value_end c" by auto
      with w(1) obtain q where "str_join '','' parts @ CHR '']'' # r = c # q" "c \<noteq> CHR '']''"
        by (auto simp: str_join_Cons value_end_def)
      with m show ?thesis by (simp add: eq p)
    qed
  qed
next
  case (GStr s)
  show ?case unfolding reads_back_def
    by (auto simp: json_quote_def unquote_quote dest!: Suc_le_D)
next
  case (GBool b)
  show ?case unfolding reads_back_def using literal_word
    by (auto simp del: read_value.simps dest!: Suc_le_D)
next
  case GNil
  show ?case unfolding reads_back_def using literal_word
    by (auto simp del: read_value.simps dest!: Suc_le_D)
next
  case (GNum t)
  then show ?case unfolding reads_back_def using number_word
    by (auto simp del: read_value.simps dest!: Suc_le_D)
qed (simp add: reads_back_def)


definition sample_filter :: gql_val where
  "sample_filter = GMap [(''botScore_lt'', GNum ''30''), (''path_in'', GList [GStr [CHR 0x22, CHR ''}''], GNil])]"

lemma sample_filter_text:
  "gql_value sample_filter = Inr (''{botScore_lt:30,path_in:['' @ [CHR 0x22, CHR 0x5C, CHR 0x22, CHR ''}'', CHR 0x22] @ '',null]}'')"
  by (simp add: sample_filter_def json_quote_def quote_char_def is_identifier_def ident_start_def is_alpha_def)


text \<open>\<open>gqlValue\<close> refuses nothing else than values of other types and keys that are no identifiers.\<close>

fun gql_safe :: "gql_val \<Rightarrow> bool" where
  "gql_safe (GMap m) = list_all (\<lambda>(k, v). is_identifier k \<and> gql_safe v) m"
| "gql_safe (GList xs) = list_all gql_safe xs"
| "gql_safe (GOther t) = False"
| "gql_safe v = True"

lemma sum_map_total: "(\<exists>ys. sum_map f xs = Inr ys) \<longleftrightarrow> (\<forall>x \<in> set xs. \<exists>y. f x = Inr y)"
proof (induction xs)
  case (Cons x xs)
  then show ?case by (cases "f x"; cases "sum_map f xs") auto
qed simp

lemma gql_value_total: "(\<exists>t. gql_value v = Inr t) \<longleftrightarrow> gql_safe v"
proof (induction v)
  case (GMap m)
  have "(\<exists>t. gql_value (GMap m) = Inr t) \<longleftrightarrow> (\<forall>kv \<in> set m. is_identifier (fst kv)) \<and>
     (\<exists>ys. sum_map (\<lambda>(k, v). case gql_value v of Inl e \<Rightarrow> Inl e | Inr s \<Rightarrow> Inr (k @ '':'' @ s)) (sort_key fst m) = Inr ys)"
  proof (cases "find (\<lambda>kv. \<not> is_identifier (fst kv)) (sort_key fst m)")
    case None
    then have "\<forall>kv \<in> set m. is_identifier (fst kv)" unfolding find_None_iff by force
    with None show ?thesis by (auto split: sum.splits)
  next
    case (Some kv)
    then have "kv \<in> set (sort_key fst m) \<and> \<not> is_identifier (fst kv)"
      unfolding find_Some_iff by (metis nth_mem)
    with Some show ?thesis by auto
  qed
  also have "\<dots> \<longleftrightarrow> (\<forall>(k, v) \<in> set m. is_identifier k \<and> (\<exists>t. gql_value v = Inr t))"
    unfolding sum_map_total by (auto split: sum.splits)
  also have "\<dots> \<longleftrightarrow> gql_safe (GMap m)" using GMap.IH by (fastforce simp: list_all_iff)
  finally show ?case .
next
  case (GList xs)
  have "(\<exists>t. gql_value (GList xs) = Inr t) \<longleftrightarrow> (\<exists>ys. sum_map gql_value xs = Inr ys)"
    by (auto split: sum.splits)
  with GList.IH show ?case unfolding sum_map_total by (auto simp: list_all_iff)
qed auto

end
