(* ===== verification/GqlRows.thy ===== *)
theory GqlRows
  imports GqlFilter
begin

text \<open>
  Wide selections, \<open>internal/cfapi/graphql.go\<close>: the fields of a query are split into chunks, each with
  the join fields, and the rows of the chunks are merged by the values of the join fields
  (\<open>fieldChunks\<close>, \<open>joinRows\<close>, \<open>rowKey\<close>, \<open>mergeJSON\<close>).

  A key is the list of the join values. Where Go iterates a map the model goes in key order;
  this only decides which of several errors is reported.
\<close>

subsection \<open>Chunks of fields\<close>

definition lower_mem :: "string \<Rightarrow> string list \<Rightarrow> bool" where
  "lower_mem f fs \<longleftrightarrow> to_lower f \<in> to_lower ` set fs"

function split_rest :: "string list \<Rightarrow> nat \<Rightarrow> string list \<Rightarrow> string list list" where
  "split_rest join n rest =
     (if rest = [] \<or> n = 0 then [] else (join @ take n rest) # split_rest join n (drop n rest))"
  by pat_completeness auto
termination by (relation "measure (\<lambda>(_, _, r). length r)") auto

declare split_rest.simps [simp del]

definition field_chunks :: "string list \<Rightarrow> string list \<Rightarrow> int \<Rightarrow> gerr + string list list" where
  "field_chunks wanted join limit =
     (if limit \<le> 0 \<or> int (length wanted) \<le> limit then Inr [wanted]
      else if join = [] \<or> int (length join) \<ge> limit then Inl (ErrNew ''no join capacity'')
      else if \<not> list_all (\<lambda>f. lower_mem f wanted) join then Inl (ErrNew ''join field unavailable'')
      else Inr (split_rest join (nat limit - length join) (filter (\<lambda>f. \<not> lower_mem f join) wanted)))"

lemma split_rest_empty [simp]: "split_rest join n [] = []" "split_rest join 0 rest = []"
  by (simp_all add: split_rest.simps)

lemma split_rest_step:
  "rest \<noteq> [] \<Longrightarrow> 0 < n \<Longrightarrow> split_rest join n rest = (join @ take n rest) # split_rest join n (drop n rest)"
  by (subst split_rest.simps) simp

lemma split_rest_chunks:
  "c \<in> set (split_rest join n rest) \<Longrightarrow>
   \<exists>part. c = join @ part \<and> part \<noteq> [] \<and> length part \<le> n \<and> set part \<subseteq> set rest"
proof (induction join n rest rule: split_rest.induct)
  case (1 join n rest)
  show ?case
  proof (cases "rest = [] \<or> n = 0")
    case True
    with "1.prems" show ?thesis by auto
  next
    case ne: False
    with "1.prems" consider "c = join @ take n rest" | "c \<in> set (split_rest join n (drop n rest))"
      by (auto simp: split_rest_step)
    then show ?thesis
    proof cases
      case 1
      with ne show ?thesis by (intro exI [of _ "take n rest"]) (auto dest: in_set_takeD)
    next
      case 2
      with "1.IH" [OF ne] show ?thesis by (meson in_set_dropD subset_iff)
    qed
  qed
qed

lemma split_rest_concat: "0 < n \<Longrightarrow> concat (map (drop (length join)) (split_rest join n rest)) = rest"
proof (induction join n rest rule: split_rest.induct)
  case (1 join n rest)
  then show ?case by (cases "rest = []") (simp_all add: split_rest_step)
qed

text \<open>\<open>fieldChunks\<close> splits a selection without loss: no chunk has more fields than the limit, the fields
  besides the join fields appear in order in exactly one chunk, every chunk of several starts with
  all the join fields, and it refuses exactly when no usable join fields are given.\<close>

theorem field_chunks_cover:
  "(\<forall>chunks. field_chunks wanted join limit = Inr chunks \<longrightarrow>
      (\<forall>c \<in> set chunks. limit \<le> 0 \<or> int (length c) \<le> limit) \<and>
      (chunks = [wanted] \<or>
       (\<forall>c \<in> set chunks. take (length join) c = join) \<and>
       concat (map (drop (length join)) chunks) = filter (\<lambda>f. \<not> lower_mem f join) wanted)) \<and>
   ((\<exists>e. field_chunks wanted join limit = Inl e) \<longleftrightarrow>
      0 < limit \<and> limit < int (length wanted) \<and>
      (join = [] \<or> limit \<le> int (length join) \<or> \<not> (\<forall>f \<in> set join. lower_mem f wanted)))"
proof (cases "limit \<le> 0 \<or> int (length wanted) \<le> limit \<or> join = [] \<or> int (length join) \<ge> limit \<or>
    \<not> list_all (\<lambda>f. lower_mem f wanted) join")
  case True
  then show ?thesis by (auto simp: field_chunks_def list_all_iff)
next
  case False
  let ?n = "nat limit - length join" and ?rest = "filter (\<lambda>f. \<not> lower_mem f join) wanted"
  have r: "field_chunks wanted join limit = Inr (split_rest join ?n ?rest)"
    using False by (simp add: field_chunks_def)
  have n: "0 < ?n" "length join \<le> nat limit" using False by auto
  have "int (length c) \<le> limit \<and> take (length join) c = join" if "c \<in> set (split_rest join ?n ?rest)" for c
    using split_rest_chunks [OF that] n by auto
  with False show ?thesis
    unfolding r using split_rest_concat [OF n(1), of join ?rest] by (auto simp: list_all_iff)
qed

theorem field_chunks_cover_witness:
  "concat (map (drop 1) [[''ts'', ''a'', ''b''], [''ts'', ''c'']]) = filter (\<lambda>f. \<not> lower_mem f [''ts'']) [''a'', ''ts'', ''b'', ''c''] \<and>
   (\<forall>c \<in> set [[''ts'', ''a'', ''b''], [''ts'', ''c'']]. (3::int) \<le> 0 \<or> int (length c) \<le> 3)"
proof -
  have run: "field_chunks [''a'', ''ts'', ''b'', ''c''] [''ts''] 3 = Inr [[''ts'', ''a'', ''b''], [''ts'', ''c'']]"
    by code_simp
  show ?thesis
    using field_chunks_cover [of "[''a'', ''ts'', ''b'', ''c'']" "[''ts'']" 3] unfolding run by simp
qed

subsection \<open>Rows\<close>

definition nil_map_panic :: gerr where
  "nil_map_panic = ErrNew ''panic: assignment to entry in nil map''"

text \<open>The walk of \<open>rowKey\<close> along one join field. \<open>part\<close> starts as the row itself and is decoded into in place,
  so the members of a nested object are stored into the row; None stands for the nil map that a
  JSON null leaves.\<close>

definition missing_field :: "string \<Rightarrow> gerr" where
  "missing_field field = ErrNew (''GraphQL join field '' @ field @ '' missing'')"

fun row_path ::
  "string \<Rightarrow> string list \<Rightarrow> bool \<Rightarrow> (string \<times> json) list \<Rightarrow> gerr + json \<times> (string \<times> json) list" where
  "row_path field [] isnil row = Inl (missing_field field)"
| "row_path field [k] isnil row =
     (case (if isnil then None else map_of row k) of
        None \<Rightarrow> Inl (missing_field field)
      | Some v \<Rightarrow> Inr (v, row))"
| "row_path field (k # k2 # ks) isnil row =
     (case (if isnil then None else map_of row k) of
        None \<Rightarrow> Inl (missing_field field)
      | Some v \<Rightarrow>
          (case v of
             JNull \<Rightarrow> row_path field (k2 # ks) True row
           | JObj kvs \<Rightarrow> row_path field (k2 # ks) False (map_override row (json_map kvs))
           | _ \<Rightarrow> Inl json_error))"

fun row_values ::
  "string list \<Rightarrow> bool \<Rightarrow> (string \<times> json) list \<Rightarrow> gerr + json list \<times> (string \<times> json) list" where
  "row_values [] isnil row = Inr ([], row)"
| "row_values (f # fs) isnil row =
     (case row_path f (split_char (CHR ''.'') f) isnil row of
        Inl e \<Rightarrow> Inl e
      | Inr (v, row1) \<Rightarrow>
          (case row_values fs isnil row1 of
             Inl e \<Rightarrow> Inl e
           | Inr (vs, row2) \<Rightarrow> Inr (v # vs, row2)))"

definition row_key :: "string list \<Rightarrow> json \<Rightarrow> gerr + json list \<times> (string \<times> json) list" where
  "row_key join raw =
     (case decode_obj raw of
        None \<Rightarrow> Inl json_error
      | Some row \<Rightarrow> row_values join (raw = JNull) row)"

function merge_json :: "json \<Rightarrow> json \<Rightarrow> gerr + json" where
  "merge_json l r =
     (case (decode_obj l, decode_obj r) of
        (Some a, Some b) \<Rightarrow>
          if l = JNull then (if b = [] then Inr JNull else Inl nil_map_panic)
          else
            (case sum_map (\<lambda>(k, v). case map_of a k of
                 None \<Rightarrow> Inr (k, v)
               | Some prior \<Rightarrow> (case merge_json prior v of Inl e \<Rightarrow> Inl e | Inr m \<Rightarrow> Inr (k, m))) b of
               Inl e \<Rightarrow> Inl e
             | Inr kvs \<Rightarrow> Inr (JObj (map_override a kvs)))
      | _ \<Rightarrow> if l \<noteq> r then Inl (ErrNew ''GraphQL chunks disagree on shared value'') else Inr l)"
  by pat_completeness auto
termination
  by (relation "measure (\<lambda>(_, r). size r)") (auto dest: decode_obj_size [OF sym])

declare merge_json.simps [simp del]

text \<open>The loop of \<open>joinRows\<close> that merges one row into another.\<close>

definition merge_row :: "(string \<times> json) list \<Rightarrow> (string \<times> json) list \<Rightarrow> gerr + (string \<times> json) list" where
  "merge_row row other =
     (case sum_map (\<lambda>(k, v). case map_of row k of
          None \<Rightarrow> Inr (k, v)
        | Some prior \<Rightarrow> (case merge_json prior v of Inl e \<Rightarrow> Inl e | Inr m \<Rightarrow> Inr (k, m))) other of
        Inl e \<Rightarrow> Inl e
      | Inr kvs \<Rightarrow> Inr (map_override row kvs))"

definition joined_row :: "json \<Rightarrow> (string \<times> json) list \<Rightarrow> (string \<times> json) list \<Rightarrow> gerr + json" where
  "joined_row raw row other =
     (if raw = JNull then (if other = [] then Inr JNull else Inl nil_map_panic)
      else (case merge_row row other of Inl e \<Rightarrow> Inl e | Inr m \<Rightarrow> Inr (JObj m)))"

definition duplicate_key :: gerr where
  "duplicate_key = ErrNew ''GraphQL field chunk has duplicate join key''"

fun index_rows ::
  "string list \<Rightarrow> json list \<Rightarrow> (json list \<rightharpoonup> (string \<times> json) list) \<Rightarrow>
   gerr + (json list \<rightharpoonup> (string \<times> json) list)" where
  "index_rows join [] index = Inr index"
| "index_rows join (raw # rows) index =
     (case row_key join raw of
        Inl e \<Rightarrow> Inl e
      | Inr (key, row) \<Rightarrow>
          if index key \<noteq> None then Inl duplicate_key
          else index_rows join rows (index(key \<mapsto> row)))"

fun join_left ::
  "string list \<Rightarrow> (json list \<rightharpoonup> (string \<times> json) list) \<Rightarrow> json list set \<Rightarrow> json list \<Rightarrow> gerr + json list" where
  "join_left join index seen [] = Inr []"
| "join_left join index seen (raw # rows) =
     (case row_key join raw of
        Inl e \<Rightarrow> Inl e
      | Inr (key, row) \<Rightarrow>
          if key \<in> seen then Inl duplicate_key
          else
            (case index key of
               None \<Rightarrow> Inl (ErrNew ''GraphQL field chunks have mismatched join keys'')
             | Some other \<Rightarrow>
                 (case joined_row raw row other of
                    Inl e \<Rightarrow> Inl e
                  | Inr m \<Rightarrow>
                      (case join_left join index (insert key seen) rows of
                         Inl e \<Rightarrow> Inl e
                       | Inr out \<Rightarrow> Inr (m # out)))))"

definition join_rows :: "json list \<Rightarrow> json list \<Rightarrow> string list \<Rightarrow> gerr + json list" where
  "join_rows left right join =
     (if length left \<noteq> length right then
        Inl (ErrNew ''GraphQL field chunks have different row counts'')
      else
        (case index_rows join right Map.empty of
           Inl e \<Rightarrow> Inl e
         | Inr index \<Rightarrow> join_left join index {} left))"

subsection \<open>What merging means\<close>

text \<open>\<open>m\<close> holds all that \<open>l\<close> holds: objects member by member, everything else unchanged.\<close>

function extends :: "json \<Rightarrow> json \<Rightarrow> bool" where
  "extends m l =
     (case (decode_obj m, decode_obj l) of
        (Some a, Some b) \<Rightarrow> list_all (\<lambda>(k, v). case map_of a k of None \<Rightarrow> False | Some w \<Rightarrow> extends w v) b
      | _ \<Rightarrow> m = l)"
  by pat_completeness auto
termination
  by (relation "measure (\<lambda>(_, l). size l)") (auto dest: decode_obj_size [OF sym])

declare extends.simps [simp del]

lemma extends_obj:
  "decode_obj m = Some a \<Longrightarrow> decode_obj l = Some b \<Longrightarrow>
   extends m l \<longleftrightarrow> (\<forall>k v. map_of b k = Some v \<longrightarrow> (\<exists>w. map_of a k = Some w \<and> extends w v))"
proof -
  assume d: "decode_obj m = Some a" "decode_obj l = Some b"
  then have "distinct (map fst b)" by (simp add: decode_obj_distinct)
  then have "(k, v) \<in> set b \<longleftrightarrow> map_of b k = Some v" for k v by (metis map_of_is_SomeI map_of_SomeD)
  then have "list_all P b \<longleftrightarrow> (\<forall>k v. map_of b k = Some v \<longrightarrow> P (k, v))" for P
    by (auto simp: list_all_iff)
  note all = this
  have ex: "(case z of None \<Rightarrow> False | Some w \<Rightarrow> P w) \<longleftrightarrow> (\<exists>w. z = Some w \<and> P w)" for z and P :: "json \<Rightarrow> bool"
    by (cases z) auto
  have "extends m l \<longleftrightarrow> list_all (\<lambda>(k, v). case map_of a k of None \<Rightarrow> False | Some w \<Rightarrow> extends w v) b"
    using d by (subst extends.simps) simp
  then show ?thesis unfolding all by (simp add: ex)
qed

lemma extends_leaf: "decode_obj m = None \<or> decode_obj l = None \<Longrightarrow> extends m l \<longleftrightarrow> m = l"
  by (subst extends.simps) (auto split: option.splits)

lemma extends_refl: "extends j j"
proof (induction "size j" arbitrary: j rule: less_induct)
  case less
  show ?case
  proof (cases "decode_obj j")
    case None
    then show ?thesis by (simp add: extends_leaf)
  next
    case (Some a)
    show ?thesis unfolding extends_obj [OF Some Some]
      using less decode_obj_size [OF Some] by (metis map_of_SomeD)
  qed
qed

lemma map_of_override:
  "distinct (map fst new) \<Longrightarrow> map_of (map_override m new) k = (case map_of new k of Some v \<Rightarrow> Some v | None \<Rightarrow> map_of m k)"
  unfolding map_override_def
proof (induction new arbitrary: m)
  case (Cons kv new)
  obtain k' v where kv: "kv = (k', v)" by (cases kv)
  with Cons.prems have "map_of new k' = None" "distinct (map fst new)" by (simp_all add: map_of_eq_None_iff)
  with Cons.IH kv show ?case by (simp add: map_of_map_set split: option.split)
qed simp

definition canonical :: "(string \<times> json) list \<Rightarrow> bool" where
  "canonical m \<longleftrightarrow> sorted (map fst m) \<and> distinct (map fst m)"

lemma canonical_decode: "decode_obj j = Some m \<Longrightarrow> canonical m"
  using decode_obj_distinct by (simp add: canonical_def)

lemma canonical_override: "canonical m \<Longrightarrow> canonical (map_override m new)"
  unfolding map_override_def
proof (induction new arbitrary: m)
  case (Cons kv new)
  then have "canonical (map_set (fst kv) (snd kv) m)" by (simp add: canonical_def map_set_keys)
  with Cons.IH show ?case by (simp add: case_prod_beta)
qed simp

lemma map_of_rev: "distinct (map fst m) \<Longrightarrow> map_of (rev m) = map_of m"
  by (metis distinct_rev map_of_inject_set rev_map set_rev)

lemma json_map_canonical: "canonical m \<Longrightarrow> json_map m = m"
proof -
  assume c: "canonical m"
  then have "json_map m = map (\<lambda>k. (k, case map_of m k of Some v \<Rightarrow> v | None \<Rightarrow> JNull)) (map fst m)"
    unfolding json_map_def canonical_def by (simp add: map_of_rev distinct_remdups_id sorted_sort_id)
  also have "\<dots> = m"
    using c unfolding canonical_def by (auto intro!: map_idI)
  finally show ?thesis .
qed

lemma decode_override:
  assumes "canonical a" "distinct (map fst new)"
  shows "\<exists>m. decode_obj (JObj (map_override a new)) = Some m \<and>
    (\<forall>k. map_of m k = (case map_of new k of Some v \<Rightarrow> Some v | None \<Rightarrow> map_of a k))"
  using json_map_canonical [OF canonical_override [OF assms(1)]] map_of_override [OF assms(2)] by simp

text \<open>The members of a merged object.\<close>

lemma merge_members:
  "sum_map (\<lambda>(k, v). case map_of a k of
       None \<Rightarrow> Inr (k, v)
     | Some prior \<Rightarrow> (case merge_json prior v of Inl e \<Rightarrow> Inl e | Inr m \<Rightarrow> Inr (k, m))) b = Inr kvs \<Longrightarrow>
   distinct (map fst b) \<Longrightarrow>
   map fst kvs = map fst b \<and>
   (\<forall>k v. map_of b k = Some v \<longrightarrow> (\<exists>w. map_of kvs k = Some w \<and>
      (case map_of a k of None \<Rightarrow> w = v | Some p \<Rightarrow> merge_json p v = Inr w)))"
proof (induction b arbitrary: kvs)
  case (Cons kv b)
  obtain k v where kv: "kv = (k, v)" by (cases kv)
  from Cons.prems(1) obtain w kvs' where w: "kvs = (k, w) # kvs'"
    "case map_of a k of None \<Rightarrow> w = v | Some p \<Rightarrow> merge_json p v = Inr w"
    and r: "sum_map (\<lambda>(k, v). case map_of a k of
       None \<Rightarrow> Inr (k, v)
     | Some prior \<Rightarrow> (case merge_json prior v of Inl e \<Rightarrow> Inl e | Inr m \<Rightarrow> Inr (k, m))) b = Inr kvs'"
    unfolding sum_map_Cons_Inr kv by (auto split: option.splits sum.splits)
  from Cons.IH [OF r] Cons.prems(2) w show ?case by (simp add: kv del: map_of_eq_Some_iff)
qed simp

lemma merge_obj_Inr:
  assumes "decode_obj l = Some a" "decode_obj r = Some b" "l \<noteq> JNull" "merge_json l r = Inr m"
  obtains c where "decode_obj m = Some c" and
    "\<And>k. map_of b k = None \<Longrightarrow> map_of c k = map_of a k" and
    "\<And>k v. map_of b k = Some v \<Longrightarrow> \<exists>w. map_of c k = Some w \<and>
      (case map_of a k of None \<Rightarrow> w = v | Some p \<Rightarrow> merge_json p v = Inr w)"
proof -
  from assms obtain kvs where kvs: "sum_map (\<lambda>(k, v). case map_of a k of
       None \<Rightarrow> Inr (k, v)
     | Some prior \<Rightarrow> (case merge_json prior v of Inl e \<Rightarrow> Inl e | Inr m \<Rightarrow> Inr (k, m))) b = Inr kvs"
    and m: "m = JObj (map_override a kvs)"
    by (subst (asm) merge_json.simps) (auto split: sum.splits)
  note d = decode_obj_distinct [OF assms(2)]
  from merge_members [OF kvs] d have keys: "map fst kvs = map fst b" and
    mem: "\<And>k v. map_of b k = Some v \<Longrightarrow> \<exists>w. map_of kvs k = Some w \<and>
      (case map_of a k of None \<Rightarrow> w = v | Some p \<Rightarrow> merge_json p v = Inr w)" by auto
  from keys d obtain c where c: "decode_obj m = Some c"
    "\<And>k. map_of c k = (case map_of kvs k of Some v \<Rightarrow> Some v | None \<Rightarrow> map_of a k)"
    unfolding m using decode_override [OF canonical_decode [OF assms(1)]] by metis
  have "map_of kvs k = None" if "map_of b k = None" for k
    using that keys by (metis map_of_eq_None_iff list.set_map)
  with c mem show thesis by (intro that [of c]) (simp, force, force)
qed

lemma merge_leaf: "decode_obj l = None \<or> decode_obj r = None \<Longrightarrow>
   merge_json l r = (if l \<noteq> r then Inl (ErrNew ''GraphQL chunks disagree on shared value'') else Inr l)"
  by (subst merge_json.simps) (auto split: option.splits)

lemma merge_null: "decode_obj r = Some b \<Longrightarrow> merge_json JNull r = (if b = [] then Inr JNull else Inl nil_map_panic)"
  by (subst merge_json.simps) simp

lemma merge_cases [case_names 1 2 3]:
  obtains "decode_obj l = None \<or> decode_obj r = None" | b where "l = JNull" "decode_obj r = Some b"
    | a b where "decode_obj l = Some a" "decode_obj r = Some b" "l \<noteq> JNull"
  by (cases "decode_obj l"; cases "decode_obj r"; cases "l = JNull") auto

lemma merge_upper:
  "merge_json l r = Inr m \<Longrightarrow> extends m l \<and> extends m r \<and> (\<forall>x. extends x l \<longrightarrow> extends x r \<longrightarrow> extends x m)"
proof (induction "size r" arbitrary: l r m rule: less_induct)
  case less
  show ?case
  proof (cases l r rule: merge_cases)
    case 1
    with less.prems have "l = r" "m = l" by (auto simp: merge_leaf split: if_splits)
    then show ?thesis by (simp add: extends_refl)
  next
    case (2 b)
    with less.prems have "b = []" "m = JNull" by (auto simp: merge_null split: if_splits)
    with 2 show ?thesis by (simp add: extends_refl extends_obj [where a = "[]"])
  next
    case (3 a b)
    from merge_obj_Inr [OF 3 less.prems] obtain c where c: "decode_obj m = Some c"
      and only: "\<And>k. map_of b k = None \<Longrightarrow> map_of c k = map_of a k"
      and both: "\<And>k v. map_of b k = Some v \<Longrightarrow> \<exists>w. map_of c k = Some w \<and>
        (case map_of a k of None \<Rightarrow> w = v | Some p \<Rightarrow> merge_json p v = Inr w)" by blast
    have IH: "extends w p \<and> extends w v \<and> (\<forall>x. extends x p \<longrightarrow> extends x v \<longrightarrow> extends x w)"
      if "map_of b k = Some v" "merge_json p v = Inr w" for k v p w
      using less.hyps [OF _ that(2)] decode_obj_size [OF 3(2) map_of_SomeD [OF that(1)]] by blast
    have l: "extends m l" unfolding extends_obj [OF c 3(1)]
    proof (intro allI impI)
      fix k p assume p: "map_of a k = Some p"
      show "\<exists>w. map_of c k = Some w \<and> extends w p"
      proof (cases "map_of b k")
        case None
        with only p extends_refl show ?thesis by simp
      next
        case (Some v)
        with both [OF Some] p IH [OF Some] show ?thesis by auto
      qed
    qed
    have r: "extends m r" unfolding extends_obj [OF c 3(2)]
    proof (intro allI impI)
      fix k v assume v: "map_of b k = Some v"
      with both [OF v] IH [OF v] extends_refl show "\<exists>w. map_of c k = Some w \<and> extends w v"
        by (cases "map_of a k") auto
    qed
    have "extends x m" if x: "extends x l" "extends x r" for x
    proof (cases "decode_obj x")
      case None
      with x 3 show ?thesis by (auto simp: extends_leaf)
    next
      case (Some d)
      note xl = x(1) [unfolded extends_obj [OF Some 3(1)]] and xr = x(2) [unfolded extends_obj [OF Some 3(2)]]
      show ?thesis unfolding extends_obj [OF Some c]
      proof (intro allI impI)
        fix k u assume u: "map_of c k = Some u"
        show "\<exists>w. map_of d k = Some w \<and> extends w u"
        proof (cases "map_of b k")
          case None
          with only u xl show ?thesis by simp
        next
          case (Some v)
          then obtain w where w: "map_of d k = Some w" "extends w v" using xr by blast
          with both [OF Some] u IH [OF Some] xl show ?thesis by (cases "map_of a k") force+
        qed
      qed
    qed
    with l r show ?thesis by blast
  qed
qed

lemma merge_conflict:
  "merge_json l r = Inl e \<Longrightarrow> e = nil_map_panic \<or> (\<nexists>x. extends x l \<and> extends x r)"
proof (induction "size r" arbitrary: l r e rule: less_induct)
  case less
  show ?case
  proof (cases l r rule: merge_cases)
    case 1
    with less.prems have ne: "l \<noteq> r" by (auto simp: merge_leaf split: if_splits)
    have "\<not> (extends x l \<and> extends x r)" for x
      using 1 ne extends_leaf by metis
    then show ?thesis by blast
  next
    case 2
    with less.prems show ?thesis by (auto simp: merge_null split: if_splits)
  next
    case (3 a b)
    from 3 less.prems have "sum_map (\<lambda>(k, v). case map_of a k of
        None \<Rightarrow> Inr (k, v)
      | Some prior \<Rightarrow> (case merge_json prior v of Inl e \<Rightarrow> Inl e | Inr m \<Rightarrow> Inr (k, m))) b = Inl e"
      by (subst (asm) merge_json.simps) (auto split: sum.splits)
    then have "\<exists>(k, v) \<in> set b. \<exists>p. map_of a k = Some p \<and> merge_json p v = Inl e"
      by (induction b) (auto split: sum.splits option.splits)
    then obtain k v p where kv: "(k, v) \<in> set b" "map_of a k = Some p" "merge_json p v = Inl e" by blast
    have v: "map_of b k = Some v" using decode_obj_distinct [OF 3(2)] kv(1) by simp
    from less.hyps [OF decode_obj_size [OF 3(2) kv(1)] kv(3)]
    consider "e = nil_map_panic" | "\<nexists>x. extends x p \<and> extends x v" by blast
    then show ?thesis
    proof cases
      case 2
      have "\<not> (extends x l \<and> extends x r)" for x
      proof (cases "decode_obj x")
        case None
        with 3 show ?thesis by (auto simp: extends_leaf)
      next
        case (Some d)
        with kv(2) v 2 show ?thesis unfolding extends_obj [OF Some 3(1)] extends_obj [OF Some 3(2)]
          by (metis option.inject)
      qed
      then show ?thesis by blast
    qed simp
  qed
qed

subsection \<open>What joining means\<close>

lemma row_path_canonical: "row_path f ks isnil row = Inr (v, row') \<Longrightarrow> canonical row \<Longrightarrow> canonical row'"
  by (induction f ks isnil row rule: row_path.induct)
    (auto split: option.splits json.splits if_splits dest: canonical_override)

lemma row_values_canonical: "row_values fs isnil row = Inr (vs, row') \<Longrightarrow> canonical row \<Longrightarrow> canonical row'"
proof (induction fs arbitrary: row vs)
  case (Cons f fs)
  from Cons.prems(1) obtain v row1 vs' where
    "row_path f (split_char (CHR ''.'') f) isnil row = Inr (v, row1)" "row_values fs isnil row1 = Inr (vs', row')"
    by (auto split: sum.splits)
  with Cons.IH Cons.prems(2) row_path_canonical show ?case by blast
qed simp

lemma row_key_canonical: "row_key join raw = Inr (key, row) \<Longrightarrow> canonical row"
  by (auto simp: row_key_def split: option.splits dest: canonical_decode row_values_canonical)

lemma merge_row_json:
  assumes "canonical row" "canonical other"
  shows "merge_json (JObj row) (JObj other) =
    (case merge_row row other of Inl e \<Rightarrow> Inl e | Inr m \<Rightarrow> Inr (JObj m))"
  unfolding merge_row_def
  by (subst merge_json.simps) (simp add: json_map_canonical assms split: sum.split)

lemma index_rows_Inr:
  "index_rows join rows index = Inr index' \<Longrightarrow>
   \<exists>krs. sum_map (row_key join) rows = Inr krs \<and> distinct (map fst krs) \<and>
     (\<forall>kr \<in> set krs. index (fst kr) = None) \<and>
     (\<forall>k. index' k = (case map_of krs k of Some row \<Rightarrow> Some row | None \<Rightarrow> index k))"
proof (induction join rows index rule: index_rows.induct)
  case (2 join raw rows index)
  from "2.prems" obtain key row where k: "row_key join raw = Inr (key, row)" "index key = None"
    and r: "index_rows join rows (index(key \<mapsto> row)) = Inr index'"
    by (auto split: sum.splits if_splits)
  have "\<exists>krs. sum_map (row_key join) rows = Inr krs \<and> distinct (map fst krs) \<and>
     (\<forall>kr \<in> set krs. (index(key \<mapsto> row)) (fst kr) = None) \<and>
     (\<forall>k. index' k = (case map_of krs k of Some row \<Rightarrow> Some row | None \<Rightarrow> (index(key \<mapsto> row)) k))"
    by (rule "2.IH" [OF k(1) refl _ r]) (simp add: k(2))
  then obtain krs where krs: "sum_map (row_key join) rows = Inr krs" "distinct (map fst krs)"
    "\<forall>kr \<in> set krs. (index(key \<mapsto> row)) (fst kr) = None"
    "\<forall>k. index' k = (case map_of krs k of Some row \<Rightarrow> Some row | None \<Rightarrow> (index(key \<mapsto> row)) k)" by blast
  have new: "key \<notin> set (map fst krs)" using krs(3) by auto
  then have none: "map_of krs key = None" by (simp add: map_of_eq_None_iff)
  show ?case
  proof (intro exI [of _ "(key, row) # krs"] conjI)
    show "sum_map (row_key join) (raw # rows) = Inr ((key, row) # krs)" using k krs(1) by simp
    show "distinct (map fst ((key, row) # krs))" using new krs(2) by simp
    show "\<forall>kr \<in> set ((key, row) # krs). index (fst kr) = None"
      using k(2) krs(3) by (auto split: if_splits)
    show "\<forall>k. index' k = (case map_of ((key, row) # krs) k of Some row \<Rightarrow> Some row | None \<Rightarrow> index k)"
      using krs(4) none by (auto split: option.splits)
  qed
qed simp

lemma join_left_Inr:
  "join_left join index seen rows = Inr out \<Longrightarrow>
   \<exists>krs. sum_map (row_key join) rows = Inr krs \<and> distinct (map fst krs) \<and>
     fst ` set krs \<inter> seen = {} \<and> length out = length rows \<and>
     (\<forall>i < length rows. \<exists>other. index (fst (krs ! i)) = Some other \<and>
        joined_row (rows ! i) (snd (krs ! i)) other = Inr (out ! i))"
proof (induction join index seen rows arbitrary: out rule: join_left.induct)
  case (2 join index seen raw rows)
  from "2.prems" obtain key row other m out' where k: "row_key join raw = Inr (key, row)" "key \<notin> seen"
    and o: "index key = Some other" "joined_row raw row other = Inr m"
    and r: "join_left join index (insert key seen) rows = Inr out'" "out = m # out'"
    by (auto split: sum.splits option.splits if_splits)
  from "2.IH" [OF k(1) refl k(2) o r(1)] obtain krs where krs: "sum_map (row_key join) rows = Inr krs"
    "distinct (map fst krs)" "fst ` set krs \<inter> insert key seen = {}" "length out' = length rows"
    "\<forall>i < length rows. \<exists>other. index (fst (krs ! i)) = Some other \<and>
        joined_row (rows ! i) (snd (krs ! i)) other = Inr (out' ! i)" by blast
  then show ?case using k o r
    by (intro exI [of _ "(key, row) # krs"]) (auto simp: nth_Cons split: nat.split)
qed simp

lemma row_path_nil: "row_path f ks True row = Inl (missing_field f)"
  by (cases "(f, ks, True, row)" rule: row_path.cases) simp_all

lemma row_key_null: "row_key join JNull = Inr (key, row) \<Longrightarrow> row = []"
  by (cases join) (simp_all add: row_key_def row_path_nil)

text \<open>\<open>m\<close> holds exactly what \<open>l\<close> and \<open>r\<close> hold.\<close>

definition merged :: "json \<Rightarrow> json \<Rightarrow> json \<Rightarrow> bool" where
  "merged l r m \<longleftrightarrow> extends m l \<and> extends m r \<and> (\<forall>x. extends x l \<longrightarrow> extends x r \<longrightarrow> extends x m)"

lemma joined_row_merged:
  assumes "row_key join raw = Inr (key, row)" "canonical other" "joined_row raw row other = Inr m"
  shows "merged (JObj row) (JObj other) m"
proof (cases "raw = JNull")
  case True
  with assms have "row = []" "other = []" "m = JNull"
    by (auto simp: joined_row_def row_key_null split: if_splits)
  moreover have "extends x JNull" if "extends x (JObj [])" for x
    using that by (cases "decode_obj x") (auto simp: extends_leaf extends_obj json_map_def)
  ultimately show ?thesis by (simp add: merged_def extends_obj [where a = "[]"] json_map_def)
next
  case False
  with assms(3) have "merge_json (JObj row) (JObj other) = Inr m"
    unfolding merge_row_json [OF row_key_canonical [OF assms(1)] assms(2)]
    by (simp add: joined_row_def split: sum.splits)
  from merge_upper [OF this] show ?thesis by (simp add: merged_def)
qed





subsection \<open>Two defects\<close>

text \<open>A nested join field is decoded into the map of the row itself, so its members leak into the
  row: here the row's own \<open>c\<close> is overwritten and \<open>b\<close> is new.\<close>

lemma row_key_leak:
  "row_key [''a.b''] (JObj [(''a'', JObj [(''b'', JNum ''1''), (''c'', JNum ''2'')]), (''c'', JNum ''9'')]) =
     Inr ([JNum ''1''], [(''a'', JObj [(''b'', JNum ''1''), (''c'', JNum ''2'')]), (''b'', JNum ''1''),
       (''c'', JNum ''2'')])"
  by code_simp

text \<open>\<open>null\<close> against an object with members is an assignment to a nil map.\<close>

lemma merge_json_null_panics: "merge_json JNull (JObj [(''a'', JNull)]) = Inl nil_map_panic"
  by code_simp

end
