(* ===== verification/Graphql.thy ===== *)
theory Graphql
  imports ClientProps GqlRows
begin

text \<open>
  GraphQL requests, \<open>internal/cfapi/graphql.go\<close> and \<open>entitlement_backoff.go\<close>: responses and their errors,
  the budget handling of \<open>graph\<close>, dataset settings, and \<open>Query\<close> with its windows and field chunks.
  The settings of one caller are read sequentially here; the coalescing of concurrent callers is
  the theory \<open>SettingsFlight\<close>. The rows of a query are JSON trees: decoding them into the types of a
  collector is the collector's.
\<close>

subsection \<open>Responses\<close>

record gq_response =
  rs_accounts :: "(string \<times> json) list list"
  rs_zones :: "(string \<times> json) list list"
  rs_errors :: "string list"

definition member_or_null :: "string \<Rightarrow> (string \<times> json) list \<Rightarrow> json" where
  "member_or_null k m = (case map_of m k of Some v \<Rightarrow> v | None \<Rightarrow> JNull)"

definition decode_maps :: "json \<Rightarrow> (string \<times> json) list list option" where
  "decode_maps j = Option.bind (decode_list j) (\<lambda>xs. those (map decode_obj xs))"

definition decode_messages :: "json \<Rightarrow> string list option" where
  "decode_messages j =
     Option.bind (decode_maps j) (\<lambda>es. those (map (\<lambda>e. decode_str (member_or_null ''message'' e)) es))"

definition decode_response :: "json \<Rightarrow> gq_response option" where
  "decode_response j =
     (case decode_obj j of
        None \<Rightarrow> None
      | Some env \<Rightarrow>
          (case Option.bind (decode_obj (member_or_null ''data'' env)) (\<lambda>d. decode_obj (member_or_null ''viewer'' d)) of
             None \<Rightarrow> None
           | Some viewer \<Rightarrow>
               (case (decode_maps (member_or_null ''accounts'' viewer), decode_maps (member_or_null ''zones'' viewer),
                      decode_messages (member_or_null ''errors'' env)) of
                  (Some acc, Some zs, Some es) \<Rightarrow> Some \<lparr>rs_accounts = acc, rs_zones = zs, rs_errors = es\<rparr>
                | _ \<Rightarrow> None)))"

definition first_node :: "gq_response \<Rightarrow> string \<Rightarrow> gerr + (string \<times> json) list" where
  "first_node r scope =
     (case (if scope = zone_scope then rs_zones r else rs_accounts r) of
        [] \<Rightarrow> Inl (ErrNew ''GraphQL scope not found'')
      | node # _ \<Rightarrow> Inr node)"

subsection \<open>Errors in responses\<close>

definition resource_budget_message :: "string \<Rightarrow> bool" where
  "resource_budget_message m \<longleftrightarrow>
     (has_prefix ''Zone '' m \<or> has_prefix ''Account '' m) \<and> str_contains '' has exceeded its rate limit'' m"

text \<open>One entry of \<open>errors\<close>: None if it carries no budget code, else whether it names a resource.\<close>

definition budget_entry :: "json \<Rightarrow> bool option" where
  "budget_entry raw =
     (case decode_obj raw of
        None \<Rightarrow> None
      | Some failure \<Rightarrow>
          (case Option.bind (decode_obj (member_or_null ''extensions'' failure)) (\<lambda>x. map_of x ''code'') of
             None \<Rightarrow> None
           | Some code \<Rightarrow>
               if decode_str code = Some ''budget'' then
                 Some (resource_budget_message
                   (case decode_str (member_or_null ''message'' failure) of Some s \<Rightarrow> s | None \<Rightarrow> []))
               else None))"

definition budget_errors :: "json option \<Rightarrow> bool \<times> bool" where
  "budget_errors raw =
     (case Option.bind raw (\<lambda>j. Option.bind (decode_obj j) (\<lambda>m. decode_list (member_or_null ''errors'' m))) of
        None \<Rightarrow> (False, False)
      | Some es \<Rightarrow>
          (let found = List.map_filter budget_entry es in (found \<noteq> [], found \<noteq> [] \<and> list_all id found)))"

text \<open>\<open>graphQLErrField\<close>: the two phrases, white space, and a quoted name.\<close>

definition re_space :: "char \<Rightarrow> bool" where
  "re_space c \<longleftrightarrow> (let n = (of_char c :: nat) in n = 9 \<or> n = 10 \<or> n = 12 \<or> n = 13 \<or> n = 32)"

definition re_quote :: "char \<Rightarrow> bool" where
  "re_quote c \<longleftrightarrow> c = CHR 0x27 \<or> c = CHR 0x22"

definition quoted_name :: "string \<Rightarrow> string option" where
  "quoted_name s =
     (case dropWhile re_space s of
        [] \<Rightarrow> None
      | q # t \<Rightarrow>
          (let w = takeWhile (\<lambda>c. \<not> re_quote c) t in
           if re_quote q \<and> w \<noteq> [] \<and> length w < length t then Some w else None))"

definition err_field_here :: "string \<Rightarrow> string option" where
  "err_field_here s =
     (if has_prefix ''access to the field'' (to_lower s) then quoted_name (drop 19 s)
      else if has_prefix ''not entitled to field'' (to_lower s) then quoted_name (drop 21 s)
      else None)"

fun err_field :: "string \<Rightarrow> string option" where
  "err_field [] = None"
| "err_field (c # cs) = (case err_field_here (c # cs) of Some w \<Rightarrow> Some w | None \<Rightarrow> err_field cs)"

definition gql_errors :: "gq_response \<Rightarrow> gerr option" where
  "gql_errors r =
     (case rs_errors r of
        [] \<Rightarrow> None
      | m # _ \<Rightarrow>
          (case err_field m of
             Some f \<Rightarrow> Some (if is_identifier f then UnentitledError f [] False else ErrNew ''graphql query failed'')
           | None \<Rightarrow> Some (ErrNew ''graphql query failed'')))"

subsection \<open>\<open>graph\<close>\<close>

definition graph_body :: "string \<Rightarrow> string" where
  "graph_body q = ''{'' @ json_quote ''query'' @ '':'' @ json_quote q @ ''}''"

definition budget_pause :: duration where "budget_pause = 300 * second"

text \<open>The reaction to a budget error: pause the resource, or all of GraphQL and lower its rate.\<close>

definition throttle :: "string \<Rightarrow> bool \<Rightarrow> time \<Rightarrow> budgets \<Rightarrow> budgets" where
  "throttle qk resource now p0 =
     (case scope_bucket qk p0 of
        (p, q) \<Rightarrow>
          (case (if resource then q else None) of
             Some ref \<Rightarrow> map_bucket (pause_bucket now budget_pause) ref p
           | None \<Rightarrow>
               (let p1 = map_bucket (pause_bucket now budget_pause) GraphqlB p in
                if scope_account_based p1 then map_bucket (\<lambda>b. fst (clamp_rate per_token_safe_rate b)) GraphqlB p1
                else p1)))"

definition throttle_conn :: "'w api \<Rightarrow> string \<Rightarrow> bool \<Rightarrow> 'w conn \<Rightarrow> 'w conn" where
  "throttle_conn api qk resource c =
     (case net_now (api_net api) (cn_world c) of
        (w, now) \<Rightarrow> c\<lparr>cn_world := w, cn_budgets := throttle qk resource now (cn_budgets c)\<rparr>)"

text \<open>\<open>n\<close> attempts are left; \<open>failed\<close> says that an earlier one met a budget error.\<close>

fun graph_loop ::
  "'w api \<Rightarrow> string \<Rightarrow> string \<Rightarrow> bool \<Rightarrow> nat \<Rightarrow> 'w conn \<Rightarrow> ('w, gq_response) outcome" where
  "graph_loop api qk body failed 0 c = Some (c, Inl GraphQLBudgetError)"
| "graph_loop api qk body failed (Suc n) c =
     (case do_request api qk ''POST'' ''/graphql'' None (Some body) c of
        None \<Rightarrow> None
      | Some (c1, Inl e) \<Rightarrow> Some (c1, Inl (if failed then ErrJoin [GraphQLBudgetError, e] else e))
      | Some (c1, Inr raw) \<Rightarrow>
          (case budget_errors raw of
             (False, _) \<Rightarrow>
               Some (c1, case Option.bind raw decode_response of None \<Rightarrow> Inl json_error | Some r \<Rightarrow> Inr r)
           | (True, resource) \<Rightarrow>
               (let c2 = throttle_conn api qk resource c1 in
                if n = 0 then Some (c2, Inl GraphQLBudgetError)
                else graph_loop api qk body True n c2)))"

definition graph :: "'w api \<Rightarrow> string \<Rightarrow> string \<Rightarrow> string \<Rightarrow> 'w conn \<Rightarrow> ('w, gq_response) outcome" where
  "graph api scope ident q c = graph_loop api (quota_scope scope ident) (graph_body q) False 2 c"

definition scope_name :: "string \<Rightarrow> string" where
  "scope_name s = (if s = zone_scope then ''zones'' else ''accounts'')"

definition scope_filter :: "string \<Rightarrow> string \<Rightarrow> string" where
  "scope_filter s ident =
     ''filter:{'' @ (if s = zone_scope then ''zoneTag'' else ''accountTag'') @ '':'' @ json_quote ident @ ''}''"

subsection \<open>Settings\<close>

definition settings_key :: "graphql_request \<Rightarrow> string" where
  "settings_key r = gr_scope r @ ''/'' @ gr_scope_id r @ ''/'' @ gr_dataset r"

definition settings_query :: "graphql_request \<Rightarrow> string" where
  "settings_query r =
     ''{viewer{'' @ scope_name (gr_scope r) @ ''('' @ scope_filter (gr_scope r) (gr_scope_id r) @ ''){settings{''
     @ gr_dataset r @ ''{enabled availableFields maxNumberOfFields maxDuration notOlderThan maxPageSize}}}}}''"

fun decode_bool :: "json \<Rightarrow> bool option" where
  "decode_bool (JBool b) = Some b"
| "decode_bool JNull = Some False"
| "decode_bool _ = None"

fun decode_strings :: "json \<Rightarrow> string list option option" where
  "decode_strings JNull = Some None"
| "decode_strings (JArr xs) = map_option Some (those (map decode_str xs))"
| "decode_strings _ = None"

definition zero_settings :: dataset_settings where
  "zero_settings = \<lparr>ds_enabled = False, ds_fields = None, ds_max_fields = 0, ds_max_duration = 0,
     ds_not_older = 0, ds_page_size = 0\<rparr>"

definition decode_settings :: "json \<Rightarrow> dataset_settings option" where
  "decode_settings j =
     (case decode_obj j of
        None \<Rightarrow> None
      | Some m \<Rightarrow>
          (case (decode_bool (member_or_null ''enabled'' m), decode_strings (member_or_null ''availableFields'' m),
                 decode_int (member_or_null ''maxNumberOfFields'' m), decode_int (member_or_null ''maxDuration'' m),
                 decode_int (member_or_null ''notOlderThan'' m), decode_int (member_or_null ''maxPageSize'' m)) of
             (Some e, Some fs, Some n, Some d, Some o', Some p) \<Rightarrow>
               Some \<lparr>ds_enabled = e, ds_fields = fs, ds_max_fields = n, ds_max_duration = d,
                 ds_not_older = o', ds_page_size = p\<rparr>
           | _ \<Rightarrow> None))"

text \<open>The settings of a dataset in the node of its scope.\<close>

definition node_settings :: "graphql_request \<Rightarrow> (string \<times> json) list \<Rightarrow> gerr + dataset_settings" where
  "node_settings r node =
     (case map_of node ''settings'' of
        None \<Rightarrow> Inl json_error
      | Some v \<Rightarrow>
          (case decode_obj v of
             None \<Rightarrow> Inl json_error
           | Some settings \<Rightarrow>
               if v = JNull then Inl (ErrNew ''GraphQL settings missing object'')
               else
                 (case map_of settings (gr_dataset r) of
                    None \<Rightarrow>
                      if gr_scope r \<noteq> zone_scope then Inl (ErrNew ''GraphQL account dataset settings missing'')
                      else Inr zero_settings
                  | Some raw \<Rightarrow>
                      (case Option.bind (decode_obj raw) (\<lambda>f. map_of f ''enabled'') of
                         None \<Rightarrow> Inl json_error
                       | Some JNull \<Rightarrow> Inl (ErrNew ''GraphQL dataset settings missing enabled'')
                       | Some (JBool _) \<Rightarrow>
                           (case decode_settings raw of
                              None \<Rightarrow> Inl json_error
                            | Some s \<Rightarrow>
                                if ds_enabled s \<and> ds_fields s = None then
                                  Inl (ErrNew ''GraphQL enabled dataset settings missing availableFields'')
                                else Inr s)
                       | Some _ \<Rightarrow> Inl json_error))))"

definition discover_settings :: "'w api \<Rightarrow> graphql_request \<Rightarrow> 'w conn \<Rightarrow> ('w, dataset_settings) outcome" where
  "discover_settings api r c =
     obind (graph api (gr_scope r) (gr_scope_id r) (settings_query r) c) (\<lambda>response c1.
       Some (c1,
         case gql_errors response of
           Some e \<Rightarrow> Inl e
         | None \<Rightarrow>
             (case first_node response (gr_scope r) of
                Inl e \<Rightarrow> Inl e
              | Inr node \<Rightarrow> node_settings r node)))"

definition settings_ttl :: "'w api \<Rightarrow> string \<Rightarrow> dataset_settings \<Rightarrow> duration \<Rightarrow> duration" where
  "settings_ttl api scope s jitter =
     (if scope = zone_scope \<and> \<not> ds_enabled s then (if api_backoff api \<le> 0 then hour else api_backoff api)
      else 45 * minute + jitter)"

definition store_settings ::
  "'w api \<Rightarrow> graphql_request \<Rightarrow> dataset_settings \<Rightarrow> 'w conn \<Rightarrow> 'w conn" where
  "store_settings api r s c =
     (case api_jitter api (cn_world c) of
        (w1, jitter) \<Rightarrow>
          (case net_now (api_net api) w1 of
             (w2, now) \<Rightarrow>
               c\<lparr>cn_world := w2, cn_settings := (cn_settings c)(settings_key r \<mapsto>
                 \<lparr>cs_value = s, cs_expires = now + settings_ttl api (gr_scope r) s jitter\<rparr>)\<rparr>))"

text \<open>A cached entry is used unless a refresh is asked for; the denial of a zone is used even then.\<close>

definition cache_usable :: "string \<Rightarrow> bool \<Rightarrow> cached_settings option \<Rightarrow> bool" where
  "cache_usable scope refresh entry \<longleftrightarrow>
     (case entry of
        None \<Rightarrow> False
      | Some e \<Rightarrow> \<not> refresh \<or> scope = zone_scope \<and> \<not> ds_enabled (cs_value e))"

definition settings_for ::
  "'w api \<Rightarrow> graphql_request \<Rightarrow> bool \<Rightarrow> 'w conn \<Rightarrow> ('w, dataset_settings) outcome" where
  "settings_for api r refresh c =
     (case net_ctx (api_net api) (cn_world c) of
        (w0, Some e) \<Rightarrow> Some (c\<lparr>cn_world := w0\<rparr>, Inl e)
      | (w0, None) \<Rightarrow>
          (let entry = cn_settings c (settings_key r);
               usable = cache_usable (gr_scope r) refresh entry;
               (w1, now) = (if usable then net_now (api_net api) w0 else (w0, 0));
               c1 = c\<lparr>cn_world := w1\<rparr>
           in if usable \<and> now < cs_expires (the entry) then Some (c1, Inr (cs_value (the entry)))
              else obind (discover_settings api r c1) (\<lambda>s c2. Some (store_settings api r s c2, Inr s))))"

definition dataset_settings_of ::
  "'w api \<Rightarrow> string \<Rightarrow> string \<Rightarrow> string \<Rightarrow> 'w conn \<Rightarrow> ('w, dataset_settings) outcome" where
  "dataset_settings_of api scope ident dataset c =
     (if scope \<noteq> account_scope \<and> scope \<noteq> zone_scope then Some (c, Inl (ErrNew ''invalid GraphQL scope''))
      else if ident = [] \<or> \<not> is_identifier dataset then Some (c, Inl (ErrNew ''invalid GraphQL settings request''))
      else settings_for api \<lparr>gr_scope = scope, gr_scope_id = ident, gr_dataset = dataset, gr_wanted = [], gr_join = [],
             gr_filter = [], gr_from = 0, gr_to = 0, gr_limit = 0\<rparr> False c)"

subsection \<open>\<open>Query\<close>\<close>

definition effective_limit :: "int \<Rightarrow> int \<Rightarrow> int" where
  "effective_limit limit0 page_max =
     (let limit = (if limit0 \<le> 0 then 100 else limit0) in
      if page_max > 0 \<and> limit > page_max then page_max else limit)"

text \<open>\<open>now.Add(-time.Duration(seconds) * time.Second)\<close>.\<close>

definition retention_cutoff :: "time \<Rightarrow> int \<Rightarrow> time" where
  "retention_cutoff now seconds = now + wrap_int64 (wrap_int64 (- seconds) * second)"

definition window_end :: "time \<Rightarrow> time \<Rightarrow> int \<Rightarrow> time" where
  "window_end start to seconds =
     (if seconds > 0 then min (start + wrap_int64 (seconds * second)) to else to)"

definition window_filter :: "(string \<times> gql_val) list \<Rightarrow> time \<Rightarrow> time \<Rightarrow> (string \<times> gql_val) list" where
  "window_filter f start till =
     map_set ''datetime_lt'' (GStr (rfc3339 till)) (map_set ''datetime_geq'' (GStr (rfc3339 start)) f)"

definition chunk_query :: "graphql_request \<Rightarrow> int \<Rightarrow> string \<Rightarrow> string list \<Rightarrow> string" where
  "chunk_query r limit f chunk =
     ''{viewer{'' @ scope_name (gr_scope r) @ ''('' @ scope_filter (gr_scope r) (gr_scope_id r) @ ''){''
     @ gr_dataset r @ ''(limit:'' @ itoa limit @ '',filter:'' @ f @ ''){'' @ selection chunk @ ''}}}}''"

definition part_rows :: "graphql_request \<Rightarrow> gq_response \<Rightarrow> gerr + json list" where
  "part_rows r response =
     (case first_node response (gr_scope r) of
        Inl e \<Rightarrow> Inl e
      | Inr node \<Rightarrow>
          (case Option.bind (map_of node (gr_dataset r)) decode_list of
             None \<Rightarrow> Inl json_error
           | Some part \<Rightarrow> Inr part))"

text \<open>The chunks of one window. A result None asks for a renegotiation of the fields.\<close>

fun query_chunks ::
  "'w api \<Rightarrow> graphql_request \<Rightarrow> int \<Rightarrow> string \<Rightarrow> bool \<Rightarrow> string list list \<Rightarrow> json list option \<Rightarrow>
   'w conn \<Rightarrow> ('w, json list option) outcome" where
  "query_chunks api r limit f settled [] sofar c =
     Some (c, Inr (Some (case sofar of Some rows \<Rightarrow> rows | None \<Rightarrow> [])))"
| "query_chunks api r limit f settled (chunk # chunks) sofar c =
     obind (graph api (gr_scope r) (gr_scope_id r) (chunk_query r limit f chunk) c) (\<lambda>response c1.
       case gql_errors response of
         Some e \<Rightarrow>
           if \<not> settled \<and> err_field (err_text e) \<noteq> None then Some (c1, Inr None) else Some (c1, Inl e)
       | None \<Rightarrow>
           (case part_rows r response of
              Inl e \<Rightarrow> Some (c1, Inl e)
            | Inr part \<Rightarrow>
                (case (case sofar of None \<Rightarrow> Inr part | Some rows \<Rightarrow> join_rows rows part (gr_join r)) of
                   Inl e \<Rightarrow> Some (c1, Inl e)
                 | Inr rows \<Rightarrow> query_chunks api r limit f settled chunks (Some rows) c1)))"

text \<open>The windows from \<open>start\<close> on; \<open>n\<close> bounds their number.\<close>

fun query_windows ::
  "'w api \<Rightarrow> graphql_request \<Rightarrow> dataset_settings \<Rightarrow> int \<Rightarrow> string list list \<Rightarrow> bool \<Rightarrow> nat \<Rightarrow> time \<Rightarrow> json list \<Rightarrow>
   'w conn \<Rightarrow> ('w, json list option) outcome" where
  "query_windows api r s limit chunks settled 0 start rows c = None"
| "query_windows api r s limit chunks settled (Suc n) start rows c =
     (if \<not> start < gr_to r then Some (c, Inr (Some rows))
      else
        (let till = window_end start (gr_to r) (ds_max_duration s) in
         case gql_value (GMap (window_filter (gr_filter r) start till)) of
           Inl e \<Rightarrow> Some (c, Inl e)
         | Inr f \<Rightarrow>
             obind (query_chunks api r limit f settled chunks None c) (\<lambda>res c1.
               case res of
                 None \<Rightarrow> Some (c1, Inr None)
               | Some got \<Rightarrow>
                   if int (length got) \<ge> limit
                   then Some (c1, Inl (SaturationError (gr_dataset r) start till limit))
                   else query_windows api r s limit chunks settled n till (rows @ got) c1)))"

text \<open>\<open>settled\<close> is the parameter \<open>renegotiated\<close> of the code.\<close>

definition query_once ::
  "'w api \<Rightarrow> graphql_request \<Rightarrow> dataset_settings \<Rightarrow> bool \<Rightarrow> 'w conn \<Rightarrow> ('w, json list option) outcome" where
  "query_once api r s settled c =
     (if \<not> ds_enabled s then Some (c, Inl (UnentitledError [] (gr_dataset r) True))
      else
        (let fs = intersect_fields (gr_wanted r) (case ds_fields s of Some a \<Rightarrow> a | None \<Rightarrow> []) in
         if fs = [] then Some (c, Inl (UnentitledError [] (gr_dataset r) False))
         else
           (case field_chunks fs (gr_join r) (ds_max_fields s) of
              Inl _ \<Rightarrow> Some (c, Inl (FieldLimitError (gr_dataset r) (int (length fs)) (ds_max_fields s)))
            | Inr chunks \<Rightarrow>
                (let (w, now) = (if ds_not_older s > 0 then net_now (api_net api) (cn_world c) else (cn_world c, 0));
                     c1 = c\<lparr>cn_world := w\<rparr>;
                     cutoff = retention_cutoff now (ds_not_older s)
                 in if ds_not_older s > 0 \<and> gr_from r < cutoff
                    then Some (c1, Inl (RetentionGapError (gr_dataset r) cutoff))
                    else query_windows api r s (effective_limit (gr_limit r) (ds_page_size s)) chunks settled
                           (api_fuel api) (gr_from r) [] c1))))"

definition query_with_settings ::
  "'w api \<Rightarrow> graphql_request \<Rightarrow> dataset_settings \<Rightarrow> 'w conn \<Rightarrow> ('w, json list) outcome" where
  "query_with_settings api r s c =
     obind (query_once api r s False c) (\<lambda>res c1.
       case res of
         Some rows \<Rightarrow> Some (c1, Inr rows)
       | None \<Rightarrow>
           obind (settings_for api r True c1) (\<lambda>fresh c2.
             obind (query_once api r fresh True c2) (\<lambda>res2 c3.
               Some (c3, Inr (case res2 of Some rows \<Rightarrow> rows | None \<Rightarrow> [])))))"

definition query :: "'w api \<Rightarrow> graphql_request \<Rightarrow> 'w conn \<Rightarrow> ('w, json list) outcome" where
  "query api r c =
     (case valid_request r of
        Some e \<Rightarrow> Some (c, Inl e)
      | None \<Rightarrow> obind (settings_for api r False c) (\<lambda>s c1. query_with_settings api r s c1))"

text \<open>A maximal duration of 292 years or more wraps, and the next window would start before the first.\<close>

lemma window_end_overflow: "window_end 0 second 9223372037 < 0"
  by code_simp

end
