(* ===== verification/GraphqlProps.thy ===== *)
theory GraphqlProps
  imports Graphql
begin

text \<open>
  What the GraphQL operations guarantee: a query is complete or fails, a budget error holds the next request
  back, and an active denial of a zone sends nothing.
\<close>

subsection \<open>Windows\<close>

text \<open>The windows of a query that were answered in full: their bounds and rows.\<close>

inductive windows_done ::
  "'w api \<Rightarrow> graphql_request \<Rightarrow> dataset_settings \<Rightarrow> int \<Rightarrow> string list list \<Rightarrow> bool \<Rightarrow> time \<Rightarrow> 'w conn \<Rightarrow>
   (time \<times> time \<times> json list) list \<Rightarrow> 'w conn \<Rightarrow> bool"
  for api r s limit chunks settled where
  no_window: "\<not> start < gr_to r \<Longrightarrow> windows_done api r s limit chunks settled start c [] c"
| one_window: "start < gr_to r \<Longrightarrow> till = window_end start (gr_to r) (ds_max_duration s) \<Longrightarrow>
     gql_value (GMap (window_filter (gr_filter r) start till)) = Inr f \<Longrightarrow>
     query_chunks api r limit f settled chunks None c = Some (c1, Inr (Some got)) \<Longrightarrow>
     int (length got) < limit \<Longrightarrow>
     windows_done api r s limit chunks settled till c1 ws c2 \<Longrightarrow>
     windows_done api r s limit chunks settled start c ((start, till, got) # ws) c2"

fun chained :: "time \<Rightarrow> (time \<times> time \<times> 'a) list \<Rightarrow> time \<Rightarrow> bool" where
  "chained f [] t = (f = t)"
| "chained f ((a, b, x) # ws) t = (a = f \<and> chained b ws t)"

definition window_rows :: "(time \<times> time \<times> json list) list \<Rightarrow> json list" where
  "window_rows ws = concat (map (\<lambda>(a, b, got). got) ws)"

lemma query_windows_done:
  "query_windows api r s limit chunks settled n start rows c = Some (c', Inr (Some all)) \<Longrightarrow>
   \<exists>ws. windows_done api r s limit chunks settled start c ws c' \<and> all = rows @ window_rows ws"
proof (induction n arbitrary: start rows c)
  case (Suc n)
  show ?case
  proof (cases "start < gr_to r")
    case False
    with Suc.prems show ?thesis
      by (intro exI [of _ "[]"]) (auto simp: window_rows_def intro: no_window)
  next
    case True
    let ?till = "window_end start (gr_to r) (ds_max_duration s)"
    from Suc.prems True obtain f c1 got where
      f: "gql_value (GMap (window_filter (gr_filter r) start ?till)) = Inr f" and
      q: "query_chunks api r limit f settled chunks None c = Some (c1, Inr (Some got))" and
      l: "int (length got) < limit" and
      n: "query_windows api r s limit chunks settled n ?till (rows @ got) c1 = Some (c', Inr (Some all))"
      by (auto simp: Let_def obind_def split: sum.splits option.splits if_splits)
    from Suc.IH [OF n] obtain ws where ws: "windows_done api r s limit chunks settled ?till c1 ws c'"
      "all = (rows @ got) @ window_rows ws" by blast
    from one_window [OF True refl f q l ws(1)] ws(2) show ?thesis
      by (intro exI [of _ "(start, ?till, got) # ws"]) (simp add: window_rows_def)
  qed
qed simp

lemma windows_done_chained:
  "windows_done api r s limit chunks settled start c ws c' \<Longrightarrow> start \<le> gr_to r \<Longrightarrow>
   chained start ws (gr_to r) \<and> (\<forall>(a, b, got) \<in> set ws. int (length got) < limit)"
proof (induction rule: windows_done.induct)
  case (one_window start till f c c1 got ws c2)
  have "till \<le> gr_to r" using one_window.hyps(2) by (simp add: window_end_def)
  with one_window show ?case by simp
qed simp

text \<open>A query answered with the settings \<open>s\<close>, from the connection \<open>c\<close>.\<close>

definition answered ::
  "'w api \<Rightarrow> graphql_request \<Rightarrow> dataset_settings \<Rightarrow> bool \<Rightarrow> 'w conn \<Rightarrow> (time \<times> time \<times> json list) list \<Rightarrow> 'w conn \<Rightarrow> bool" where
  "answered api r s settled c ws c' \<longleftrightarrow> ds_enabled s \<and>
     (\<exists>chunks. field_chunks (intersect_fields (gr_wanted r) (case ds_fields s of Some a \<Rightarrow> a | None \<Rightarrow> []))
          (gr_join r) (ds_max_fields s) = Inr chunks \<and>
        windows_done api r s (effective_limit (gr_limit r) (ds_page_size s)) chunks settled (gr_from r) c ws c')"

lemma query_once_rows:
  assumes "query_once api r s settled c = Some (c', Inr (Some rows))"
  shows "\<exists>c1 ws. answered api r s settled c1 ws c' \<and> rows = window_rows ws"
proof -
  from assms obtain chunks c1 where en: "ds_enabled s" and
    ch: "field_chunks (intersect_fields (gr_wanted r) (case ds_fields s of Some a \<Rightarrow> a | None \<Rightarrow> []))
          (gr_join r) (ds_max_fields s) = Inr chunks" and
    w: "query_windows api r s (effective_limit (gr_limit r) (ds_page_size s)) chunks settled (api_fuel api) (gr_from r) [] c1
      = Some (c', Inr (Some rows))"
    by (auto simp: query_once_def Let_def split: if_splits sum.splits prod.splits)
  from query_windows_done [OF w] en ch show ?thesis unfolding answered_def by auto
qed

lemma query_settled_rows:
  "query_windows api r s limit chunks True n start rows c = Some (c', Inr res) \<Longrightarrow> res \<noteq> None"
proof -
  have chunk: "query_chunks api r limit f True chs sofar c = Some (c', Inr res) \<Longrightarrow> res \<noteq> None" for f chs sofar c c' res
    by (induction chs arbitrary: sofar c)
      (auto simp: obind_def split: option.splits sum.splits)
  show "query_windows api r s limit chunks True n start rows c = Some (c', Inr res) \<Longrightarrow> res \<noteq> None"
  proof (induction n arbitrary: start rows c)
    case (Suc n)
    then show ?case
      by (auto simp: Let_def obind_def split: sum.splits option.splits if_splits dest: chunk)
  qed simp
qed

lemma query_with_settings_rows:
  assumes "query_with_settings api r s c = Some (c', Inr rows)"
  shows "\<exists>s1 settled c1 ws. answered api r s1 settled c1 ws c' \<and> rows = window_rows ws"
proof -
  from assms obtain c3 res where r: "query_once api r s False c = Some (c3, Inr res)"
    by (auto simp: query_with_settings_def obind_Some)
  show ?thesis
  proof (cases res)
    case (Some x)
    with assms r have "query_once api r s False c = Some (c', Inr (Some rows))"
      by (simp add: query_with_settings_def obind_def)
    from query_once_rows [OF this] show ?thesis by blast
  next
    case None
    with assms r obtain fresh c4 res2 where q: "query_once api r fresh True c4 = Some (c', Inr res2)"
      "rows = (case res2 of Some rows \<Rightarrow> rows | None \<Rightarrow> [])"
      by (auto simp: query_with_settings_def obind_Some)
    moreover have "res2 \<noteq> None" using q(1) query_settled_rows
      by (fastforce simp: query_once_def Let_def split: if_splits sum.splits prod.splits)
    ultimately have "query_once api r fresh True c4 = Some (c', Inr (Some rows))" by auto
    from query_once_rows [OF this] show ?thesis by blast
  qed
qed

text \<open>C6. A query is complete or fails: rows are returned only for a valid request and an enabled dataset, as
  the rows of consecutive windows that lead from the start to the end of the requested range, each
  answered for every field chunk with fewer rows than the page limit, so that nothing was cut off.\<close>

theorem query_complete:
  assumes "query api r c = Some (c', Inr rows)"
  shows "valid_request r = None \<and> (\<exists>s settled c1 ws. answered api r s settled c1 ws c' \<and>
    chained (gr_from r) ws (gr_to r) \<and> rows = window_rows ws \<and>
    (\<forall>(a, b, got) \<in> set ws. int (length got) < effective_limit (gr_limit r) (ds_page_size s)))"
proof -
  from assms have v: "valid_request r = None" by (auto simp: query_def split: option.splits)
  then have le: "gr_from r \<le> gr_to r" by (auto simp: valid_request_def split: if_splits option.splits)
  from assms v obtain s c1 where "query_with_settings api r s c1 = Some (c', Inr rows)"
    by (auto simp: query_def obind_Some)
  from query_with_settings_rows [OF this] obtain s1 settled c2 ws where
    a: "answered api r s1 settled c2 ws c'" "rows = window_rows ws" by blast
  from a(1) obtain chunks where
    "windows_done api r s1 (effective_limit (gr_limit r) (ds_page_size s1)) chunks settled (gr_from r) c2 ws c'"
    by (auto simp: answered_def)
  from windows_done_chained [OF this le] v a show ?thesis by blast
qed

text \<open>An example: a server with one row.\<close>

lemma graph_calm:
  assumes "calm api resp" "stocked (Suc k) c" "api_url api ''/graphql'' None = Inr u" "\<And>r. hr_status (resp r) = 200"
    and "\<And>r. hr_json (resp r) = Some j" "budget_errors (Some j) = (False, b)" "decode_response j = Some R"
  shows "\<exists>c'. graph api scope ident q c = Some (c', Inr R) \<and> stocked k c' \<and> cn_settings c' = cn_settings c"
  using post_calm [OF assms(1-4), of "quota_scope scope ident" "Some (graph_body q)"] assms(5-7)
  by (auto simp: graph_def numeral_2_eq_2)

definition one_row :: json where
  "one_row = JObj [(''data'', JObj [(''viewer'', JObj [(''accounts'', JArr [JObj [(''ds'', JArr [JObj [(''a'', JNum ''1'')]])]])])])]"

definition row_response :: "http_request \<Rightarrow> http_response" where
  "row_response r = \<lparr>hr_status = 200, hr_ratelimit = [], hr_retry_after = [], hr_location = [], hr_size = 2,
     hr_read_err = None, hr_json = Some one_row\<rparr>"

definition row_api :: "time api" where
  "row_api = evil_api\<lparr>api_send := \<lambda>r w. (w, Some (row_response r), None)\<rparr>"

definition row_request :: graphql_request where
  "row_request = \<lparr>gr_scope = account_scope, gr_scope_id = ''x'', gr_dataset = ''ds'', gr_wanted = [''a''],
     gr_join = [], gr_filter = [], gr_from = 0, gr_to = second, gr_limit = 10\<rparr>"

definition row_settings :: dataset_settings where
  "row_settings = zero_settings\<lparr>ds_enabled := True, ds_fields := Some [''a'']\<rparr>"

definition row_conn :: "time conn" where
  "row_conn = sample_conn\<lparr>cn_settings := [settings_key row_request \<mapsto> \<lparr>cs_value = row_settings, cs_expires = 1\<rparr>]\<rparr>"

lemma row_run: "\<exists>c'. query row_api row_request row_conn = Some (c', Inr [JObj [(''a'', JNum ''1'')]])"
proof -
  let ?R = "\<lparr>rs_accounts = [[(''ds'', JArr [JObj [(''a'', JNum ''1'')]])]], rs_zones = [], rs_errors = []\<rparr>"
  have calm: "calm row_api row_response"
    by (simp add: calm_def row_api_def evil_api_def row_response_def)
  have "stocked 1 sample_conn" by (rule sample_conn_stocked) simp
  then have st: "stocked (Suc 0) row_conn" by (simp add: stocked_def row_conn_def)
  have r: "budget_errors (Some one_row) = (False, False)" "decode_response one_row = Some ?R"
    by code_simp+
  have row: "hr_status (row_response q) = 200" "hr_json (row_response q) = Some one_row"
    "api_url row_api ''/graphql'' None = Inr \<lparr>u_scheme = ''https'', u_host = ''api'', u_rest = ''/graphql''\<rparr>"
    "api_fuel row_api = Suc (Suc 0)" "net_ctx (api_net row_api) w = (w, None)" "net_now (api_net row_api) w = (w, w)" for q w
    by (simp_all add: row_response_def row_api_def evil_api_def clock_net_def)
  have valid: "valid_request row_request = None" by code_simp
  have "\<exists>f. gql_value (GMap (window_filter [] 0 second)) = Inr f"
    unfolding gql_value_total by (simp add: window_filter_def map_set_def is_identifier_def ident_start_def is_alpha_def)
  then obtain f where f: "gql_value (GMap (window_filter [] 0 second)) = Inr f" by blast
  have fs: "intersect_fields [''a''] [''a''] = [''a'']"
    by (simp add: intersect_fields_def available_keys_def field_prefixes_def has_prefix_Cons to_lower_def lower_char_def)
  from graph_calm [OF calm st row(3,1,2) r, of "account_scope" "''x''" "chunk_query row_request 10 f [''a'']"]
  obtain c1 where g: "graph row_api account_scope ''x'' (chunk_query row_request 10 f [''a'']) row_conn = Some (c1, Inr ?R)"
    by blast
  have part: "gql_errors ?R = None" "part_rows row_request ?R = Inr [JObj [(''a'', JNum ''1'')]]"
    by (simp_all add: gql_errors_def part_rows_def first_node_def row_request_def account_scope_def zone_scope_def)
  have req: "gr_scope row_request = account_scope" "gr_scope_id row_request = ''x''" "gr_from row_request = 0"
    "gr_to row_request = second" "gr_wanted row_request = [''a'']" "gr_filter row_request = []" "gr_limit row_request = 10"
    by (simp_all add: row_request_def)
  have chunks: "query_chunks row_api row_request 10 f False [[''a'']] None row_conn = Some (c1, Inr (Some [JObj [(''a'', JNum ''1'')]]))"
    using g part by (simp add: req obind_def)
  have w: "query_windows row_api row_request row_settings 10 [[''a'']] False (Suc (Suc 0)) 0 [] row_conn
      = Some (c1, Inr (Some [JObj [(''a'', JNum ''1'')]]))"
    using f chunks by (simp add: req window_end_def row_settings_def zero_settings_def obind_def)
  have settings: "ds_enabled row_settings" "ds_fields row_settings = Some [''a'']" "ds_max_fields row_settings = 0"
    "ds_not_older row_settings = 0" "ds_page_size row_settings = 0"
    by (simp_all add: row_settings_def zero_settings_def)
  have once: "query_once row_api row_request row_settings False row_conn = Some (c1, Inr (Some [JObj [(''a'', JNum ''1'')]]))"
    using w settings fs by (simp add: query_once_def req field_chunks_def effective_limit_def row)
  have hit: "settings_for row_api row_request False row_conn = Some (row_conn, Inr row_settings)"
    by (simp add: settings_for_def row cache_usable_def row_conn_def sample_conn_def)
  show ?thesis
    using hit once by (simp add: query_def valid obind_def query_with_settings_def)
qed

theorem query_complete_witness:
  "\<exists>c' s ws. query row_api row_request row_conn = Some (c', Inr [JObj [(''a'', JNum ''1'')]]) \<and> ds_enabled (s::dataset_settings) \<and>
     chained 0 ws second \<and> window_rows ws = [JObj [(''a'', JNum ''1'')]]"
proof -
  from row_run obtain c' where run: "query row_api row_request row_conn = Some (c', Inr [JObj [(''a'', JNum ''1'')]])" by blast
  have "gr_from row_request = 0" "gr_to row_request = second" by (simp_all add: row_request_def)
  moreover from query_complete [OF run] obtain s settled c1 ws where
    a: "answered row_api row_request s settled c1 ws c'" "chained (gr_from row_request) ws (gr_to row_request)"
    "[JObj [(''a'', JNum ''1'')]] = window_rows ws" by (elim conjE exE)
  moreover from a(1) have "ds_enabled s" by (simp add: answered_def)
  ultimately show ?thesis using run by auto
qed

end
