(* ===== verification/GraphqlGuards.thy ===== *)
theory GraphqlGuards
  imports Graphql
begin

text \<open>
  Budget errors and denials: a budget error of the GraphQL API holds back the next request to the same zone or
  account, and a zone whose dataset is known to be denied is not asked again before the entry expires.
\<close>

subsection \<open>Budget errors\<close>

text \<open>The buckets of a POST for the resource \<open>qk\<close>, as in \<open>doRedirects\<close>.\<close>

definition post_refs :: "string \<Rightarrow> budgets \<Rightarrow> bucket_ref list" where
  "post_refs qk p =
     (case snd (scope_bucket qk p) of Some q \<Rightarrow> [q] | None \<Rightarrow> []) @ [GraphqlB, TotalB]"

lemma scope_bucket_again:
  "scope_bucket qk p = (p1, q) \<Longrightarrow> scope_bucket qk p1 = (p1, q)"
  by (auto simp: scope_bucket_def split: if_splits option.splits)

lemma scope_bucket_ref:
  "scope_bucket qk p = (p1, Some q) \<Longrightarrow> q = ScopeB qk \<and> scope_buckets p1 qk \<noteq> None"
  by (auto simp: scope_bucket_def split: if_splits option.splits)

lemma pause_bucket_until: "0 < d \<Longrightarrow> now + d \<le> tb_paused_until (pause_bucket now d b)"
  by (simp add: pause_bucket_def)

lemma refill_paused [simp]: "tb_paused_until (refill now b) = tb_paused_until b"
  by (simp add: refill_def Let_def)

lemma paused_not_admitted:
  assumes "distinct refs" "r \<in> set refs" "get_bucket r p = Some b" "t < tb_paused_until b"
  shows "0 < snd (acquire_step t refs p)"
proof (rule ccontr)
  assume "\<not> 0 < snd (acquire_step t refs p)"
  then have "total_delay t refs (map_buckets (refill t) refs p) \<le> 0"
    by (auto simp: acquire_step_def Let_def split: if_splits)
  moreover have "get_bucket r (map_buckets (refill t) refs p) = Some (refill t b)"
    using assms(1-3) by (simp add: get_map_buckets)
  ultimately have "bucket_delay t (refill t b) \<le> 0" using assms(2) unfolding total_delay_le by blast
  then show False using assms(4) by (simp add: bucket_delay_def time_sub_def min_def split: if_splits)
qed

lemma throttle_pauses:
  assumes "throttle qk resource now p = p'"
  shows "\<exists>r b. r \<in> set (post_refs qk p') \<and> get_bucket r p' = Some b \<and> now + budget_pause \<le> tb_paused_until b"
proof -
  obtain p1 q where s: "scope_bucket qk p = (p1, q)" by (metis surj_pair)
  have pos: "0 < budget_pause" by (simp add: budget_pause_def)
  show ?thesis
  proof (cases "if resource then q else None")
    case None
    have "tb_paused_until (fst (clamp_rate x b)) = tb_paused_until b" for x b by (simp add: clamp_rate_def)
    then have "now + budget_pause \<le> tb_paused_until (graphql_budget p')"
      using assms s None pause_bucket_until [OF pos] by (auto simp: throttle_def Let_def)
    then show ?thesis
      by (intro exI [of _ GraphqlB] exI [of _ "graphql_budget p'"]) (simp add: post_refs_def)
  next
    case (Some ref)
    then have q: "q = Some ref" "resource" by (auto split: if_splits)
    with s scope_bucket_ref obtain b where ref: "ref = ScopeB qk" "scope_buckets p1 qk = Some b" by blast
    have p': "p' = map_bucket (pause_bucket now budget_pause) (ScopeB qk) p1"
      using assms s q ref by (simp add: throttle_def)
    have "scope_bucket qk p1 = (p1, Some (ScopeB qk))" using scope_bucket_again s q ref by blast
    then have "scope_account_based p1" "qk \<noteq> []" by (auto simp: scope_bucket_def split: if_splits)
    then have "ScopeB qk \<in> set (post_refs qk p')" using ref(2) by (simp add: p' post_refs_def scope_bucket_def)
    moreover have "get_bucket (ScopeB qk) p' = Some (pause_bucket now budget_pause b)" using ref(2) by (simp add: p')
    ultimately show ?thesis using pause_bucket_until [OF pos] by blast
  qed
qed

text \<open>C26. A budget error is obeyed: after it, for 300 seconds no POST to the same zone or account is admitted,
  whatever tokens are there; and when the error names the resource, the budgets of every other
  resource and of the process stay as they were.\<close>

theorem budget_error_obeyed:
  assumes "t < now + 300 * second"
  shows "0 < snd (acquire_step t (post_refs qk (throttle qk resource now p)) (throttle qk resource now p)) \<and>
    (resource \<and> snd (scope_bucket qk p) \<noteq> None \<longrightarrow>
      (\<forall>r. r \<noteq> ScopeB qk \<longrightarrow> get_bucket r (throttle qk resource now p) = get_bucket r p))"
proof
  let ?p = "throttle qk resource now p"
  obtain r b where rb: "r \<in> set (post_refs qk ?p)" "get_bucket r ?p = Some b" "now + budget_pause \<le> tb_paused_until b"
    using throttle_pauses [OF refl] by blast
  obtain p1 q where s: "scope_bucket qk ?p = (p1, q)" by (metis surj_pair)
  have "distinct (post_refs qk ?p)"
    using s scope_bucket_ref [of qk ?p p1] by (cases q) (auto simp: post_refs_def)
  moreover have "t < tb_paused_until b" using rb(3) assms by (simp add: budget_pause_def)
  ultimately show "0 < snd (acquire_step t (post_refs qk ?p) ?p)"
    using paused_not_admitted rb(1,2) by blast
  show "resource \<and> snd (scope_bucket qk p) \<noteq> None \<longrightarrow>
      (\<forall>r. r \<noteq> ScopeB qk \<longrightarrow> get_bucket r ?p = get_bucket r p)"
  proof (intro impI allI)
    fix r assume a: "resource \<and> snd (scope_bucket qk p) \<noteq> None" and r: "r \<noteq> ScopeB qk"
    obtain p2 q2 where s2: "scope_bucket qk p = (p2, Some q2)" using a by (cases "scope_bucket qk p") auto
    have "?p = map_bucket (pause_bucket now budget_pause) (ScopeB qk) p2"
      using s2 a scope_bucket_ref [OF s2] by (simp add: throttle_def)
    moreover have "get_bucket r p2 = get_bucket r p"
      using s2 r by (cases r) (auto simp: scope_bucket_def split: if_splits option.splits)
    ultimately show "get_bucket r ?p = get_bucket r p" using r by (cases r) auto
  qed
qed

theorem budget_error_obeyed_witness:
  "0 < snd (acquire_step (10 * second) (post_refs ''zone/z'' (throttle ''zone/z'' True 0 initial_budgets))
      (throttle ''zone/z'' True 0 initial_budgets)) \<and>
   get_bucket GraphqlB (throttle ''zone/z'' True 0 initial_budgets) = get_bucket GraphqlB initial_budgets"
proof -
  have "snd (scope_bucket ''zone/z'' initial_budgets) \<noteq> None"
    by (simp add: scope_bucket_def initial_budgets_def default_rate_limit_def)
  with budget_error_obeyed [of "10 * second" 0 "''zone/z''" True initial_budgets] show ?thesis
    by (simp del: get_bucket.simps)
qed

subsection \<open>Denials\<close>

text \<open>An active denial of a zone's dataset costs nothing: while the entry has not expired, a query, and even
  a refresh of the settings, is answered from the cache; the query fails as disabled and nothing is sent.\<close>

theorem denied_zone_silent:
  assumes "cn_settings c (settings_key r) = Some e" "\<not> ds_enabled (cs_value e)" "gr_scope r = zone_scope"
    and "\<And>w. net_ctx (api_net api) w = (w, None)" "\<And>w. net_now (api_net api) w = (w, now)" "now < cs_expires e"
    and "valid_request r = None"
  shows "settings_for api r refresh c = Some (c, Inr (cs_value e)) \<and>
    query api r c = Some (c, Inl (UnentitledError [] (gr_dataset r) True))"
proof -
  have "settings_for api r f c = Some (c, Inr (cs_value e))" for f
    using assms(1-6) by (simp add: settings_for_def cache_usable_def Let_def)
  then show ?thesis
    using assms(2,7) by (simp add: query_def obind_def query_with_settings_def query_once_def)
qed

definition denied_request :: graphql_request where
  "denied_request = \<lparr>gr_scope = zone_scope, gr_scope_id = ''z'', gr_dataset = ''ds'', gr_wanted = [''a''],
     gr_join = [], gr_filter = [], gr_from = 0, gr_to = second, gr_limit = 10\<rparr>"

definition denied_conn :: "time conn" where
  "denied_conn = sample_conn\<lparr>cn_settings := [settings_key denied_request \<mapsto> \<lparr>cs_value = zero_settings, cs_expires = 1\<rparr>]\<rparr>"

definition still_api :: "time api" where
  "still_api = evil_api\<lparr>api_net := \<lparr>net_ctx = \<lambda>w. (w, None), net_now = \<lambda>w. (w, 0), net_wait = \<lambda>d w. (w, None)\<rparr>\<rparr>"

theorem denied_zone_silent_witness:
  "query still_api denied_request denied_conn = Some (denied_conn, Inl (UnentitledError [] ''ds'' True))"
proof -
  have "valid_request denied_request = None" by code_simp
  with denied_zone_silent [of denied_conn denied_request "\<lparr>cs_value = zero_settings, cs_expires = 1\<rparr>" still_api 0 True]
  show ?thesis
    by (simp add: denied_conn_def still_api_def zero_settings_def denied_request_def)
qed

end
