(* ===== verification/Batch.thy ===== *)
theory Batch
  imports Graphql "HOL-Library.Sublist"
begin

text \<open>
  Batched GraphQL selections, \<open>internal/cfapi/batch.go\<close>: the selections of one scope are validated as a whole,
  prepared one by one, packed into requests within the field budget, and answered all or not at all.
\<close>

record batch_selection =
  bs_alias :: string
  bs_request :: graphql_request

record prepared =
  pp_alias :: string
  pp_query :: string
  pp_request :: graphql_request
  pp_fields :: int
  pp_budget :: int
  pp_limit :: int

text \<open>The validation of the envelope; \<open>first\<close> is the request of the first selection.\<close>

fun validate_batch :: "graphql_request \<Rightarrow> string set \<Rightarrow> batch_selection list \<Rightarrow> gerr option" where
  "validate_batch first seen [] = None"
| "validate_batch first seen (s # ss) =
     (if \<not> is_identifier (bs_alias s) \<or> has_prefix ''__'' (bs_alias s) \<or> bs_alias s \<in> seen then
        Some (ErrNew ''invalid or duplicate GraphQL batch alias'')
      else
        (case valid_request (bs_request s) of
           Some e \<Rightarrow> Some e
         | None \<Rightarrow>
             if gr_scope (bs_request s) \<noteq> gr_scope first \<or> gr_scope_id (bs_request s) \<noteq> gr_scope_id first then
               Some (ErrNew ''GraphQL batch requires the same scope and ID'')
             else validate_batch first (insert (bs_alias s) seen) ss))"

text \<open>One selection, prepared with its settings; \<open>now\<close> is read only for a dataset with a retention.\<close>

definition prepare_selection ::
  "'w api \<Rightarrow> batch_selection \<Rightarrow> dataset_settings \<Rightarrow> 'w conn \<Rightarrow> ('w, prepared) outcome" where
  "prepare_selection api sel s c =
     (let r = bs_request sel;
          fs = intersect_fields (gr_wanted r) (case ds_fields s of Some a \<Rightarrow> a | None \<Rightarrow> [])
      in if \<not> ds_enabled s then Some (c, Inl (UnentitledError [] (gr_dataset r) True))
         else if gr_wanted r = [] \<or> length fs \<noteq> length (gr_wanted r) then
           Some (c, Inl (ErrNew (''dataset '' @ gr_dataset r @ '' batch fields unavailable or duplicated'')))
         else if ds_max_fields s > 0 \<and> int (length fs) > ds_max_fields s then
           Some (c, Inl (FieldLimitError (gr_dataset r) (int (length fs)) (ds_max_fields s)))
         else if ds_max_duration s > 0 \<and> time_sub (gr_to r) (gr_from r) > wrap_int64 (ds_max_duration s * second) then
           Some (c, Inl (ErrNew ''GraphQL batch window exceeds dataset duration''))
         else
           (let (w, now) = (if ds_not_older s > 0 then net_now (api_net api) (cn_world c) else (cn_world c, 0));
                c1 = c\<lparr>cn_world := w\<rparr>;
                cutoff = retention_cutoff now (ds_not_older s);
                limit = effective_limit (gr_limit r) (ds_page_size s)
            in if ds_not_older s > 0 \<and> gr_from r < cutoff then Some (c1, Inl (RetentionGapError (gr_dataset r) cutoff))
               else
                 (case gql_value (GMap (window_filter (gr_filter r) (gr_from r) (gr_to r))) of
                    Inl e \<Rightarrow> Some (c1, Inl e)
                  | Inr f \<Rightarrow>
                      Some (c1, Inr \<lparr>pp_alias = bs_alias sel,
                        pp_query = bs_alias sel @ '':'' @ gr_dataset r @ ''(limit:'' @ itoa limit @ '',filter:'' @ f @ ''){''
                          @ selection fs @ ''}'',
                        pp_request = r, pp_fields = int (length fs), pp_budget = ds_max_fields s, pp_limit = limit\<rparr>))))"

fun prepare_batch :: "'w api \<Rightarrow> batch_selection list \<Rightarrow> 'w conn \<Rightarrow> ('w, prepared list) outcome" where
  "prepare_batch api [] c = Some (c, Inr [])"
| "prepare_batch api (sel # ss) c =
     obind (settings_for api (bs_request sel) False c) (\<lambda>s c1.
     obind (prepare_selection api sel s c1) (\<lambda>p c2.
     obind (prepare_batch api ss c2) (\<lambda>ps c3. Some (c3, Inr (p # ps)))))"

text \<open>The inner loop: the number of selections of the next request.\<close>

definition next_budget :: "int \<Rightarrow> prepared \<Rightarrow> int" where
  "next_budget budget p =
     (if pp_budget p > 0 \<and> (budget = 0 \<or> pp_budget p < budget) then pp_budget p else budget)"

fun batch_size :: "bool \<Rightarrow> int \<Rightarrow> int \<Rightarrow> prepared list \<Rightarrow> nat" where
  "batch_size fresh used budget [] = 0"
| "batch_size fresh used budget (p # ps) =
     (let nb = next_budget budget p in
      if \<not> fresh \<and> nb > 0 \<and> used + pp_fields p > nb then 0
      else Suc (batch_size False (used + pp_fields p) nb ps))"

lemma batch_size_pos: "ps \<noteq> [] \<Longrightarrow> 0 < batch_size True used budget ps"
  by (cases ps) (simp_all add: Let_def)

function pack_batches :: "prepared list \<Rightarrow> prepared list list" where
  "pack_batches ps =
     (if ps = [] then []
      else take (batch_size True 0 0 ps) ps # pack_batches (drop (batch_size True 0 0 ps) ps))"
  by pat_completeness auto
termination by (relation "measure length") (auto simp: batch_size_pos)

declare pack_batches.simps [simp del]

definition batch_query :: "graphql_request \<Rightarrow> prepared list \<Rightarrow> string" where
  "batch_query first ps =
     ''{viewer{'' @ scope_name (gr_scope first) @ ''('' @ scope_filter (gr_scope first) (gr_scope_id first) @ ''){''
     @ str_join '' '' (map pp_query ps) @ ''}}}''"

text \<open>The rows of one alias in the answer.\<close>

definition alias_rows :: "(string \<times> json) list \<Rightarrow> prepared \<Rightarrow> gerr + (string \<times> json list)" where
  "alias_rows node p =
     (case map_of node (pp_alias p) of
        Some (JArr rows) \<Rightarrow>
          if int (length rows) \<ge> pp_limit p then
            Inl (SaturationError (gr_dataset (pp_request p)) (gr_from (pp_request p)) (gr_to (pp_request p)) (pp_limit p))
          else Inr (pp_alias p, rows)
      | _ \<Rightarrow> Inl (ErrNew ''GraphQL batch response missing row array''))"

fun run_batches ::
  "'w api \<Rightarrow> graphql_request \<Rightarrow> prepared list list \<Rightarrow> (string \<times> json list) list \<Rightarrow> 'w conn \<Rightarrow>
   ('w, (string \<times> json list) list) outcome" where
  "run_batches api first [] result c = Some (c, Inr result)"
| "run_batches api first (b # bs) result c =
     obind (graph api (gr_scope first) (gr_scope_id first) (batch_query first b) c) (\<lambda>response c1.
       case gql_errors response of
         Some e \<Rightarrow> Some (c1, Inl e)
       | None \<Rightarrow>
           (case first_node response (gr_scope first) of
              Inl e \<Rightarrow> Some (c1, Inl e)
            | Inr node \<Rightarrow>
                (case sum_map (alias_rows node) b of
                   Inl e \<Rightarrow> Some (c1, Inl e)
                 | Inr rows \<Rightarrow> run_batches api first bs (result @ rows) c1)))"

definition query_batch ::
  "'w api \<Rightarrow> batch_selection list \<Rightarrow> 'w conn \<Rightarrow> ('w, (string \<times> json list) list) outcome" where
  "query_batch api sels c =
     (case sels of
        [] \<Rightarrow> Some (c, Inr [])
      | s # _ \<Rightarrow>
          (case validate_batch (bs_request s) {} sels of
             Some e \<Rightarrow> Some (c, Inl e)
           | None \<Rightarrow>
               obind (prepare_batch api sels c) (\<lambda>ps c1. run_batches api (bs_request s) (pack_batches ps) [] c1)))"

subsection \<open>Packing\<close>

definition fits :: "prepared list \<Rightarrow> bool" where
  "fits b \<longleftrightarrow> (\<forall>p \<in> set b. 0 < pp_budget p \<longrightarrow> sum_list (map pp_fields b) \<le> pp_budget p)"

lemma next_budget_props:
  assumes "0 \<le> budget"
  shows "0 \<le> next_budget budget p" "0 < pp_budget p \<Longrightarrow> 0 < next_budget budget p \<and> next_budget budget p \<le> pp_budget p"
    "0 < budget \<Longrightarrow> 0 < next_budget budget p \<and> next_budget budget p \<le> budget"
  using assms by (auto simp: next_budget_def)

lemma batch_size_le: "batch_size fresh used budget ps \<le> length ps"
  by (induction fresh used budget ps rule: batch_size.induct) (simp_all add: Let_def)

text \<open>What has been taken stays within the tightest budget so far.\<close>

lemma batch_size_fits:
  "0 \<le> budget \<Longrightarrow> (budget > 0 \<longrightarrow> used \<le> budget) \<Longrightarrow>
   (fresh \<longrightarrow> used = 0 \<and> budget = 0 \<and> (ps \<noteq> [] \<longrightarrow> 0 < pp_budget (hd ps) \<longrightarrow> pp_fields (hd ps) \<le> pp_budget (hd ps))) \<Longrightarrow>
   (let b = take (batch_size fresh used budget ps) ps; got = used + sum_list (map pp_fields b) in
      (budget > 0 \<longrightarrow> got \<le> budget) \<and> (\<forall>p \<in> set b. 0 < pp_budget p \<longrightarrow> got \<le> pp_budget p))"
proof (induction fresh used budget ps rule: batch_size.induct)
  case (2 fresh used budget p ps)
  let ?nb = "next_budget budget p"
  note nb = next_budget_props [OF "2.prems"(1), of p]
  show ?case
  proof (cases "\<not> fresh \<and> ?nb > 0 \<and> used + pp_fields p > ?nb")
    case True
    with "2.prems" show ?thesis by (simp add: Let_def)
  next
    case False
    have le: "?nb > 0 \<longrightarrow> used + pp_fields p \<le> ?nb"
      using False "2.prems"(3) by (cases fresh) (auto simp: next_budget_def split: if_splits)
    let ?b = "take (batch_size False (used + pp_fields p) ?nb ps) ps"
    let ?got = "used + pp_fields p + sum_list (map pp_fields ?b)"
    have IH: "(?nb > 0 \<longrightarrow> ?got \<le> ?nb) \<and> (\<forall>q \<in> set ?b. 0 < pp_budget q \<longrightarrow> ?got \<le> pp_budget q)"
      using "2.IH" [OF refl False nb(1) le] by (simp add: Let_def)
    show ?thesis using False IH nb by (auto simp: Let_def add.assoc)
  qed
qed (simp add: Let_def)

lemma pack_batches_ok:
  assumes "\<forall>p \<in> set ps. 0 < pp_budget p \<longrightarrow> pp_fields p \<le> pp_budget p"
  shows "concat (pack_batches ps) = ps \<and> (\<forall>b \<in> set (pack_batches ps). b \<noteq> [] \<and> fits b)"
  using assms
proof (induction ps rule: pack_batches.induct)
  case (1 ps)
  show ?case
  proof (cases "ps = []")
    case True
    then show ?thesis by (simp add: pack_batches.simps)
  next
    case False
    let ?n = "batch_size True 0 0 ps"
    have eq: "pack_batches ps = take ?n ps # pack_batches (drop ?n ps)"
      using False by (subst pack_batches.simps) simp
    have "fits (take ?n ps)"
      using batch_size_fits [of 0 0 True ps] "1.prems" False by (simp add: fits_def Let_def)
    moreover have "take ?n ps \<noteq> []" using batch_size_pos [OF False, of 0 0] False by simp
    moreover have "\<forall>p \<in> set (drop ?n ps). 0 < pp_budget p \<longrightarrow> pp_fields p \<le> pp_budget p"
      using "1.prems" by (meson in_set_dropD)
    ultimately show ?thesis using "1.IH" [OF False] unfolding eq by simp
  qed
qed

text \<open>Batches lose nothing and stay within the field budgets: the requests of a batch contain the prepared
  selections in order, each in exactly one request, and the fields of a request number at most the
  field limit of every dataset in it.\<close>

theorem pack_batches_fit:
  assumes "\<forall>p \<in> set ps. 0 < pp_budget p \<longrightarrow> pp_fields p \<le> pp_budget p"
  shows "concat (pack_batches ps) = ps \<and> (\<forall>b \<in> set (pack_batches ps). b \<noteq> [] \<and> fits b)"
  by (rule pack_batches_ok [OF assms])

definition sample_prepared :: "string \<Rightarrow> int \<Rightarrow> int \<Rightarrow> prepared" where
  "sample_prepared a n budget = \<lparr>pp_alias = a, pp_query = a, pp_request = \<lparr>gr_scope = account_scope, gr_scope_id = ''x'',
     gr_dataset = ''ds'', gr_wanted = [], gr_join = [], gr_filter = [], gr_from = 0, gr_to = second, gr_limit = 10\<rparr>,
     pp_fields = n, pp_budget = budget, pp_limit = 10\<rparr>"

theorem pack_batches_fit_witness:
  "pack_batches [sample_prepared ''a'' 3 0, sample_prepared ''b'' 2 5, sample_prepared ''c'' 1 5]
     = [[sample_prepared ''a'' 3 0, sample_prepared ''b'' 2 5], [sample_prepared ''c'' 1 5]] \<and>
   fits [sample_prepared ''a'' 3 0, sample_prepared ''b'' 2 5]"
proof -
  have run: "pack_batches [sample_prepared ''a'' 3 0, sample_prepared ''b'' 2 5, sample_prepared ''c'' 1 5]
     = [[sample_prepared ''a'' 3 0, sample_prepared ''b'' 2 5], [sample_prepared ''c'' 1 5]]"
    by (simp add: pack_batches.simps sample_prepared_def next_budget_def)
  have "\<forall>p \<in> set [sample_prepared ''a'' 3 0, sample_prepared ''b'' 2 5, sample_prepared ''c'' 1 5].
      0 < pp_budget p \<longrightarrow> pp_fields p \<le> pp_budget p"
    by (simp add: sample_prepared_def)
  from pack_batches_fit [OF this] show ?thesis unfolding run by simp
qed

subsection \<open>Answers\<close>

lemma prepare_selection_alias:
  "prepare_selection api sel s c = Some (c', Inr p) \<Longrightarrow>
   pp_alias p = bs_alias sel \<and> (0 < pp_budget p \<longrightarrow> pp_fields p \<le> pp_budget p)"
  by (auto simp: prepare_selection_def Let_def split: if_splits prod.splits sum.splits)

lemma prepare_batch_aliases:
  "prepare_batch api sels c = Some (c', Inr ps) \<Longrightarrow>
   map pp_alias ps = map bs_alias sels \<and> (\<forall>p \<in> set ps. 0 < pp_budget p \<longrightarrow> pp_fields p \<le> pp_budget p)"
  by (induction sels arbitrary: c ps) (fastforce simp: obind_Some dest: prepare_selection_alias)+

lemma alias_rows_map: "sum_map (alias_rows node) b = Inr rows \<Longrightarrow> map fst rows = map pp_alias b"
proof (induction b arbitrary: rows)
  case (Cons p b)
  from Cons.prems obtain r rs where "alias_rows node p = Inr r" "sum_map (alias_rows node) b = Inr rs" "rows = r # rs"
    unfolding sum_map_Cons_Inr by blast
  moreover from this(1) have "fst r = pp_alias p"
    by (auto simp: alias_rows_def split: option.splits json.splits if_splits)
  ultimately show ?case using Cons.IH by simp
qed simp

lemma run_batches_aliases:
  "run_batches api first bs result c = Some (c', Inr res) \<Longrightarrow>
   map fst res = map fst result @ map pp_alias (concat bs)"
proof (induction bs arbitrary: result c)
  case (Cons b bs)
  from Cons.prems obtain rows node c1 where "sum_map (alias_rows node) b = Inr rows"
    "run_batches api first bs (result @ rows) c1 = Some (c', Inr res)"
    by (auto simp: obind_Some split: option.splits sum.splits)
  with Cons.IH alias_rows_map show ?case by fastforce
qed simp

text \<open>A batch is answered for every alias, in order, or fails as a whole.\<close>

lemma query_batch_complete:
  "query_batch api sels c = Some (c', Inr res) \<Longrightarrow> map fst res = map bs_alias sels"
proof (cases sels)
  case (Cons s ss)
  assume "query_batch api sels c = Some (c', Inr res)"
  with Cons obtain ps c1 where p: "prepare_batch api sels c = Some (c1, Inr ps)"
    and r: "run_batches api (bs_request s) (pack_batches ps) [] c1 = Some (c', Inr res)"
    by (auto simp: query_batch_def obind_Some simp del: prepare_batch.simps validate_batch.simps split: option.splits)
  have "concat (pack_batches ps) = ps"
    using prepare_batch_aliases [OF p] pack_batches_ok by blast
  with run_batches_aliases [OF r] prepare_batch_aliases [OF p] show ?thesis by simp
qed (simp add: query_batch_def)

end
