(* ===== verification/SettingsFlight.thy ===== *)
theory SettingsFlight
  imports Graphql
begin

text \<open>
  Concurrent callers of \<open>settingsFor\<close>, \<open>internal/cfapi/entitlement_backoff.go\<close>. The callers share the cache and
  the map of pending channels under one mutex; every critical section of the code is one step here. A
  channel is a number, closed or not; the HTTP request of the caller that leads is between its steps
  \<open>lead\<close> and \<open>fail\<close> or \<open>store\<close>.
\<close>

datatype call_pc =
    Checking
  | Waiting nat
  | Leading nat
  | Storing nat dataset_settings
  | Returned "gerr + dataset_settings"

record call =
  cl_key :: string
  cl_scope :: string
  cl_refresh :: bool
  cl_pc :: call_pc

record flight =
  fl_cache :: "string \<rightharpoonup> cached_settings"
  fl_pending :: "string \<rightharpoonup> nat"
  fl_closed :: "nat set"
  fl_next :: nat
  fl_calls :: "nat \<rightharpoonup> call"

definition set_pc :: "nat \<Rightarrow> call \<Rightarrow> call_pc \<Rightarrow> flight \<Rightarrow> flight" where
  "set_pc i c pc f = f\<lparr>fl_calls := (fl_calls f)(i \<mapsto> c\<lparr>cl_pc := pc\<rparr>)\<rparr>"

text \<open>The deferred function: the pending channel of the key is closed and removed.\<close>

definition release :: "string \<Rightarrow> flight \<Rightarrow> flight" where
  "release k f = f\<lparr>fl_closed := fl_closed f \<union> set_option (fl_pending f k), fl_pending := (fl_pending f)(k := None)\<rparr>"

definition fresh_entry :: "call \<Rightarrow> flight \<Rightarrow> time \<Rightarrow> bool" where
  "fresh_entry c f now \<longleftrightarrow>
     (case fl_cache f (cl_key c) of
        None \<Rightarrow> False
      | Some e \<Rightarrow> cache_usable (cl_scope c) (cl_refresh c) (Some e) \<and> now < cs_expires e)"

inductive flight_step :: "flight \<Rightarrow> flight \<Rightarrow> bool" where
  arrive: "fl_calls f i = None \<Longrightarrow> cl_pc c = Checking \<Longrightarrow>
     flight_step f (f\<lparr>fl_calls := (fl_calls f)(i \<mapsto> c)\<rparr>)"
| cancel_check: "fl_calls f i = Some c \<Longrightarrow> cl_pc c = Checking \<Longrightarrow>
     flight_step f (set_pc i c (Returned (Inl e)) f)"
| hit: "fl_calls f i = Some c \<Longrightarrow> cl_pc c = Checking \<Longrightarrow> fresh_entry c f now \<Longrightarrow>
     fl_cache f (cl_key c) = Some entry \<Longrightarrow>
     flight_step f (set_pc i c (Returned (Inr (cs_value entry))) f)"
| wait: "fl_calls f i = Some c \<Longrightarrow> cl_pc c = Checking \<Longrightarrow> \<not> fresh_entry c f now \<Longrightarrow>
     fl_pending f (cl_key c) = Some ch \<Longrightarrow>
     flight_step f (set_pc i c (Waiting ch) f)"
| lead: "fl_calls f i = Some c \<Longrightarrow> cl_pc c = Checking \<Longrightarrow> \<not> fresh_entry c f now \<Longrightarrow>
     fl_pending f (cl_key c) = None \<Longrightarrow>
     flight_step f (set_pc i c (Leading (fl_next f))
       (f\<lparr>fl_pending := (fl_pending f)(cl_key c \<mapsto> fl_next f), fl_next := Suc (fl_next f)\<rparr>))"
| wake: "fl_calls f i = Some c \<Longrightarrow> cl_pc c = Waiting ch \<Longrightarrow> ch \<in> fl_closed f \<Longrightarrow>
     flight_step f (set_pc i c Checking f)"
| cancel_wait: "fl_calls f i = Some c \<Longrightarrow> cl_pc c = Waiting ch \<Longrightarrow>
     flight_step f (set_pc i c (Returned (Inl e)) f)"
| fail: "fl_calls f i = Some c \<Longrightarrow> cl_pc c = Leading ch \<Longrightarrow>
     flight_step f (set_pc i c (Returned (Inl e)) (release (cl_key c) f))"
| store: "fl_calls f i = Some c \<Longrightarrow> cl_pc c = Leading ch \<Longrightarrow> cs_value entry = s \<Longrightarrow>
     flight_step f (set_pc i c (Storing ch s) (f\<lparr>fl_cache := (fl_cache f)(cl_key c \<mapsto> entry)\<rparr>))"
| finish: "fl_calls f i = Some c \<Longrightarrow> cl_pc c = Storing ch s \<Longrightarrow>
     flight_step f (set_pc i c (Returned (Inr s)) (release (cl_key c) f))"

definition flight_start :: flight where
  "flight_start = \<lparr>fl_cache = Map.empty, fl_pending = Map.empty, fl_closed = {}, fl_next = 0, fl_calls = Map.empty\<rparr>"

definition flight_reachable :: "flight \<Rightarrow> bool" where
  "flight_reachable f \<longleftrightarrow> flight_step\<^sup>*\<^sup>* flight_start f"

subsection \<open>The invariant\<close>

text \<open>Caller \<open>i\<close> leads the discovery of its key and holds channel \<open>ch\<close>.\<close>

definition leads :: "flight \<Rightarrow> nat \<Rightarrow> string \<Rightarrow> nat \<Rightarrow> bool" where
  "leads f i k ch \<longleftrightarrow>
     (\<exists>c. fl_calls f i = Some c \<and> cl_key c = k \<and> (cl_pc c = Leading ch \<or> (\<exists>s. cl_pc c = Storing ch s)))"

definition waits :: "flight \<Rightarrow> nat \<Rightarrow> string \<Rightarrow> nat \<Rightarrow> bool" where
  "waits f i k ch \<longleftrightarrow> (\<exists>c. fl_calls f i = Some c \<and> cl_key c = k \<and> cl_pc c = Waiting ch)"

definition flight_inv :: "flight \<Rightarrow> bool" where
  "flight_inv f \<longleftrightarrow>
     (\<forall>i k ch. leads f i k ch \<longrightarrow> fl_pending f k = Some ch) \<and>
     (\<forall>k ch. fl_pending f k = Some ch \<longrightarrow> (\<exists>i. leads f i k ch)) \<and>
     (\<forall>i j k ch. leads f i k ch \<longrightarrow> leads f j k ch \<longrightarrow> i = j) \<and>
     (\<forall>k ch. fl_pending f k = Some ch \<longrightarrow> ch \<notin> fl_closed f \<and> ch < fl_next f) \<and>
     (\<forall>ch \<in> fl_closed f. ch < fl_next f) \<and>
     (\<forall>k k' ch. fl_pending f k = Some ch \<longrightarrow> fl_pending f k' = Some ch \<longrightarrow> k = k') \<and>
     (\<forall>i k ch. waits f i k ch \<longrightarrow> ch \<in> fl_closed f \<or> fl_pending f k = Some ch)"

lemma leads_set_pc:
  "leads (set_pc i c pc f) j k ch \<longleftrightarrow>
     (if j = i then cl_key c = k \<and> (pc = Leading ch \<or> (\<exists>s. pc = Storing ch s)) else leads f j k ch)"
  "waits (set_pc i c pc f) j k ch \<longleftrightarrow> (if j = i then cl_key c = k \<and> pc = Waiting ch else waits f j k ch)"
  by (auto simp: leads_def waits_def set_pc_def)

lemma leads_frame:
  "leads (release k0 f) j k ch = leads f j k ch" "waits (release k0 f) j k ch = waits f j k ch"
  "leads (f\<lparr>fl_cache := x\<rparr>) j k ch = leads f j k ch" "waits (f\<lparr>fl_cache := x\<rparr>) j k ch = waits f j k ch"
  "leads (f\<lparr>fl_pending := y, fl_next := n\<rparr>) j k ch = leads f j k ch"
  "waits (f\<lparr>fl_pending := y, fl_next := n\<rparr>) j k ch = waits f j k ch"
  by (simp_all add: leads_def waits_def release_def)

lemma flight_fields [simp]:
  "fl_pending (set_pc i c pc f) = fl_pending f" "fl_closed (set_pc i c pc f) = fl_closed f"
  "fl_next (set_pc i c pc f) = fl_next f" "fl_cache (set_pc i c pc f) = fl_cache f"
  "fl_pending (release k f) = (fl_pending f)(k := None)"
  "fl_closed (release k f) = fl_closed f \<union> set_option (fl_pending f k)" "fl_next (release k f) = fl_next f"
  by (simp_all add: set_pc_def release_def)

lemma flight_invD:
  assumes "flight_inv f"
  shows "leads f i k ch \<Longrightarrow> fl_pending f k = Some ch"
    "fl_pending f k = Some ch \<Longrightarrow> \<exists>i. leads f i k ch"
    "leads f i k ch \<Longrightarrow> leads f j k ch \<Longrightarrow> i = j"
    "fl_pending f k = Some ch \<Longrightarrow> ch \<notin> fl_closed f \<and> ch < fl_next f"
    "ch \<in> fl_closed f \<Longrightarrow> ch < fl_next f"
    "fl_pending f k = Some ch \<Longrightarrow> fl_pending f k' = Some ch \<Longrightarrow> k = k'"
    "waits f i k ch \<Longrightarrow> ch \<in> fl_closed f \<or> fl_pending f k = Some ch"
  using assms unfolding flight_inv_def by blast+

lemma flight_invI:
  assumes "\<And>i k ch. leads f i k ch \<Longrightarrow> fl_pending f k = Some ch"
    "\<And>k ch. fl_pending f k = Some ch \<Longrightarrow> \<exists>i. leads f i k ch"
    "\<And>i j k ch. leads f i k ch \<Longrightarrow> leads f j k ch \<Longrightarrow> i = j"
    "\<And>k ch. fl_pending f k = Some ch \<Longrightarrow> ch \<notin> fl_closed f \<and> ch < fl_next f"
    "\<And>ch. ch \<in> fl_closed f \<Longrightarrow> ch < fl_next f"
    "\<And>k k' ch. fl_pending f k = Some ch \<Longrightarrow> fl_pending f k' = Some ch \<Longrightarrow> k = k'"
    "\<And>i k ch. waits f i k ch \<Longrightarrow> ch \<in> fl_closed f \<or> fl_pending f k = Some ch"
  shows "flight_inv f"
  using assms unfolding flight_inv_def by blast

text \<open>A step that keeps the leaders and the pending channels.\<close>

lemma inv_same:
  assumes "flight_inv f" "\<And>j k ch. leads g j k ch = leads f j k ch"
    "\<And>j k ch. waits g j k ch \<Longrightarrow> waits f j k ch \<or> fl_pending f k = Some ch"
    "fl_pending g = fl_pending f" "fl_closed g = fl_closed f" "fl_next g = fl_next f"
  shows "flight_inv g"
proof (rule flight_invI)
  note D = flight_invD [OF assms(1)]
  show "ch \<in> fl_closed g \<or> fl_pending g k = Some ch" if "waits g j k ch" for j k ch
    using assms(3) [OF that] D(7) assms(4,5) by auto
  show "i = j" if "leads g i k ch" "leads g j k ch" for i j k ch using that D(3) assms(2) by simp
  show "k = k'" if "fl_pending g k = Some ch" "fl_pending g k' = Some ch" for k k' ch
    using that D(6) assms(4) by simp
qed (use assms(2,4-6) flight_invD(1,2,4,5) [OF assms(1)] in simp_all)

lemma inv_idle:
  assumes "flight_inv f" "fl_calls f i = Some c" "\<forall>ch s. cl_pc c \<noteq> Leading ch \<and> cl_pc c \<noteq> Storing ch s"
    "\<forall>ch s. pc \<noteq> Leading ch \<and> pc \<noteq> Storing ch s" "\<forall>ch. pc = Waiting ch \<longrightarrow> fl_pending f (cl_key c) = Some ch"
  shows "flight_inv (set_pc i c pc f)"
proof (rule inv_same [OF assms(1)])
  have "\<not> leads f i k ch" for k ch using assms(2,3) by (simp add: leads_def)
  then show "leads (set_pc i c pc f) j k ch = leads f j k ch" for j k ch
    using assms(4) by (simp add: leads_set_pc)
  show "waits (set_pc i c pc f) j k ch \<Longrightarrow> waits f j k ch \<or> fl_pending f k = Some ch" for j k ch
    using assms(5) by (auto simp: leads_set_pc split: if_splits)
qed simp_all

lemma inv_release:
  assumes inv: "flight_inv f" and lead: "leads f i (cl_key c) ch"
    and pc: "\<forall>ch s. pc \<noteq> Leading ch \<and> pc \<noteq> Storing ch s \<and> pc \<noteq> Waiting ch"
  shows "flight_inv (set_pc i c pc (release (cl_key c) f))" (is "flight_inv ?g")
proof -
  note D = flight_invD [OF inv]
  have p: "fl_pending f (cl_key c) = Some ch" using D(1) lead .
  have L: "leads ?g j k ch' \<longleftrightarrow> j \<noteq> i \<and> leads f j k ch'" for j k ch'
    using pc by (simp add: leads_set_pc leads_frame)
  have other: "k \<noteq> cl_key c" if "leads f j k ch'" "j \<noteq> i" for j k ch'
  proof
    assume "k = cl_key c"
    with that(1) D(1) p have "leads f j (cl_key c) ch" by fastforce
    with D(3) lead that(2) show False by blast
  qed
  have W: "waits ?g j k ch' \<Longrightarrow> waits f j k ch'" for j k ch'
    using pc by (simp add: leads_set_pc leads_frame split: if_splits)
  have P: "fl_pending ?g k = Some ch' \<longleftrightarrow> k \<noteq> cl_key c \<and> fl_pending f k = Some ch'" for k ch' by auto
  have C: "ch' \<in> fl_closed ?g \<longleftrightarrow> ch' \<in> fl_closed f \<or> ch' = ch" for ch' using p by auto
  show ?thesis
  proof (rule flight_invI)
    show "fl_pending ?g k = Some ch'" if "leads ?g j k ch'" for j k ch'
      using that L other D(1) P [of k ch'] by (metis (no_types))
    show "\<exists>j. leads ?g j k ch'" if a: "fl_pending ?g k = Some ch'" for k ch'
    proof -
      obtain j where j: "leads f j k ch'" using a P D(2) by blast
      moreover have "j \<noteq> i" using j lead a P by (auto simp: leads_def)
      ultimately show ?thesis using L by blast
    qed
    show "ch' \<in> fl_closed ?g \<or> fl_pending ?g k = Some ch'" if "waits ?g j k ch'" for j k ch'
    proof (cases "k = cl_key c")
      case True
      with D(7) [OF W [OF that]] p have "ch' \<in> fl_closed f \<or> ch' = ch" by auto
      with C [of ch'] show ?thesis by blast
    next
      case False
      with D(7) [OF W [OF that]] C [of ch'] P [of k ch'] show ?thesis by blast
    qed
    show "j = j'" if "leads ?g j k ch'" "leads ?g j' k ch'" for j j' k ch'
      using that unfolding L by (blast intro: D(3))
    show "ch' \<notin> fl_closed ?g \<and> ch' < fl_next ?g" if "fl_pending ?g k = Some ch'" for k ch'
    proof -
      from that have "k \<noteq> cl_key c" "fl_pending f k = Some ch'" unfolding P by blast+
      moreover from this D(6) p have "ch' \<noteq> ch" by blast
      ultimately show ?thesis using D(4) p by simp
    qed
    show "ch' < fl_next ?g" if "ch' \<in> fl_closed ?g" for ch'
      using that C [of ch'] D(5) D(4) [OF p] by auto
    show "k = k'" if "fl_pending ?g k = Some ch'" "fl_pending ?g k' = Some ch'" for k k' ch'
      using that unfolding P by (blast intro: D(6))
  qed
qed

lemma inv_lead:
  assumes inv: "flight_inv f" and call: "fl_calls f i = Some c" "cl_pc c = Checking"
    and none: "fl_pending f (cl_key c) = None"
  shows "flight_inv (set_pc i c (Leading (fl_next f))
    (f\<lparr>fl_pending := (fl_pending f)(cl_key c \<mapsto> fl_next f), fl_next := Suc (fl_next f)\<rparr>))" (is "flight_inv ?g")
proof -
  note D = flight_invD [OF inv]
  have idle: "\<not> leads f i k ch" for k ch using call by (simp add: leads_def)
  have L: "leads ?g j k ch \<longleftrightarrow> (if j = i then k = cl_key c \<and> ch = fl_next f else leads f j k ch)" for j k ch
    by (auto simp: leads_set_pc leads_frame)
  have W: "waits ?g j k ch \<Longrightarrow> waits f j k ch" for j k ch
    by (simp add: leads_set_pc leads_frame split: if_splits)
  have no: "\<not> leads f j (cl_key c) ch" for j ch using D(1) none by fastforce
  have P: "fl_pending ?g k = (if k = cl_key c then Some (fl_next f) else fl_pending f k)" for k by simp
  have N: "fl_next ?g = Suc (fl_next f)" "fl_closed ?g = fl_closed f" by simp_all
  have fresh: "fl_pending f k \<noteq> Some (fl_next f)" "fl_next f \<notin> fl_closed f" for k
    using D(4,5) by (metis less_irrefl)+
  show ?thesis
  proof (rule flight_invI)
    show "fl_pending ?g k = Some ch" if "leads ?g j k ch" for j k ch
      using that L [of j k ch] P [of k] D(1) no by (auto split: if_splits)
    show "\<exists>j. leads ?g j k ch" if a: "fl_pending ?g k = Some ch" for k ch
    proof (cases "k = cl_key c")
      case True
      with a P L show ?thesis by (intro exI [of _ i]) simp
    next
      case False
      with a P obtain j where "leads f j k ch" using D(2) by fastforce
      with idle L show ?thesis by (intro exI [of _ j]) auto
    qed
    show "j = j'" if "leads ?g j k ch" "leads ?g j' k ch" for j j' k ch
      using that L [of j k ch] L [of j' k ch] D(3) no by (auto split: if_splits)
    show "ch \<notin> fl_closed ?g \<and> ch < fl_next ?g" if "fl_pending ?g k = Some ch" for k ch
      using that P [of k] N D(4) fresh by (auto split: if_splits intro: less_SucI)
    show "ch < fl_next ?g" if "ch \<in> fl_closed ?g" for ch using that N D(5) by (auto intro: less_SucI)
    show "k = k'" if "fl_pending ?g k = Some ch" "fl_pending ?g k' = Some ch" for k k' ch
      using that P [of k] P [of k'] fresh D(6) by (auto split: if_splits)
    show "ch \<in> fl_closed ?g \<or> fl_pending ?g k = Some ch" if "waits ?g j k ch" for j k ch
      using D(7) [OF W [OF that]] N P [of k] none by auto
  qed
qed

lemma flight_step_inv: "flight_step f g \<Longrightarrow> flight_inv f \<Longrightarrow> flight_inv g"
proof (induction rule: flight_step.induct)
  case (arrive f i c)
  show ?case
    by (rule inv_same [OF arrive.prems]) (use arrive.hyps in \<open>auto simp: leads_def waits_def split: if_splits\<close>)
next
  case (lead f i c now)
  then show ?case by (intro inv_lead)
next
  case (store f i c ch entry s)
  show ?case
  proof (rule inv_same [OF store.prems])
    have "leads f i k ch' \<longleftrightarrow> k = cl_key c \<and> ch' = ch" for k ch' using store.hyps by (auto simp: leads_def)
    then show "leads (set_pc i c (Storing ch s) (f\<lparr>fl_cache := (fl_cache f)(cl_key c \<mapsto> entry)\<rparr>)) j k ch' = leads f j k ch'"
      for j k ch' by (auto simp: leads_set_pc leads_frame)
  qed (auto simp: leads_set_pc leads_frame split: if_splits)
next
  case (fail f i c ch e)
  then show ?case by (intro inv_release [where ch = ch]) (auto simp: leads_def)
next
  case (finish f i c ch s)
  then show ?case by (intro inv_release [where ch = ch]) (auto simp: leads_def)
qed (auto intro!: inv_idle)

lemma flight_start_inv: "flight_inv flight_start"
  by (simp add: flight_inv_def flight_start_def leads_def waits_def)

lemma flight_reachable_inv: "flight_reachable f \<Longrightarrow> flight_inv f"
  unfolding flight_reachable_def by (induction rule: rtranclp_induct) (simp_all add: flight_start_inv flight_step_inv)

text \<open>C27. Settings are discovered once at a time and no caller is forgotten: in every state that any interleaving
  of callers can reach, at most one caller leads the discovery of a key, and every caller that waits
  either waits on a closed channel, so that it can go on, or some caller leads its key and holds
  that very channel, which it closes when it returns.\<close>

theorem settings_single_flight:
  assumes "flight_reachable f"
  shows "(\<forall>i j k ch ch'. leads f i k ch \<longrightarrow> leads f j k ch' \<longrightarrow> i = j) \<and>
    (\<forall>i k ch. waits f i k ch \<longrightarrow> ch \<in> fl_closed f \<or> (\<exists>j. leads f j k ch))"
proof -
  note D = flight_invD [OF flight_reachable_inv [OF assms]]
  have "i = j" if "leads f i k ch" "leads f j k ch'" for i j k ch ch'
  proof -
    have "ch = ch'" using D(1) [OF that(1)] D(1) [OF that(2)] by simp
    with D(3) that show ?thesis by blast
  qed
  with D(2,7) show ?thesis by blast
qed

text \<open>Two callers of one key: the first leads, the second waits.\<close>

definition sample_call :: call where
  "sample_call = \<lparr>cl_key = ''zone/z/ds'', cl_scope = zone_scope, cl_refresh = False, cl_pc = Checking\<rparr>"

definition sample_flight :: flight where
  "sample_flight = \<lparr>fl_cache = Map.empty, fl_pending = [''zone/z/ds'' \<mapsto> 0], fl_closed = {}, fl_next = 1,
     fl_calls = [0 \<mapsto> sample_call\<lparr>cl_pc := Leading 0\<rparr>, 1 \<mapsto> sample_call\<lparr>cl_pc := Waiting 0\<rparr>]\<rparr>"

lemma sample_flight_reachable: "flight_reachable sample_flight"
proof -
  let ?f1 = "flight_start\<lparr>fl_calls := [0 \<mapsto> sample_call]\<rparr>"
  let ?f2 = "?f1\<lparr>fl_calls := [0 \<mapsto> sample_call, 1 \<mapsto> sample_call]\<rparr>"
  let ?f3 = "set_pc 0 sample_call (Leading 0) (?f2\<lparr>fl_pending := [''zone/z/ds'' \<mapsto> 0], fl_next := 1\<rparr>)"
  have "flight_step flight_start ?f1"
    using arrive [of flight_start 0 sample_call] by (simp add: flight_start_def sample_call_def)
  moreover have "flight_step ?f1 ?f2"
    using arrive [of ?f1 1 sample_call] by (simp add: flight_start_def sample_call_def)
  moreover have "flight_step ?f2 ?f3"
    using lead [of ?f2 0 sample_call 0] by (simp add: flight_start_def sample_call_def fresh_entry_def)
  moreover have "flight_step ?f3 sample_flight"
    using wait [of ?f3 1 sample_call 0 0]
    by (simp add: flight_start_def sample_call_def fresh_entry_def set_pc_def sample_flight_def)
  ultimately have "flight_step\<^sup>*\<^sup>* flight_start sample_flight"
    by (meson converse_rtranclp_into_rtranclp rtranclp.rtrancl_refl)
  then show ?thesis by (simp add: flight_reachable_def)
qed

theorem settings_single_flight_witness:
  "waits sample_flight 1 ''zone/z/ds'' 0 \<and> (\<exists>j. leads sample_flight j ''zone/z/ds'' 0)"
proof -
  have "waits sample_flight 1 ''zone/z/ds'' 0" by (simp add: waits_def sample_flight_def sample_call_def)
  moreover have "0 \<notin> fl_closed sample_flight" by (simp add: sample_flight_def)
  ultimately show ?thesis using settings_single_flight [OF sample_flight_reachable] by blast
qed

end
