(* ===== verification/OtelEmitter.thy ===== *)
theory OtelEmitter
  imports DenyFilter ExportObserver LogBatch
begin

text \<open>
  The native emitter over the OpenTelemetry SDK, \<open>internal/telemetry/emitter.go\<close>, and the export
  pipelines \<open>internal/telemetry/provider.go\<close> builds around it: log records go synchronously through
  the log batcher and the export observer, spans and measurements go to SDK processors that
  export in their own time.

  The SDK is not part of the repository: it is the record \<open>sdk\<close> of functions on an arbitrary state
  \<open>'x\<close> (its batch processors, the network, the clock, whatever other goroutines do). A call may
  complete any number of exports; their outcomes pass through the observer. The state keeps the
  calls made on the SDK and the outcomes seen so far, so that deliveries can be stated.
\<close>

datatype instrument = GaugeInstrument | CounterInstrument | HistogramInstrument

record log_call =
  lc_at :: time
  lc_severity :: int
  lc_body :: string
  lc_attrs :: "attr list"
  lc_in_span :: bool

record span_call =
  sc_name :: string
  sc_start :: time
  sc_end :: time
  sc_kind :: int
  sc_attrs :: "attr list"
  sc_links :: "link list"
  sc_events :: "span_event list"
  sc_error :: "string option"

datatype sdk_call =
    Measure instrument string f64 "attr list"
  | EmitLog log_call
  | EndSpan span_call

type_synonym outcome = "string \<times> gerr option"

record 'x sdk =
  meter_new :: "instrument \<Rightarrow> string \<Rightarrow> 'x \<Rightarrow> 'x \<times> gerr option"
  sdk_step :: "sdk_call \<Rightarrow> 'x \<Rightarrow> 'x \<times> outcome list"
  timer_due :: "'x \<Rightarrow> bool"
  log_export :: "nat \<Rightarrow> sdk_log list \<Rightarrow> gerr option"
  sdk_flush :: "'x \<Rightarrow> 'x \<times> outcome list \<times> gerr option \<times> gerr option"

record 'x provider =
  pv_gauges :: "string list"
  pv_counters :: "string list"
  pv_histograms :: "string list"
  pv_calls :: "sdk_call list"
  pv_batch :: log_batcher
  pv_outcomes :: "outcome list"
  pv_observer :: export_observer
  pv_world :: 'x

definition new_provider :: "'x \<Rightarrow> 'x provider" where
  "new_provider x = \<lparr>pv_gauges = [], pv_counters = [], pv_histograms = [], pv_calls = [],
     pv_batch = \<lparr>lb_pending = [], lb_bytes = 0, lb_calls = []\<rparr>, pv_outcomes = [],
     pv_observer = new_observer, pv_world = x\<rparr>"

subsection \<open>Exports\<close>

text \<open>Each export passes the observing exporter, which sanitises its outcome and records it.\<close>

fun observe_exports :: "outcome list \<Rightarrow> export_observer \<Rightarrow> export_observer" where
  "observe_exports [] ob = ob"
| "observe_exports ((signal, r) # rs) ob = observe_exports rs (fst (observed_export signal r ob))"

definition note_outcomes :: "outcome list \<Rightarrow> 'x provider \<Rightarrow> 'x provider" where
  "note_outcomes outs p =
     p\<lparr>pv_outcomes := pv_outcomes p @ outs, pv_observer := observe_exports outs (pv_observer p)\<rparr>"

text \<open>An operation on the log batcher, whose exporter is the observed one.\<close>

definition on_batch ::
  "'x sdk \<Rightarrow> (exporter \<Rightarrow> log_batcher \<Rightarrow> log_batcher \<times> gerr option) \<Rightarrow>
   'x provider \<Rightarrow> 'x provider \<times> gerr option" where
  "on_batch k f p =
     (case f (\<lambda>n b. safe_export_error (log_export k n b)) (pv_batch p) of
        (b', r) \<Rightarrow>
          (let made = drop (length (lb_calls (pv_batch p))) (lb_calls b');
               outs = map (\<lambda>(i, batch, _). (''logs'', log_export k i batch))
                        (enumerate (length (lb_calls (pv_batch p))) made)
           in (note_outcomes outs (p\<lparr>pv_batch := b'\<rparr>), r)))"

text \<open>A call on the SDK. The batcher's timer may fire before it; a log record is handed to the
  batcher by the simple processor, whose caller does not see the outcome.\<close>

definition sdk_log_of :: "log_call \<Rightarrow> sdk_log" where
  "sdk_log_of c = \<lparr>sl_body = lc_body c, sl_attrs = map (\<lambda>a. (key a, val a)) (lc_attrs c)\<rparr>"

definition timer_tick :: "'x sdk \<Rightarrow> 'x provider \<Rightarrow> 'x provider" where
  "timer_tick k p = (if timer_due k (pv_world p) then fst (on_batch k flush_locked p) else p)"

definition sdk_do :: "'x sdk \<Rightarrow> sdk_call \<Rightarrow> 'x provider \<Rightarrow> 'x provider" where
  "sdk_do k c p =
     (let p1 = timer_tick k p;
          p2 = (case c of EmitLog l \<Rightarrow> fst (on_batch k (\<lambda>ex. export_logs ex [sdk_log_of l]) p1)
                        | _ \<Rightarrow> p1)
      in case sdk_step k c (pv_world p2) of
           (x, outs) \<Rightarrow> note_outcomes outs (p2\<lparr>pv_calls := pv_calls p2 @ [c], pv_world := x\<rparr>))"

subsection \<open>The emitter\<close>

definition attr_event_name :: string where
  "attr_event_name = ''event_name''"

text \<open>The instrument caches of \<open>Gauge\<close>, \<open>Counter\<close> and \<open>Histogram\<close>: an instrument is created on
  first use and kept; a failed creation is returned and tried again next time.\<close>

fun cached :: "instrument \<Rightarrow> 'x provider \<Rightarrow> string list" where
  "cached GaugeInstrument p = pv_gauges p"
| "cached CounterInstrument p = pv_counters p"
| "cached HistogramInstrument p = pv_histograms p"

fun cache_instrument :: "instrument \<Rightarrow> string \<Rightarrow> 'x provider \<Rightarrow> 'x provider" where
  "cache_instrument GaugeInstrument n p = p\<lparr>pv_gauges := n # pv_gauges p\<rparr>"
| "cache_instrument CounterInstrument n p = p\<lparr>pv_counters := n # pv_counters p\<rparr>"
| "cache_instrument HistogramInstrument n p = p\<lparr>pv_histograms := n # pv_histograms p\<rparr>"

definition otel_measure ::
  "'x sdk \<Rightarrow> instrument \<Rightarrow> string \<Rightarrow> f64 \<Rightarrow> attr list \<Rightarrow> 'x provider \<Rightarrow> 'x provider \<times> gerr option" where
  "otel_measure k i n v a p =
     (if List.member (cached i p) n then (sdk_do k (Measure i n v (otel_attrs a)) p, None)
      else
        (case meter_new k i n (pv_world p) of
           (x, Some e) \<Rightarrow> (p\<lparr>pv_world := x\<rparr>, Some e)
         | (x, None) \<Rightarrow>
             (sdk_do k (Measure i n v (otel_attrs a)) (cache_instrument i n (p\<lparr>pv_world := x\<rparr>)), None)))"

definition event_name_attr :: "deny_policy option \<Rightarrow> string \<Rightarrow> attr list" where
  "event_name_attr pol event =
     (if deny_attribute pol attr_event_name then []
      else [\<lparr>key = attr_event_name, val = valid_utf8 event\<rparr>])"

definition log_call_of ::
  "deny_policy option \<Rightarrow> bool \<Rightarrow> string \<Rightarrow> string \<Rightarrow> time \<Rightarrow> int \<Rightarrow> attr list \<Rightarrow> log_call" where
  "log_call_of pol in_span event body t severity a =
     \<lparr>lc_at = t, lc_severity = severity, lc_body = valid_utf8 body,
      lc_attrs = event_name_attr pol event @ otel_attrs a, lc_in_span = in_span\<rparr>"

definition otel_log ::
  "'x sdk \<Rightarrow> deny_policy option \<Rightarrow> bool \<Rightarrow> string \<Rightarrow> string \<Rightarrow> time \<Rightarrow> int \<Rightarrow> attr list \<Rightarrow>
   'x provider \<Rightarrow> 'x provider \<times> gerr option" where
  "otel_log k pol in_span event body t severity a p =
     (if t = 0 then (p, Some ErrMissingTimestamp)
      else (sdk_do k (EmitLog (log_call_of pol in_span event body t severity a)) p, None))"

text \<open>The loop that emits a span's log records in the span's context.\<close>

fun otel_logs ::
  "'x sdk \<Rightarrow> deny_policy option \<Rightarrow> log_record list \<Rightarrow> 'x provider \<Rightarrow> 'x provider \<times> gerr option" where
  "otel_logs k pol [] p = (p, None)"
| "otel_logs k pol (r # rs) p =
     (case otel_log k pol True (lr_name r) (lr_body r) (lr_at r) (lr_severity r) (lr_attrs r) p of
        (p', Some e) \<Rightarrow> (p', Some e)
      | (p', None) \<Rightarrow> otel_logs k pol rs p')"

text \<open>An event without a time takes the start of its span; an error's text is repaired.\<close>

definition otel_event :: "time \<Rightarrow> span_event \<Rightarrow> span_event" where
  "otel_event start ev =
     \<lparr>ev_name = valid_utf8 (ev_name ev), ev_at = (if ev_at ev = 0 then start else ev_at ev),
      ev_attrs = otel_attrs (ev_attrs ev)\<rparr>"

definition span_call_of :: "span_spec \<Rightarrow> span_call" where
  "span_call_of s =
     \<lparr>sc_name = valid_utf8 (sp_name s), sc_start = sp_start s, sc_end = sp_end s,
      sc_kind = sp_kind s, sc_attrs = otel_attrs (sp_attrs s), sc_links = sp_links s,
      sc_events = map (otel_event (sp_start s)) (sp_events s),
      sc_error = map_option (\<lambda>e. valid_utf8 (err_text e)) (sp_error s)\<rparr>"

definition otel_span ::
  "'x sdk \<Rightarrow> deny_policy option \<Rightarrow> span_spec \<Rightarrow> 'x provider \<Rightarrow> 'x provider \<times> gerr option" where
  "otel_span k pol s p =
     (if sp_start s = 0 \<or> sp_end s = 0 then (p, Some ErrMissingTimestamp)
      else if sp_end s < sp_start s then (p, Some (ErrNew ''span end before start''))
      else if list_ex (\<lambda>r. lr_at r = 0) (sp_logs s) then (p, Some ErrMissingTimestamp)
      else otel_logs k pol (sp_logs s) (sdk_do k (EndSpan (span_call_of s)) p))"

fun otel_emit :: "'x sdk \<Rightarrow> deny_policy option \<Rightarrow> 'x provider emit" where
  "otel_emit k pol p (EGauge n v a) = otel_measure k GaugeInstrument n v a p"
| "otel_emit k pol p (ECounter n v a) = otel_measure k CounterInstrument n v a p"
| "otel_emit k pol p (EHistogram n v a) = otel_measure k HistogramInstrument n v a p"
| "otel_emit k pol p (ELogEvent event body t severity a) =
     otel_log k pol False event body t severity a p"
| "otel_emit k pol p (ESpan s) = otel_span k pol s p"

subsection \<open>What reaches the SDK\<close>

text \<open>The calls an accepted emission makes, in order.\<close>

fun otel_calls :: "deny_policy option \<Rightarrow> emission \<Rightarrow> sdk_call list" where
  "otel_calls pol (EGauge n v a) = [Measure GaugeInstrument n v (otel_attrs a)]"
| "otel_calls pol (ECounter n v a) = [Measure CounterInstrument n v (otel_attrs a)]"
| "otel_calls pol (EHistogram n v a) = [Measure HistogramInstrument n v (otel_attrs a)]"
| "otel_calls pol (ELogEvent event body t severity a) =
     [EmitLog (log_call_of pol False event body t severity a)]"
| "otel_calls pol (ESpan s) =
     EndSpan (span_call_of s)
     # map (\<lambda>r. EmitLog (log_call_of pol True (lr_name r) (lr_body r) (lr_at r) (lr_severity r)
              (lr_attrs r))) (sp_logs s)"

text \<open>A call read back as the emission it stands for.\<close>

fun call_emission :: "sdk_call \<Rightarrow> emission" where
  "call_emission (Measure GaugeInstrument n v a) = EGauge n v a"
| "call_emission (Measure CounterInstrument n v a) = ECounter n v a"
| "call_emission (Measure HistogramInstrument n v a) = EHistogram n v a"
| "call_emission (EmitLog l) = ELogEvent [] (lc_body l) (lc_at l) (lc_severity l) (lc_attrs l)"
| "call_emission (EndSpan s) =
     ESpan \<lparr>sp_name = sc_name s, sp_start = sc_start s, sp_end = sc_end s, sp_kind = sc_kind s,
            sp_links = sc_links s, sp_events = sc_events s, sp_logs = [], sp_attrs = sc_attrs s,
            sp_error = map_option ErrNew (sc_error s)\<rparr>"

definition otel_recs :: "'x provider \<Rightarrow> emission list" where
  "otel_recs p = filter is_record (map call_emission (pv_calls p))"

definition otel_mets :: "'x provider \<Rightarrow> emission list" where
  "otel_mets p = filter (\<lambda>e. is_metric e) (map call_emission (pv_calls p))"

definition otel_view :: "deny_policy option \<Rightarrow> emission \<Rightarrow> emission list" where
  "otel_view pol e = map call_emission (otel_calls pol e)"

lemma note_outcomes_simps [simp]:
  "pv_calls (note_outcomes outs p) = pv_calls p" "pv_batch (note_outcomes outs p) = pv_batch p"
  "pv_world (note_outcomes outs p) = pv_world p"
  "pv_outcomes (note_outcomes outs p) = pv_outcomes p @ outs"
  "pv_observer (note_outcomes outs p) = observe_exports outs (pv_observer p)"
  by (simp_all add: note_outcomes_def)

lemma on_batch_calls: "on_batch k f p = (p', r) \<Longrightarrow> pv_calls p' = pv_calls p"
  by (auto simp: on_batch_def Let_def split: prod.splits)

lemma on_batch_calls_fst [simp]: "pv_calls (fst (on_batch k f p)) = pv_calls p"
  by (metis on_batch_calls prod.collapse)

lemma timer_tick_calls [simp]: "pv_calls (timer_tick k p) = pv_calls p"
  by (simp add: timer_tick_def)

lemma sdk_do_calls [simp]: "pv_calls (sdk_do k c p) = pv_calls p @ [c]"
  by (auto simp: sdk_do_def Let_def split: prod.splits sdk_call.splits)

lemma cache_instrument_calls [simp]: "pv_calls (cache_instrument i n p) = pv_calls p"
  by (cases i) simp_all

lemma otel_logs_calls:
  "list_all (\<lambda>r. lr_at r \<noteq> 0) rs \<Longrightarrow>
   snd (otel_logs k pol rs p) = None \<and>
   pv_calls (fst (otel_logs k pol rs p)) = pv_calls p @ map (\<lambda>r. EmitLog (log_call_of pol True (lr_name r) (lr_body r) (lr_at r)
       (lr_severity r) (lr_attrs r))) rs"
  by (induction rs arbitrary: p) (auto simp: otel_log_def)

text \<open>An accepted emission makes exactly its calls; a failed one makes none.\<close>

lemma otel_emit_calls:
  assumes "otel_emit k pol p e = (p', r)"
  shows "pv_calls p' = pv_calls p @ (if r = None then otel_calls pol e else [])"
proof (cases e)
  case (ESpan s)
  show ?thesis
  proof (cases "list_ex (\<lambda>r. lr_at r = 0) (sp_logs s)")
    case False
    then have "list_all (\<lambda>r. lr_at r \<noteq> 0) (sp_logs s)" by (simp add: list_ex_iff list_all_iff)
    from otel_logs_calls [OF this, of k pol "sdk_do k (EndSpan (span_call_of s)) p"] assms ESpan
    show ?thesis by (auto simp: otel_span_def split: if_splits)
  qed (use assms ESpan in \<open>auto simp: otel_span_def split: if_splits\<close>)
qed (use assms in \<open>auto simp: otel_measure_def otel_log_def split: if_splits prod.splits option.splits\<close>)

interpretation otel: emitter "otel_emit k pol" otel_recs otel_mets "otel_view pol" for k pol
  by unfold_locales
    (auto dest!: otel_emit_calls simp: otel_recs_def otel_mets_def otel_view_def)

end
