(* ===== verification/Pipeline.thy ===== *)
theory Pipeline
  imports OtelEmitter Commit
begin

text \<open>
  The telemetry provider as a commit sees it, \<open>internal/telemetry/provider.go\<close>: its emitter is the
  native emitter behind the deny policy, \<open>BeginCommit\<close> reads the export observer and \<open>FlushCommit\<close>
  flushes both source pipelines. \<open>provider_env\<close> puts it into the scheduler's environment, and the
  locale \<open>commit_target\<close> of \<open>Commit\<close> is interpreted on it. \<open>delivers\<close> follows the log records from
  the emitter through the batcher to the exporter's acknowledgement.
\<close>

definition provider_emitter :: "'x sdk \<Rightarrow> deny_policy option \<Rightarrow> 'x provider emit" where
  "provider_emitter k pol =
     (case pol of None \<Rightarrow> otel_emit k None | Some q \<Rightarrow> filtered_emit q (otel_emit k (Some q)))"

definition provider_begin :: "'x provider \<Rightarrow> 'x provider \<times> 64 word" where
  "provider_begin p = (p, observer_snapshot (pv_observer p))"

definition provider_flush ::
  "'x sdk \<Rightarrow> 'x provider \<Rightarrow> 64 word \<Rightarrow> 'x provider \<times> gerr option" where
  "provider_flush k p since =
     (case sdk_flush k (pv_world p) of
        (x, outs, inner_err, trace_err) \<Rightarrow>
          (case on_batch k (\<lambda>ex. force_flush ex inner_err) p of
             (p1, log_err) \<Rightarrow>
               (let p2 = note_outcomes outs (p1\<lparr>pv_world := x\<rparr>)
                in (p2, flush_commit log_err trace_err since (pv_observer p2)))))"

definition provider_env :: "'x sdk \<Rightarrow> deny_policy option \<Rightarrow> 'x provider env \<Rightarrow> 'x provider env" where
  "provider_env k pol base =
     base\<lparr>emitter_of := Some (provider_emitter k pol),
          flusher := Some (provider_begin, provider_flush k)\<rparr>"

definition provider_calls :: "deny_policy option \<Rightarrow> emission \<Rightarrow> sdk_call list" where
  "provider_calls pol e =
     (case pol of
        None \<Rightarrow> otel_calls None e
      | Some q \<Rightarrow> concat (map (otel_calls (Some q)) (deny_view q e)))"

definition provider_view :: "deny_policy option \<Rightarrow> emission \<Rightarrow> emission list" where
  "provider_view pol e = map call_emission (provider_calls pol e)"

lemma provider_env_simps [simp]:
  "emitter_of (provider_env k pol base) = Some (provider_emitter k pol)"
  "flusher (provider_env k pol base) = Some (provider_begin, provider_flush k)"
  by (simp_all add: provider_env_def)

interpretation prov: emitter "provider_emitter k pol" otel_recs otel_mets "provider_view pol" for k pol
proof (cases pol)
  case None
  have "provider_view None = otel_view None"
    by (simp add: fun_eq_iff provider_view_def provider_calls_def otel_view_def)
  with otel.emitter_axioms None
  show "emitter (provider_emitter k pol) otel_recs otel_mets (provider_view pol)"
    by (simp add: provider_emitter_def)
next
  case (Some q)
  have "provider_view (Some q) = (\<lambda>e. concat (map (otel_view (Some q)) (deny_view q e)))"
    by (simp add: fun_eq_iff provider_view_def provider_calls_def otel_view_def [abs_def] map_concat
        comp_def)
  with otel.filtered_emitter_view [where q = q and pol = "Some q"] Some
  show "emitter (provider_emitter k pol) otel_recs otel_mets (provider_view pol)"
    by (simp add: provider_emitter_def)
qed

lemma provider_flush_calls [simp]: "pv_calls (fst (provider_flush k p since)) = pv_calls p"
  by (auto simp: provider_flush_def Let_def dest: on_batch_calls split: prod.splits)

lemma otel_recs_cong: "pv_calls p = pv_calls p' \<Longrightarrow> otel_recs p = otel_recs p' \<and> otel_mets p = otel_mets p'"
  by (simp add: otel_recs_def otel_mets_def)

interpretation provider: commit_target "provider_emitter k pol" otel_recs otel_mets "provider_view pol"
  "provider_env k pol base" for k pol base
proof
  show "emitter_of (provider_env k pol base) = Some (provider_emitter k pol)" by simp
next
  fix w
  show "otel_recs (fst (begin_commit (provider_env k pol base) w)) = otel_recs w \<and>
      otel_mets (fst (begin_commit (provider_env k pol base) w)) = otel_mets w"
    by (simp add: begin_commit_def provider_begin_def)
next
  fix st st' r
  assume run: "commit_flush (provider_env k pol base) st = (st', r)"
  obtain w seq where st: "st = (w, seq)" by (cases st)
  obtain w1 e where f: "provider_flush k w seq = (w1, e)" by (cases "provider_flush k w seq") auto
  with run st have "fst st' = w1" by (auto simp: commit_flush_def provider_begin_def)
  moreover from f have "pv_calls w1 = pv_calls w" by (metis fst_conv provider_flush_calls)
  ultimately show "otel_recs (fst st') = otel_recs (fst st) \<and> otel_mets (fst st') = otel_mets (fst st)"
    using st by (intro otel_recs_cong) simp
qed

subsection \<open>From the emitter to the acknowledgement\<close>

lemma safe_export_error_None [simp]: "safe_export_error r = None \<longleftrightarrow> r = None"
  by (auto simp: safe_export_error_def Let_def split: option.splits)

lemma observe_exports_seq:
  "eo_seq (observe_exports outs ob) = eo_seq ob + of_nat (length (required_failures outs))"
proof (induction outs arbitrary: ob)
  case Nil
  then show ?case by simp
next
  case (Cons x outs)
  obtain s r where x: "x = (s, r)" by (cases x)
  have "safe_export_error r = None \<longleftrightarrow> r = None" by simp
  with Cons.IH [of "fst (observed_export s r ob)"] x show ?case
    by (cases r) (auto simp: observed_export_def observer_record_def Let_def split: option.splits)
qed

text \<open>The calls an operation of the batcher makes on its exporter, each with the outcome the
  exporter gives; an operation that fails made a call that failed.\<close>

definition made_by :: "exporter \<Rightarrow> log_batcher \<Rightarrow> log_batcher \<Rightarrow> gerr option \<Rightarrow> bool" where
  "made_by ex b b' r \<longleftrightarrow>
     (\<exists>made. lb_calls b' = lb_calls b @ made \<and>
       (\<forall>(i, batch, res) \<in> set (enumerate (length (lb_calls b)) made). res = ex i batch) \<and>
       (r \<noteq> None \<longrightarrow> (\<exists>(batch, res) \<in> set made. res \<noteq> None)))"

lemma made_by_refl [simp]: "lb_calls b' = lb_calls b \<Longrightarrow> made_by ex b b' None"
  by (simp add: made_by_def)

lemma made_byE:
  assumes "made_by ex b b' r"
  obtains made where "lb_calls b' = lb_calls b @ made"
    "\<forall>x \<in> set (enumerate (length (lb_calls b)) made). case x of (i, batch, res) \<Rightarrow> res = ex i batch"
    "r \<noteq> None \<longrightarrow> (\<exists>x \<in> set made. case x of (batch, res) \<Rightarrow> res \<noteq> None)"
  using assms unfolding made_by_def by (elim exE conjE) rule

lemma made_by_trans:
  assumes "made_by ex b b1 r1" "made_by ex b1 b2 r2" "r \<noteq> None \<longrightarrow> r1 \<noteq> None \<or> r2 \<noteq> None"
  shows "made_by ex b b2 r"
proof -
  from made_byE [OF assms(1)] obtain m1 where m1: "lb_calls b1 = lb_calls b @ m1"
    "\<forall>x \<in> set (enumerate (length (lb_calls b)) m1). case x of (i, batch, res) \<Rightarrow> res = ex i batch"
    "r1 \<noteq> None \<longrightarrow> (\<exists>x \<in> set m1. case x of (batch, res) \<Rightarrow> res \<noteq> None)" .
  from made_byE [OF assms(2)] obtain m2 where m2: "lb_calls b2 = lb_calls b1 @ m2"
    "\<forall>x \<in> set (enumerate (length (lb_calls b1)) m2). case x of (i, batch, res) \<Rightarrow> res = ex i batch"
    "r2 \<noteq> None \<longrightarrow> (\<exists>x \<in> set m2. case x of (batch, res) \<Rightarrow> res \<noteq> None)" .
  have "\<forall>x \<in> set (enumerate (length (lb_calls b)) (m1 @ m2)). case x of (i, batch, res) \<Rightarrow> res = ex i batch"
    using m1(1,2) m2(2) by (simp add: enumerate_append_eq ball_Un)
  moreover have "r \<noteq> None \<longrightarrow> (\<exists>x \<in> set (m1 @ m2). case x of (batch, res) \<Rightarrow> res \<noteq> None)"
    using m1(3) m2(3) assms(3) by (simp add: bex_Un) blast
  ultimately show ?thesis unfolding made_by_def
    by (intro exI [of _ "m1 @ m2"] conjI) (simp_all add: m1(1) m2(1))
qed

lemma flush_locked_made:
  assumes "flush_locked ex b = (b', r)"
  shows "made_by ex b b' r"
proof (cases "lb_pending b = []")
  case True
  with assms show ?thesis by (simp add: flush_locked_def)
next
  case False
  let ?r = "ex (length (lb_calls b)) (lb_pending b)"
  from False assms have "lb_calls b' = lb_calls b @ [(lb_pending b, ?r)]" "r = ?r"
    by (auto simp: flush_locked_def Let_def)
  then show ?thesis unfolding made_by_def by (intro exI [of _ "[(lb_pending b, ?r)]"]) simp
qed

lemma export_full_made: "export_full ex b = (b', r) \<Longrightarrow> made_by ex b b' r"
  by (auto simp: export_full_def flush_locked_made split: if_splits)

lemma made_by_append [simp]: "made_by ex (append_log x b) b' r = made_by ex b b' r"
  by (simp add: made_by_def append_log_def)

lemma export_one_made:
  assumes "export_one ex x b = (b', r)"
  shows "made_by ex b b' r"
proof -
  let ?full = "lb_pending b \<noteq> [] \<and> (log_batch_items \<le> length (lb_pending b) \<or>
    log_batch_bytes < lb_bytes b + estimated_log_bytes x)"
  obtain b1 e1 where room: "(if ?full then flush_locked ex b else (b, None)) = (b1, e1)"
    by (metis surj_pair)
  then have m1: "made_by ex b b1 e1" by (auto simp: flush_locked_made split: if_splits)
  show ?thesis
  proof (cases e1)
    case None
    with assms room have "made_by ex b1 b' r"
      using export_full_made [of ex "append_log x b1" b' r] by (simp add: export_one_def Let_def)
    from made_by_trans [OF m1 this] show ?thesis by blast
  next
    case (Some e)
    with assms room m1 show ?thesis by (auto simp: export_one_def Let_def)
  qed
qed

lemma export_logs_made: "export_logs ex rs b = (b', r) \<Longrightarrow> made_by ex b b' r"
proof (induction rs arbitrary: b)
  case Nil
  then show ?case by simp
next
  case (Cons x rs)
  obtain b1 e1 where one: "export_one ex x b = (b1, e1)" by (cases "export_one ex x b") auto
  note m1 = export_one_made [OF one]
  show ?case
  proof (cases e1)
    case None
    with Cons.prems one have "export_logs ex rs b1 = (b', r)" by simp
    from made_by_trans [OF m1 Cons.IH [OF this]] show ?thesis by blast
  next
    case (Some e)
    with Cons.prems one m1 show ?thesis by auto
  qed
qed

text \<open>One provider state later: the export outcomes in between, which the observer counted, and the
  calls of the batcher among them. As long as no required export failed, the batcher's calls
  all succeeded and it holds or has delivered everything, the records \<open>new\<close> included.\<close>

definition delivers :: "'x provider \<Rightarrow> 'x provider \<Rightarrow> sdk_log list \<Rightarrow> bool" where
  "delivers p p' new \<longleftrightarrow>
     (\<exists>outs made. pv_outcomes p' = pv_outcomes p @ outs \<and>
       eo_seq (pv_observer p') = eo_seq (pv_observer p) + of_nat (length (required_failures outs)) \<and>
       lb_calls (pv_batch p') = lb_calls (pv_batch p) @ made \<and>
       (batcher_inv (pv_batch p) \<longrightarrow> batcher_inv (pv_batch p')) \<and>
       (batcher_inv (pv_batch p) \<and> required_failures outs = [] \<longrightarrow> (\<forall>x \<in> set made. snd x = None) \<and>
           exported (pv_batch p') @ lb_pending (pv_batch p')
             = exported (pv_batch p) @ lb_pending (pv_batch p) @ new))"

lemma deliversE:
  assumes "delivers p p' new"
  obtains outs made where "pv_outcomes p' = pv_outcomes p @ outs"
    "eo_seq (pv_observer p') = eo_seq (pv_observer p) + of_nat (length (required_failures outs))"
    "lb_calls (pv_batch p') = lb_calls (pv_batch p) @ made"
    "batcher_inv (pv_batch p) \<longrightarrow> batcher_inv (pv_batch p')"
    "batcher_inv (pv_batch p) \<and> required_failures outs = [] \<longrightarrow> (\<forall>x \<in> set made. snd x = None) \<and>
       exported (pv_batch p') @ lb_pending (pv_batch p')
         = exported (pv_batch p) @ lb_pending (pv_batch p) @ new"
  using assms unfolding delivers_def by (elim exE conjE) rule

lemma delivers_refl [simp]: "delivers p p []"
  by (simp add: delivers_def)

lemma delivers_trans:
  assumes "delivers p p1 n1" "delivers p1 p2 n2"
  shows "delivers p p2 (n1 @ n2)"
proof -
  from deliversE [OF assms(1)] obtain o1 m1 where 1: "pv_outcomes p1 = pv_outcomes p @ o1"
    "eo_seq (pv_observer p1) = eo_seq (pv_observer p) + of_nat (length (required_failures o1))"
    "lb_calls (pv_batch p1) = lb_calls (pv_batch p) @ m1"
    "batcher_inv (pv_batch p) \<longrightarrow> batcher_inv (pv_batch p1)"
    "batcher_inv (pv_batch p) \<and> required_failures o1 = [] \<longrightarrow> (\<forall>x \<in> set m1. snd x = None) \<and>
       exported (pv_batch p1) @ lb_pending (pv_batch p1)
         = exported (pv_batch p) @ lb_pending (pv_batch p) @ n1" .
  from deliversE [OF assms(2)] obtain o2 m2 where 2: "pv_outcomes p2 = pv_outcomes p1 @ o2"
    "eo_seq (pv_observer p2) = eo_seq (pv_observer p1) + of_nat (length (required_failures o2))"
    "lb_calls (pv_batch p2) = lb_calls (pv_batch p1) @ m2"
    "batcher_inv (pv_batch p1) \<longrightarrow> batcher_inv (pv_batch p2)"
    "batcher_inv (pv_batch p1) \<and> required_failures o2 = [] \<longrightarrow> (\<forall>x \<in> set m2. snd x = None) \<and>
       exported (pv_batch p2) @ lb_pending (pv_batch p2)
         = exported (pv_batch p1) @ lb_pending (pv_batch p1) @ n2" .
  show ?thesis unfolding delivers_def
  proof (intro exI [of _ "o1 @ o2"] exI [of _ "m1 @ m2"] conjI impI)
    assume inv: "batcher_inv (pv_batch p) \<and> required_failures (o1 @ o2) = []"
    then have "required_failures o1 = []" "required_failures o2 = []"
      by (simp_all add: required_failures_append)
    with inv 1(4,5) 2(5) show "\<forall>x \<in> set (m1 @ m2). snd x = None"
      "exported (pv_batch p2) @ lb_pending (pv_batch p2)
        = exported (pv_batch p) @ lb_pending (pv_batch p) @ n1 @ n2"
      by (auto simp: ball_Un)
  qed (use 1(1-4) 2(1-4) in \<open>simp_all add: required_failures_append\<close>)
qed

lemma required_failures_Nil:
  "required_failures rs = [] \<longleftrightarrow> (\<forall>(s, r) \<in> set rs. r = None \<or> s = ''metrics'')"
  by (induction rs rule: required_failures.induct) auto

lemma delivers_note:
  "delivers p q new \<Longrightarrow> delivers p (note_outcomes outs (q\<lparr>pv_world := x\<rparr>)) new"
  "delivers p q new \<Longrightarrow> delivers p (note_outcomes outs (q\<lparr>pv_calls := cs, pv_world := x\<rparr>)) new"
  using delivers_trans [of p q new "note_outcomes outs (q\<lparr>pv_world := x\<rparr>)" "[]"]
    delivers_trans [of p q new "note_outcomes outs (q\<lparr>pv_calls := cs, pv_world := x\<rparr>)" "[]"]
  by (simp_all add: delivers_def [of q] observe_exports_seq)

abbreviation observed_exporter :: "'x sdk \<Rightarrow> exporter" where
  "observed_exporter k \<equiv> (\<lambda>n b. safe_export_error (log_export k n b))"

lemma on_batch_delivers:
  assumes run: "f (observed_exporter k) (pv_batch p) = (b', r)"
    and made: "made_by (observed_exporter k) (pv_batch p) b' r1"
    and inv: "batcher_inv (pv_batch p) \<Longrightarrow> batcher_inv b' \<and>
      (r1 = None \<longrightarrow> exported b' @ lb_pending b' = exported (pv_batch p) @ lb_pending (pv_batch p) @ new)"
  shows "\<exists>p'. on_batch k f p = (p', r) \<and> pv_batch p' = b' \<and> delivers p p' new"
proof -
  let ?n = "length (lb_calls (pv_batch p))"
  from made_byE [OF made] obtain m where m: "lb_calls b' = lb_calls (pv_batch p) @ m"
    "\<forall>x \<in> set (enumerate ?n m). case x of (i, batch, res) \<Rightarrow> res = observed_exporter k i batch"
    "r1 \<noteq> None \<longrightarrow> (\<exists>x \<in> set m. case x of (batch, res) \<Rightarrow> res \<noteq> None)" .
  let ?outs = "map (\<lambda>(i, batch, _). (''logs'', log_export k i batch)) (enumerate ?n m)"
  let ?p = "note_outcomes ?outs (p\<lparr>pv_batch := b'\<rparr>)"
  have p: "on_batch k f p = (?p, r)" by (simp add: on_batch_def run m(1) Let_def)
  have ok: "\<forall>x \<in> set m. snd x = None" if "required_failures ?outs = []"
  proof
    fix x assume "x \<in> set m"
    then have "x \<in> snd ` set (enumerate ?n m)" by (metis list.set_map map_snd_enumerate)
    then obtain i where i: "(i, fst x, snd x) \<in> set (enumerate ?n m)" by auto
    from imageI [OF i, of "\<lambda>(i, batch, _). (''logs'', log_export k i batch)"]
    have "(''logs'', log_export k i (fst x)) \<in> set ?outs" by (cases x) simp
    with bspec [OF that [unfolded required_failures_Nil] this] bspec [OF m(2) i]
    show "snd x = None" by (cases x) simp
  qed
  have "r1 = None" if "required_failures ?outs = []"
    using ok [OF that] m(3) by (cases r1) fastforce+
  then have "delivers p ?p new" unfolding delivers_def
    by (intro exI [of _ ?outs] exI [of _ m])
      (use inv ok m(1) in \<open>simp add: observe_exports_seq\<close>)
  with p show ?thesis by (intro exI [of _ ?p]) simp
qed

lemma flush_batch_delivers:
  "\<exists>p' r. on_batch k flush_locked p = (p', r) \<and> delivers p p' []"
proof -
  obtain b' r where f: "flush_locked (observed_exporter k) (pv_batch p) = (b', r)"
    by (metis surj_pair)
  from on_batch_delivers [where f = flush_locked and new = "[]", OF f flush_locked_made [OF f]]
    flush_logs_inv [OF _ f]
  show ?thesis by force
qed

lemma export_batch_delivers:
  "\<exists>p' r. on_batch k (\<lambda>ex. export_logs ex rs) p = (p', r) \<and> delivers p p' rs"
proof -
  obtain b' r where f: "export_logs (observed_exporter k) rs (pv_batch p) = (b', r)"
    by (metis surj_pair)
  from on_batch_delivers [where f = "\<lambda>ex. export_logs ex rs", OF f export_logs_made [OF f]]
    export_logs_inv [OF _ f]
  show ?thesis by blast
qed

lemma timer_tick_delivers: "delivers p (timer_tick k p) []"
  using flush_batch_delivers [of k p] by (auto simp: timer_tick_def)

text \<open>The log records among the calls on the SDK.\<close>

fun call_logs :: "sdk_call \<Rightarrow> sdk_log list" where
  "call_logs (EmitLog l) = [sdk_log_of l]"
| "call_logs _ = []"

abbreviation calls_logs :: "sdk_call list \<Rightarrow> sdk_log list" where
  "calls_logs cs \<equiv> concat (map call_logs cs)"

lemma sdk_do_delivers: "delivers p (sdk_do k c p) (call_logs c)"
proof -
  let ?p1 = "timer_tick k p"
  let ?p2 = "case c of EmitLog l \<Rightarrow> fst (on_batch k (\<lambda>ex. export_logs ex [sdk_log_of l]) ?p1) | _ \<Rightarrow> ?p1"
  have "delivers ?p1 ?p2 (call_logs c)"
  proof (cases c)
    case (EmitLog l)
    with export_batch_delivers [of k "[sdk_log_of l]" ?p1] show ?thesis by auto
  qed simp_all
  with timer_tick_delivers [of p k] have "delivers p ?p2 ([] @ call_logs c)" by (rule delivers_trans)
  then show ?thesis by (auto simp: sdk_do_def Let_def intro: delivers_note split: prod.splits)
qed

lemma delivers_frame [simp]:
  "delivers (p\<lparr>pv_world := x\<rparr>) p' new = delivers p p' new"
  "delivers (cache_instrument i n p) p' new = delivers p p' new"
  by (simp add: delivers_def) (cases i; simp add: delivers_def)

lemma delivers_world: "delivers p (p\<lparr>pv_world := x\<rparr>) []"
  by (simp add: delivers_def)

lemma otel_measure_delivers: "otel_measure k i n v a p = (p', r) \<Longrightarrow> delivers p p' []"
  using sdk_do_delivers [of p k "Measure i n v (otel_attrs a)"]
    sdk_do_delivers [of "cache_instrument i n (p\<lparr>pv_world := x\<rparr>)" k "Measure i n v (otel_attrs a)" for x]
  by (auto simp: otel_measure_def delivers_world split: if_splits prod.splits option.splits)

lemma otel_log_delivers:
  "otel_log k pol in_span event body t severity a p = (p', None) \<Longrightarrow>
   delivers p p' [sdk_log_of (log_call_of pol in_span event body t severity a)]"
  using sdk_do_delivers [of p k "EmitLog (log_call_of pol in_span event body t severity a)"]
  by (auto simp: otel_log_def split: if_splits)

lemma otel_logs_delivers:
  "otel_logs k pol rs p = (p', None) \<Longrightarrow>
   delivers p p' (map (\<lambda>r. sdk_log_of (log_call_of pol True (lr_name r) (lr_body r) (lr_at r)
     (lr_severity r) (lr_attrs r))) rs)"
proof (induction rs arbitrary: p)
  case Nil
  then show ?case by simp
next
  case (Cons r rs)
  then obtain p1 where one: "otel_log k pol True (lr_name r) (lr_body r) (lr_at r) (lr_severity r)
      (lr_attrs r) p = (p1, None)" and "otel_logs k pol rs p1 = (p', None)"
    by (auto split: prod.splits option.splits)
  from delivers_trans [OF otel_log_delivers [OF one] Cons.IH [OF this(2)]] show ?case by simp
qed

lemma calls_logs_span [simp]:
  "concat (map (call_logs \<circ> (\<lambda>r. EmitLog (f r))) rs) = map (\<lambda>r. sdk_log_of (f r)) rs"
  by (induction rs) simp_all

lemma otel_emit_delivers:
  assumes "otel_emit k pol p e = (p', None)"
  shows "delivers p p' (calls_logs (otel_calls pol e))"
proof (cases e)
  case (ESpan s)
  with assms have "otel_logs k pol (sp_logs s) (sdk_do k (EndSpan (span_call_of s)) p) = (p', None)"
    by (auto simp: otel_span_def split: if_splits)
  from delivers_trans [OF sdk_do_delivers otel_logs_delivers [OF this]] ESpan show ?thesis by simp
qed (use assms in \<open>auto dest: otel_measure_delivers otel_log_delivers\<close>)

lemma provider_emit_delivers:
  assumes "provider_emitter k pol p e = (p', None)"
  shows "delivers p p' (calls_logs (provider_calls pol e))"
proof (cases pol)
  case None
  with assms show ?thesis by (auto simp: provider_emitter_def provider_calls_def dest: otel_emit_delivers)
next
  case (Some q)
  have view: "deny_view q e = [] \<or> (\<exists>e'. deny_view q e = [e'])"
    by (auto simp: deny_view_def split: option.splits)
  with Some assms show ?thesis
    by (auto simp: provider_emitter_def provider_calls_def filtered_emit_view dest: otel_emit_delivers)
qed

subsection \<open>A commit\<close>

lemma errors_join_Cons [simp]: "errors_join (Some e # es) \<noteq> None"
  by (subst errors_join_None) simp

lemma failed_since_None: "failed_since since ob = None \<longleftrightarrow> eo_seq ob = since"
  by (simp add: failed_since_def del: not_None_eq)

lemma flush_commit_None:
  assumes "flush_commit log_err trace_err since ob = None"
  shows "eo_seq ob = since"
proof (rule ccontr)
  assume "eo_seq ob \<noteq> since"
  then obtain e where "failed_since since ob = Some e" using failed_since_None [of since ob] by auto
  with assms show False by (auto simp: flush_commit_def errors_join_None)
qed

lemma provider_flush_delivers:
  assumes "provider_flush k p since = (p', r)"
  shows "delivers p p' []"
    and "batcher_inv (pv_batch p) \<Longrightarrow> lb_pending (pv_batch p') = []"
    and "r = None \<Longrightarrow> eo_seq (pv_observer p') = since"
proof -
  obtain x outs inner traces where sdk: "sdk_flush k (pv_world p) = (x, outs, inner, traces)"
    by (metis prod_cases4)
  obtain b' e where f: "flush_locked (observed_exporter k) (pv_batch p) = (b', e)"
    by (metis surj_pair)
  then have ff: "force_flush (observed_exporter k) inner (pv_batch p) = (b', errors_join [e, inner])"
    by (simp add: force_flush_def)
  from on_batch_delivers [where f = "\<lambda>ex. force_flush ex inner" and new = "[]", OF ff
      flush_locked_made [OF f]] flush_logs_inv [OF _ f]
  obtain p1 where p1: "on_batch k (\<lambda>ex. force_flush ex inner) p = (p1, errors_join [e, inner])"
    "pv_batch p1 = b'" "delivers p p1 []" by auto
  let ?p = "note_outcomes outs (p1\<lparr>pv_world := x\<rparr>)"
  from assms sdk p1(1) have p': "p' = ?p"
    and r: "r = flush_commit (errors_join [e, inner]) traces since (pv_observer ?p)"
    by (auto simp: provider_flush_def Let_def)
  show "delivers p p' []" unfolding p' using p1(3) by (rule delivers_note)
  show "batcher_inv (pv_batch p) \<Longrightarrow> lb_pending (pv_batch p') = []"
    using flush_logs_inv [OF _ f] p' p1(2) by simp
  show "r = None \<Longrightarrow> eo_seq (pv_observer p') = since"
    unfolding r p' by (rule flush_commit_None)
qed

abbreviation record_logs :: "deny_policy option \<Rightarrow> buffered_record list \<Rightarrow> sdk_log list" where
  "record_logs pol rs \<equiv> concat (map (\<lambda>r. calls_logs (provider_calls pol (record_emission r))) rs)"

lemma replay_chunk_delivers:
  "replay_chunk (provider_env k pol base) c (p, seq) = ((p', seq'), None) \<Longrightarrow>
   delivers p p' (record_logs pol c) \<and> seq' = seq"
proof (induction c arbitrary: p)
  case Nil
  then show ?case by simp
next
  case (Cons r c)
  then obtain p1 where one: "provider_emitter k pol p (record_emission r) = (p1, None)"
    and rest: "replay_chunk (provider_env k pol base) c (p1, seq) = ((p', seq'), None)"
    by (auto simp: and_then_ok replay_record_def env_emit_def split: prod.splits)
  from Cons.IH [OF rest] delivers_trans [OF provider_emit_delivers [OF one]] show ?case by auto
qed

lemma run_chunks_delivers:
  "run_chunks (provider_env k pol base) cs (p, seq) = ((p', seq'), None) \<Longrightarrow>
   batcher_inv (pv_batch p) \<Longrightarrow>
   delivers p p' (record_logs pol (concat cs)) \<and>
   (cs \<noteq> [] \<longrightarrow> eo_seq (pv_observer p') = seq \<and> lb_pending (pv_batch p') = [])"
proof (induction cs arbitrary: p seq)
  case Nil
  then show ?case by simp
next
  case (Cons c cs)
  from Cons.prems(1) obtain p1 seq1 st2 where
    c: "replay_chunk (provider_env k pol base) c (p, seq) = ((p1, seq1), None)"
    and fl: "commit_flush (provider_env k pol base) (p1, seq1) = (st2, None)"
    and rest: "run_chunks (provider_env k pol base) cs st2 = ((p', seq'), None)"
    by (auto simp: and_then_ok)
  note chunk = replay_chunk_delivers [OF c]
  obtain p2 where p2: "provider_flush k p1 seq = (p2, None)" "st2 = (p2, eo_seq (pv_observer p2))"
    using fl chunk by (auto simp: commit_flush_def provider_begin_def observer_snapshot_def split: prod.splits)
  note flush = provider_flush_delivers [OF p2(1)]
  from chunk Cons.prems(2) have inv1: "batcher_inv (pv_batch p1)" by (auto elim: deliversE)
  with flush(1) have inv2: "batcher_inv (pv_batch p2)" by (auto elim: deliversE)
  have adv: "delivers p p2 (record_logs pol c)"
    using delivers_trans [OF conjunct1 [OF chunk] flush(1)] by simp
  from Cons.IH [OF rest [unfolded p2(2)] inv2] have
    ih: "delivers p2 p' (record_logs pol (concat cs))"
      "cs \<noteq> [] \<longrightarrow> eo_seq (pv_observer p') = eo_seq (pv_observer p2) \<and> lb_pending (pv_batch p') = []"
    by blast+
  have "cs = [] \<longrightarrow> p' = p2" using rest p2(2) by auto
  with ih(2) flush(2) [OF inv1] flush(3) have
    "eo_seq (pv_observer p') = seq \<and> lb_pending (pv_batch p') = []" by (cases "cs = []") auto
  with delivers_trans [OF adv ih(1)] show ?case by simp
qed

lemma of_nat_zero_64: "n < 2 ^ 64 \<Longrightarrow> (of_nat n :: 64 word) = 0 \<Longrightarrow> n = 0"
  using of_nat_word_eq [of n 0] by simp

lemma commit_acknowledged:
  assumes run: "commit (provider_env k pol base) b p = (p', None)"
    and inv: "batcher_inv (pv_batch p)" and bound: "length (pv_outcomes p') < 2 ^ 64"
  shows "(\<exists>made. lb_calls (pv_batch p') = lb_calls (pv_batch p) @ made \<and>
      (\<forall>x \<in> set made. snd x = None) \<and>
      concat (map fst made) = lb_pending (pv_batch p) @ record_logs pol (records b)) \<and>
    lb_pending (pv_batch p') = [] \<and>
    (\<exists>outs. pv_outcomes p' = pv_outcomes p @ outs \<and> required_failures outs = [])"
proof -
  from commit_chunks [OF run] obtain cs seq' where cs: "cs \<noteq> []" "concat cs = records b"
    "run_chunks (provider_env k pol base) cs (p, eo_seq (pv_observer p)) = ((p', seq'), None)"
    by (auto simp: begin_commit_def provider_begin_def observer_snapshot_def)
  from run_chunks_delivers [OF cs(3) inv] cs(1,2) have
    adv: "delivers p p' (record_logs pol (records b))"
    and seq: "eo_seq (pv_observer p') = eo_seq (pv_observer p)"
    and pend: "lb_pending (pv_batch p') = []" by auto
  from deliversE [OF adv] obtain outs made where a: "pv_outcomes p' = pv_outcomes p @ outs"
    "eo_seq (pv_observer p') = eo_seq (pv_observer p) + of_nat (length (required_failures outs))"
    "lb_calls (pv_batch p') = lb_calls (pv_batch p) @ made"
    "batcher_inv (pv_batch p) \<longrightarrow> batcher_inv (pv_batch p')"
    "batcher_inv (pv_batch p) \<and> required_failures outs = [] \<longrightarrow> (\<forall>x \<in> set made. snd x = None) \<and>
       exported (pv_batch p') @ lb_pending (pv_batch p')
         = exported (pv_batch p) @ lb_pending (pv_batch p) @ record_logs pol (records b)" .
  have "length (required_failures outs) < 2 ^ 64"
    using bound a(1) required_failures_length [of outs] by simp
  moreover have "(of_nat (length (required_failures outs)) :: 64 word) = 0" using seq a(2) by simp
  ultimately have none: "required_failures outs = []" using of_nat_zero_64 by fastforce
  with a(5) inv have ok: "\<forall>x \<in> set made. snd x = None"
    and ex: "exported (pv_batch p') = exported (pv_batch p) @ lb_pending (pv_batch p)
      @ record_logs pol (records b)" by (simp_all add: pend)
  from ex a(3) have "concat (map fst made) = lb_pending (pv_batch p) @ record_logs pol (records b)"
    by (simp add: exported_def)
  with a(1,3) ok none pend show ?thesis by blast
qed

subsection \<open>Properties\<close>

text \<open>The strings of a call the encoder checks, and the attribute keys of all its bags.\<close>

fun call_texts :: "sdk_call \<Rightarrow> string list" where
  "call_texts (Measure i n v a) = map key a @ map val a"
| "call_texts (EmitLog l) = lc_body l # map key (lc_attrs l) @ map val (lc_attrs l)"
| "call_texts (EndSpan s) =
     sc_name s # map key (sc_attrs s) @ map val (sc_attrs s)
     @ concat (map (\<lambda>ev. ev_name ev # map key (ev_attrs ev) @ map val (ev_attrs ev)) (sc_events s))
     @ (case sc_error s of None \<Rightarrow> [] | Some m \<Rightarrow> [m])"

fun call_keys :: "sdk_call \<Rightarrow> string list" where
  "call_keys (Measure i n v a) = map key a"
| "call_keys (EmitLog l) = map key (lc_attrs l)"
| "call_keys (EndSpan s) =
     map key (sc_attrs s) @ concat (map (\<lambda>ev. map key (ev_attrs ev)) (sc_events s))
     @ concat (map (\<lambda>l. map kv_key (link_attributes l)) (sc_links s))"

lemma otel_attrs_valid: "a \<in> set (otel_attrs as) \<Longrightarrow> valid_string (key a) \<and> valid_string (val a)"
  by (auto simp: otel_attrs_def)

lemma event_name_attr_valid: "a \<in> set (event_name_attr pol n) \<Longrightarrow> valid_string (key a) \<and> valid_string (val a)"
  by (auto simp: event_name_attr_def attr_event_name_def valid_ascii split: if_splits)

lemma otel_calls_valid:
  assumes "c \<in> set (otel_calls pol e)"
  shows "\<forall>x \<in> set (call_texts c). valid_string x"
  using assms
  by (cases e) (auto simp: log_call_of_def span_call_of_def otel_event_def split: option.splits
      dest: otel_attrs_valid event_name_attr_valid)

lemma otel_attrs_keys:
  assumes "list_all (\<lambda>c. byte c < 128) n" "n \<notin> key ` set as"
  shows "n \<notin> key ` set (otel_attrs as)"
proof
  assume "n \<in> key ` set (otel_attrs as)"
  then obtain a where a: "a \<in> set as" "valid_utf8 (key a) = n"
    unfolding otel_attrs_def by auto
  from iffD1 [OF valid_utf8_ascii [OF assms(1)] a(2)] a(1) assms(2) show False by blast
qed

lemma denied_keys:
  assumes "deny_attribute (Some q) n" "list_all (\<lambda>c. byte c < 128) n"
  shows "n \<notin> key ` set (otel_attrs (deny_attrs (Some q) as))"
    "n \<notin> key ` set (event_name_attr (Some q) ev)"
  using otel_attrs_keys [OF assms(2)] deny_attrs_denied [OF assms(1)] assms(1)
  by (auto simp: event_name_attr_def)

lemma denied_calls:
  assumes "deny_attribute (Some q) n" "list_all (\<lambda>c. byte c < 128) n"
    and "c \<in> set (otel_calls (Some q) (deny_emission q e))"
  shows "n \<notin> set (call_keys c)"
proof -
  have some: "dp_attributes q \<noteq> []" using assms(1) by (auto simp: deny_attribute_def)
  note drop = denied_keys [OF assms(1,2)] deny_link_attrs_denied [OF assms(1)]
  show ?thesis
  proof (cases e)
    case (ESpan s)
    with assms(3) drop some show ?thesis
      by (auto simp: deny_span_def span_call_of_def log_call_of_def otel_event_def image_iff)
  qed (use assms(3) drop in \<open>auto simp: log_call_of_def image_iff\<close>)
qed



text \<open>C1. A commit that succeeds has delivered: the SDK received exactly the filtered records of the
  window, in order and nothing else; the batcher is empty, every log record of the window and
  all that were pending before it were sent in order in batches that the OTLP exporter
  acknowledged; and no export of logs or traces failed anywhere in the process while the commit
  ran. The number of export outcomes is bounded by the observer's 64-bit sequence.\<close>

theorem commit_logs_acknowledged:
  assumes "commit (provider_env k pol base) b p = (p', None)"
    and "batcher_inv (pv_batch p)" and "length (pv_outcomes p') < 2 ^ 64"
  shows "otel_recs p' = otel_recs p @ filter is_record
      (concat (map (\<lambda>r. provider_view pol (record_emission r)) (records b))) \<and>
    (\<exists>made. lb_calls (pv_batch p') = lb_calls (pv_batch p) @ made \<and>
      (\<forall>x \<in> set made. snd x = None) \<and>
      concat (map fst made) = lb_pending (pv_batch p) @ record_logs pol (records b)) \<and>
    lb_pending (pv_batch p') = [] \<and>
    (\<exists>outs. pv_outcomes p' = pv_outcomes p @ outs \<and> required_failures outs = [])"
  using commit_acknowledged [OF assms] provider.commit_recs [OF assms(1)] by blast

text \<open>An SDK that exports at once and never fails.\<close>

definition calm_sdk :: "unit sdk" where
  "calm_sdk = \<lparr>meter_new = \<lambda>i n x. (x, None), sdk_step = \<lambda>c x. (x, []), timer_due = \<lambda>x. False,
     log_export = \<lambda>n b. None, sdk_flush = \<lambda>x. (x, [], None, None)\<rparr>"

definition idle_env :: "'w env" where
  "idle_env = \<lparr>ctx_err = \<lambda>w. (w, None), clock = \<lambda>w. (w, 0), store_io = \<lambda>w. (w, \<lambda>_. None),
     emitter_of = None, flusher = None, start_commit = \<lambda>d w. w, commit_ctx_err = \<lambda>w. (w, None),
     await_timer = \<lambda>d w. (w, True), commit_timeout_override = 0, commit_budget_override = 0\<rparr>"

theorem commit_logs_acknowledged_witness:
  "\<exists>p'. commit (provider_env calm_sdk None idle_env) \<lparr>records = [sample_log ''a''], metrics = []\<rparr>
      (new_provider ()) = (p', None) \<and>
    (\<exists>made. lb_calls (pv_batch p') = made \<and> concat (map fst made) =
       [\<lparr>sl_body = [], sl_attrs = [(attr_event_name, ''a'')]\<rparr>])"
proof -
  let ?b = "\<lparr>records = [sample_log ''a''], metrics = []\<rparr>"
  have u: "valid_utf8 ''a'' = ''a''" "valid_utf8 [] = []" by code_simp+
  obtain p' where run: "commit (provider_env calm_sdk None idle_env) ?b (new_provider ()) = (p', None)"
    and len: "pv_outcomes p' = [(''logs'', None)]"
    by (simp add: commit_def begin_commit_def sample_log_def record_bytes_def attrs_bytes_def
        commit_chunk_bytes_def commit_chunk_items_def replay_record_def env_emit_def commit_flush_def
        record_emission_def provider_emitter_def provider_begin_def provider_flush_def otel_log_def
        sdk_do_def timer_tick_def calm_sdk_def new_provider_def on_batch_def export_one_def
        export_full_def append_log_def log_batch_items_def log_batch_bytes_def
        estimated_log_bytes_def sdk_log_of_def log_call_of_def event_name_attr_def u otel_attrs_def
        force_flush_def flush_locked_def note_outcomes_def errors_join_def flush_commit_def
        observed_export_def observer_record_def failed_since_def new_observer_def
        observer_snapshot_def deny_attribute_def attr_event_name_def safe_export_error_def
        List.map_filter_simps)
  have inv: "batcher_inv (pv_batch (new_provider ()))"
    by (simp add: new_provider_def batcher_inv_def log_batch_items_def log_batch_bytes_def)
  have "record_logs None (records ?b) = [\<lparr>sl_body = [], sl_attrs = [(attr_event_name, ''a'')]\<rparr>]"
    by (simp add: provider_calls_def record_emission_def sample_log_def log_call_of_def u
        sdk_log_of_def event_name_attr_def deny_attribute_def otel_attrs_def)
  with commit_logs_acknowledged [OF run inv] run len show ?thesis by (auto simp: new_provider_def)
qed

end
