(* ===== verification/Snapshots.thy ===== *)
theory Snapshots
  imports DenyFilter "HOL-Library.AList"
begin

text \<open>
  Gauge snapshots, \<open>internal/telemetry/snapshot.go\<close>: a batch of gauges is published in one
  transaction and observed until it expires. The SDK's answers during one call (the context, each
  instrument, the registration of the callback) are the record \<open>snap_calls\<close>. A Go map of
  snapshots is an association list with distinct names; the order of observations within one
  collection is unspecified in Go. The publication holds a lock the callback takes, so a
  collection sees a state before or after a call, never one in between.
\<close>

record retained_snapshot =
  gs_points :: "gauge_point list"
  gs_expires :: time

record snapshot_state =
  sn_entries :: "(string \<times> retained_snapshot) list"
  sn_registered :: bool

record snap_calls =
  ctx_before :: "gerr option"
  ctx_after :: "gerr option"
  new_gauge :: "string \<Rightarrow> gerr option"
  register_callback :: "gerr option"
  unregister_old :: "gerr option"
  unregister_new :: "gerr option"
  publish_at :: time

definition no_snapshots :: snapshot_state where
  "no_snapshots = \<lparr>sn_entries = [], sn_registered = False\<rparr>"

text \<open>\<open>observeSnapshots\<close>: the points of every snapshot that has not expired.\<close>

definition observe_snapshots :: "time \<Rightarrow> snapshot_state \<Rightarrow> (string \<times> gauge_point) list" where
  "observe_snapshots now s =
     concat (map (\<lambda>(n, g). if now < gs_expires g then map (Pair n) (gs_points g) else [])
       (sn_entries s))"

text \<open>The registration of new instruments: an error, or the new registration.\<close>

fun first_gauge_error :: "snap_calls \<Rightarrow> string list \<Rightarrow> gerr option" where
  "first_gauge_error k [] = None"
| "first_gauge_error k (n # ns) =
     (case new_gauge k n of Some e \<Rightarrow> Some e | None \<Rightarrow> first_gauge_error k ns)"

definition register_gauges :: "snap_calls \<Rightarrow> bool \<Rightarrow> gerr option" where
  "register_gauges k registered =
     (case register_callback k of
        Some e \<Rightarrow> Some e
      | None \<Rightarrow>
          if registered then
            (case unregister_old k of
               Some e \<Rightarrow> errors_join [Some e, unregister_new k]
             | None \<Rightarrow> None)
          else None)"

definition publish ::
  "time \<Rightarrow> (string \<times> gauge_point list) list \<Rightarrow> (string \<times> retained_snapshot) list \<Rightarrow>
   (string \<times> retained_snapshot) list" where
  "publish expires input entries =
     fold (\<lambda>n. AList.update n \<lparr>gs_points = the (map_of input n), gs_expires = expires\<rparr>)
       (sort (map fst input)) entries"

definition gauge_snapshots ::
  "snap_calls \<Rightarrow> duration \<Rightarrow> (string \<times> gauge_point list) list \<Rightarrow> snapshot_state \<Rightarrow>
   snapshot_state \<times> gerr option" where
  "gauge_snapshots k ttl input s =
     (case ctx_before k of
        Some e \<Rightarrow> (s, Some e)
      | None \<Rightarrow>
          if ttl \<le> 0 then (s, Some (ErrNew ''gauge snapshot TTL must be positive''))
          else if List.member (map fst input) [] then
            (s, Some (ErrNew ''gauge snapshot name must not be empty''))
          else
            (let added = filter (\<lambda>n. map_of (sn_entries s) n = None) (sort (map fst input))
             in case first_gauge_error k added of
                  Some e \<Rightarrow> (s, Some e)
                | None \<Rightarrow>
                    (case (if added = [] then None else register_gauges k (sn_registered s)) of
                       Some e \<Rightarrow> (s, Some e)
                     | None \<Rightarrow>
                         (let s1 = s\<lparr>sn_registered := sn_registered s \<or> added \<noteq> []\<rparr>
                          in case ctx_after k of
                               Some e \<Rightarrow> (s1, Some e)
                             | None \<Rightarrow>
                                 (s1\<lparr>sn_entries := publish (publish_at k + ttl) input (sn_entries s1)\<rparr>,
                                  None)))))"

text \<open>\<open>GaugeSnapshot\<close>, and the snapshot methods of the filtered emitter.\<close>

definition gauge_snapshot ::
  "snap_calls \<Rightarrow> string \<Rightarrow> duration \<Rightarrow> gauge_point list \<Rightarrow> snapshot_state \<Rightarrow>
   snapshot_state \<times> gerr option" where
  "gauge_snapshot k n ttl points s = gauge_snapshots k ttl [(n, points)] s"

definition filtered_snapshot ::
  "deny_policy \<Rightarrow> snap_calls \<Rightarrow> string \<Rightarrow> duration \<Rightarrow> gauge_point list \<Rightarrow> snapshot_state \<Rightarrow>
   snapshot_state \<times> gerr option" where
  "filtered_snapshot q k n ttl points s =
     (if deny_metric (Some q) n then (s, None)
      else gauge_snapshot k n ttl (deny_points (Some q) points) s)"

definition filtered_snapshots ::
  "deny_policy \<Rightarrow> snap_calls \<Rightarrow> duration \<Rightarrow> (string \<times> gauge_point list) list \<Rightarrow> snapshot_state \<Rightarrow>
   snapshot_state \<times> gerr option" where
  "filtered_snapshots q k ttl input s = gauge_snapshots k ttl (deny_snapshots (Some q) input) s"

subsection \<open>Lemmas\<close>

text \<open>What a collection at \<open>now\<close> observes of one gauge.\<close>

definition visible :: "time \<Rightarrow> snapshot_state \<Rightarrow> string \<Rightarrow> gauge_point list" where
  "visible now s n =
     (case map_of (sn_entries s) n of
        None \<Rightarrow> []
      | Some g \<Rightarrow> if now < gs_expires g then gs_points g else [])"

definition snapshots_ok :: "snapshot_state \<Rightarrow> bool" where
  "snapshots_ok s \<longleftrightarrow> distinct (map fst (sn_entries s))"

lemma observe_entries:
  "distinct (map fst es) \<Longrightarrow>
   map snd (filter (\<lambda>x. fst x = n)
     (concat (map (\<lambda>(n, g). if now < gs_expires g then map (Pair n) (gs_points g) else []) es)))
   = (case map_of es n of None \<Rightarrow> [] | Some g \<Rightarrow> if now < gs_expires g then gs_points g else [])"
proof (induction es)
  case Nil
  then show ?case by simp
next
  case (Cons e es)
  obtain m g where e: "e = (m, g)" by (cases e)
  have own: "map snd (filter (\<lambda>x. fst x = n) (map (Pair m) ps)) = (if m = n then ps else [])" for ps
    by (induction ps) (auto simp: comp_def)
  have "map_of es n = None" if "m = n" using that Cons.prems e by (auto simp: map_of_eq_None_iff)
  with Cons e own show ?case by (auto split: option.splits)
qed

lemma observe_visible:
  "snapshots_ok s \<Longrightarrow>
   map snd (filter (\<lambda>x. fst x = n) (observe_snapshots now s)) = visible now s n"
  unfolding observe_snapshots_def visible_def snapshots_ok_def by (rule observe_entries)

lemma map_of_publish:
  assumes "distinct (map fst input)"
  shows "map_of (publish expires input entries) n =
    (case map_of input n of
       Some ps \<Rightarrow> Some \<lparr>gs_points = ps, gs_expires = expires\<rparr>
     | None \<Rightarrow> map_of entries n)"
proof -
  have "map_of (fold (\<lambda>n. AList.update n (f n)) ns entries) n =
      (if n \<in> set ns then Some (f n) else map_of entries n)" for ns and f :: "string \<Rightarrow> retained_snapshot"
    by (induction ns arbitrary: entries) (auto simp: update_conv')
  then show ?thesis
    by (auto simp: publish_def map_of_eq_None_iff split: option.splits dest: map_of_SomeD)
      (metis fst_conv image_eqI map_of_SomeD)
qed

lemma publish_ok: "distinct (map fst entries) \<Longrightarrow> distinct (map fst (publish expires input entries))"
proof -
  have "distinct (map fst es) \<Longrightarrow> distinct (map fst (fold (\<lambda>n. AList.update n (f n)) ns es))"
    for ns es and f :: "string \<Rightarrow> retained_snapshot"
    by (induction ns arbitrary: es) (simp_all add: distinct_update)
  then show "distinct (map fst entries) \<Longrightarrow> ?thesis" by (simp add: publish_def)
qed

lemma gauge_snapshots_outcome:
  assumes "gauge_snapshots k ttl input s = (s', r)"
  shows "(r \<noteq> None \<longrightarrow> sn_entries s' = sn_entries s) \<and>
    (r = None \<longrightarrow> 0 < ttl \<and> sn_entries s' = publish (publish_at k + ttl) input (sn_entries s))"
  using assms
  by (auto simp: gauge_snapshots_def Let_def split: option.splits if_splits)

lemma deny_snapshots_map:
  "map_of (deny_snapshots p input) n =
     (if deny_metric p n then None else map_option (deny_points p) (map_of input n))"
  by (induction input) (auto simp: deny_snapshots_def)

lemma deny_snapshots_distinct:
  "distinct (map fst input) \<Longrightarrow> distinct (map fst (deny_snapshots p input))"
  unfolding deny_snapshots_def by (induction input) (auto simp: image_iff split: if_splits)

subsection \<open>Properties\<close>

text \<open>C28. Snapshots are published all or not at all: a call that fails changes nothing any collection
  observes, no point and no expiry; a call that succeeds makes each gauge of the batch that is
  not denied observable with exactly its filtered points until the lifetime ends, and leaves
  every other gauge as it was. A collection observes each gauge once.\<close>

theorem gauge_snapshots_atomic:
  assumes "filtered_snapshots q k ttl input s = (s', r)"
    and "snapshots_ok s" and "distinct (map fst input)"
  shows "snapshots_ok s' \<and>
    (\<forall>now n. map snd (filter (\<lambda>x. fst x = n) (observe_snapshots now s')) =
      (case map_of input n of
         Some ps \<Rightarrow>
           if r = None \<and> n \<notin> set (dp_metrics q)
           then (if now < publish_at k + ttl then deny_points (Some q) ps else [])
           else map snd (filter (\<lambda>x. fst x = n) (observe_snapshots now s))
       | None \<Rightarrow> map snd (filter (\<lambda>x. fst x = n) (observe_snapshots now s))))"
proof -
  let ?in = "deny_snapshots (Some q) input"
  from assms(1) have run: "gauge_snapshots k ttl ?in s = (s', r)" by (simp add: filtered_snapshots_def)
  note out = gauge_snapshots_outcome [OF run]
  note dist = deny_snapshots_distinct [OF assms(3), of "Some q"]
  have ok: "snapshots_ok s'"
    using out assms(2) publish_ok by (cases r) (simp_all add: snapshots_ok_def)
  have "visible now s' n = (case map_of input n of
         Some ps \<Rightarrow>
           if r = None \<and> n \<notin> set (dp_metrics q)
           then (if now < publish_at k + ttl then deny_points (Some q) ps else []) else visible now s n
       | None \<Rightarrow> visible now s n)" for now n
    using out by (cases r) (auto simp: visible_def map_of_publish [OF dist] deny_snapshots_map
        deny_metric_def split: option.splits)
  with ok show ?thesis by (simp add: observe_visible assms(2) cong: option.case_cong if_cong)
qed

definition willing_calls :: "time \<Rightarrow> snap_calls" where
  "willing_calls t = \<lparr>ctx_before = None, ctx_after = None, new_gauge = \<lambda>n. None,
     register_callback = None, unregister_old = None, unregister_new = None, publish_at = t\<rparr>"

theorem gauge_snapshots_atomic_witness:
  "\<exists>s'. filtered_snapshots \<lparr>dp_metrics = [''m''], dp_attributes = []\<rparr> (willing_calls 100) 10
      [(''g'', [\<lparr>gp_value = 1, gp_attrs = []\<rparr>])] no_snapshots = (s', None) \<and>
    map snd (filter (\<lambda>x. fst x = ''g'') (observe_snapshots 109 s')) = [\<lparr>gp_value = 1, gp_attrs = []\<rparr>] \<and>
    map snd (filter (\<lambda>x. fst x = ''g'') (observe_snapshots 110 s')) = []"
proof -
  let ?q = "\<lparr>dp_metrics = [''m''], dp_attributes = []\<rparr>"
  let ?in = "[(''g'', [\<lparr>gp_value = 1, gp_attrs = []\<rparr>])]"
  obtain s' where run: "filtered_snapshots ?q (willing_calls 100) 10 ?in no_snapshots = (s', None)"
    by (simp add: filtered_snapshots_def gauge_snapshots_def deny_snapshots_def deny_metric_def
        willing_calls_def no_snapshots_def register_gauges_def)
  have ok: "snapshots_ok no_snapshots" by (simp add: snapshots_ok_def no_snapshots_def)
  have pts: "deny_points (Some ?q) [\<lparr>gp_value = 1, gp_attrs = []\<rparr>] = [\<lparr>gp_value = 1, gp_attrs = []\<rparr>]"
    by (simp add: deny_points_def deny_attrs_def)
  have dist: "distinct (map fst ?in)" by simp
  note obs = gauge_snapshots_atomic [OF run ok dist, THEN conjunct2, THEN spec, THEN spec]
  from obs [of "''g''" 109] obs [of "''g''" 110] run pts show ?thesis
    by (auto simp: willing_calls_def)
qed

end
