(* ===== verification/HttpRoutes.thy ===== *)
theory HttpRoutes
  imports Utf8 GoText Json
begin

text \<open>
  Named error routes. \<open>internal/config/config.go\<close> accepts path templates that are already normal
  (\<open>validHTTPRouteTemplate\<close>) and \<open>internal/collectors/httpreq/high_cardinality.go\<close> normalises each
  request path (\<open>normalizedErrorPath\<close>) and looks it up among them. The regular expressions are
  predicates on segments; the comparison of runes with ASCII characters is one of bytes, since
  both only look at valid UTF-8.
\<close>

definition is_hex :: "char \<Rightarrow> bool" where
  "is_hex c \<longleftrightarrow> hex_val c \<noteq> None"

definition number_segment :: "string \<Rightarrow> bool" where
  "number_segment s \<longleftrightarrow> s \<noteq> [] \<and> list_all is_digit s"

definition uuid_segment :: "string \<Rightarrow> bool" where
  "uuid_segment s \<longleftrightarrow> map length (split_char CHR ''-'' s) = [8, 4, 4, 4, 12] \<and>
     list_all (list_all is_hex) (split_char CHR ''-'' s)"

definition hex_segment :: "string \<Rightarrow> bool" where
  "hex_segment s \<longleftrightarrow> 8 \<le> length s \<and> list_all is_hex s"

text \<open>\<open>url.PathUnescape\<close>; \<open>None\<close> is its error.\<close>

fun path_unescape :: "string \<Rightarrow> string option" where
  "path_unescape [] = Some []"
| "path_unescape (c # cs) =
     (if c = CHR ''%'' then
        (case cs of
           a # b # rest \<Rightarrow>
             (case (hex_val a, hex_val b) of
                (Some x, Some y) \<Rightarrow> map_option ((#) (char_of (16 * x + y))) (path_unescape rest)
              | _ \<Rightarrow> None)
         | _ \<Rightarrow> None)
      else map_option ((#) c) (path_unescape cs))"

definition control_or_space :: "char \<Rightarrow> bool" where
  "control_or_space c \<longleftrightarrow> byte c \<le> 32 \<or> byte c = 127"

definition route_segment :: "string \<Rightarrow> string" where
  "route_segment s =
     (if number_segment s then '':number''
      else if uuid_segment s then '':uuid''
      else if hex_segment s then '':hex''
      else s)"

definition normalized_error_path :: "string \<Rightarrow> string option" where
  "normalized_error_path raw =
     (if length raw > 4096 then None
      else
        (case path_unescape (takeWhile (\<lambda>c. c \<noteq> CHR ''#'') (takeWhile (\<lambda>c. c \<noteq> CHR ''?'') raw)) of
           None \<Rightarrow> None
         | Some path \<Rightarrow>
             if \<not> valid_string path \<or> length path > 4096 \<or> \<not> has_prefix ''/'' path \<or>
                has_prefix ''//'' path \<or>
                list_ex (\<lambda>c. control_or_space c \<or> c = CHR 0x5C) path then None
             else
               (let parts = split_char CHR ''/'' path
                in if list_ex (\<lambda>p. p = ''.'' \<or> p = ''..'') parts then None
                   else Some (str_join ''/'' (map route_segment parts)))))"

definition placeholder :: "string \<Rightarrow> bool" where
  "placeholder p \<longleftrightarrow> p = '':number'' \<or> p = '':uuid'' \<or> p = '':hex''"

definition template_reserved :: string where
  "template_reserved = ''%?#'' @ [CHR 0x5C, CHR 0x5C] @ ''*[]{}()|^$+''"

definition valid_route_template :: "string \<Rightarrow> bool" where
  "valid_route_template t \<longleftrightarrow>
     has_prefix ''/'' t \<and> \<not> has_prefix ''//'' t \<and> length t \<le> 4096 \<and> valid_string t \<and>
     \<not> list_ex (\<lambda>c. List.member template_reserved c) t \<and> \<not> list_ex control_or_space t \<and>
     list_all (\<lambda>p. placeholder p \<or>
       \<not> (CHR '':'' \<in> set p \<or> p = ''.'' \<or> p = ''..'' \<or> number_segment p \<or> uuid_segment p \<or> hex_segment p))
       (split_char CHR ''/'' (drop 1 t))"

subsection \<open>Splitting UTF-8 at an ASCII byte\<close>

lemma rune_ranges_high: "rune_ranges b = Some rs \<Longrightarrow> (lo, hi) \<in> set rs \<Longrightarrow> 128 \<le> lo"
  by (auto simp: rune_ranges_def split: if_splits)

lemma accept_ranges_ascii:
  "accept_ranges rs (u @ c # v) \<Longrightarrow> \<forall>(lo, hi) \<in> set rs. 128 \<le> lo \<Longrightarrow> byte c < 128 \<Longrightarrow>
   length rs \<le> length u \<and> accept_ranges rs u"
proof (induction rs arbitrary: u)
  case Nil
  then show ?case by simp
next
  case (Cons r rs)
  obtain lo hi where r: "r = (lo, hi)" by (cases r)
  with Cons show ?case by (cases u) auto
qed

lemma rune_len_ascii_split:
  assumes "u \<noteq> []" "byte c < 128"
  shows "rune_len (u @ c # v) \<le> length u \<and>
    (rune_len (u @ c # v) \<noteq> 0 \<longrightarrow> rune_len u = rune_len (u @ c # v))"
proof -
  obtain a u' where u: "u = a # u'" using assms(1) by (cases u) auto
  show ?thesis
  proof (cases "rune_ranges (byte a)")
    case None
    with u show ?thesis by (simp add: rune_len_def)
  next
    case (Some rs)
    have "\<forall>(lo, hi) \<in> set rs. 128 \<le> lo" using rune_ranges_high [OF Some] by auto
    with accept_ranges_ascii [of rs u' c v] assms(2) u Some show ?thesis
      by (auto simp: rune_len_def)
  qed
qed

lemma valid_string_split:
  "byte c < 128 \<Longrightarrow> valid_string (u @ c # v) \<Longrightarrow> valid_string u \<and> valid_string v"
proof (induction u rule: length_induct)
  case (1 u)
  show ?case
  proof (cases "u = []")
    case True
    with "1.prems" show ?thesis
      using valid_string_rest [of "c # v"] by (simp add: rune_len_ascii)
  next
    case False
    let ?n = "rune_len (u @ c # v)"
    note split = rune_len_ascii_split [OF False "1.prems"(1), of v]
    from valid_string_rest [OF "1.prems"(2)] have n: "?n \<noteq> 0"
      and rest: "valid_string (drop ?n (u @ c # v))" by simp_all
    with split have le: "?n \<le> length u" and un: "rune_len u = ?n" by auto
    with rest have "valid_string (drop ?n u @ c # v)" by simp
    moreover have "length (drop ?n u) < length u" using n False by simp
    ultimately have "valid_string (drop ?n u) \<and> valid_string v" using "1.IH" "1.prems"(1) by blast
    with False un n show ?thesis by (subst valid_string.simps) simp
  qed
qed

lemma valid_string_segments:
  assumes "byte c < 128"
  shows "valid_string s \<longleftrightarrow> (\<forall>w \<in> set (split_char c s). valid_string w)"
proof (induction s rule: length_induct)
  case (1 s)
  show ?case
  proof (cases "c \<in> set s")
    case False
    then show ?thesis by (simp add: split_char_id)
  next
    case True
    then obtain u v where s: "s = u @ c # v" "c \<notin> set u" by (meson split_list_first)
    have "valid_string s \<longleftrightarrow> valid_string u \<and> valid_string v"
    proof
      show "valid_string s \<Longrightarrow> valid_string u \<and> valid_string v"
        using valid_string_split [OF assms] s(1) by blast
      assume "valid_string u \<and> valid_string v"
      moreover have "valid_string [c]" using assms by (intro valid_ascii) simp
      ultimately show "valid_string s"
        using valid_string_append [of u "[c] @ v"] valid_string_append [of "[c]" v] s(1) by simp
    qed
    with "1.IH" s show ?thesis by (simp add: split_char_append)
  qed
qed

subsection \<open>Normal templates\<close>

text \<open>A path a template stands for: a number, a UUID or a hexadecimal segment for each placeholder.\<close>

definition sample_uuid :: string where
  "sample_uuid = ''00000000-0000-0000-0000-000000000000''"

definition sample_segment :: "string \<Rightarrow> string" where
  "sample_segment p =
     (if p = '':number'' then ''1'' else if p = '':uuid'' then sample_uuid
      else if p = '':hex'' then ''aaaaaaaa'' else p)"

definition sample_path :: "string \<Rightarrow> string" where
  "sample_path t = ''/'' @ str_join ''/'' (map sample_segment (split_char CHR ''/'' (drop 1 t)))"

lemma sample_segments:
  "route_segment ''1'' = '':number''" "route_segment sample_uuid = '':uuid''"
  "route_segment ''aaaaaaaa'' = '':hex''"
  by code_simp+

lemma path_unescape_id: "CHR ''%'' \<notin> set s \<Longrightarrow> path_unescape s = Some s"
  by (induction s) auto

lemma takeWhile_absent: "c \<notin> set s \<Longrightarrow> takeWhile (\<lambda>x. x \<noteq> c) s = s"
  by (rule takeWhile_eq_all_conv [THEN iffD2]) auto

lemma set_split_char: "w \<in> set (split_char c s) \<Longrightarrow> set w \<subseteq> set s - {c}"
proof (induction s arbitrary: w)
  case Nil
  then show ?case by simp
next
  case (Cons x s)
  then show ?case by (fastforce split: if_splits list.splits)
qed

lemma set_str_join: "set (str_join sep xs) \<subseteq> set sep \<union> \<Union> (set ` set xs)"
  by (induction sep xs rule: str_join.induct) auto

text \<open>The bytes that a template may consist of.\<close>

definition template_byte :: "char \<Rightarrow> bool" where
  "template_byte c \<longleftrightarrow> \<not> List.member template_reserved c \<and> \<not> control_or_space c"

lemma template_byteD:
  "template_byte c \<Longrightarrow> c \<noteq> CHR ''%'' \<and> c \<noteq> CHR ''?'' \<and> c \<noteq> CHR ''#'' \<and> c \<noteq> CHR 0x5C \<and> \<not> control_or_space c"
  by (auto simp: template_byte_def template_reserved_def)

lemma sample_bytes:
  "list_all template_byte ''1''" "list_all template_byte sample_uuid"
  "list_all template_byte ''aaaaaaaa''" "template_byte CHR ''/''"
  by code_simp+

lemma sample_segment_cases:
  "sample_segment p = ''1'' \<or> sample_segment p = sample_uuid \<or> sample_segment p = ''aaaaaaaa'' \<or>
   sample_segment p = p"
  unfolding sample_segment_def by presburger

lemma sample_segment_bytes:
  "list_all template_byte p \<Longrightarrow> list_all template_byte (sample_segment p)"
  using sample_segment_cases [of p] sample_bytes by (elim disjE) (simp_all only:)

lemma sample_segment_valid:
  assumes "valid_string p"
  shows "valid_string (sample_segment p)"
proof -
  have "valid_string ''1''" "valid_string sample_uuid" "valid_string ''aaaaaaaa''" by code_simp+
  with assms sample_segment_cases [of p] show ?thesis by (elim disjE) (simp_all only:)
qed

lemma sample_segment_slash:
  assumes "CHR ''/'' \<notin> set p"
  shows "CHR ''/'' \<notin> set (sample_segment p)"
proof -
  have "list_all (\<lambda>c. c \<noteq> CHR ''/'') ''1''" "list_all (\<lambda>c. c \<noteq> CHR ''/'') sample_uuid"
    "list_all (\<lambda>c. c \<noteq> CHR ''/'') ''aaaaaaaa''" by code_simp+
  then have "list_all (\<lambda>c. c \<noteq> CHR ''/'') (sample_segment p)"
    using sample_segment_cases [of p] assms
    by (elim disjE) (simp_all only:, auto simp: list_all_iff)
  then show ?thesis by (auto simp: list_all_iff)
qed

lemma sample_segment_dots:
  assumes "p \<noteq> ''.''" "p \<noteq> ''..''"
  shows "sample_segment p \<noteq> ''.'' \<and> sample_segment p \<noteq> ''..''"
proof -
  have "sample_uuid \<noteq> ''.''" "sample_uuid \<noteq> ''..''" "''1'' \<noteq> ''.''" "''aaaaaaaa'' \<noteq> ''.''"
    "''1'' \<noteq> ''..''" "''aaaaaaaa'' \<noteq> ''..''" by (simp_all add: sample_uuid_def)
  with assms sample_segment_cases [of p] show ?thesis by metis
qed

lemma route_sample_segment:
  assumes "placeholder p \<or> \<not> (CHR '':'' \<in> set p \<or> p = ''.'' \<or> p = ''..'' \<or> number_segment p \<or>
    uuid_segment p \<or> hex_segment p)"
  shows "route_segment (sample_segment p) = p"
proof (cases "placeholder p")
  case True
  then consider "p = '':number''" | "p = '':uuid''" | "p = '':hex''" unfolding placeholder_def by blast
  then show ?thesis
    by cases (simp_all only: sample_segment_def, simp_all add: sample_segments)
next
  case False
  then have "sample_segment p = p" by (simp add: sample_segment_def placeholder_def)
  moreover from False assms have "route_segment p = p" by (simp add: route_segment_def)
  ultimately show ?thesis by simp
qed

lemma template_segments:
  assumes "valid_route_template t"
  obtains segs where "segs = split_char CHR ''/'' (drop 1 t)" "t = str_join ''/'' ([] # segs)"
    "segs \<noteq> []" "\<forall>p \<in> set segs. list_all template_byte p \<and> valid_string p \<and> CHR ''/'' \<notin> set p \<and>
       p \<noteq> ''.'' \<and> p \<noteq> ''..'' \<and> route_segment (sample_segment p) = p"
    "\<not> (\<exists>p ps. segs = [] # p # ps)"
proof -
  let ?segs = "split_char CHR ''/'' (drop 1 t)"
  from assms obtain r where t: "t = CHR ''/'' # r"
    by (auto simp: valid_route_template_def has_prefix_iff)
  obtain w ws where w: "?segs = w # ws" by (cases ?segs) (use split_char_not_Nil in auto)
  have join: "t = str_join ''/'' ([] # ?segs)"
    using w join_split [of "CHR ''/''" r] t by simp
  have bytes: "list_all template_byte r"
    using assms by (auto simp: valid_route_template_def t template_byte_def list_ex_iff list_all_iff)
  have valid: "valid_string r"
    using assms valid_string_rest [of t] t by (simp add: valid_route_template_def rune_len_ascii)
  have seg: "list_all template_byte p \<and> valid_string p \<and> CHR ''/'' \<notin> set p \<and>
       p \<noteq> ''.'' \<and> p \<noteq> ''..'' \<and> route_segment (sample_segment p) = p" if p: "p \<in> set ?segs" for p
  proof -
    from p assms have c: "placeholder p \<or> \<not> (CHR '':'' \<in> set p \<or> p = ''.'' \<or> p = ''..'' \<or>
        number_segment p \<or> uuid_segment p \<or> hex_segment p)"
      by (auto simp: valid_route_template_def list_all_iff)
    then have "p \<noteq> ''.''" "p \<noteq> ''..''" by (auto simp: placeholder_def)
    moreover from p t have "p \<in> set (split_char CHR ''/'' r)" by simp
    moreover from this bytes have "list_all template_byte p" "CHR ''/'' \<notin> set p"
      using set_split_char [of p "CHR ''/''" r] by (auto simp: list_all_iff)
    moreover have "valid_string p"
      using valid valid_string_segments [of "CHR ''/''" r] \<open>p \<in> set (split_char CHR ''/'' r)\<close> by simp
    ultimately show ?thesis using route_sample_segment [OF c] by blast
  qed
  have "\<not> (\<exists>p ps. ?segs = [] # p # ps)"
  proof
    assume "\<exists>p ps. ?segs = [] # p # ps"
    then obtain p ps where "?segs = [] # p # ps" by blast
    with join have "has_prefix ''//'' t" by (cases ps) (simp_all add: has_prefix_def)
    with assms show False by (simp add: valid_route_template_def)
  qed
  with that [OF refl join] seg w show ?thesis by simp
qed

subsection \<open>Properties\<close>

text \<open>Every configured error route can be reached: the path obtained from an accepted template by
  putting a number, a UUID and a hexadecimal segment for its placeholders is normalised to
  exactly that template, so its requests are counted under the route's name; a template
  without placeholders names the requests of that very path. The path must be within the
  4,096 bytes a source path may have.\<close>

theorem route_template_reachable:
  assumes "valid_route_template t" and "length (sample_path t) \<le> 4096"
  shows "normalized_error_path (sample_path t) = Some t"
proof -
  from template_segments [OF assms(1)] obtain segs where segs: "segs = split_char CHR ''/'' (drop 1 t)"
    and t: "t = str_join ''/'' ([] # segs)" and ne: "segs \<noteq> []"
    and seg: "\<forall>p \<in> set segs. list_all template_byte p \<and> valid_string p \<and> CHR ''/'' \<notin> set p \<and>
       p \<noteq> ''.'' \<and> p \<noteq> ''..'' \<and> route_segment (sample_segment p) = p"
    and first: "\<not> (\<exists>p ps. segs = [] # p # ps)" .
  let ?parts = "[] # map sample_segment segs"
  obtain w ws where w: "segs = w # ws" using ne by (cases segs) auto
  have path: "sample_path t = str_join [CHR ''/''] ?parts"
    unfolding sample_path_def segs [symmetric] w by simp
  have bytes: "list_all template_byte (sample_path t)"
  proof -
    have sub: "set (sample_path t) \<subseteq> {CHR ''/''} \<union> \<Union> (set ` set ?parts)"
      using set_str_join [of "[CHR ''/'']" ?parts] unfolding path by simp
    have "template_byte c" if c: "c \<in> set (sample_path t)" for c
    proof -
      from subsetD [OF sub c] consider "c = CHR ''/''" | p where "p \<in> set segs" "c \<in> set (sample_segment p)"
        by auto
      then show ?thesis
      proof cases
        case 1
        then show ?thesis using sample_bytes(4) by simp
      next
        case (2 p)
        with seg sample_segment_bytes [of p] show ?thesis by (simp add: list_all_iff)
      qed
    qed
    then show ?thesis by (simp add: list_all_iff)
  qed
  have no: "CHR ''%'' \<notin> set (sample_path t)" "CHR ''?'' \<notin> set (sample_path t)"
    "CHR ''#'' \<notin> set (sample_path t)"
    "\<not> list_ex (\<lambda>c. control_or_space c \<or> c = CHR 0x5C) (sample_path t)"
    using bytes template_byteD by (auto simp: list_all_iff list_ex_iff)
  have split: "split_char CHR ''/'' (sample_path t) = ?parts"
    unfolding path by (rule split_join) (use seg sample_segment_slash in auto)
  have valid: "valid_string (sample_path t)"
    using valid_string_segments [of "CHR ''/''" "sample_path t"] split seg sample_segment_valid by auto
  have slash: "has_prefix ''/'' (sample_path t)" by (simp add: sample_path_def has_prefix_def)
  have double: "\<not> has_prefix ''//'' (sample_path t)"
  proof
    assume "has_prefix ''//'' (sample_path t)"
    then obtain r where "sample_path t = CHR ''/'' # CHR ''/'' # r" by (auto simp: has_prefix_iff)
    with split w have empty: "sample_segment w = []" and more: "ws \<noteq> []" by auto
    from empty have "w = []" by (auto simp: sample_segment_def sample_uuid_def split: if_splits)
    with first w more show False by (cases ws) auto
  qed
  have "\<not> list_ex (\<lambda>p. p = ''.'' \<or> p = ''..'') ?parts"
    using seg sample_segment_dots by (auto simp: list_ex_iff)
  moreover have "map route_segment ?parts = [] # segs"
    using seg by (simp add: map_idI route_segment_def number_segment_def uuid_segment_def hex_segment_def)
  then have "str_join ''/'' (map route_segment ?parts) = t" unfolding t by (rule arg_cong)
  ultimately show ?thesis
    using assms(2) no valid slash double
    by (simp add: normalized_error_path_def takeWhile_absent path_unescape_id split Let_def)
qed

theorem route_template_reachable_witness:
  "normalized_error_path (sample_path ''/api/:uuid/items/:number'') = Some ''/api/:uuid/items/:number''"
proof -
  have "valid_route_template ''/api/:uuid/items/:number''" by code_simp
  moreover have "length (sample_path ''/api/:uuid/items/:number'') \<le> 4096" by code_simp
  ultimately show ?thesis by (rule route_template_reachable)
qed

end
