(* ===== verification/Config.thy ===== *)
theory Config
  imports RateConfig HttpRoutes "HOL-Library.Multiset"
begin

text \<open>
  The configuration, \<open>internal/config/config.go\<close>: the sections \<open>Validate\<close> reads, the defaults, the
  validation, the denylists and the collector settings that come from environment variables.

  A Go map is an association list with distinct keys; its iteration order is unspecified, and
  \<open>Validate\<close> sorts what it collects. The URL parser and the tables of declared telemetry names
  (\<open>internal/semconv\<close>) are the parameters \<open>names\<close>. Loading and merging YAML (koanf) is not modelled.
\<close>

record url =
  url_abs :: bool
  url_scheme :: string
  url_hostname :: string
  url_user :: bool
  url_query :: string
  url_force_query :: bool
  url_fragment :: string

record config_names =
  parse_url :: "string \<Rightarrow> url option"
  known_metric :: "string \<Rightarrow> bool"
  known_attribute :: "string \<Rightarrow> bool"

record statuspage_config =
  sp_base_url :: string
  sp_timeout :: duration
  sp_max_bytes :: int
  sp_component_cap :: int

record cloudflare_config =
  cf_backoff :: duration
  cf_rate_limit :: rate_limit_config
  cf_api_token :: string
  cf_account_id :: string
  cf_timeout :: duration
  cf_max_bytes :: int

record collector_config =
  cc_enabled :: bool
  cc_interval :: duration
  cc_lookback :: duration
  cc_max_window :: duration

record http_config =
  hc_source :: string
  hc_breakdowns :: "string list"
  hc_scope :: string
  hc_metrics_scope :: string
  hc_hosts :: "string list"
  hc_max_hosts :: int
  hc_max_series :: int
  hc_high_limit :: int
  hc_high_hosts :: "string list"
  hc_routes :: "(string \<times> string) list"

record otlp_config =
  oc_metric_denylist :: "string list"
  oc_attribute_denylist :: "string list"
  oc_cardinality_limit :: int
  oc_endpoint :: string
  oc_protocol :: string
  oc_instance_id :: string
  oc_token :: string

record config =
  c_statuspage :: statuspage_config
  c_cloudflare :: cloudflare_config
  c_collectors :: "(string \<times> collector_config) list"
  c_http :: http_config
  c_otlp :: otlp_config
  c_firewall_max_series :: int
  c_platform_max_series :: int
  c_dex_window :: duration
  c_dex_max_tests :: int
  c_dex_max_series :: int
  c_warp_window :: duration
  c_warp_max_series :: int
  c_identity_window :: duration
  c_identity_max :: int
  c_aigateway_max_body :: int
  c_log_level :: string
  c_log_format :: string
  c_prometheus_listen :: string
  c_state_dir :: string
  c_health_listen :: string

subsection \<open>Library functions\<close>

text \<open>The port of \<open>net.SplitHostPort\<close>, \<open>None\<close> for its errors.\<close>

definition cut_last :: "char \<Rightarrow> string \<Rightarrow> (string \<times> string) option" where
  "cut_last c s =
     (if c \<in> set s
      then Some (rev (drop 1 (dropWhile (\<lambda>x. x \<noteq> c) (rev s))), rev (takeWhile (\<lambda>x. x \<noteq> c) (rev s)))
      else None)"

definition split_port :: "string \<Rightarrow> string option" where
  "split_port s =
     (case cut_last CHR '':'' s of
        None \<Rightarrow> None
      | Some (before, port) \<Rightarrow>
          if has_prefix ''['' s then
            (if CHR '']'' \<notin> set s then None
             else
               (let inside = takeWhile (\<lambda>x. x \<noteq> CHR '']'') s
                in if before \<noteq> inside @ '']'' then None
                   else if CHR ''['' \<in> set (drop 1 s) \<or> CHR '']'' \<in> set port then None
                   else Some port))
          else if CHR '':'' \<in> set before \<or> CHR ''['' \<in> set s \<or> CHR '']'' \<in> set s then None
          else Some port)"

definition ipv4_octet :: "string \<Rightarrow> bool" where
  "ipv4_octet s \<longleftrightarrow> length s \<le> 3 \<and> (s = ''0'' \<or> \<not> has_prefix ''0'' s) \<and>
     (case parse_digits s of None \<Rightarrow> False | Some n \<Rightarrow> n \<le> 255)"

definition is_ipv4 :: "string \<Rightarrow> bool" where
  "is_ipv4 s \<longleftrightarrow> length (split_char CHR ''.'' s) = 4 \<and> list_all ipv4_octet (split_char CHR ''.'' s)"

text \<open>\<open>strconv.Quote\<close> of ASCII text.\<close>

definition go_quote :: "string \<Rightarrow> string" where
  "go_quote s =
     [CHR 0x22] @ concat (map (\<lambda>c.
        if c = CHR 0x22 \<or> c = CHR 0x5C then [CHR 0x5C, c]
        else if c = CHR 0x0A then [CHR 0x5C, CHR ''n'']
        else if c = CHR 0x09 then [CHR 0x5C, CHR ''t'']
        else if c = CHR 0x0D then [CHR 0x5C, CHR ''r'']
        else [c]) s) @ [CHR 0x22]"

subsection \<open>Parts of the validation\<close>

definition label_char :: "char \<Rightarrow> bool" where
  "label_char c \<longleftrightarrow> is_digit c \<or> (97 \<le> byte c \<and> byte c \<le> 122)"

definition dns_label :: "string \<Rightarrow> bool" where
  "dns_label s \<longleftrightarrow> s \<noteq> [] \<and> length s \<le> 63 \<and> list_all (\<lambda>c. label_char c \<or> c = CHR ''-'') s \<and>
     label_char (hd s) \<and> label_char (last s)"

definition valid_host :: "string \<Rightarrow> bool" where
  "valid_host h \<longleftrightarrow> 0 < length h \<and> length h \<le> 253 \<and> \<not> is_ipv4 h \<and>
     list_all dns_label (split_char CHR ''.'' h)"

definition route_name_valid :: "string \<Rightarrow> bool" where
  "route_name_valid s \<longleftrightarrow>
     (let letter = (\<lambda>c. (65 \<le> byte c \<and> byte c \<le> 90) \<or> (97 \<le> byte c \<and> byte c \<le> 122))
      in s \<noteq> [] \<and> length s \<le> 64 \<and> letter (hd s) \<and>
         list_all (\<lambda>c. letter c \<or> c = CHR ''_'' \<or> c = CHR ''-'') s)"

definition statuspage_error :: "config_names \<Rightarrow> statuspage_config \<Rightarrow> gerr option" where
  "statuspage_error nm c =
     (let bad_url = Some (ErrNew ''statuspage.base_url must be absolute http/https without userinfo, query or fragment'')
      in case parse_url nm (sp_base_url c) of
        None \<Rightarrow> bad_url
      | Some u \<Rightarrow>
          if \<not> url_abs u \<or> (url_scheme u \<noteq> ''http'' \<and> url_scheme u \<noteq> ''https'') \<or>
             url_hostname u = [] \<or> url_user u \<or> url_query u \<noteq> [] \<or> url_force_query u \<or>
             url_fragment u \<noteq> [] \<or> CHR ''#'' \<in> set (sp_base_url c) then bad_url
          else if sp_timeout c \<le> 0 \<or> sp_max_bytes c \<le> 0 \<or> sp_max_bytes c = max_int64 then
            Some (ErrNew ''statuspage timeout and max_response_bytes must be positive and bounded'')
          else if sp_component_cap c < 1 \<or> sp_component_cap c > 5000 then
            Some (ErrNew ''statuspage.component_cap must be between 1 and 5000'')
          else None)"

text \<open>\<open>normalizeDenylists\<close>: duplicates are dropped, an unknown name is an error.\<close>

fun normalize_list ::
  "string \<Rightarrow> (string \<Rightarrow> bool) \<Rightarrow> string list \<Rightarrow> string list \<Rightarrow> gerr + string list" where
  "normalize_list k known out [] = Inr out"
| "normalize_list k known out (n # ns) =
     (if \<not> known n then Inl (ErrNew (k @ '' contains unknown semantic name '' @ go_quote n))
      else normalize_list k known (if List.member out n then out else out @ [n]) ns)"

definition normalize_denylists :: "config_names \<Rightarrow> otlp_config \<Rightarrow> gerr + otlp_config" where
  "normalize_denylists nm c =
     (case normalize_list ''otlp.metric_denylist'' (known_metric nm) [] (oc_metric_denylist c) of
        Inl e \<Rightarrow> Inl e
      | Inr ms \<Rightarrow>
          (case normalize_list ''otlp.attribute_denylist'' (known_attribute nm) [] (oc_attribute_denylist c) of
             Inl e \<Rightarrow> Inl e
           | Inr as \<Rightarrow> Inr (c\<lparr>oc_metric_denylist := ms, oc_attribute_denylist := as\<rparr>)))"

definition cfg_check :: "bool \<Rightarrow> string \<Rightarrow> string list" where
  "cfg_check ok msg = (if ok then [] else [msg])"

definition error_issue :: "gerr option \<Rightarrow> string list" where
  "error_issue r = (case r of None \<Rightarrow> [] | Some e \<Rightarrow> [err_text e])"

text \<open>The loop over \<open>error_path_routes\<close>; \<open>seen\<close> is the map \<open>templates\<close>.\<close>

fun route_issues :: "string list \<Rightarrow> (string \<times> string) list \<Rightarrow> string list" where
  "route_issues seen [] = []"
| "route_issues seen ((name, template) # rs) =
     cfg_check (route_name_valid name \<and> name \<noteq> ''other'' \<and> name \<noteq> ''unknown'' \<and> \<not> hex_segment name)
       ''http.error_path_routes has an invalid safe route name''
     @ cfg_check (valid_route_template template)
         ''http.error_path_routes requires canonical normalized absolute path templates''
     @ cfg_check (\<not> List.member seen template) ''http.error_path_routes contains duplicate templates''
     @ route_issues (template # seen) rs"

definition breakdown_values :: "string list" where
  "breakdown_values = [''status'', ''origin_status'', ''country'', ''protocol'', ''tls_protocol'',
     ''method'', ''content_type'', ''colo'', ''asn'', ''error_path'']"

definition scope_values :: "string list" where
  "scope_values = [''access_protected'', ''hosts'', ''all'']"

definition http_issues :: "http_config \<Rightarrow> string list" where
  "http_issues h =
     cfg_check (hc_source h = ''eyeball'' \<or> hc_source h = ''all'') ''http.request_source must be eyeball or all''
     @ concat (map (\<lambda>b. cfg_check (List.member breakdown_values b)
         (''http.breakdowns contains invalid value: '' @ b)) (hc_breakdowns h))
     @ cfg_check (1 \<le> hc_high_limit h \<and> hc_high_limit h \<le> 5000)
         ''http.high_cardinality_limit must be between 1 and 5000''
     @ cfg_check (length (hc_high_hosts h) \<le> 50) ''http.high_cardinality_hosts allows at most 50 hosts''
     @ concat (map (\<lambda>x. cfg_check (valid_host x)
         ''http.high_cardinality_hosts requires lowercase bare ASCII DNS names'') (hc_high_hosts h))
     @ cfg_check (length (hc_routes h) \<le> 5000) ''http.error_path_routes allows at most 5000 routes''
     @ route_issues [] (hc_routes h)
     @ concat (map (\<lambda>b. cfg_check (b \<noteq> ''error_path'' \<or> hc_routes h \<noteq> [])
         ''http.error_path_routes is required for error_path'') (hc_breakdowns h))
     @ cfg_check (List.member scope_values (hc_scope h)) ''http.scope is invalid''
     @ cfg_check (hc_metrics_scope h = [] \<or> List.member scope_values (hc_metrics_scope h))
         ''http.metrics_scope is invalid''
     @ cfg_check (hc_scope h \<noteq> ''hosts'' \<or> hc_hosts h \<noteq> []) ''http.hosts is required for hosts scope''
     @ cfg_check (hc_metrics_scope h \<noteq> ''hosts'' \<or> hc_hosts h \<noteq> [])
         ''http.hosts is required for metrics hosts scope''
     @ cfg_check (0 < hc_max_hosts h) ''http.max_metric_hosts_per_zone must be positive''
     @ cfg_check (0 < hc_max_series h) ''http.max_metric_series_per_window must be positive''"

definition snapshot_collectors :: "string list" where
  "snapshot_collectors = [''certs.packs'', ''tunnels.status'', ''httpreq.transfer'', ''access.seats'',
     ''warp.fleet'', ''dex.tests'', ''loadbalancers.health'', ''statuspage.components'']"

definition collector_issues :: "string \<Rightarrow> collector_config \<Rightarrow> string list" where
  "collector_issues name v =
     (if name = ''statuspage.components'' \<or> name = ''statuspage.incidents'' then
        cfg_check (go_rem (cc_lookback v) second = 0) (name @ ''.initial_lookback must be a whole number of seconds'')
        @ cfg_check (go_rem (cc_max_window v) second = 0) (name @ ''.max_window must be a whole number of seconds'')
      else [])
     @ (if cc_enabled v then
          cfg_check (0 < cc_interval v) (name @ ''.interval must be positive'')
          @ cfg_check (0 \<le> cc_lookback v) (name @ ''.initial_lookback must be nonnegative'')
          @ (if List.member snapshot_collectors name then []
             else if name = ''workersai.metrics'' then
               cfg_check (10 * minute \<le> cc_max_window v)
                 (name @ ''.max_window must be at least 10m for complete source buckets with unaligned cursors'')
             else cfg_check (0 < cc_max_window v) (name @ ''.max_window must be positive''))
        else [])"

definition prometheus_listen_valid :: "string \<Rightarrow> bool" where
  "prometheus_listen_valid s \<longleftrightarrow>
     (case split_port s of
        None \<Rightarrow> False
      | Some port \<Rightarrow>
          (case parse_int64 port of
             None \<Rightarrow> False
           | Some n \<Rightarrow> list_all is_digit port \<and> 1 \<le> n \<and> n \<le> 65535)) \<and>
     CHR ''/'' \<notin> set s \<and> CHR ''@'' \<notin> set s"

subsection \<open>Validate\<close>

definition section_issues :: "config_names \<Rightarrow> config \<Rightarrow> string list" where
  "section_issues nm c =
     (case normalize_denylists nm (c_otlp c) of Inl e \<Rightarrow> [err_text e] | Inr _ \<Rightarrow> [])
     @ error_issue (statuspage_error nm (c_statuspage c))
     @ (case map_of (c_collectors c) ''statuspage.components'' of
          None \<Rightarrow> []
        | Some v \<Rightarrow>
            if cc_enabled v then
              cfg_check (cc_interval v \<le> go_quot max_int64 3)
                ''statuspage.components.interval is too large for snapshot TTL''
            else [])
     @ cfg_check (cf_api_token (c_cloudflare c) \<noteq> []) ''cloudflare.api_token is required''
     @ cfg_check (cf_account_id (c_cloudflare c) \<noteq> []) ''cloudflare.account_id is required''
     @ error_issue (rate_limit_error (cf_rate_limit (c_cloudflare c)))
     @ cfg_check (0 < cf_backoff (c_cloudflare c)) ''cloudflare.entitlement_backoff must be positive''
     @ cfg_check (0 < cf_timeout (c_cloudflare c)) ''cloudflare.timeout must be positive''
     @ cfg_check (0 < cf_max_bytes (c_cloudflare c)) ''cloudflare.max_response_bytes must be positive''
     @ cfg_check (oc_endpoint (c_otlp c) \<noteq> []) ''otlp.endpoint is required''
     @ cfg_check (oc_protocol (c_otlp c) = ''http'' \<or> oc_protocol (c_otlp c) = ''grpc'')
         ''otlp.protocol must be http or grpc''
     @ cfg_check (oc_instance_id (c_otlp c) \<noteq> []) ''otlp.grafana_cloud.instance_id is required''
     @ cfg_check (oc_token (c_otlp c) \<noteq> []) ''otlp.grafana_cloud.token is required''
     @ cfg_check (0 \<le> oc_cardinality_limit (c_otlp c)) ''otlp.metric_cardinality_limit must be nonnegative''"

definition limit_issues :: "config \<Rightarrow> string list" where
  "limit_issues c =
     cfg_check (0 < c_firewall_max_series c) ''firewall.max_metric_series_per_window must be positive''
     @ cfg_check (0 < c_platform_max_series c) ''platform.max_metric_series_per_window must be positive''
     @ cfg_check (hour \<le> c_dex_window c \<and> c_dex_window c \<le> 168 * hour)
         ''dex.result_window must be between 1h and 168h''
     @ cfg_check (1 \<le> c_dex_max_tests c \<and> c_dex_max_tests c \<le> 10000)
         ''dex.max_tests must be between 1 and 10000''
     @ cfg_check (6 \<le> c_dex_max_series c \<and> c_dex_max_series c \<le> 5000)
         ''dex.max_metric_series must be between 6 and 5000 (six remainder slots)''
     @ cfg_check (0 < c_warp_window c \<and> c_warp_window c \<le> hour)
         ''warp.last_seen_window must be positive and at most 60m''
     @ cfg_check (1 \<le> c_warp_max_series c \<and> c_warp_max_series c \<le> 5000)
         ''warp.max_metric_series must be between 1 and 5000''
     @ cfg_check (0 < c_identity_window c) ''identity.match_window must be positive''
     @ cfg_check (0 < c_identity_max c) ''identity.max_candidates must be positive''
     @ cfg_check (0 < c_aigateway_max_body c) ''ai_gateway.max_body_bytes must be positive''
     @ cfg_check (List.member [''debug'', ''info'', ''warn'', ''error''] (to_lower (c_log_level c)))
         ''log.level must be one of debug, info, warn, error''
     @ cfg_check (equal_fold (c_log_format c) ''json'' \<or> equal_fold (c_log_format c) ''text'')
         ''log.format must be json or text''
     @ cfg_check (prometheus_listen_valid (c_prometheus_listen c))
         ''prometheus.listen must be a host:port with numeric port 1..65535''
     @ cfg_check (c_state_dir c \<noteq> []) ''state.dir is required''
     @ cfg_check (has_prefix ''127.0.0.1:'' (c_health_listen c) \<or> has_prefix ''localhost:'' (c_health_listen c))
         ''health.listen must bind loopback''"

definition config_issues :: "config_names \<Rightarrow> config \<Rightarrow> string list" where
  "config_issues nm c =
     section_issues nm c @ http_issues (c_http c) @ limit_issues c
     @ concat (map (\<lambda>(name, v). collector_issues name v) (c_collectors c))"

definition validate_config :: "config_names \<Rightarrow> config \<Rightarrow> gerr option" where
  "validate_config nm c =
     (let issues = config_issues nm c
      in if issues = [] then None else Some (ErrNew (str_join ''; '' (sort issues))))"

subsection \<open>Defaults\<close>

definition default_collector_names :: "string list" where
  "default_collector_names = [''access.logins'', ''access.login_metrics'', ''access.scim'',
     ''access.seats'', ''inventory.access'', ''httpreq.events'', ''httpreq.metrics'',
     ''aigateway.logs'', ''aigateway.metrics'', ''audit.logs'', ''firewall.events'',
     ''firewall.metrics'', ''dns.events'', ''dns.metrics'', ''rum.pageloads'', ''rum.web_vitals'',
     ''gateway.dns'', ''workers.overview'', ''workers.invocations'', ''turnstile.events'',
     ''logpush.health'', ''d1.analytics'', ''d1.queries'', ''d1.storage'', ''kv.operations'',
     ''kv.storage'', ''r2.bandwidth'', ''r2.catalog_data'', ''r2.catalog_maintenance'',
     ''r2.operations'', ''r2.storage'', ''r2.sql'', ''durableobjects.invocations'',
     ''durableobjects.periodic'', ''durableobjects.sql_storage'', ''durableobjects.subrequests'',
     ''queues.backlog'', ''queues.consumer'', ''queues.delayed_backlog'',
     ''queues.message_operations'', ''email.routing'', ''email.sending'', ''selfobs'']"

definition disabled_collector_names :: "string list" where
  "disabled_collector_names = [''aigateway.coverage'', ''logpush.failures'', ''healthchecks.events'',
     ''workersai.metrics'']"

definition cc_of :: "bool \<Rightarrow> duration \<Rightarrow> duration \<Rightarrow> duration \<Rightarrow> collector_config" where
  "cc_of enabled interval lookback window =
     \<lparr>cc_enabled = enabled, cc_interval = interval, cc_lookback = lookback, cc_max_window = window\<rparr>"

definition default_collectors :: "(string \<times> collector_config) list" where
  "default_collectors =
     (let put = (\<lambda>(n, v). AList.update n v);
          base = fold put
            [(''dex.tests'', cc_of False (5 * minute) 0 0),
             (''loadbalancers.health'', cc_of False (5 * minute) 0 0),
             (''statuspage.components'', cc_of False (5 * minute) 0 0),
             (''statuspage.incidents'', cc_of False (5 * minute) (15 * minute) hour)] [];
          all = fold put (map (\<lambda>n. (n, cc_of True (5 * minute) (30 * minute) hour)) default_collector_names) base;
          off = fold put (map (\<lambda>n. (n, cc_of False (5 * minute) (30 * minute) hour)) disabled_collector_names) all;
          snap = fold put
            [(''access.seats'', cc_of True (15 * minute) 0 0), (''certs.packs'', cc_of False hour 0 0),
             (''tunnels.status'', cc_of False minute 0 0), (''warp.fleet'', cc_of False (5 * minute) 0 0),
             (''httpreq.transfer'', cc_of True hour 0 0), (''httpreq.threats'', cc_of True hour hour hour)] off;
          metrics = (the (map_of snap ''aigateway.metrics''))\<lparr>cc_enabled := False\<rparr>;
          snap = AList.update ''aigateway.metrics'' metrics snap;
          audit = (the (map_of snap ''audit.logs''))\<lparr>cc_lookback := 24 * hour\<rparr>
      in AList.update ''audit.logs'' audit snap)"

definition default_config :: config where
  "default_config =
     \<lparr>c_statuspage = \<lparr>sp_base_url = ''https://www.cloudflarestatus.com'', sp_timeout = 15 * second,
        sp_max_bytes = 2 * 1024 * 1024, sp_component_cap = 500\<rparr>,
      c_cloudflare = \<lparr>cf_backoff = hour, cf_rate_limit = default_rate_limit, cf_api_token = [],
        cf_account_id = [], cf_timeout = 30 * second, cf_max_bytes = 16 * 1024 * 1024\<rparr>,
      c_collectors = default_collectors,
      c_http = \<lparr>hc_source = ''eyeball'', hc_breakdowns = [''status'', ''origin_status'', ''country'',
        ''protocol'', ''tls_protocol'', ''method'', ''content_type''], hc_scope = ''access_protected'',
        hc_metrics_scope = [], hc_hosts = [], hc_max_hosts = 1000, hc_max_series = 10000,
        hc_high_limit = 500, hc_high_hosts = [], hc_routes = []\<rparr>,
      c_otlp = \<lparr>oc_metric_denylist = [], oc_attribute_denylist = [], oc_cardinality_limit = 10000,
        oc_endpoint = [], oc_protocol = ''http'', oc_instance_id = [], oc_token = []\<rparr>,
      c_firewall_max_series = 500, c_platform_max_series = 500, c_dex_window = hour,
      c_dex_max_tests = 1000, c_dex_max_series = 500, c_warp_window = 15 * minute,
      c_warp_max_series = 500, c_identity_window = 15 * minute, c_identity_max = 100000,
      c_aigateway_max_body = 16 * 1024, c_log_level = ''info'', c_log_format = ''json'',
      c_prometheus_listen = ''127.0.0.1:9465'', c_state_dir = ''/var/lib/cf2otel'',
      c_health_listen = ''127.0.0.1:9464''\<rparr>"

subsection \<open>Lemmas\<close>

lemma cfg_check_Nil [simp]: "cfg_check ok msg = [] \<longleftrightarrow> ok"
  by (simp add: cfg_check_def)

lemma error_issue_None: "error_issue r = [] \<longleftrightarrow> r = None"
  by (simp add: error_issue_def split: option.splits)

lemma validate_config_None: "validate_config nm c = None \<longleftrightarrow> config_issues nm c = []"
  by (simp add: validate_config_def Let_def)

lemma route_issues_Nil:
  "route_issues seen rs = [] \<longleftrightarrow>
     (\<forall>(n, t) \<in> set rs. route_name_valid n \<and> n \<noteq> ''other'' \<and> n \<noteq> ''unknown'' \<and> \<not> hex_segment n \<and>
        valid_route_template t \<and> t \<notin> set seen) \<and> distinct (map snd rs)"
  by (induction seen rs rule: route_issues.induct) (auto simp: image_iff)

lemma valid_routes:
  assumes "validate_config nm c = None"
  shows "distinct (map snd (hc_routes (c_http c)))"
    "(n, t) \<in> set (hc_routes (c_http c)) \<Longrightarrow> valid_route_template t"
proof -
  from assms have "route_issues [] (hc_routes (c_http c)) = []"
    by (simp add: validate_config_None config_issues_def http_issues_def)
  then show "distinct (map snd (hc_routes (c_http c)))"
    "(n, t) \<in> set (hc_routes (c_http c)) \<Longrightarrow> valid_route_template t"
    by (auto simp: route_issues_Nil)
qed

text \<open>The lookup of \<open>collectHighCardinality\<close>: the templates are put into a map, the last one wins.\<close>

definition error_route :: "(string \<times> string) list \<Rightarrow> string \<Rightarrow> string option" where
  "error_route routes raw =
     (case normalized_error_path raw of
        None \<Rightarrow> None
      | Some p \<Rightarrow> map_of (rev (map (\<lambda>(n, t). (t, n)) routes)) p)"

lemma error_route_name:
  assumes "distinct (map snd routes)" "(n, t) \<in> set routes" "normalized_error_path raw = Some t"
  shows "error_route routes raw = Some n"
proof -
  have keys: "map fst (map (\<lambda>(n, t). (t, n)) routes) = map snd routes" by (induction routes) auto
  then have "distinct (map fst (rev (map (\<lambda>(n, t). (t, n)) routes)))"
    using assms(1) by (simp only: rev_map [symmetric] distinct_rev)
  moreover have "(t, n) \<in> set (rev (map (\<lambda>(n, t). (t, n)) routes))" using assms(2) by force
  ultimately show ?thesis using assms(3) by (simp add: error_route_def)
qed

definition status_url :: url where
  "status_url = \<lparr>url_abs = True, url_scheme = ''https'', url_hostname = ''www.cloudflarestatus.com'',
     url_user = False, url_query = [], url_force_query = False, url_fragment = []\<rparr>"

text \<open>The settings without a default.\<close>

definition with_required :: "string \<Rightarrow> string \<Rightarrow> string \<Rightarrow> string \<Rightarrow> string \<Rightarrow> config \<Rightarrow> config" where
  "with_required token account endpoint instance_id otlp_token c =
     c\<lparr>c_cloudflare := (c_cloudflare c)\<lparr>cf_api_token := token, cf_account_id := account\<rparr>,
       c_otlp := (c_otlp c)\<lparr>oc_endpoint := endpoint, oc_instance_id := instance_id, oc_token := otlp_token\<rparr>\<rparr>"

lemma default_collectors_ok: "concat (map (\<lambda>(name, v). collector_issues name v) default_collectors) = []"
  by code_simp

lemma default_statuspage_interval:
  "\<not> cc_enabled (the (map_of default_collectors ''statuspage.components''))"
  "map_of default_collectors ''statuspage.components'' \<noteq> None"
  by code_simp+

lemma default_listen: "prometheus_listen_valid ''127.0.0.1:9465''" "has_prefix ''127.0.0.1:'' ''127.0.0.1:9464''"
  "CHR ''#'' \<notin> set ''https://www.cloudflarestatus.com''"
  by code_simp+

text \<open>The default configuration with the required settings and any HTTP section.\<close>

lemma default_config_http:
  assumes "parse_url nm ''https://www.cloudflarestatus.com'' = Some status_url"
  shows "validate_config nm
      ((with_required token account endpoint instance_id otlp_token default_config)\<lparr>c_http := h\<rparr>) = None
    \<longleftrightarrow> token \<noteq> [] \<and> account \<noteq> [] \<and> endpoint \<noteq> [] \<and> instance_id \<noteq> [] \<and> otlp_token \<noteq> [] \<and>
      http_issues h = []"
proof -
  let ?c = "(with_required token account endpoint instance_id otlp_token default_config)\<lparr>c_http := h\<rparr>"
  obtain v where v: "map_of default_collectors ''statuspage.components'' = Some v" "\<not> cc_enabled v"
    using default_statuspage_interval by (cases "map_of default_collectors ''statuspage.components''") auto
  have http: "http_issues (c_http ?c) = http_issues h" by simp
  have limit: "limit_issues ?c = []"
    by (simp add: with_required_def default_config_def limit_issues_def default_listen equal_fold_def
        to_lower_def lower_char_def)
  have coll: "concat (map (\<lambda>(name, v). collector_issues name v) (c_collectors ?c)) = []"
    using default_collectors_ok
    by (simp only: with_required_def default_config_def config.simps config.update_convs)
  have sections: "section_issues nm ?c = [] \<longleftrightarrow> token \<noteq> [] \<and> account \<noteq> [] \<and> endpoint \<noteq> [] \<and>
      instance_id \<noteq> [] \<and> otlp_token \<noteq> []"
    using assms default_rate_limit_valid(1)
    by (simp add: section_issues_def with_required_def default_config_def normalize_denylists_def
        statuspage_error_def status_url_def v error_issue_None default_listen del: not_None_eq)
  show ?thesis unfolding validate_config_None config_issues_def append_is_Nil_conv http
    using limit coll sections by blast
qed

subsection \<open>Properties\<close>

text \<open>A route the validation accepts works: in a valid configuration every named route is found by
  the requests its template stands for, under its own name, in whatever order the map of routes
  is iterated; the templates are distinct, so no other route can take them. The sampled path
  must be within the 4,096 bytes a source path may have.\<close>

theorem configured_routes_named:
  assumes "validate_config nm c = None" and "(n, t) \<in> set (hc_routes (c_http c))"
    and "length (sample_path t) \<le> 4096" and "mset rs = mset (hc_routes (c_http c))"
  shows "error_route rs (sample_path t) = Some n"
proof -
  note routes = valid_routes [OF assms(1)]
  have set: "set rs = set (hc_routes (c_http c))" using assms(4) by (rule mset_eq_setD)
  have "mset (map snd rs) = mset (map snd (hc_routes (c_http c)))" using assms(4) by simp
  with routes(1) have "distinct (map snd rs)" by (metis mset_eq_imp_distinct_iff)
  moreover have "normalized_error_path (sample_path t) = Some t"
    using route_template_reachable [OF routes(2) assms(3)] assms(2) by blast
  ultimately show ?thesis using error_route_name set assms(2) by blast
qed

text \<open>A configuration with one named route.\<close>

definition all_names :: config_names where
  "all_names = \<lparr>parse_url = \<lambda>_. Some status_url, known_metric = \<lambda>_. True, known_attribute = \<lambda>_. True\<rparr>"

definition items_config :: config where
  "items_config = (with_required ''t'' ''a'' ''e'' ''i'' ''k'' default_config)
     \<lparr>c_http := (c_http default_config)\<lparr>hc_routes := [(''items'', ''/items/:number'')]\<rparr>\<rparr>"

lemma items_valid: "route_issues [] [(''items'', ''/items/:number'')] = []"
  by code_simp

theorem configured_routes_named_witness:
  "error_route [(''items'', ''/items/:number'')] ''/items/1'' = Some ''items''"
proof -
  let ?h = "(c_http default_config)\<lparr>hc_routes := [(''items'', ''/items/:number'')]\<rparr>"
  have "parse_url all_names ''https://www.cloudflarestatus.com'' = Some status_url"
    by (simp add: all_names_def)
  moreover have "http_issues ?h = []"
    by (simp add: default_config_def http_issues_def breakdown_values_def scope_values_def items_valid
        del: route_issues.simps)
  ultimately have valid: "validate_config all_names items_config = None"
    using default_config_http [of all_names ?h "''t''" "''a''" "''e''" "''i''" "''k''"]
    by (simp add: items_config_def)
  have routes: "hc_routes (c_http items_config) = [(''items'', ''/items/:number'')]"
    by (simp add: items_config_def)
  have path: "sample_path ''/items/:number'' = ''/items/1''" by code_simp
  from configured_routes_named [OF valid, of "''items''" "''/items/:number''"
      "[(''items'', ''/items/:number'')]"]
  show ?thesis by (simp add: routes path)
qed

text \<open>The defaults are complete: once the five settings without a default (API token, account,
  OTLP endpoint, Grafana instance and token) are given, the default configuration is valid,
  and while any of them is empty it is not. The status page URL is assumed to parse.\<close>

theorem default_config_complete:
  assumes "parse_url nm ''https://www.cloudflarestatus.com'' = Some status_url"
  shows "validate_config nm (with_required token account endpoint instance_id otlp_token default_config) = None
    \<longleftrightarrow> token \<noteq> [] \<and> account \<noteq> [] \<and> endpoint \<noteq> [] \<and> instance_id \<noteq> [] \<and> otlp_token \<noteq> []"
proof -
  let ?c = "with_required token account endpoint instance_id otlp_token default_config"
  have http: "http_issues (c_http ?c) = []"
    by (simp add: with_required_def default_config_def http_issues_def breakdown_values_def scope_values_def)
  have "?c = ?c\<lparr>c_http := c_http ?c\<rparr>" by simp
  with default_config_http [OF assms, of "c_http ?c" token account endpoint instance_id otlp_token] http
  show ?thesis by metis
qed

theorem default_config_complete_witness:
  "validate_config \<lparr>parse_url = \<lambda>_. Some status_url, known_metric = \<lambda>_. True, known_attribute = \<lambda>_. True\<rparr>
     (with_required ''t'' ''a'' ''e'' ''i'' ''k'' default_config) = None"
proof -
  let ?nm = "\<lparr>parse_url = \<lambda>_. Some status_url, known_metric = \<lambda>_. True, known_attribute = \<lambda>_. True\<rparr>"
  have "parse_url ?nm ''https://www.cloudflarestatus.com'' = Some status_url" by simp
  from default_config_complete [OF this, of "''t''" "''a''" "''e''" "''i''" "''k''"] show ?thesis by simp
qed

end
