(* ===== verification/Identity.thy ===== *)
theory Identity
  imports GoErrors "HOL-Library.Word" "HOL-Library.AList" "HOL-Library.Product_Lexorder"
begin

text \<open>
  The identity index, \<open>internal/identity/index.go\<close>: Access logins are remembered, within bounds, so
  that HTTP requests can be attributed to the user who logged in from the same address to the same
  host shortly before.

  The two heaps of the code are used through their minimum, \<open>Len\<close>, \<open>Push\<close> and \<open>Pop\<close> only, so a heap is
  the list of its elements in increasing rank. The keyed digest (HMAC-SHA256 under a random key,
  not part of the repository) is the parameter \<open>fp\<close> of the operations; that it does not collide
  on the logins observed is a hypothesis where it matters. An element of the heap of seen rows is
  its rank itself, and a candidate is its login: key, bucket and fingerprint are computed.
\<close>

record login =
  lg_ip :: string
  lg_host :: string
  lg_email :: string
  lg_ray :: string
  lg_at :: time

type_synonym ident_key = "string \<times> string"
type_synonym login_rank = "time \<times> string"
type_synonym minute_map = "(int \<times> (ident_key \<times> login list) list) list"

record ident_match =
  im_email :: string
  im_ray :: string
  im_inferred :: bool
  im_ambiguous :: bool

record memory_index =
  mi_window :: duration
  mi_retention :: duration
  mi_max :: nat
  mi_max_seen :: nat
  mi_latest :: time
  mi_by_minute :: minute_map
  mi_oldest :: "login list"
  mi_seen_rows :: "string set"
  mi_seen_oldest :: "login_rank list"
  mi_matched :: "64 word"
  mi_unmatched :: "64 word"
  mi_ambiguous :: "64 word"

definition new_index :: "duration \<Rightarrow> duration \<Rightarrow> int \<Rightarrow> gerr + memory_index" where
  "new_index window retention max_candidates =
     (if window \<le> 0 \<or> retention < window \<or> max_candidates \<le> 0
      then Inl (ErrNew ''identity window and max candidates must be positive'')
      else
        (let max_seen = (if max_candidates \<le> max_int64 div 4 then max_candidates * 4 else max_candidates)
         in Inr \<lparr>mi_window = window, mi_retention = retention, mi_max = nat max_candidates,
              mi_max_seen = nat max_seen, mi_latest = 0, mi_by_minute = [], mi_oldest = [],
              mi_seen_rows = {}, mi_seen_oldest = [], mi_matched = 0, mi_unmatched = 0,
              mi_ambiguous = 0\<rparr>))"

definition normalized_key :: "string \<Rightarrow> string \<Rightarrow> ident_key" where
  "normalized_key ip host = (trim_space ip, trim_suffix ''.'' (to_lower (trim_space host)))"

definition login_key :: "login \<Rightarrow> ident_key" where
  "login_key l = normalized_key (lg_ip l) (lg_host l)"

definition login_user :: "login \<Rightarrow> string" where
  "login_user l = to_lower (trim_space (lg_email l))"

text \<open>\<open>rankLess\<close> is the lexicographic order of time and digest.\<close>

definition login_rank :: "(login \<Rightarrow> string) \<Rightarrow> login \<Rightarrow> login_rank" where
  "login_rank fp l = (lg_at l, fp l)"

definition login_bucket :: "login \<Rightarrow> int" where
  "login_bucket l = go_quot (time_unix (lg_at l)) 60"

subsection \<open>Candidates by minute\<close>

definition minute_at :: "minute_map \<Rightarrow> int \<Rightarrow> ident_key \<Rightarrow> login list" where
  "minute_at bm b k =
     (case map_of bm b of None \<Rightarrow> [] | Some keyed \<Rightarrow> (case map_of keyed k of None \<Rightarrow> [] | Some cs \<Rightarrow> cs))"

definition minute_keyed :: "minute_map \<Rightarrow> int \<Rightarrow> (ident_key \<times> login list) list" where
  "minute_keyed bm b = (case map_of bm b of None \<Rightarrow> [] | Some keyed \<Rightarrow> keyed)"

definition minute_insert :: "login \<Rightarrow> minute_map \<Rightarrow> minute_map" where
  "minute_insert c bm =
     (let b = login_bucket c; k = login_key c
      in AList.update b (AList.update k (c # minute_at bm b k) (minute_keyed bm b)) bm)"

definition minute_delete :: "login \<Rightarrow> minute_map \<Rightarrow> minute_map" where
  "minute_delete c bm =
     (let b = login_bucket c; k = login_key c;
          cs = remove1 c (minute_at bm b k);
          keyed = (if cs = [] then AList.delete k (minute_keyed bm b)
                   else AList.update k cs (minute_keyed bm b))
      in if keyed = [] then AList.delete b bm else AList.update b keyed bm)"

subsection \<open>Operations\<close>

definition remove_oldest :: "memory_index \<Rightarrow> memory_index" where
  "remove_oldest idx =
     (case mi_oldest idx of
        [] \<Rightarrow> idx
      | c # rest \<Rightarrow>
          idx\<lparr>mi_oldest := rest, mi_by_minute := minute_delete c (mi_by_minute idx)\<rparr>)"

lemma remove_oldest_length [termination_simp]:
  "mi_oldest idx \<noteq> [] \<Longrightarrow> length (mi_oldest (remove_oldest idx)) < length (mi_oldest idx)"
  by (cases "mi_oldest idx") (simp_all add: remove_oldest_def)

function expire_candidates :: "time \<Rightarrow> memory_index \<Rightarrow> memory_index" where
  "expire_candidates cutoff idx =
     (if mi_oldest idx \<noteq> [] \<and> lg_at (hd (mi_oldest idx)) < cutoff
      then expire_candidates cutoff (remove_oldest idx) else idx)"
  by pat_completeness auto
termination
  by (relation "measure (\<lambda>(_, idx). length (mi_oldest idx))") (simp_all add: remove_oldest_length)

function shrink_candidates :: "memory_index \<Rightarrow> memory_index" where
  "shrink_candidates idx =
     (if length (mi_oldest idx) > mi_max idx then shrink_candidates (remove_oldest idx) else idx)"
  by pat_completeness auto
termination
  by (relation "measure (\<lambda>idx. length (mi_oldest idx))")
    (simp_all, metis remove_oldest_length length_0_conv not_less_zero)

declare expire_candidates.simps [simp del] shrink_candidates.simps [simp del]

fun expire_seen :: "time \<Rightarrow> login_rank list \<Rightarrow> string set \<Rightarrow> login_rank list \<times> string set" where
  "expire_seen cutoff [] rows = ([], rows)"
| "expire_seen cutoff (s # ss) rows =
     (if fst s < cutoff then expire_seen cutoff ss (rows - {snd s}) else (s # ss, rows))"

fun shrink_seen :: "nat \<Rightarrow> login_rank list \<Rightarrow> string set \<Rightarrow> login_rank list \<times> string set" where
  "shrink_seen n [] rows = ([], rows)"
| "shrink_seen n (s # ss) rows =
     (if length (s # ss) > n then shrink_seen n ss (rows - {snd s}) else (s # ss, rows))"

definition advance_index :: "time \<Rightarrow> memory_index \<Rightarrow> memory_index" where
  "advance_index t idx =
     (let latest = (if t > mi_latest idx then t else mi_latest idx);
          cutoff = latest - mi_retention idx
      in case expire_seen cutoff (mi_seen_oldest idx) (mi_seen_rows idx) of
           (seen, rows) \<Rightarrow>
             expire_candidates cutoff
               (idx\<lparr>mi_latest := latest, mi_seen_oldest := seen, mi_seen_rows := rows\<rparr>))"

definition prune_index :: "time \<Rightarrow> memory_index \<Rightarrow> memory_index" where
  "prune_index now idx = advance_index now idx"

definition valid_login :: "login \<Rightarrow> bool" where
  "valid_login l \<longleftrightarrow> fst (login_key l) \<noteq> [] \<and> snd (login_key l) \<noteq> [] \<and>
     trim_space (lg_email l) \<noteq> [] \<and> lg_at l \<noteq> 0"

text \<open>The end of \<open>Observe\<close>: the login becomes a candidate unless the index is full of later ones.\<close>

definition add_candidate :: "(login \<Rightarrow> string) \<Rightarrow> login \<Rightarrow> memory_index \<Rightarrow> memory_index" where
  "add_candidate fp l idx =
     (if length (mi_oldest idx) = mi_max idx \<and>
         \<not> login_rank fp (hd (mi_oldest idx)) < login_rank fp l then idx
      else shrink_candidates
        (idx\<lparr>mi_by_minute := minute_insert l (mi_by_minute idx),
             mi_oldest := insort_key (login_rank fp) l (mi_oldest idx)\<rparr>))"

definition observe_login :: "(login \<Rightarrow> string) \<Rightarrow> login \<Rightarrow> memory_index \<Rightarrow> memory_index" where
  "observe_login fp l idx0 =
     (if \<not> valid_login l then idx0
      else
        (let idx = advance_index (lg_at l) idx0
         in if lg_at l < mi_latest idx - mi_retention idx then idx
            else if fp l \<in> mi_seen_rows idx then idx
            else if length (mi_seen_oldest idx) = mi_max_seen idx \<and>
                    \<not> hd (mi_seen_oldest idx) < login_rank fp l then idx
            else
              (case shrink_seen (mi_max_seen idx) (insort (login_rank fp l) (mi_seen_oldest idx))
                      (insert (fp l) (mi_seen_rows idx)) of
                 (seen, rows) \<Rightarrow>
                   add_candidate fp l (idx\<lparr>mi_seen_oldest := seen, mi_seen_rows := rows\<rparr>))))"

definition no_match :: ident_match where
  "no_match = \<lparr>im_email = [], im_ray = [], im_inferred = False, im_ambiguous = False\<rparr>"

definition match_of :: "login \<Rightarrow> ident_match" where
  "match_of c = \<lparr>im_email = lg_email c, im_ray = lg_ray c, im_inferred = True, im_ambiguous = False\<rparr>"

definition in_window :: "duration \<Rightarrow> time \<Rightarrow> login \<Rightarrow> bool" where
  "in_window window t c \<longleftrightarrow> lg_at c \<le> t \<and> time_sub t (lg_at c) \<le> window"

text \<open>The loop of \<open>Lookup\<close> over the candidates of a key: \<open>None\<close> is the early return of an ambiguous
  lookup, otherwise the chosen candidate.\<close>

fun lookup_loop ::
  "(login \<Rightarrow> string) \<Rightarrow> duration \<Rightarrow> time \<Rightarrow> login list \<Rightarrow> string \<Rightarrow> login option \<Rightarrow> login option option"
where
  "lookup_loop fp window t [] user chosen = Some chosen"
| "lookup_loop fp window t (c # cs) user chosen =
     (if \<not> in_window window t c then lookup_loop fp window t cs user chosen
      else if user \<noteq> [] \<and> user \<noteq> login_user c then None
      else lookup_loop fp window t cs (login_user c)
        (case chosen of
           None \<Rightarrow> Some c
         | Some d \<Rightarrow> if login_rank fp d < login_rank fp c then Some c else Some d))"

text \<open>The candidates of a key over all minutes, in the order the map is iterated.\<close>

definition minute_rows :: "minute_map \<Rightarrow> ident_key \<Rightarrow> login list" where
  "minute_rows bm k =
     concat (map (\<lambda>(b, keyed). case map_of keyed k of None \<Rightarrow> [] | Some cs \<Rightarrow> cs) bm)"

definition lookup_login ::
  "(login \<Rightarrow> string) \<Rightarrow> string \<Rightarrow> string \<Rightarrow> time \<Rightarrow> memory_index \<Rightarrow> memory_index \<times> ident_match" where
  "lookup_login fp ip host t idx0 =
     (let idx = advance_index t idx0
      in case lookup_loop fp (mi_window idx) t (minute_rows (mi_by_minute idx) (normalized_key ip host)) [] None of
           None \<Rightarrow> (idx\<lparr>mi_ambiguous := mi_ambiguous idx + 1\<rparr>, no_match\<lparr>im_ambiguous := True\<rparr>)
         | Some None \<Rightarrow> (idx\<lparr>mi_unmatched := mi_unmatched idx + 1\<rparr>, no_match)
         | Some (Some c) \<Rightarrow> (idx\<lparr>mi_matched := mi_matched idx + 1\<rparr>, match_of c))"

datatype index_op = Observe login | Lookup string string time | Prune time

fun run_index ::
  "(login \<Rightarrow> string) \<Rightarrow> index_op list \<Rightarrow> memory_index \<Rightarrow> memory_index \<times> ident_match list" where
  "run_index fp [] idx = (idx, [])"
| "run_index fp (Observe l # ops) idx = run_index fp ops (observe_login fp l idx)"
| "run_index fp (Prune t # ops) idx = run_index fp ops (prune_index t idx)"
| "run_index fp (Lookup ip host t # ops) idx =
     (case lookup_login fp ip host t idx of
        (idx', m) \<Rightarrow> (case run_index fp ops idx' of (idx'', ms) \<Rightarrow> (idx'', m # ms)))"

end
