(* ===== verification/IdentitySpec.thy ===== *)
theory IdentitySpec
  imports Identity
begin

text \<open>
  What the identity index promises. The specification remembers every valid login for ever; of
  those within the retention, the highest ranked are the candidates. The bounded index is shown to
  refine it: whatever the order of observations, lookups and prunes, it keeps exactly these
  candidates and answers every lookup from them.
\<close>

subsection \<open>The greatest elements of a finite set\<close>

definition greatest :: "nat \<Rightarrow> 'a::linorder set \<Rightarrow> 'a set" where
  "greatest k R = set (drop (card R - k) (sorted_list_of_set R))"

definition is_greatest :: "nat \<Rightarrow> 'a::linorder set \<Rightarrow> 'a set \<Rightarrow> bool" where
  "is_greatest k R A \<longleftrightarrow> A \<subseteq> R \<and> card A = min k (card R) \<and> (\<forall>x \<in> R - A. \<forall>y \<in> A. x < y)"

lemma greatest_is_greatest:
  assumes "finite R"
  shows "is_greatest k R (greatest k R)"
proof -
  let ?L = "sorted_list_of_set R" and ?n = "card R - k"
  have L: "set ?L = R" "distinct ?L" "sorted ?L" "length ?L = card R" using assms by simp_all
  have parts: "set (take ?n ?L) \<union> set (drop ?n ?L) = R"
    using L(1) by (metis append_take_drop_id set_append)
  have strict: "sorted_wrt (<) (take ?n ?L @ drop ?n ?L)"
    using L(2,3) by (simp add: strict_sorted_iff)
  have "\<forall>x \<in> R - set (drop ?n ?L). \<forall>y \<in> set (drop ?n ?L). x < y"
    using parts strict unfolding sorted_wrt_append by blast
  moreover have "card (set (drop ?n ?L)) = min k (card R)"
    using L(2,4) by (simp add: distinct_card)
  moreover have "set (drop ?n ?L) \<subseteq> R" using L(1) set_drop_subset by metis
  ultimately show ?thesis by (simp add: is_greatest_def greatest_def)
qed

lemma is_greatest_le:
  assumes "finite R" "is_greatest k R A" "is_greatest k R B"
  shows "A \<subseteq> B"
proof
  fix a assume a: "a \<in> A"
  show "a \<in> B"
  proof (rule ccontr)
    assume "a \<notin> B"
    have "card A = card B" "finite A" "finite B"
      using assms by (auto simp: is_greatest_def intro: finite_subset)
    then obtain b where b: "b \<in> B" "b \<notin> A"
      using a \<open>a \<notin> B\<close> by (metis card_subset_eq subsetI)
    with a \<open>a \<notin> B\<close> assms(2,3) have "b < a" "a < b" unfolding is_greatest_def by blast+
    then show False by simp
  qed
qed

lemma greatest_unique: "finite R \<Longrightarrow> is_greatest k R A \<Longrightarrow> greatest k R = A"
  using is_greatest_le greatest_is_greatest by (metis subset_antisym)

lemma greatest_subset: "finite R \<Longrightarrow> greatest k R \<subseteq> R"
  using greatest_is_greatest by (auto simp: is_greatest_def)

lemma greatest_card: "finite R \<Longrightarrow> card (greatest k R) = min k (card R)"
  using greatest_is_greatest by (auto simp: is_greatest_def)

lemma greatest_less: "finite R \<Longrightarrow> x \<in> R \<Longrightarrow> x \<notin> greatest k R \<Longrightarrow> y \<in> greatest k R \<Longrightarrow> x < y"
  using greatest_is_greatest [of R k] by (auto simp: is_greatest_def)

lemma greatest_mono:
  assumes "finite R" "k \<le> m"
  shows "greatest k R \<subseteq> greatest m R"
proof -
  have "card R - m \<le> card R - k" using assms(2) by simp
  then show ?thesis unfolding greatest_def by (rule set_drop_subset_set_drop)
qed

text \<open>Adding an element that is smaller than all kept, or that takes a place.\<close>

lemma greatest_insert_small:
  assumes "finite R" "card (greatest k R) = k" "\<And>y. y \<in> greatest k R \<Longrightarrow> x < y"
  shows "greatest k (insert x R) = greatest k R"
proof (cases "x \<in> R")
  case True
  then show ?thesis by (simp add: insert_absorb)
next
  case False
  have "k \<le> card R" using assms(1,2) greatest_card [of R k] by simp
  then show ?thesis
    using assms False greatest_is_greatest [OF assms(1), of k]
    by (intro greatest_unique) (auto simp: is_greatest_def)
qed

lemma greatest_insert_room:
  assumes "finite R" "x \<notin> R" "card (greatest k R) < k"
  shows "greatest k (insert x R) = insert x (greatest k R)"
proof -
  have "card R < k" using assms greatest_card [of R k] by simp
  then have "greatest k R = R"
    using assms(1) by (intro greatest_unique) (simp_all add: is_greatest_def)
  then show ?thesis
    using \<open>card R < k\<close> assms(1,2) by (intro greatest_unique) (simp_all add: is_greatest_def)
qed

lemma greatest_insert_full:
  assumes "finite R" "x \<notin> R" "card (greatest k R) = k" "0 < k" "Min (greatest k R) < x"
  shows "greatest k (insert x R) = insert x (greatest k R) - {Min (greatest k R)}"
proof -
  let ?A = "greatest k R"
  let ?m = "Min ?A"
  have A: "?A \<subseteq> R" "finite ?A" using assms(1) greatest_subset finite_subset by metis+
  moreover have "?A \<noteq> {}" using assms(3,4) by force
  ultimately have m: "?m \<in> ?A" "\<And>y. y \<in> ?A \<Longrightarrow> ?m \<le> y" by simp_all
  have x: "x \<notin> ?A" using A(1) assms(2) by blast
  have "card (insert x ?A - {?m}) = k" using A(2) m(1) x assms(3,5) by simp
  moreover have "k \<le> card R" using greatest_card [OF assms(1), of k] assms(3) by simp
  moreover have "y < z" if "y \<in> insert x R - (insert x ?A - {?m})" "z \<in> insert x ?A - {?m}" for y z
  proof -
    from that have "y = ?m \<or> (y \<in> R \<and> y \<notin> ?A)" using x by auto
    moreover have "?m < z" using that(2) m assms(5) by (auto simp: order.strict_iff_order)
    moreover have "y < ?m" if "y \<in> R" "y \<notin> ?A" using greatest_less [OF assms(1) that m(1)] .
    ultimately show ?thesis by auto
  qed
  ultimately show ?thesis
    using A(1) assms(1,2) by (intro greatest_unique) (auto simp: is_greatest_def)
qed

text \<open>Dropping a lower part of the set.\<close>

lemma greatest_upper:
  assumes "finite R" and up: "\<And>x y. x < y \<Longrightarrow> P x \<Longrightarrow> P y"
  shows "greatest k {x \<in> R. P x} = {x \<in> greatest k R. P x}"
proof (rule greatest_unique)
  let ?A = "greatest k R"
  have A: "?A \<subseteq> R" "finite ?A" "card ?A = min k (card R)"
    using assms(1) greatest_subset greatest_card finite_subset by metis+
  show "is_greatest k {x \<in> R. P x} {x \<in> ?A. P x}"
    unfolding is_greatest_def
  proof (intro conjI)
    show "card {x \<in> ?A. P x} = min k (card {x \<in> R. P x})"
    proof (cases "?A = R")
      case True
      have "card {x \<in> R. P x} \<le> card R" using assms(1) by (intro card_mono) auto
      with True A(3) show ?thesis by simp
    next
      case False
      then have "?A \<subset> R" using A(1) by blast
      then have "card ?A < card R" using assms(1) by (intro psubset_card_mono)
      with A(3) have k: "card ?A = k" by simp
      show ?thesis
      proof (cases "\<forall>x \<in> ?A. P x")
        case True
        then have "{x \<in> ?A. P x} = ?A" by auto
        moreover have "card ?A \<le> card {x \<in> R. P x}" using True A assms(1) by (intro card_mono) auto
        ultimately show ?thesis using k by simp
      next
        case False
        then obtain a where a: "a \<in> ?A" "\<not> P a" by blast
        have "x \<in> ?A" if "x \<in> R" "P x" for x
          using greatest_less [OF assms(1) that(1) _ a(1)] up [of x a] a(2) that(2) by blast
        then have "{x \<in> R. P x} = {x \<in> ?A. P x}" using A(1) by auto
        moreover have "card {x \<in> ?A. P x} \<le> card ?A" using A(2) by (intro card_mono) auto
        ultimately show ?thesis using k by simp
      qed
    qed
  qed (use A(1) greatest_less [OF assms(1)] in auto)
qed (use assms(1) in simp)

text \<open>A bounded heap: the list of its elements in increasing order.\<close>

lemma sorted_head_Min: "sorted_wrt (<) (m # h) \<Longrightarrow> Min (set (m # h)) = (m :: 'a::linorder)"
  by (rule Min_eqI) auto

lemma insort_strict:
  "sorted_wrt (<) h \<Longrightarrow> r \<notin> set h \<Longrightarrow> sorted_wrt (<) (insort r h) \<and> set (insort r h) = insert r (set h)"
  by (simp add: strict_sorted_iff sorted_insort distinct_insort set_insort_key)

lemma strict_card: "sorted_wrt (<) h \<Longrightarrow> card (set h) = length (h :: 'a::linorder list)"
  by (simp add: strict_sorted_iff distinct_card)

lemma heap_reject:
  assumes h: "sorted_wrt (<) h" "set h = greatest k R" and R: "finite R" "0 < k"
    and full: "length h = k" "\<not> hd h < r" "r \<notin> set h"
  shows "greatest k (insert r R) = set h"
proof -
  from full(1) R(2) obtain m t where ht: "h = m # t" by (cases h) auto
  have "r < y" if "y \<in> set h" for y using that h(1) full(2,3) ht by force
  then show ?thesis
    using greatest_insert_small [OF R(1), of k r] h full(1) strict_card [OF h(1)] by simp
qed

lemma heap_insert:
  assumes h: "sorted_wrt (<) h" "set h = greatest k R" and R: "finite R" "0 < k" "r \<notin> R"
    and room: "\<not> (length h = k \<and> \<not> hd h < r)"
  shows "sorted_wrt (<) (drop (Suc (length h) - k) (insort r h)) \<and>
    set (drop (Suc (length h) - k) (insort r h)) = greatest k (insert r R)"
proof -
  have rh: "r \<notin> set h" using greatest_subset [OF R(1), of k] R(3) h(2) by auto
  have len: "length h = card (greatest k R)" using strict_card [OF h(1)] h(2) by simp
  then have le: "length h \<le> k" using greatest_card [OF R(1), of k] by simp
  show ?thesis
  proof (cases "length h < k")
    case True
    with insort_strict [OF h(1) rh] greatest_insert_room [OF R(1,3)] len h(2) show ?thesis by simp
  next
    case False
    with le have k: "length h = k" by simp
    with R(2) obtain m t where ht: "h = m # t" by (cases h) auto
    with room k have mr: "m < r" by simp
    have t: "sorted_wrt (<) t" "r \<notin> set t" "m \<notin> set t" using h(1) rh ht by auto
    have "\<not> r \<le> m" using mr by simp
    then have "drop (Suc (length h) - k) (insort r h) = insort r t" using k ht by simp
    moreover have "Min (greatest k R) = m" using sorted_head_Min h ht by metis
    moreover have "insert r (greatest k R) - {m} = insert r (set t)"
      using h(2) ht t(3) mr by auto
    ultimately show ?thesis
      using insort_strict [OF t(1,2)] greatest_insert_full [OF R(1,3)] len k R(2) mr by simp
  qed
qed

lemma drop_sorted_filter:
  assumes "sorted_wrt P ss" "\<And>x y. P x y \<Longrightarrow> f x \<le> f y"
  shows "dropWhile (\<lambda>s. f s < c) ss = filter (\<lambda>s. c \<le> (f s :: int)) ss"
  using assms(1)
proof (induction ss)
  case (Cons s ss)
  have "filter (\<lambda>s. c \<le> f s) ss = ss" if "\<not> f s < c"
  proof (rule filter_True, rule ballI)
    fix x assume "x \<in> set ss"
    with Cons.prems have "f s \<le> f x" by (intro assms(2)) simp
    with that show "c \<le> f x" by simp
  qed
  with Cons show ?case by auto
qed simp

subsection \<open>Candidates by minute\<close>

definition minute_ok :: "minute_map \<Rightarrow> login set \<Rightarrow> bool" where
  "minute_ok bm C \<longleftrightarrow> distinct (map fst bm) \<and>
     (\<forall>b k. set (minute_at bm b k) = {c \<in> C. login_bucket c = b \<and> login_key c = k} \<and>
            distinct (minute_at bm b k))"

lemma minute_at_insert:
  "minute_at (minute_insert c bm) b k =
     (if b = login_bucket c \<and> k = login_key c then c # minute_at bm b k else minute_at bm b k)"
  by (simp add: minute_at_def minute_insert_def minute_keyed_def update_conv' Let_def split: option.splits)

lemma minute_at_delete:
  "minute_at (minute_delete c bm) b k =
     (if b = login_bucket c \<and> k = login_key c then remove1 c (minute_at bm b k) else minute_at bm b k)"
proof -
  let ?k = "login_key c"
  let ?keyed = "minute_keyed bm (login_bucket c)"
  let ?cs = "remove1 c (minute_at bm (login_bucket c) ?k)"
  let ?new = "if ?cs = [] then AList.delete ?k ?keyed else AList.update ?k ?cs ?keyed"
  have at_key: "minute_at bm (login_bucket c) j = (case map_of ?keyed j of None \<Rightarrow> [] | Some cs \<Rightarrow> cs)" for j
    by (simp add: minute_at_def minute_keyed_def split: option.splits)
  have new: "(case map_of ?new j of None \<Rightarrow> [] | Some cs \<Rightarrow> cs) =
      (if j = ?k then ?cs else minute_at bm (login_bucket c) j)" for j
    by (simp add: delete_conv' update_conv' at_key)
  show ?thesis
  proof (cases "b = login_bucket c")
    case True
    define n where "n = ?new"
    have "minute_delete c bm = (if n = [] then AList.delete b bm else AList.update b n bm)"
      using True by (simp only: minute_delete_def Let_def n_def)
    then have "minute_at (minute_delete c bm) b k = (case map_of n k of None \<Rightarrow> [] | Some cs \<Rightarrow> cs)"
      by (cases "n = []") (simp_all add: minute_at_def delete_conv' update_conv')
    with new [of k] True show ?thesis by (cases "k = ?k") (simp_all only: n_def simp_thms if_True if_False)
  next
    case False
    then show ?thesis by (simp add: minute_delete_def Let_def minute_at_def delete_conv' update_conv')
  qed
qed

lemma minute_okD:
  assumes "minute_ok bm C"
  shows "distinct (map fst bm)" "distinct (minute_at bm b k)"
    "set (minute_at bm b k) = {c \<in> C. login_bucket c = b \<and> login_key c = k}"
  using assms unfolding minute_ok_def by blast+

lemma minute_okI:
  assumes "distinct (map fst bm)"
    "\<And>b k. set (minute_at bm b k) = {c \<in> C. login_bucket c = b \<and> login_key c = k}"
    "\<And>b k. distinct (minute_at bm b k)"
  shows "minute_ok bm C"
  unfolding minute_ok_def using assms by blast

lemma minute_ok_insert:
  assumes "minute_ok bm C" "c \<notin> C"
  shows "minute_ok (minute_insert c bm) (insert c C)"
proof (rule minute_okI)
  show "distinct (map fst (minute_insert c bm))"
    using minute_okD(1) [OF assms(1)] by (simp add: minute_insert_def Let_def distinct_update)
  fix b k
  note m = minute_okD(2,3) [OF assms(1), of b k]
  show "set (minute_at (minute_insert c bm) b k) =
      {d \<in> insert c C. login_bucket d = b \<and> login_key d = k}"
    unfolding minute_at_insert using m by (auto split: if_splits)
  show "distinct (minute_at (minute_insert c bm) b k)"
    unfolding minute_at_insert using m assms(2) by (auto split: if_splits)
qed

lemma minute_ok_delete:
  assumes "minute_ok bm (insert c C)" "c \<notin> C"
  shows "minute_ok (minute_delete c bm) C"
proof (rule minute_okI)
  show "distinct (map fst (minute_delete c bm))"
    using minute_okD(1) [OF assms(1)]
    by (simp add: minute_delete_def Let_def distinct_update distinct_delete)
  fix b k
  note m = minute_okD(2,3) [OF assms(1), of b k]
  show "set (minute_at (minute_delete c bm) b k) = {d \<in> C. login_bucket d = b \<and> login_key d = k}"
    using m assms(2) by (cases "b = login_bucket c \<and> k = login_key c") (auto simp: minute_at_delete)
  show "distinct (minute_at (minute_delete c bm) b k)"
    unfolding minute_at_delete using m by (auto split: if_splits)
qed

lemma minute_rows_set:
  assumes "minute_ok bm C"
  shows "set (minute_rows bm k) = {c \<in> C. login_key c = k}"
proof -
  have "set (minute_rows bm k) = (\<Union>(b, keyed) \<in> set bm. set (minute_at bm b k))"
  proof -
    have "set (case map_of keyed k of None \<Rightarrow> [] | Some cs \<Rightarrow> cs) = set (minute_at bm b k)"
      if "(b, keyed) \<in> set bm" for b keyed
      using that minute_okD(1) [OF assms] by (simp add: minute_at_def map_of_is_SomeI)
    then show ?thesis by (fastforce simp: minute_rows_def)
  qed
  also have "\<dots> = {c \<in> C. login_key c = k}"
  proof (intro set_eqI iffI)
    fix c assume "c \<in> {c \<in> C. login_key c = k}"
    then have c: "c \<in> set (minute_at bm (login_bucket c) k)" by (simp add: minute_okD(3) [OF assms])
    then obtain keyed where "map_of bm (login_bucket c) = Some keyed"
      by (cases "map_of bm (login_bucket c)") (simp_all add: minute_at_def)
    with c show "c \<in> (\<Union>(b, keyed) \<in> set bm. set (minute_at bm b k))" by (blast dest: map_of_SomeD)
  qed (auto simp: minute_okD(3) [OF assms])
  finally show ?thesis .
qed

subsection \<open>The bounded loops\<close>

lemma expire_seen_eq:
  "distinct (map snd ss) \<Longrightarrow>
   expire_seen c ss (snd ` set ss) =
     (dropWhile (\<lambda>s. fst s < c) ss, snd ` set (dropWhile (\<lambda>s. fst s < c) ss))"
proof (induction ss)
  case (Cons s ss)
  have "insert (snd s) (snd ` set ss) - {snd s} = snd ` set ss" using Cons.prems by auto
  with Cons show ?case by simp
qed simp

lemma shrink_seen_eq:
  "distinct (map snd ss) \<Longrightarrow>
   shrink_seen n ss (snd ` set ss) = (drop (length ss - n) ss, snd ` set (drop (length ss - n) ss))"
proof (induction ss)
  case (Cons s ss)
  have "insert (snd s) (snd ` set ss) - {snd s} = snd ` set ss" using Cons.prems by auto
  with Cons show ?case by (auto simp: Suc_diff_le)
qed simp

lemma remove_oldest_ok:
  assumes "mi_oldest idx = c # rest" "distinct (c # rest)" "minute_ok (mi_by_minute idx) (set (c # rest))"
  shows "\<exists>bm. remove_oldest idx = idx\<lparr>mi_oldest := rest, mi_by_minute := bm\<rparr> \<and> minute_ok bm (set rest)"
  using assms minute_ok_delete [of "mi_by_minute idx" c "set rest"]
  by (intro exI [of _ "minute_delete c (mi_by_minute idx)"]) (simp add: remove_oldest_def)

lemma expire_candidates_ok:
  "distinct (mi_oldest idx) \<Longrightarrow> minute_ok (mi_by_minute idx) (set (mi_oldest idx)) \<Longrightarrow>
   \<exists>bm. expire_candidates cutoff idx =
       idx\<lparr>mi_oldest := dropWhile (\<lambda>l. lg_at l < cutoff) (mi_oldest idx), mi_by_minute := bm\<rparr> \<and>
     minute_ok bm (set (dropWhile (\<lambda>l. lg_at l < cutoff) (mi_oldest idx)))"
proof (induction cutoff idx rule: expire_candidates.induct)
  case (1 cutoff idx)
  show ?case
  proof (cases "mi_oldest idx \<noteq> [] \<and> lg_at (hd (mi_oldest idx)) < cutoff")
    case True
    then obtain c rest where c: "mi_oldest idx = c # rest" "lg_at c < cutoff"
      by (cases "mi_oldest idx") auto
    with "1.prems" obtain bm where bm: "remove_oldest idx = idx\<lparr>mi_oldest := rest, mi_by_minute := bm\<rparr>"
      "minute_ok bm (set rest)" using remove_oldest_ok [of idx c rest] by auto
    from "1.IH" [OF True] bm c "1.prems" show ?thesis
      by (subst expire_candidates.simps) simp
  next
    case False
    then have "expire_candidates cutoff idx = idx" by (subst expire_candidates.simps) auto
    moreover have "dropWhile (\<lambda>l. lg_at l < cutoff) (mi_oldest idx) = mi_oldest idx"
      using False by (cases "mi_oldest idx") auto
    ultimately show ?thesis using "1.prems"(2) by (intro exI [of _ "mi_by_minute idx"]) simp
  qed
qed

lemma shrink_candidates_ok:
  "distinct (mi_oldest idx) \<Longrightarrow> minute_ok (mi_by_minute idx) (set (mi_oldest idx)) \<Longrightarrow>
   \<exists>bm. shrink_candidates idx =
       idx\<lparr>mi_oldest := drop (length (mi_oldest idx) - mi_max idx) (mi_oldest idx), mi_by_minute := bm\<rparr> \<and>
     minute_ok bm (set (drop (length (mi_oldest idx) - mi_max idx) (mi_oldest idx)))"
proof (induction idx rule: shrink_candidates.induct)
  case (1 idx)
  show ?case
  proof (cases "length (mi_oldest idx) > mi_max idx")
    case True
    then obtain c rest where c: "mi_oldest idx = c # rest" by (cases "mi_oldest idx") auto
    with "1.prems" obtain bm where bm: "remove_oldest idx = idx\<lparr>mi_oldest := rest, mi_by_minute := bm\<rparr>"
      "minute_ok bm (set rest)" using remove_oldest_ok [of idx c rest] by auto
    moreover have "mi_max idx < Suc (length rest)" using True c by simp
    ultimately show ?thesis using "1.IH" [OF True] c "1.prems"
      by (subst shrink_candidates.simps) (simp add: Suc_diff_le)
  next
    case False
    then have "shrink_candidates idx = idx" by (subst shrink_candidates.simps) simp
    with False "1.prems"(2) show ?thesis by (intro exI [of _ "mi_by_minute idx"]) simp
  qed
qed

subsection \<open>Specification and refinement relation\<close>

record index_spec =
  is_latest :: time
  is_logins :: "login set"

definition recent_logins :: "duration \<Rightarrow> index_spec \<Rightarrow> login set" where
  "recent_logins retention sp = {l \<in> is_logins sp. is_latest sp - retention \<le> lg_at l}"

text \<open>The candidates: the highest ranked of the recent logins.\<close>

definition kept_logins :: "(login \<Rightarrow> string) \<Rightarrow> nat \<Rightarrow> duration \<Rightarrow> index_spec \<Rightarrow> login set" where
  "kept_logins fp k retention sp =
     {l \<in> recent_logins retention sp.
        login_rank fp l \<in> greatest k (login_rank fp ` recent_logins retention sp)}"

definition spec_advance :: "time \<Rightarrow> index_spec \<Rightarrow> index_spec" where
  "spec_advance t sp = sp\<lparr>is_latest := max (is_latest sp) t\<rparr>"

fun spec_step :: "index_op \<Rightarrow> index_spec \<Rightarrow> index_spec" where
  "spec_step (Observe l) sp =
     (if valid_login l then (spec_advance (lg_at l) sp)\<lparr>is_logins := insert l (is_logins sp)\<rparr> else sp)"
| "spec_step (Lookup ip host t) sp = spec_advance t sp"
| "spec_step (Prune t) sp = spec_advance t sp"

definition spec_start :: index_spec where
  "spec_start = \<lparr>is_latest = 0, is_logins = {}\<rparr>"

text \<open>The answers a lookup may give from the candidates \<open>C\<close>: none without an eligible login, an
  ambiguous one when two users are eligible, and otherwise the latest eligible login.\<close>

definition answers_from ::
  "(login \<Rightarrow> string) \<Rightarrow> duration \<Rightarrow> login set \<Rightarrow> ident_key \<Rightarrow> time \<Rightarrow> ident_match \<Rightarrow> bool" where
  "answers_from fp window C k t m \<longleftrightarrow>
     (let E = {c \<in> C. login_key c = k \<and> in_window window t c}
      in if E = {} then m = no_match
         else if \<exists>c \<in> E. \<exists>d \<in> E. login_user c \<noteq> login_user d then m = no_match\<lparr>im_ambiguous := True\<rparr>
         else \<exists>c \<in> E. (\<forall>d \<in> E. login_rank fp d \<le> login_rank fp c) \<and> m = match_of c)"

text \<open>The answers to a sequence of operations, each from the candidates of its moment.\<close>

fun answers_ok ::
  "(login \<Rightarrow> string) \<Rightarrow> duration \<Rightarrow> duration \<Rightarrow> nat \<Rightarrow> index_spec \<Rightarrow> index_op list \<Rightarrow>
   ident_match list \<Rightarrow> bool" where
  "answers_ok fp window retention k sp [] ms = (ms = [])"
| "answers_ok fp window retention k sp (Lookup ip host t # ops) ms =
     (case ms of
        [] \<Rightarrow> False
      | m # ms' \<Rightarrow>
          answers_from fp window (kept_logins fp k retention (spec_advance t sp)) (normalized_key ip host) t m \<and>
          answers_ok fp window retention k (spec_advance t sp) ops ms')"
| "answers_ok fp window retention k sp (x # ops) ms = answers_ok fp window retention k (spec_step x sp) ops ms"

text \<open>The two heaps against the logins \<open>S\<close> within the retention.\<close>

definition held_ok :: "(login \<Rightarrow> string) \<Rightarrow> nat \<Rightarrow> login set \<Rightarrow> login list \<Rightarrow> minute_map \<Rightarrow> bool" where
  "held_ok fp k S cs bm \<longleftrightarrow>
     sorted_wrt (<) (map (login_rank fp) cs) \<and> set cs \<subseteq> S \<and>
     login_rank fp ` set cs = greatest k (login_rank fp ` S) \<and> minute_ok bm (set cs)"

definition seen_ok ::
  "(login \<Rightarrow> string) \<Rightarrow> nat \<Rightarrow> login set \<Rightarrow> login_rank list \<Rightarrow> string set \<Rightarrow> bool" where
  "seen_ok fp k S seen rows \<longleftrightarrow>
     sorted_wrt (<) seen \<and> set seen = greatest k (login_rank fp ` S) \<and> rows = snd ` set seen"

definition index_ok :: "(login \<Rightarrow> string) \<Rightarrow> memory_index \<Rightarrow> index_spec \<Rightarrow> bool" where
  "index_ok fp idx sp \<longleftrightarrow>
     mi_latest idx = is_latest sp \<and> finite (is_logins sp) \<and> (\<forall>l \<in> is_logins sp. valid_login l) \<and>
     0 < mi_max idx \<and> mi_max idx \<le> mi_max_seen idx \<and>
     held_ok fp (mi_max idx) (recent_logins (mi_retention idx) sp) (mi_oldest idx) (mi_by_minute idx) \<and>
     seen_ok fp (mi_max_seen idx) (recent_logins (mi_retention idx) sp) (mi_seen_oldest idx) (mi_seen_rows idx)"

subsection \<open>Expiry\<close>

lemma rank_mono: "login_rank fp x < login_rank fp y \<Longrightarrow> lg_at x \<le> lg_at y"
  by (auto simp: login_rank_def less_prod_def')

lemma greatest_since:
  assumes "finite S"
  shows "greatest k (login_rank fp ` {l \<in> S. c \<le> lg_at l}) = {r \<in> greatest k (login_rank fp ` S). c \<le> fst r}"
proof -
  have "login_rank fp ` {l \<in> S. c \<le> lg_at l} = {r \<in> login_rank fp ` S. c \<le> fst r}"
    by (auto simp: login_rank_def)
  also have "greatest k \<dots> = {r \<in> greatest k (login_rank fp ` S). c \<le> fst r}"
  proof (rule greatest_upper)
    show "c \<le> fst y" if "x < y" "c \<le> fst x" for x y :: login_rank
      using that by (auto simp: less_prod_def')
  qed (simp add: assms)
  finally show ?thesis .
qed

lemma seen_distinct:
  assumes "seen_ok fp k S seen rows" "finite S" "inj_on fp S"
  shows "distinct (map snd seen)"
proof -
  have "set seen \<subseteq> login_rank fp ` S"
    using assms(1,2) greatest_subset [of "login_rank fp ` S" k] by (simp add: seen_ok_def)
  moreover have "inj_on snd (login_rank fp ` S)"
    using assms(3) by (intro inj_onI) (auto simp: login_rank_def dest: inj_onD)
  ultimately have "inj_on snd (set seen)" by (rule inj_on_subset [rotated])
  then show ?thesis using assms(1) by (simp add: seen_ok_def strict_sorted_iff distinct_map)
qed

lemma seen_expire:
  assumes ok: "seen_ok fp k S seen rows" and S: "finite S" "inj_on fp S"
  shows "\<exists>seen' rows'. expire_seen c seen rows = (seen', rows') \<and>
    seen_ok fp k {l \<in> S. c \<le> lg_at l} seen' rows'"
proof -
  have s: "sorted_wrt (<) seen" "set seen = greatest k (login_rank fp ` S)" "rows = snd ` set seen"
    using ok by (simp_all add: seen_ok_def)
  let ?seen = "filter (\<lambda>s. c \<le> fst s) seen"
  have "dropWhile (\<lambda>s. fst s < c) seen = ?seen"
    by (rule drop_sorted_filter [OF s(1)]) (auto simp: less_prod_def')
  then have "expire_seen c seen rows = (?seen, snd ` set ?seen)"
    unfolding s(3) expire_seen_eq [OF seen_distinct [OF ok S]] by simp
  moreover have "seen_ok fp k {l \<in> S. c \<le> lg_at l} ?seen (snd ` set ?seen)"
    using s(1,2) by (auto simp: seen_ok_def sorted_wrt_filter greatest_since [OF S(1)])
  ultimately show ?thesis by blast
qed

lemma held_distinct: "held_ok fp k S cs bm \<Longrightarrow> distinct cs"
  by (simp add: held_ok_def strict_sorted_iff distinct_map)

lemma held_expire:
  assumes ok: "held_ok fp k S cs bm" and S: "finite S"
    and bm': "minute_ok bm' (set (dropWhile (\<lambda>l. lg_at l < c) cs))"
  shows "held_ok fp k {l \<in> S. c \<le> lg_at l} (dropWhile (\<lambda>l. lg_at l < c) cs) bm'"
proof -
  have s: "sorted_wrt (\<lambda>x y. login_rank fp x < login_rank fp y) cs"
    using ok by (simp add: held_ok_def sorted_wrt_map)
  have eq: "dropWhile (\<lambda>l. lg_at l < c) cs = filter (\<lambda>l. c \<le> lg_at l) cs"
    using drop_sorted_filter [OF s, of lg_at c] rank_mono by blast
  have "login_rank fp ` {l \<in> set cs. c \<le> lg_at l} = {r \<in> login_rank fp ` set cs. c \<le> fst r}"
    by (auto simp: login_rank_def)
  with ok bm' s show ?thesis
    by (auto simp: held_ok_def eq sorted_wrt_map sorted_wrt_filter greatest_since [OF S])
qed

lemma recent_advance:
  "recent_logins r (spec_advance t sp) =
     {l \<in> recent_logins r sp. max (is_latest sp) t - r \<le> lg_at l}"
  by (auto simp: recent_logins_def spec_advance_def)

lemma recent_subset: "recent_logins r sp \<subseteq> is_logins sp"
  by (auto simp: recent_logins_def)

definition same_bounds :: "memory_index \<Rightarrow> memory_index \<Rightarrow> bool" where
  "same_bounds idx idx' \<longleftrightarrow> mi_window idx' = mi_window idx \<and> mi_retention idx' = mi_retention idx \<and>
     mi_max idx' = mi_max idx \<and> mi_max_seen idx' = mi_max_seen idx"

lemma advance_ok:
  assumes ok: "index_ok fp idx sp" and inj: "inj_on fp (is_logins sp)"
  shows "index_ok fp (advance_index t idx) (spec_advance t sp) \<and> same_bounds idx (advance_index t idx)"
proof -
  let ?S = "recent_logins (mi_retention idx) sp"
  let ?c = "max (is_latest sp) t - mi_retention idx"
  have S: "finite ?S" "inj_on fp ?S"
    using ok inj recent_subset finite_subset inj_on_subset by (metis index_ok_def)+
  have h: "held_ok fp (mi_max idx) ?S (mi_oldest idx) (mi_by_minute idx)"
    and s: "seen_ok fp (mi_max_seen idx) ?S (mi_seen_oldest idx) (mi_seen_rows idx)"
    and l: "mi_latest idx = is_latest sp"
    using ok by (simp_all add: index_ok_def)
  from seen_expire [OF s S, of ?c] obtain seen rows where
    e: "expire_seen ?c (mi_seen_oldest idx) (mi_seen_rows idx) = (seen, rows)"
    and s': "seen_ok fp (mi_max_seen idx) {l \<in> ?S. ?c \<le> lg_at l} seen rows" by blast
  let ?idx = "idx\<lparr>mi_latest := max (is_latest sp) t, mi_seen_oldest := seen, mi_seen_rows := rows\<rparr>"
  let ?cs = "dropWhile (\<lambda>l. lg_at l < ?c) (mi_oldest idx)"
  have "advance_index t idx = expire_candidates ?c ?idx"
    using e l by (cases "is_latest sp < t") (simp_all add: advance_index_def Let_def max_def)
  moreover obtain bm where "expire_candidates ?c ?idx = ?idx\<lparr>mi_oldest := ?cs, mi_by_minute := bm\<rparr>"
    and bm: "minute_ok bm (set ?cs)"
    using expire_candidates_ok [of ?idx ?c] held_distinct [OF h] h by (auto simp: held_ok_def)
  ultimately have a: "advance_index t idx = ?idx\<lparr>mi_oldest := ?cs, mi_by_minute := bm\<rparr>" by simp
  show ?thesis
    using ok held_expire [OF h S(1) bm] s' unfolding a index_ok_def
    by (simp add: recent_advance) (simp add: spec_advance_def same_bounds_def)
qed

subsection \<open>Observation\<close>

lemma greatest_reject:
  assumes h: "sorted_wrt (<) h" "set h = greatest k R" and R: "finite R" "0 < k" "j \<le> k"
    and full: "length h = k" "\<not> hd h < r" "r \<notin> set h"
  shows "greatest j (insert r R) = greatest j R"
proof (rule greatest_insert_small)
  from full(1) R(2) obtain m t where ht: "h = m # t" by (cases h) auto
  show "r < y" if "y \<in> greatest j R" for y
  proof -
    have y: "y \<in> set h" using that greatest_mono [OF R(1,3)] h(2) by blast
    with h(1) ht have "hd h \<le> y" by auto
    with y full(2,3) show ?thesis by (cases "r = y") auto
  qed
  have "k \<le> card R" using greatest_card [OF R(1), of k] strict_card [OF h(1)] h(2) full(1) by simp
  then show "card (greatest j R) = j" using R(1,3) greatest_card [of R j] by simp
qed (simp add: R)

lemma map_insort_rank:
  "map (login_rank fp) (insort_key (login_rank fp) l cs) = insort (login_rank fp l) (map (login_rank fp) cs)"
  by (induction cs) simp_all

lemma distinct_map_insort:
  "f r \<notin> f ` set xs \<Longrightarrow> distinct (map f xs) \<Longrightarrow> distinct (map f (insort r xs))"
  by (induction xs) (auto simp: set_insort_key)

lemma seen_insert:
  assumes ok: "seen_ok fp k S seen rows" and S: "finite (insert l S)" "inj_on fp (insert l S)" "l \<notin> S" "0 < k"
    and room: "\<not> (length seen = k \<and> \<not> hd seen < login_rank fp l)"
  shows "\<exists>seen' rows'. shrink_seen k (insort (login_rank fp l) seen) (insert (fp l) rows) = (seen', rows') \<and>
    seen_ok fp k (insert l S) seen' rows'"
proof -
  let ?r = "login_rank fp l" and ?R = "login_rank fp ` S"
  have s: "sorted_wrt (<) seen" "set seen = greatest k ?R" "rows = snd ` set seen"
    using ok by (simp_all add: seen_ok_def)
  have fl: "fp l \<notin> fp ` S" using S(2,3) by (simp add: inj_on_insert)
  then have r: "?r \<notin> ?R" by (auto simp: login_rank_def)
  have fin: "finite ?R" using S(1) by simp
  have sub: "set seen \<subseteq> ?R" unfolding s(2) by (rule greatest_subset [OF fin])
  note h = heap_insert [OF s(1,2) fin S(4) r room]
  have "snd ?r \<notin> snd ` set seen" using fl sub by (auto simp: login_rank_def)
  moreover have "distinct (map snd seen)" using seen_distinct [OF ok] S(1,2) by (simp add: inj_on_insert)
  ultimately have "distinct (map snd (insort ?r seen))"
    by (rule distinct_map_insort)
  moreover have rows: "insert (fp l) rows = snd ` set (insort ?r seen)"
    by (simp add: s(3) set_insort_key login_rank_def)
  moreover define new where "new = drop (Suc (length seen) - k) (insort ?r seen)"
  ultimately have "shrink_seen k (insort ?r seen) (insert (fp l) rows) = (new, snd ` set new)"
    using shrink_seen_eq by (metis length_insort)
  moreover have "seen_ok fp k (insert l S) new (snd ` set new)"
    using h unfolding new_def seen_ok_def image_insert by blast
  ultimately show ?thesis by blast
qed

lemma held_insert:
  assumes ok: "held_ok fp (mi_max idx) S (mi_oldest idx) (mi_by_minute idx)"
    and S: "finite S" "login_rank fp l \<notin> login_rank fp ` S" "0 < mi_max idx"
  shows "\<exists>cs bm. add_candidate fp l idx = idx\<lparr>mi_oldest := cs, mi_by_minute := bm\<rparr> \<and>
    held_ok fp (mi_max idx) (insert l S) cs bm"
proof -
  let ?r = "login_rank fp" and ?cs = "mi_oldest idx"
  have h: "sorted_wrt (<) (map ?r ?cs)" "set (map ?r ?cs) = greatest (mi_max idx) (?r ` S)" "set ?cs \<subseteq> S"
    "minute_ok (mi_by_minute idx) (set ?cs)"
    using ok by (simp_all add: held_ok_def)
  have fin: "finite (?r ` S)" using S(1) by simp
  have l: "l \<notin> set ?cs" "?r l \<notin> set (map ?r ?cs)" using S(2) h(3) by auto
  show ?thesis
  proof (cases "length ?cs = mi_max idx \<and> \<not> ?r (hd ?cs) < ?r l")
    case True
    then have "?cs \<noteq> []" using S(3) by auto
    then have "greatest (mi_max idx) (insert (?r l) (?r ` S)) = set (map ?r ?cs)"
      using True l(2) by (intro heap_reject [OF h(1,2) fin S(3)]) (simp_all add: hd_map)
    with True h show ?thesis
      by (intro exI [of _ ?cs] exI [of _ "mi_by_minute idx"]) (auto simp: add_candidate_def held_ok_def)
  next
    case False
    let ?new = "insort_key ?r l ?cs"
    let ?idx = "idx\<lparr>mi_by_minute := minute_insert l (mi_by_minute idx), mi_oldest := ?new\<rparr>"
    have d: "distinct ?new" using l(1) held_distinct [OF ok] by (simp add: distinct_insort)
    have "minute_ok (minute_insert l (mi_by_minute idx)) (set ?new)"
      using minute_ok_insert [OF h(4) l(1)] by (simp add: set_insort_key)
    then obtain bm where s: "shrink_candidates ?idx =
        ?idx\<lparr>mi_oldest := drop (Suc (length ?cs) - mi_max idx) ?new, mi_by_minute := bm\<rparr>"
      and bm: "minute_ok bm (set (drop (Suc (length ?cs) - mi_max idx) ?new))"
      using shrink_candidates_ok [of ?idx] d by auto
    have "\<not> (length (map ?r ?cs) = mi_max idx \<and> \<not> hd (map ?r ?cs) < ?r l)"
      using False S(3) by (cases ?cs) auto
    note hi = heap_insert [OF h(1,2) fin S(3,2) this]
    have "set (drop (Suc (length ?cs) - mi_max idx) ?new) \<subseteq> insert l S"
      using h(3) set_drop_subset [of "Suc (length ?cs) - mi_max idx" ?new] by (auto simp: set_insort_key)
    with hi bm have "held_ok fp (mi_max idx) (insert l S) (drop (Suc (length ?cs) - mi_max idx) ?new) bm"
      by (simp add: held_ok_def map_insort_rank [symmetric] drop_map)
    with s False show ?thesis
      by (intro exI [of _ "drop (Suc (length ?cs) - mi_max idx) ?new"] exI [of _ bm])
        (auto simp: add_candidate_def)
  qed
qed

text \<open>A login below a full set of seen rows changes nothing, and a new one is above all kept rows.\<close>

lemma seen_reject:
  assumes ok: "seen_ok fp k S seen rows" and S: "finite S" "0 < k" "j \<le> k" "fp l \<notin> rows"
    and full: "length seen = k" "\<not> hd seen < login_rank fp l"
  shows "greatest j (login_rank fp ` insert l S) = greatest j (login_rank fp ` S)"
proof -
  have s: "sorted_wrt (<) seen" "set seen = greatest k (login_rank fp ` S)" "rows = snd ` set seen"
    using ok by (simp_all add: seen_ok_def)
  have "snd (login_rank fp l) \<notin> snd ` set seen" using S(4) s(3) by (simp add: login_rank_def)
  then have "login_rank fp l \<notin> set seen" by blast
  moreover have "finite (login_rank fp ` S)" using S(1) by simp
  ultimately show ?thesis
    using greatest_reject [OF s(1,2) _ S(2,3) full] by simp
qed

lemma seen_room_new:
  assumes ok: "seen_ok fp k S seen rows" and S: "finite S" "0 < k" "fp l \<notin> rows"
    and room: "\<not> (length seen = k \<and> \<not> hd seen < login_rank fp l)"
  shows "l \<notin> S"
proof
  let ?R = "login_rank fp ` S"
  assume "l \<in> S"
  then have r: "login_rank fp l \<in> ?R" by simp
  have fin: "finite ?R" using S(1) by simp
  have s: "sorted_wrt (<) seen" "set seen = greatest k ?R" "rows = snd ` set seen"
    using ok by (simp_all add: seen_ok_def)
  have "snd (login_rank fp l) \<notin> snd ` set seen" using S(3) s(3) by (simp add: login_rank_def)
  then have out: "login_rank fp l \<notin> greatest k ?R" using s(2) by blast
  have "length seen = k"
  proof (rule ccontr)
    assume "length seen \<noteq> k"
    then have "card (greatest k ?R) = card ?R"
      using greatest_card [OF fin, of k] strict_card [OF s(1)] s(2) by auto
    then have "greatest k ?R = ?R" using greatest_subset [OF fin] fin by (intro card_subset_eq)
    with out r show False by simp
  qed
  moreover from this have "seen \<noteq> []" using S(2) by auto
  then have "hd seen \<in> greatest k ?R" using s(2) by (metis hd_in_set)
  then have "login_rank fp l < hd seen" by (rule greatest_less [OF fin r out])
  ultimately show False using room by auto
qed

lemma held_cong:
  assumes "held_ok fp k S cs bm" "S \<subseteq> S'" "greatest k (login_rank fp ` S') = greatest k (login_rank fp ` S)"
  shows "held_ok fp k S' cs bm"
  using assms by (auto simp: held_ok_def)

lemma seen_cong:
  "seen_ok fp k S seen rows \<Longrightarrow> greatest k (login_rank fp ` S') = greatest k (login_rank fp ` S) \<Longrightarrow>
   seen_ok fp k S' seen rows"
  by (simp add: seen_ok_def)

definition spec_insert :: "login \<Rightarrow> index_spec \<Rightarrow> index_spec" where
  "spec_insert l sp = sp\<lparr>is_logins := insert l (is_logins sp)\<rparr>"

lemma recent_insert:
  "recent_logins r (spec_insert l sp) =
     (if is_latest sp - r \<le> lg_at l then insert l (recent_logins r sp) else recent_logins r sp)"
  by (auto simp: recent_logins_def spec_insert_def)

lemma index_ok_insertI:
  assumes "index_ok fp idx sp" "valid_login l"
    "held_ok fp (mi_max idx) (recent_logins (mi_retention idx) (spec_insert l sp)) (mi_oldest idx') (mi_by_minute idx')"
    "seen_ok fp (mi_max_seen idx) (recent_logins (mi_retention idx) (spec_insert l sp))
       (mi_seen_oldest idx') (mi_seen_rows idx')"
    "mi_latest idx' = mi_latest idx" "same_bounds idx idx'"
  shows "index_ok fp idx' (spec_insert l sp) \<and> same_bounds idx idx'"
  using assms by (simp add: index_ok_def same_bounds_def) (simp add: spec_insert_def)

lemma observe_ok:
  assumes ok0: "index_ok fp idx0 sp0" and inj: "inj_on fp (insert l (is_logins sp0))" and v: "valid_login l"
  shows "index_ok fp (observe_login fp l idx0) (spec_insert l (spec_advance (lg_at l) sp0)) \<and>
    same_bounds idx0 (observe_login fp l idx0)"
proof -
  define idx where "idx = advance_index (lg_at l) idx0"
  define sp where "sp = spec_advance (lg_at l) sp0"
  have sp: "is_logins sp = is_logins sp0" by (simp add: sp_def spec_advance_def)
  have "inj_on fp (is_logins sp0)" using inj by (simp add: inj_on_insert)
  from advance_ok [OF ok0 this, of "lg_at l"]
  have ok: "index_ok fp idx sp" and same: "same_bounds idx0 idx" by (simp_all add: idx_def sp_def)
  let ?S = "recent_logins (mi_retention idx) sp" and ?new = "observe_login fp l idx0"
  have h: "held_ok fp (mi_max idx) ?S (mi_oldest idx) (mi_by_minute idx)"
    and s: "seen_ok fp (mi_max_seen idx) ?S (mi_seen_oldest idx) (mi_seen_rows idx)"
    and l: "mi_latest idx = is_latest sp" and k: "0 < mi_max idx" "mi_max idx \<le> mi_max_seen idx"
    using ok by (simp_all add: index_ok_def)
  then have k': "0 < mi_max_seen idx" by simp
  have fin: "finite ?S" using ok recent_subset finite_subset by (metis index_ok_def)
  have injS: "inj_on fp (insert l ?S)"
    using inj by (rule inj_on_subset) (use recent_subset [of "mi_retention idx" sp] sp in auto)
  have "index_ok fp ?new (spec_insert l sp) \<and> same_bounds idx ?new"
  proof (cases "lg_at l < mi_latest idx - mi_retention idx")
    case True
    then have "?new = idx" using v by (simp add: observe_login_def idx_def [symmetric] Let_def)
    moreover have "recent_logins (mi_retention idx) (spec_insert l sp) = ?S" using True l by (simp add: recent_insert)
    ultimately show ?thesis using h s by (intro index_ok_insertI [OF ok v]) (simp_all add: same_bounds_def)
  next
    case recent: False
    then have S': "recent_logins (mi_retention idx) (spec_insert l sp) = insert l ?S"
      using l by (simp add: recent_insert)
    show ?thesis
    proof (cases "fp l \<in> mi_seen_rows idx")
      case True
      then have "?new = idx" using v recent by (simp add: observe_login_def idx_def [symmetric] Let_def)
      moreover have "fp l \<in> fp ` ?S"
      proof -
        have "set (mi_seen_oldest idx) \<subseteq> login_rank fp ` ?S"
          using s greatest_subset fin by (metis seen_ok_def finite_imageI)
        with True s show ?thesis by (auto simp: seen_ok_def login_rank_def)
      qed
      then have "insert l ?S = ?S" using injS by (auto simp: inj_on_insert)
      ultimately show ?thesis
        using h s by (intro index_ok_insertI [OF ok v]) (simp_all add: same_bounds_def S')
    next
      case new: False
      show ?thesis
      proof (cases "length (mi_seen_oldest idx) = mi_max_seen idx \<and>
          \<not> hd (mi_seen_oldest idx) < login_rank fp l")
        case True
        then have "?new = idx" using v recent new by (simp add: observe_login_def idx_def [symmetric] Let_def)
        moreover from True have same_greatest: "j \<le> mi_max_seen idx \<Longrightarrow>
            greatest j (login_rank fp ` insert l ?S) = greatest j (login_rank fp ` ?S)" for j
          using seen_reject [OF s fin k' _ new] by blast
        have "held_ok fp (mi_max idx) (insert l ?S) (mi_oldest idx) (mi_by_minute idx)"
          by (rule held_cong [OF h subset_insertI same_greatest [OF k(2)]])
        moreover have "seen_ok fp (mi_max_seen idx) (insert l ?S) (mi_seen_oldest idx) (mi_seen_rows idx)"
          by (rule seen_cong [OF s same_greatest]) simp
        ultimately show ?thesis
          by (intro index_ok_insertI [OF ok v]) (simp_all add: same_bounds_def S')
      next
        case room: False
        have lS: "l \<notin> ?S" by (rule seen_room_new [OF s fin k' new room])
        have rS: "login_rank fp l \<notin> login_rank fp ` ?S"
          using lS injS by (auto simp: inj_on_insert login_rank_def)
        obtain seen rows where sh: "shrink_seen (mi_max_seen idx)
            (insort (login_rank fp l) (mi_seen_oldest idx)) (insert (fp l) (mi_seen_rows idx)) = (seen, rows)"
          and s': "seen_ok fp (mi_max_seen idx) (insert l ?S) seen rows"
          using seen_insert [OF s _ injS lS k' room] fin by auto
        let ?idx = "idx\<lparr>mi_seen_oldest := seen, mi_seen_rows := rows\<rparr>"
        obtain cs bm where a: "add_candidate fp l ?idx = ?idx\<lparr>mi_oldest := cs, mi_by_minute := bm\<rparr>"
          and h': "held_ok fp (mi_max idx) (insert l ?S) cs bm"
          using held_insert [of fp ?idx ?S l] h fin rS k(1) by auto
        have "?new = ?idx\<lparr>mi_oldest := cs, mi_by_minute := bm\<rparr>"
          using v recent new room sh a by (auto simp: observe_login_def idx_def [symmetric] Let_def)
        with h' s' show ?thesis
          by (intro index_ok_insertI [OF ok v]) (simp_all add: same_bounds_def S')
      qed
    qed
  qed
  with same show ?thesis by (simp add: sp_def same_bounds_def)
qed

subsection \<open>Lookup\<close>

text \<open>What the loop over the candidates settles, for those eligible.\<close>

definition settles :: "(login \<Rightarrow> string) \<Rightarrow> login set \<Rightarrow> login \<Rightarrow> bool" where
  "settles fp E m \<longleftrightarrow>
     m \<in> E \<and> (\<forall>d \<in> E. login_user d = login_user m) \<and> (\<forall>d \<in> E. login_rank fp d \<le> login_rank fp m)"

definition loop_result :: "(login \<Rightarrow> string) \<Rightarrow> login set \<Rightarrow> login option option \<Rightarrow> bool" where
  "loop_result fp E r \<longleftrightarrow>
     (case r of
        None \<Rightarrow> (\<exists>c \<in> E. \<exists>d \<in> E. login_user c \<noteq> login_user d)
      | Some None \<Rightarrow> E = {}
      | Some (Some m) \<Rightarrow> settles fp E m)"

lemma settles_insert:
  assumes "settles fp D d" "login_user d = login_user c"
  shows "settles fp (insert c D) (if login_rank fp d < login_rank fp c then c else d)"
  using assms unfolding settles_def
  by (simp add: not_less) (metis order_less_imp_le order_trans)

lemma settles_differ:
  "settles fp D d \<Longrightarrow> login_user d \<noteq> login_user c \<Longrightarrow> \<exists>x \<in> insert c D. \<exists>y \<in> insert c D. login_user x \<noteq> login_user y"
  unfolding settles_def by blast

definition eligible :: "duration \<Rightarrow> time \<Rightarrow> login set \<Rightarrow> login set" where
  "eligible w t C = {c \<in> C. in_window w t c}"

lemma eligible_insert:
  "eligible w t (insert c C) = (if in_window w t c then insert c (eligible w t C) else eligible w t C)"
  by (auto simp: eligible_def)

lemma lookup_loop_some:
  assumes "\<forall>c \<in> set cs. login_user c \<noteq> []" "login_user d \<noteq> []" "settles fp D d"
  shows "loop_result fp (D \<union> eligible w t (set cs)) (lookup_loop fp w t cs (login_user d) (Some d))"
  using assms
proof (induction cs arbitrary: d D)
  case Nil
  then show ?case by (simp add: loop_result_def eligible_def)
next
  case (Cons c cs)
  note prems = Cons.prems
  show ?case
  proof (cases "in_window w t c")
    case False
    with prems Cons.IH [of d D] show ?thesis by (simp add: eligible_insert)
  next
    case True
    then have E: "D \<union> eligible w t (set (c # cs)) = insert c D \<union> eligible w t (set cs)"
      by (simp add: eligible_insert)
    show ?thesis
    proof (cases "login_user d = login_user c")
      case False
      with True prems(2) have "lookup_loop fp w t (c # cs) (login_user d) (Some d) = None" by simp
      with settles_differ [OF prems(3) False] show ?thesis unfolding E loop_result_def by auto
    next
      case same: True
      define d' where "d' = (if login_rank fp d < login_rank fp c then c else d)"
      have d': "login_user d' = login_user d" using same by (simp add: d'_def)
      have "settles fp (insert c D) d'" unfolding d'_def by (rule settles_insert [OF prems(3) same])
      then have "loop_result fp (insert c D \<union> eligible w t (set cs))
          (lookup_loop fp w t cs (login_user d') (Some d'))"
        using prems(1,2) d' by (intro Cons.IH) simp_all
      moreover have "lookup_loop fp w t (c # cs) (login_user d) (Some d) =
          lookup_loop fp w t cs (login_user d') (Some d')"
        using True same d' by (simp add: d'_def)
      ultimately show ?thesis unfolding E by simp
    qed
  qed
qed

lemma lookup_loop_none:
  "\<forall>c \<in> set cs. login_user c \<noteq> [] \<Longrightarrow>
   loop_result fp (eligible w t (set cs)) (lookup_loop fp w t cs [] None)"
proof (induction cs)
  case (Cons c cs)
  have "settles fp {c} c" by (simp add: settles_def)
  with Cons lookup_loop_some [of cs c fp "{c}" w t] show ?case by (simp add: eligible_insert)
qed (simp add: loop_result_def eligible_def)

lemma settles_answers:
  assumes "settles fp E m"
  shows "E \<noteq> {} \<and> \<not> (\<exists>c \<in> E. \<exists>d \<in> E. login_user c \<noteq> login_user d) \<and>
    (\<exists>c \<in> E. (\<forall>d \<in> E. login_rank fp d \<le> login_rank fp c) \<and> match_of m = match_of c)"
  using assms unfolding settles_def by (intro conjI) (blast, metis, blast)

lemma loop_result_answers:
  assumes "loop_result fp (eligible w t {c \<in> C. login_key c = k}) res"
  shows "answers_from fp w C k t
    (case res of
       None \<Rightarrow> no_match\<lparr>im_ambiguous := True\<rparr> | Some None \<Rightarrow> no_match | Some (Some c) \<Rightarrow> match_of c)"
proof -
  define E where "E = {c \<in> C. login_key c = k \<and> in_window w t c}"
  have "eligible w t {c \<in> C. login_key c = k} = E" by (auto simp: eligible_def E_def)
  with assms have r: "loop_result fp E res" by simp
  consider "res = None" | "res = Some None" | m where "res = Some (Some m)" by (metis option.exhaust)
  then show ?thesis
  proof cases
    case 1
    with r show ?thesis unfolding answers_from_def E_def [symmetric] by (auto simp: loop_result_def)
  next
    case 2
    with r show ?thesis unfolding answers_from_def E_def [symmetric] by (simp add: loop_result_def)
  next
    case 3
    with r have "settles fp E m" by (simp add: loop_result_def)
    note a = settles_answers [OF this]
    show ?thesis
      unfolding answers_from_def E_def [symmetric] Let_def 3 option.case
        if_not_P [OF conjunct1 [OF a]] if_not_P [OF conjunct1 [OF conjunct2 [OF a]]]
      by (rule conjunct2 [OF conjunct2 [OF a]])
  qed
qed

lemma held_kept:
  assumes ok: "index_ok fp idx sp" and inj: "inj_on fp (is_logins sp)"
  shows "set (mi_oldest idx) = kept_logins fp (mi_max idx) (mi_retention idx) sp"
proof -
  let ?S = "recent_logins (mi_retention idx) sp"
  have inj_rank: "inj_on (login_rank fp) ?S"
    using inj recent_subset by (intro inj_onI) (auto simp: login_rank_def dest: inj_onD)
  have sub: "set (mi_oldest idx) \<subseteq> ?S"
    and img: "login_rank fp ` set (mi_oldest idx) = greatest (mi_max idx) (login_rank fp ` ?S)"
    using ok by (simp_all add: index_ok_def held_ok_def)
  have "x \<in> set (mi_oldest idx)"
    if x: "x \<in> ?S" "login_rank fp x \<in> greatest (mi_max idx) (login_rank fp ` ?S)" for x
  proof -
    from x(2) obtain y where y: "y \<in> set (mi_oldest idx)" "login_rank fp x = login_rank fp y"
      unfolding img [symmetric] by blast
    then have "x = y" using inj_onD [OF inj_rank y(2) x(1)] sub by blast
    with y(1) show ?thesis by simp
  qed
  moreover have "login_rank fp x \<in> greatest (mi_max idx) (login_rank fp ` ?S)"
    if "x \<in> set (mi_oldest idx)" for x
    unfolding img [symmetric] using that by (rule imageI)
  ultimately show ?thesis using sub unfolding kept_logins_def by blast
qed

lemma valid_user: "valid_login l \<Longrightarrow> login_user l \<noteq> []"
  by (simp add: valid_login_def login_user_def to_lower_def)

lemma lookup_ok:
  assumes ok0: "index_ok fp idx0 sp0" and inj: "inj_on fp (is_logins sp0)"
    and r: "lookup_login fp ip host t idx0 = (idx', m)"
  shows "index_ok fp idx' (spec_advance t sp0) \<and> same_bounds idx0 idx' \<and>
    answers_from fp (mi_window idx0) (kept_logins fp (mi_max idx0) (mi_retention idx0) (spec_advance t sp0))
      (normalized_key ip host) t m"
proof -
  define idx where "idx = advance_index t idx0"
  define sp where "sp = spec_advance t sp0"
  define k where "k = normalized_key ip host"
  have ok: "index_ok fp idx sp" and same: "same_bounds idx0 idx"
    using advance_ok [OF ok0 inj, of t] by (simp_all add: idx_def sp_def)
  have inj': "inj_on fp (is_logins sp)" using inj by (simp add: sp_def spec_advance_def)
  let ?C = "set (mi_oldest idx)" and ?cs = "minute_rows (mi_by_minute idx) k"
  have bm: "minute_ok (mi_by_minute idx) ?C" using ok by (simp add: index_ok_def held_ok_def)
  have valid: "\<forall>c \<in> ?C. valid_login c"
    using ok recent_subset unfolding index_ok_def held_ok_def by blast
  define res where "res = lookup_loop fp (mi_window idx) t ?cs [] None"
  have "loop_result fp (eligible (mi_window idx) t (set ?cs)) res"
    unfolding res_def using valid valid_user minute_rows_set [OF bm] by (intro lookup_loop_none) auto
  then have answers: "answers_from fp (mi_window idx) ?C k t
      (case res of
         None \<Rightarrow> no_match\<lparr>im_ambiguous := True\<rparr> | Some None \<Rightarrow> no_match | Some (Some c) \<Rightarrow> match_of c)"
    unfolding minute_rows_set [OF bm] by (rule loop_result_answers)
  have same': "mi_window idx = mi_window idx0"
    "?C = kept_logins fp (mi_max idx0) (mi_retention idx0) sp"
    using held_kept [OF ok inj'] same by (simp_all add: same_bounds_def)
  have r': "(idx', m) = (case res of
      None \<Rightarrow> (idx\<lparr>mi_ambiguous := mi_ambiguous idx + 1\<rparr>, no_match\<lparr>im_ambiguous := True\<rparr>)
    | Some None \<Rightarrow> (idx\<lparr>mi_unmatched := mi_unmatched idx + 1\<rparr>, no_match)
    | Some (Some c) \<Rightarrow> (idx\<lparr>mi_matched := mi_matched idx + 1\<rparr>, match_of c))"
    using r unfolding lookup_login_def idx_def k_def res_def Let_def by (rule sym)
  show ?thesis
  proof (cases res)
    case None
    with r' answers same' ok same show ?thesis
      by (simp add: sp_def [symmetric] k_def [symmetric] index_ok_def same_bounds_def)
  next
    case (Some x)
    with r' answers same' ok same show ?thesis
      by (cases x) (simp_all add: sp_def [symmetric] k_def [symmetric] index_ok_def same_bounds_def)
  qed
qed

subsection \<open>Sequences of operations\<close>

definition spec_run :: "index_op list \<Rightarrow> index_spec \<Rightarrow> index_spec" where
  "spec_run ops sp = fold spec_step ops sp"

lemma spec_run_simps [simp]:
  "spec_run [] sp = sp"
  "spec_run (x # ops) sp = spec_run ops (spec_step x sp)"
  by (simp_all add: spec_run_def)

lemma spec_advance_logins [simp]: "is_logins (spec_advance t sp) = is_logins sp"
  by (simp add: spec_advance_def)

lemma spec_step_grows: "is_logins sp \<subseteq> is_logins (spec_step x sp)"
  by (cases x) auto

lemma spec_run_grows: "is_logins sp \<subseteq> is_logins (spec_run ops sp)"
  by (induction ops arbitrary: sp) (auto dest: subsetD [OF spec_step_grows])

definition op_time :: "index_op \<Rightarrow> time set" where
  "op_time x = (case x of Observe l \<Rightarrow> (if valid_login l then {lg_at l} else {}) | Lookup ip host t \<Rightarrow> {t} | Prune t \<Rightarrow> {t})"

lemma spec_run_latest:
  "is_latest (spec_run ops sp) = Max (insert (is_latest sp) (\<Union>x \<in> set ops. op_time x))"
proof (induction ops arbitrary: sp)
  case (Cons x ops)
  let ?T = "\<Union>x \<in> set ops. op_time x"
  have fin: "finite ?T" by (auto simp: op_time_def split: index_op.splits)
  have "is_latest (spec_step x sp) = Max (insert (is_latest sp) (op_time x))"
    by (cases x) (simp_all add: op_time_def spec_advance_def max.commute)
  moreover have "finite (op_time x)" by (simp add: op_time_def split: index_op.split)
  ultimately have "Max (insert (is_latest (spec_step x sp)) ?T) = Max (insert (is_latest sp) (op_time x) \<union> ?T)"
    by (cases "?T = {}") (simp_all only: Max_Un [OF _ _ fin] Max_insert [OF fin] finite_insert insert_not_empty
        not_False_eq_True Un_empty_right Max_singleton)
  with Cons show ?case by simp
qed simp

lemma spec_run_logins:
  "is_logins (spec_run ops sp) = is_logins sp \<union> {l. Observe l \<in> set ops \<and> valid_login l}"
proof (induction ops arbitrary: sp)
  case (Cons x ops)
  have "is_logins (spec_step x sp) = is_logins sp \<union> {l. x = Observe l \<and> valid_login l}"
    by (cases x) (auto simp: spec_advance_def)
  with Cons show ?case by auto
qed simp

lemma spec_run_set: "set ops = set ops' \<Longrightarrow> spec_run ops sp = spec_run ops' sp"
  by (rule index_spec.equality) (simp_all add: spec_run_latest spec_run_logins)

lemma run_index_ok:
  assumes "index_ok fp idx sp" "inj_on fp (is_logins (spec_run ops sp))" "run_index fp ops idx = (idx', ms)"
  shows "index_ok fp idx' (spec_run ops sp) \<and> same_bounds idx idx' \<and>
    answers_ok fp (mi_window idx) (mi_retention idx) (mi_max idx) sp ops ms"
  using assms
proof (induction ops arbitrary: idx sp ms)
  case Nil
  then show ?case by (simp add: same_bounds_def)
next
  case (Cons x ops)
  have inj: "inj_on fp (is_logins (spec_step x sp))"
    using Cons.prems(2) spec_run_grows by (simp add: inj_on_subset)
  have step: ?case if "index_ok fp idx1 (spec_step x sp)" "same_bounds idx idx1"
    "run_index fp ops idx1 = (idx', ms)" "(\<exists>l. x = Observe l) \<or> (\<exists>t. x = Prune t)" for idx1
    using Cons.IH [OF that(1) _ that(3)] Cons.prems(2) that(2,4)
    by (elim disjE exE) (simp_all add: same_bounds_def)
  have inj': "inj_on fp (is_logins sp)" using inj spec_step_grows by (rule inj_on_subset)
  show ?case
  proof (cases x)
    case (Observe l)
    show ?thesis
    proof (rule step [of "observe_login fp l idx"])
      show "index_ok fp (observe_login fp l idx) (spec_step x sp)" "same_bounds idx (observe_login fp l idx)"
        using observe_ok [OF Cons.prems(1), of l] inj Observe Cons.prems(1)
        by (cases "valid_login l"; simp add: spec_insert_def same_bounds_def observe_login_def)+
    qed (use Cons.prems(3) Observe in simp_all)
  next
    case (Prune t)
    show ?thesis
    proof (rule step [of "prune_index t idx"])
      show "index_ok fp (prune_index t idx) (spec_step x sp)" "same_bounds idx (prune_index t idx)"
        using advance_ok [OF Cons.prems(1) inj', of t] Prune by (simp_all add: prune_index_def)
    qed (use Cons.prems(3) Prune in simp_all)
  next
    case (Lookup ip host t)
    obtain idx1 m where r: "lookup_login fp ip host t idx = (idx1, m)" by (cases "lookup_login fp ip host t idx")
    with Cons.prems(3) Lookup obtain ms' where ms: "run_index fp ops idx1 = (idx', ms')" "ms = m # ms'"
      by (auto split: prod.splits)
    note l = lookup_ok [OF Cons.prems(1) inj' r]
    then have "index_ok fp idx1 (spec_advance t sp)" by simp
    from Cons.IH [OF this _ ms(1)] l show ?thesis
      using Cons.prems(2) Lookup ms(2) by (simp add: same_bounds_def)
  qed
qed

lemma new_index_ok:
  assumes "new_index window retention max_candidates = Inr idx"
  shows "index_ok fp idx spec_start \<and> mi_window idx = window \<and> mi_retention idx = retention \<and>
    mi_max idx = nat max_candidates"
  using assms
  by (auto simp: new_index_def index_ok_def held_ok_def seen_ok_def recent_logins_def spec_start_def
      greatest_def minute_ok_def minute_at_def Let_def split: if_splits)

subsection \<open>Properties\<close>

text \<open>C11. The bounded index refines the unbounded history.\<close>

theorem index_refines_history:
  assumes "new_index window retention max_candidates = Inr idx0"
    and "run_index fp ops idx0 = (idx, ms)"
    and "inj_on fp (is_logins (spec_run ops spec_start))"
  shows "set (mi_oldest idx) = kept_logins fp (nat max_candidates) retention (spec_run ops spec_start) \<and>
    answers_ok fp window retention (nat max_candidates) spec_start ops ms"
proof -
  note n = new_index_ok [OF assms(1), of fp]
  with run_index_ok [OF _ assms(3,2)] have "index_ok fp idx (spec_run ops spec_start)" "same_bounds idx0 idx"
    "answers_ok fp (mi_window idx0) (mi_retention idx0) (mi_max idx0) spec_start ops ms" by blast+
  with held_kept [OF _ assms(3)] n show ?thesis by (simp add: same_bounds_def)
qed

text \<open>Replay order does not matter.\<close>

theorem index_order_independent:
  assumes "new_index window retention max_candidates = Inr idx0"
    and "run_index fp ops idx0 = (idx, ms)" "run_index fp ops' idx0 = (idx', ms')"
    and "set ops' = set ops" "inj_on fp (is_logins (spec_run ops spec_start))"
  shows "set (mi_oldest idx') = set (mi_oldest idx) \<and> mi_seen_rows idx' = mi_seen_rows idx"
proof -
  have spec: "spec_run ops' spec_start = spec_run ops spec_start" by (rule spec_run_set [OF assms(4)])
  note n = new_index_ok [OF assms(1), of fp]
  have ok: "index_ok fp idx (spec_run ops spec_start)" "same_bounds idx0 idx"
    and ok': "index_ok fp idx' (spec_run ops spec_start)" "same_bounds idx0 idx'"
    using run_index_ok [OF _ assms(5,2)] run_index_ok [OF _ assms(5) [folded spec] assms(3)] n spec
    by simp_all
  show ?thesis
    using held_kept [OF ok(1) assms(5)] held_kept [OF ok'(1) assms(5)] ok ok'
    by (simp add: same_bounds_def index_ok_def seen_ok_def)
qed

subsection \<open>Witnesses\<close>

definition sample_login :: "string \<Rightarrow> time \<Rightarrow> login" where
  "sample_login ray t = \<lparr>lg_ip = ''192.0.2.7'', lg_host = ''app.example.com'', lg_email = ''u@example.com'',
     lg_ray = ray, lg_at = t\<rparr>"

lemma sample_valid: "t \<noteq> 0 \<Longrightarrow> valid_login (sample_login ray t)"
proof -
  have "fst (login_key (sample_login ray t)) \<noteq> []" "snd (login_key (sample_login ray t)) \<noteq> []"
    "trim_space (lg_email (sample_login ray t)) \<noteq> []"
    unfolding login_key_def sample_login_def login.simps by code_simp+
  then show "t \<noteq> 0 \<Longrightarrow> valid_login (sample_login ray t)" by (simp add: valid_login_def sample_login_def)
qed

theorem index_refines_history_witness:
  "\<exists>idx0 idx ms. new_index 900 3600 1 = Inr idx0 \<and>
     run_index lg_ray [Observe (sample_login ''a'' 10), Observe (sample_login ''b'' 20), Prune 30] idx0 = (idx, ms) \<and>
     set (mi_oldest idx) = kept_logins lg_ray (nat 1) 3600
       (spec_run [Observe (sample_login ''a'' 10), Observe (sample_login ''b'' 20), Prune 30] spec_start)"
proof -
  let ?ops = "[Observe (sample_login ''a'' 10), Observe (sample_login ''b'' 20), Prune 30]"
  obtain idx0 where i: "new_index 900 3600 1 = Inr idx0" by (simp add: new_index_def)
  obtain idx ms where r: "run_index lg_ray ?ops idx0 = (idx, ms)" by (cases "run_index lg_ray ?ops idx0")
  have "inj_on lg_ray (is_logins (spec_run ?ops spec_start))"
    by (auto simp: spec_start_def sample_login_def)
  from index_refines_history [OF i r this] i r show ?thesis by blast
qed

theorem index_order_independent_witness:
  "\<exists>idx0. new_index 900 3600 1 = Inr idx0 \<and>
     set (mi_oldest (fst (run_index lg_ray [Observe (sample_login ''b'' 20), Observe (sample_login ''a'' 10)] idx0))) =
     set (mi_oldest (fst (run_index lg_ray [Observe (sample_login ''a'' 10), Observe (sample_login ''b'' 20)] idx0)))"
proof -
  let ?ops = "[Observe (sample_login ''a'' 10), Observe (sample_login ''b'' 20)]"
    and ?ops' = "[Observe (sample_login ''b'' 20), Observe (sample_login ''a'' 10)]"
  obtain idx0 where i: "new_index 900 3600 1 = Inr idx0" by (simp add: new_index_def)
  have "inj_on lg_ray (is_logins (spec_run ?ops spec_start))"
    by (auto simp: spec_start_def sample_login_def)
  moreover have "set ?ops' = set ?ops" by auto
  ultimately show ?thesis
    using index_order_independent [OF i, of lg_ray ?ops _ _ ?ops'] i by (metis prod.collapse)
qed

end
