(* ===== verification/Zones.thy ===== *)
theory Zones
  imports Telemetry
begin

text \<open>
  Zone selection and the accounting of a poll, \<open>internal/collector/zones.go\<close>. A \<open>map[string]int\<close> whose
  missing keys count as zero is a total function. The poll a collector finds in its context is an
  optional argument.
\<close>

record zone =
  z_id :: string
  z_name :: string
  z_account :: string

type_synonym counts = "string \<Rightarrow> nat"

record zone_selection =
  zs_zones :: "zone list"
  zs_discovered :: nat
  zs_filtered :: counts

definition zone_reasons :: "string list" where
  "zone_reasons = [''include'', ''exclude'', ''unentitled'', ''no_account'', ''other'']"

definition bump :: "string \<Rightarrow> counts \<Rightarrow> counts" where
  "bump r m = m(r := Suc (m r))"

definition zone_excluded :: "string list \<Rightarrow> zone \<Rightarrow> bool" where
  "zone_excluded exclude z \<longleftrightarrow> list_ex (\<lambda>s. s = z_id z \<or> equal_fold s (z_name z)) exclude"

fun count_missing :: "string set \<Rightarrow> string \<Rightarrow> zone list \<Rightarrow> counts \<Rightarrow> counts" where
  "count_missing included account [] m = m"
| "count_missing included account (z # zs) m =
     (if z_id z \<in> included then count_missing included account zs m
      else
        (let reason = (if account \<noteq> [] \<and> z_account z \<noteq> account then ''no_account'' else ''include'')
         in count_missing included account zs (bump reason m)))"

fun drop_excluded :: "string list \<Rightarrow> zone list \<Rightarrow> counts \<Rightarrow> zone list \<times> counts" where
  "drop_excluded exclude [] m = ([], m)"
| "drop_excluded exclude (z # zs) m =
     (if zone_excluded exclude z then drop_excluded exclude zs (bump ''exclude'' m)
      else (case drop_excluded exclude zs m of (kept, m') \<Rightarrow> (z # kept, m')))"

definition select_zones :: "zone list \<Rightarrow> zone list \<Rightarrow> string list \<Rightarrow> string \<Rightarrow> zone_selection" where
  "select_zones all eligible exclude account =
     (let m = count_missing (set (map z_id eligible)) account all (\<lambda>_. 0)
      in case drop_excluded exclude eligible m of
           (zs, m') \<Rightarrow> \<lparr>zs_zones = zs, zs_discovered = length all, zs_filtered = m'\<rparr>)"

record zone_poll =
  zp_selection :: zone_selection
  zp_discovered :: bool
  zp_processed :: "string list"
  zp_skipped :: "(string \<times> string) list"

definition start_zone_poll :: zone_poll where
  "start_zone_poll = \<lparr>zp_selection = \<lparr>zs_zones = [], zs_discovered = 0, zs_filtered = \<lambda>_. 0\<rparr>,
     zp_discovered = False, zp_processed = [], zp_skipped = []\<rparr>"

definition select_poll_zones ::
  "zone list \<Rightarrow> zone list \<Rightarrow> string list \<Rightarrow> string \<Rightarrow> zone_poll option \<Rightarrow> zone_poll option \<times> zone list"
where
  "select_poll_zones all eligible exclude account poll =
     (let sel = select_zones all eligible exclude account
      in (map_option (\<lambda>p. p\<lparr>zp_selection := sel, zp_discovered := True\<rparr>) poll, zs_zones sel))"

definition process_zone :: "string \<Rightarrow> zone_poll \<Rightarrow> zone_poll" where
  "process_zone z p = p\<lparr>zp_processed := List.insert z (zp_processed p)\<rparr>"

definition skip_zone :: "string \<Rightarrow> string \<Rightarrow> zone_poll \<Rightarrow> zone_poll" where
  "skip_zone z reason p =
     p\<lparr>zp_skipped := (z, if reason \<in> set zone_reasons then reason else ''other'') # zp_skipped p\<rparr>"

fun count_skipped :: "zone_poll \<Rightarrow> string set \<Rightarrow> zone list \<Rightarrow> counts \<Rightarrow> counts" where
  "count_skipped p seen [] m = m"
| "count_skipped p seen (z # zs) m =
     (if z_id z \<in> seen \<or> z_id z \<in> set (zp_processed p) then count_skipped p seen zs m
      else
        (let reason = (case map_of (zp_skipped p) (z_id z) of Some r \<Rightarrow> r | None \<Rightarrow> [])
         in count_skipped p (insert (z_id z) seen) zs (bump (if reason = [] then ''other'' else reason) m)))"

definition skipped_counts :: "zone_poll \<Rightarrow> counts" where
  "skipped_counts p = count_skipped p {} (zs_zones (zp_selection p)) (\<lambda>_. 0)"

definition zone_points :: "string \<Rightarrow> zone_poll \<Rightarrow> emission list" where
  "zone_points n p =
     (let attrs = [\<lparr>key = ''cf2otel.collector'', val = n\<rparr>];
          sel = zp_selection p
      in [EGauge ''cf2otel.zones.discovered'' (of_nat (zs_discovered sel)) attrs,
          EGauge ''cf2otel.zones.processed'' (of_nat (length (zp_processed p))) attrs] @
         concat (map (\<lambda>r.
           (let labels = attrs @ [\<lparr>key = ''cf2otel.zone.reason'', val = r\<rparr>]
            in [EGauge ''cf2otel.zones.filtered'' (of_nat (zs_filtered sel r)) labels,
                EGauge ''cf2otel.zones.skipped'' (of_nat (skipped_counts p r)) labels])) zone_reasons))"

definition finish_zone_poll ::
  "'s emit \<Rightarrow> 's \<Rightarrow> string \<Rightarrow> zone_poll \<Rightarrow> gerr option \<Rightarrow> 's \<times> gerr option" where
  "finish_zone_poll emit s n p err =
     (if err \<noteq> None \<or> \<not> zp_discovered p then (s, err) else emit_all emit s (zone_points n p))"

subsection \<open>Counting\<close>

definition total_count :: "counts \<Rightarrow> nat" where
  "total_count m = sum_list (map m zone_reasons)"

lemma total_bump: "r \<in> set zone_reasons \<Longrightarrow> total_count (bump r m) = Suc (total_count m)"
  by (auto simp: total_count_def bump_def zone_reasons_def)

lemma count_missing_total:
  "total_count (count_missing inc account zs m) = total_count m + length (filter (\<lambda>z. z_id z \<notin> inc) zs)"
proof (induction zs arbitrary: m)
  case (Cons z zs)
  then show ?case by (auto simp: Let_def total_bump zone_reasons_def)
qed simp

lemma drop_excluded_total:
  "drop_excluded exclude zs m = (kept, m') \<Longrightarrow>
   kept = filter (\<lambda>z. \<not> zone_excluded exclude z) zs \<and>
   total_count m' + length kept = total_count m + length zs"
proof (induction zs arbitrary: m kept m')
  case (Cons z zs)
  have "''exclude'' \<in> set zone_reasons" by (simp add: zone_reasons_def)
  with Cons show ?case by (auto simp: total_bump split: if_splits prod.splits)
qed simp

lemma count_skipped_total:
  assumes "\<forall>r \<in> snd ` set (zp_skipped p). r \<in> set zone_reasons"
  shows "total_count (count_skipped p seen zs m) =
    total_count m + card (z_id ` set zs - seen - set (zp_processed p))"
proof (induction zs arbitrary: seen m)
  case (Cons z zs)
  show ?case
  proof (cases "z_id z \<in> seen \<or> z_id z \<in> set (zp_processed p)")
    case True
    then have "z_id ` set (z # zs) - seen - set (zp_processed p) = z_id ` set zs - seen - set (zp_processed p)"
      by auto
    with True Cons show ?thesis by simp
  next
    case False
    define r where "r = (case map_of (zp_skipped p) (z_id z) of Some r \<Rightarrow> r | None \<Rightarrow> [])"
    have r: "(if r = [] then ''other'' else r) \<in> set zone_reasons"
    proof (cases "map_of (zp_skipped p) (z_id z)")
      case None
      then show ?thesis by (simp add: r_def zone_reasons_def)
    next
      case (Some x)
      then have "x \<in> set zone_reasons" using assms by (force dest: map_of_SomeD)
      with Some show ?thesis by (auto simp: r_def zone_reasons_def)
    qed
    have "z_id ` set (z # zs) - seen - set (zp_processed p) =
        insert (z_id z) (z_id ` set zs - insert (z_id z) seen - set (zp_processed p))"
      using False by auto
    then have "card (z_id ` set (z # zs) - seen - set (zp_processed p)) =
        Suc (card (z_id ` set zs - insert (z_id z) seen - set (zp_processed p)))" by simp
    moreover have "count_skipped p seen (z # zs) m =
        count_skipped p (insert (z_id z) seen) zs (bump (if r = [] then ''other'' else r) m)"
      using False by (simp add: r_def Let_def)
    ultimately show ?thesis using Cons total_bump [OF r] by simp
  qed
qed simp

text \<open>A poll as a collector drives it: zones of the selection are processed or skipped.\<close>

datatype poll_call = ProcessZone string | SkipZone string string

fun poll_calls :: "poll_call list \<Rightarrow> zone_poll \<Rightarrow> zone_poll" where
  "poll_calls [] p = p"
| "poll_calls (ProcessZone z # cs) p = poll_calls cs (process_zone z p)"
| "poll_calls (SkipZone z r # cs) p = poll_calls cs (skip_zone z r p)"

lemma poll_calls_inv:
  "distinct (zp_processed p) \<Longrightarrow> \<forall>r \<in> snd ` set (zp_skipped p). r \<in> set zone_reasons \<Longrightarrow>
   zp_selection (poll_calls cs p) = zp_selection p \<and> zp_discovered (poll_calls cs p) = zp_discovered p \<and>
   distinct (zp_processed (poll_calls cs p)) \<and>
   set (zp_processed (poll_calls cs p)) = set (zp_processed p) \<union> {z. ProcessZone z \<in> set cs} \<and>
   (\<forall>r \<in> snd ` set (zp_skipped (poll_calls cs p)). r \<in> set zone_reasons)"
proof (induction cs p rule: poll_calls.induct)
  case (2 z cs p)
  then have "distinct (zp_processed (process_zone z p))"
    "\<forall>r \<in> snd ` set (zp_skipped (process_zone z p)). r \<in> set zone_reasons"
    by (simp_all add: process_zone_def)
  from "2.IH" [OF this] show ?case by (auto simp: process_zone_def)
next
  case (3 z r cs p)
  then have "distinct (zp_processed (skip_zone z r p))"
    "\<forall>r \<in> snd ` set (zp_skipped (skip_zone z r p)). r \<in> set zone_reasons"
    by (simp_all add: skip_zone_def zone_reasons_def)
  from "3.IH" [OF this] show ?case by (auto simp: skip_zone_def)
qed auto

text \<open>The zones of a complete poll add up: whatever the collector called for zones of its
  selection, the reported numbers account for every discovered zone exactly once.\<close>

theorem zone_accounting:
  assumes "select_poll_zones all eligible exclude account (Some start_zone_poll) = (Some p0, zs)"
    and "distinct (map z_id all)" "distinct eligible" "set eligible \<subseteq> set all"
    and "\<forall>z. ProcessZone z \<in> set cs \<longrightarrow> z \<in> z_id ` set zs"
  shows "let p = poll_calls cs p0 in
    set zs = {z \<in> set eligible. \<not> zone_excluded exclude z} \<and>
    zs_discovered (zp_selection p) = length (zp_processed p) +
      sum_list (map (zs_filtered (zp_selection p)) zone_reasons) +
      sum_list (map (skipped_counts p) zone_reasons)"
proof -
  define sel where "sel = select_zones all eligible exclude account"
  let ?inc = "set (map z_id eligible)"
  obtain kept m' where d: "drop_excluded exclude eligible (count_missing ?inc account all (\<lambda>_. 0)) = (kept, m')"
    by (metis surj_pair)
  then have sel: "zs_zones sel = kept" "zs_discovered sel = length all" "zs_filtered sel = m'"
    by (simp_all add: sel_def select_zones_def)
  note k = drop_excluded_total [OF d]
  have zs: "zs = kept" and p0: "zp_selection p0 = sel" "zp_processed p0 = []" "zp_skipped p0 = []"
    using assms(1) sel by (auto simp: select_poll_zones_def sel_def [symmetric] Let_def start_zone_poll_def)
  note inv = poll_calls_inv [of p0 cs]
  define p where "p = poll_calls cs p0"
  have p: "zp_selection p = sel" "distinct (zp_processed p)" "set (zp_processed p) \<subseteq> z_id ` set zs"
    "\<forall>r \<in> snd ` set (zp_skipped p). r \<in> set zone_reasons"
    using inv p0 assms(5) by (auto simp: p_def)
  have inj: "inj_on z_id (set all)" "distinct all" using assms(2) by (simp_all add: distinct_map)
  have "length (filter (\<lambda>z. z_id z \<in> ?inc) all) = length eligible"
  proof -
    have "set (filter (\<lambda>z. z_id z \<in> ?inc) all) = set eligible"
      using assms(4) inj(1) by (auto dest: inj_onD)
    then show ?thesis using inj(2) assms(3) by (metis distinct_card distinct_filter)
  qed
  moreover have "length (filter (\<lambda>z. z_id z \<in> ?inc) all) + length (filter (\<lambda>z. z_id z \<notin> ?inc) all) = length all"
    by (rule sum_length_filter_compl)
  moreover have "total_count (count_missing ?inc account all (\<lambda>_. 0)) = length (filter (\<lambda>z. z_id z \<notin> ?inc) all)"
    by (simp add: count_missing_total) (simp add: total_count_def zone_reasons_def)
  ultimately have all: "length all = length kept + total_count m'" using conjunct2 [OF k] by linarith
  have "distinct (map z_id kept)" using k assms(3,4) inj by (auto simp: distinct_map intro: inj_on_subset)
  then have card: "card (z_id ` set kept) = length kept" by (metis distinct_card length_map list.set_map)
  have "total_count (skipped_counts p) = card (z_id ` set kept - set (zp_processed p))"
    unfolding skipped_counts_def p(1) sel(1) count_skipped_total [OF p(4)]
    by (simp add: total_count_def zone_reasons_def)
  also have "\<dots> = length kept - length (zp_processed p)"
    using p(2,3) zs card by (simp add: card_Diff_subset distinct_card)
  finally have "length kept = length (zp_processed p) + total_count (skipped_counts p)"
    using card_mono [OF _ p(3)] p(2) card zs by (simp add: distinct_card)
  with all sel p(1) zs k show ?thesis
    unfolding p_def [symmetric] Let_def total_count_def [symmetric] by auto
qed

definition sample_zone :: "string \<Rightarrow> zone" where
  "sample_zone n = \<lparr>z_id = n, z_name = n @ ''.example'', z_account = ''acc''\<rparr>"

theorem zone_accounting_witness:
  "\<exists>p0 zs. select_poll_zones (map sample_zone [''a'', ''b'', ''c'']) (map sample_zone [''a'', ''b'']) [''b''] ''acc''
       (Some start_zone_poll) = (Some p0, zs) \<and>
     zs_discovered (zp_selection (poll_calls [ProcessZone ''a''] p0)) = 3 \<and>
     length (zp_processed (poll_calls [ProcessZone ''a''] p0)) = 1 \<and>
     sum_list (map (zs_filtered (zp_selection (poll_calls [ProcessZone ''a''] p0))) zone_reasons) +
     sum_list (map (skipped_counts (poll_calls [ProcessZone ''a''] p0)) zone_reasons) = 2"
proof -
  let ?all = "map sample_zone [''a'', ''b'', ''c'']" and ?el = "map sample_zone [''a'', ''b'']"
  obtain p0 zs where s: "select_poll_zones ?all ?el [''b''] ''acc'' (Some start_zone_poll) = (Some p0, zs)"
    by (auto simp: select_poll_zones_def Let_def)
  have zs: "zs = [sample_zone ''a'']" and p0: "zp_processed p0 = []"
    "zs_discovered (zp_selection p0) = 3"
    using s by (auto simp: select_poll_zones_def Let_def select_zones_def zone_excluded_def sample_zone_def
        equal_fold_def to_lower_def lower_char_def start_zone_poll_def)
  have "let p = poll_calls [ProcessZone ''a''] p0 in
      set zs = {z \<in> set ?el. \<not> zone_excluded [''b''] z} \<and>
      zs_discovered (zp_selection p) = length (zp_processed p) +
        sum_list (map (zs_filtered (zp_selection p)) zone_reasons) +
        sum_list (map (skipped_counts p) zone_reasons)"
    by (rule zone_accounting [OF s]) (simp_all add: sample_zone_def zs)
  then show ?thesis using s p0 unfolding Let_def
    by (intro exI [of _ p0] exI [of _ zs]) (simp add: process_zone_def)
qed

end
