(* ===== verification/GoTime.thy ===== *)
theory GoTime
  imports GoErrors
begin

text \<open>
  \<open>time.Parse\<close> with the layouts RFC3339 and RFC3339Nano, the inverse of the formatting in \<open>GoText\<close>, and
  \<open>cfapi.AsSaturation\<close>, which reads a saturation error back from its message.
\<close>

subsection \<open>Parsing an instant\<close>

definition read_num :: "nat \<Rightarrow> string \<Rightarrow> (int \<times> string) option" where
  "read_num n s = (if length s < n then None else map_option (\<lambda>v. (v, drop n s)) (parse_digits (take n s)))"

definition read_char :: "char \<Rightarrow> string \<Rightarrow> string option" where
  "read_char c s = (case s of x # xs \<Rightarrow> (if x = c then Some xs else None) | [] \<Rightarrow> None)"

text \<open>An optional fraction of a second, of which nine digits count.\<close>

definition read_fraction :: "string \<Rightarrow> int \<times> string" where
  "read_fraction s =
     (case s of
        c # rest \<Rightarrow>
          (if (c = CHR ''.'' \<or> c = CHR '','') \<and> rest \<noteq> [] \<and> is_digit (hd rest)
           then (let ds = take 9 (takeWhile is_digit rest)
                 in (foldl (\<lambda>n c. 10 * n + digit_val c) 0 ds * 10 ^ (9 - length ds), dropWhile is_digit rest))
           else (0, s))
      | [] \<Rightarrow> (0, s))"

definition read_zone :: "string \<Rightarrow> int option" where
  "read_zone s =
     (if s = ''Z'' then Some 0
      else
        (case s of
           sg # rest \<Rightarrow>
             (if sg = CHR ''+'' \<or> sg = CHR ''-'' then
                Option.bind (read_num 2 rest) (\<lambda>(h, s1).
                Option.bind (read_char CHR '':'' s1) (\<lambda>s2.
                Option.bind (read_num 2 s2) (\<lambda>(m, s3).
                  if s3 = [] \<and> h \<le> 24 \<and> m \<le> 60
                  then Some ((if sg = CHR ''-'' then - 1 else 1) * (h * 3600 + m * 60)) else None)))
              else None)
         | [] \<Rightarrow> None))"

definition days_before_year :: "int \<Rightarrow> int" where
  "days_before_year y = 365 * (y - 1) + (y - 1) div 4 - (y - 1) div 100 + (y - 1) div 400"

definition civil_days :: "int \<Rightarrow> int \<Rightarrow> int \<Rightarrow> int" where
  "civil_days y m d = days_before_year y + sum_list (take (nat (m - 1)) (month_days y)) + d - 1"

definition date_ok :: "int \<Rightarrow> int \<Rightarrow> int \<Rightarrow> bool" where
  "date_ok y m d \<longleftrightarrow> 1 \<le> m \<and> m \<le> 12 \<and> 1 \<le> d \<and> d \<le> month_days y ! nat (m - 1)"

definition parse_rfc3339 :: "string \<Rightarrow> time option" where
  "parse_rfc3339 s =
     Option.bind (read_num 4 s) (\<lambda>(y, s). Option.bind (read_char CHR ''-'' s) (\<lambda>s.
     Option.bind (read_num 2 s) (\<lambda>(mo, s). Option.bind (read_char CHR ''-'' s) (\<lambda>s.
     Option.bind (read_num 2 s) (\<lambda>(d, s). Option.bind (read_char CHR ''T'' s) (\<lambda>s.
     Option.bind (read_num 2 s) (\<lambda>(h, s). Option.bind (read_char CHR '':'' s) (\<lambda>s.
     Option.bind (read_num 2 s) (\<lambda>(mi, s). Option.bind (read_char CHR '':'' s) (\<lambda>s.
     Option.bind (read_num 2 s) (\<lambda>(sec, s).
       (case read_fraction s of (ns, s) \<Rightarrow>
        Option.bind (read_zone s) (\<lambda>offset.
          if date_ok y mo d \<and> h < 24 \<and> mi < 60 \<and> sec < 60
          then Some ((civil_days y mo d * 86400 + h * 3600 + mi * 60 + sec - offset) * second + ns)
          else None)))))))))))))"

lemma parse_rfc3339_sample:
  "parse_rfc3339 ''2000-02-29T23:59:59.5Z'' = Some ((unix_offset + 951868799) * second + 500000000)"
  "parse_rfc3339 ''2001-02-29T23:59:59Z'' = None"
  "parse_rfc3339 ''1970-01-01T01:00:00+01:00'' = Some (unix_offset * second)"
  by code_simp+

subsection \<open>Reading back what was printed\<close>

lemma dec_digits_length: "0 \<le> n \<Longrightarrow> n < 10 ^ w \<Longrightarrow> 0 < w \<Longrightarrow> length (dec_digits n) \<le> w"
proof (induction n arbitrary: w rule: dec_digits.induct)
  case (1 n)
  show ?case
  proof (cases "n < 10")
    case True
    with "1.prems" show ?thesis by (simp add: dec_digits.simps [of n])
  next
    case False
    then obtain v where w: "w = Suc v" "0 < v" using "1.prems" by (cases w; cases "w = 1") auto
    then have "n div 10 < 10 ^ v" using "1.prems" by simp
    with "1.IH" [OF False _ _ w(2)] False w "1.prems" show ?thesis
      by (simp add: dec_digits.simps [of n] pos_imp_zdiv_nonneg_iff)
  qed
qed

lemma zero_pad_read:
  assumes "0 \<le> n" "n < 10 ^ w" "0 < w"
  shows "read_num w (zero_pad w n @ rest) = Some (n, rest)"
proof -
  have len: "length (zero_pad w n) = w"
    using dec_digits_length [OF assms] by (simp add: zero_pad_def Let_def)
  have "foldl (\<lambda>n c. 10 * n + digit_val c) 0 (replicate k CHR ''0'' @ s) = foldl (\<lambda>n c. 10 * n + digit_val c) 0 s"
    for k s by (induction k) (simp_all add: digit_val_def)
  moreover have "list_all is_digit (replicate k CHR ''0'')" for k
    by (simp add: list_all_iff is_digit_def)
  ultimately have "parse_digits (zero_pad w n) = Some n"
    using assms(1) dec_digits_digits [OF assms(1)]
    by (simp add: parse_digits_def zero_pad_def Let_def foldl_dec_digits del: foldl_append)
  with len show ?thesis by (simp add: read_num_def)
qed

lemma month_of_sum:
  assumes "month_of m d ns = (m', dd)" "0 \<le> d" "d < sum_list ns" "list_all (\<lambda>n. 0 < n) ns"
  shows "m \<le> m' \<and> m' < m + int (length ns) \<and> 1 \<le> dd \<and> dd \<le> ns ! nat (m' - m) \<and>
    sum_list (take (nat (m' - m)) ns) + dd - 1 = d"
  using assms
proof (induction m d ns rule: month_of.induct)
  case (2 m d n ns)
  show ?case
  proof (cases "d < n")
    case True
    with "2.prems" show ?thesis by auto
  next
    case False
    with "2.prems" have IH: "m + 1 \<le> m' \<and> m' < m + 1 + int (length ns) \<and> 1 \<le> dd \<and>
        dd \<le> ns ! nat (m' - (m + 1)) \<and> sum_list (take (nat (m' - (m + 1))) ns) + dd - 1 = d - n"
      by (intro "2.IH") simp_all
    then have "nat (m' - m) = Suc (nat (m' - (m + 1)))" by linarith
    with IH show ?thesis by simp
  qed
qed simp

lemma year_arith:
  fixes a b c e :: int
  assumes "0 \<le> b" "b \<le> 3" "0 \<le> c" "c \<le> 24" "0 \<le> e" "e \<le> 3"
  shows "days_before_year (400 * a + 100 * b + 4 * c + e + 1) = 146097 * a + 36524 * b + 1461 * c + 365 * e"
proof -
  let ?n = "400 * a + 100 * b + 4 * c + e"
  have "?n div 4 = 100 * a + 25 * b + c" by (rule int_div_pos_eq [where r = e]) (use assms in simp_all)
  moreover have "?n div 100 = 4 * a + b" by (rule int_div_pos_eq [where r = "4 * c + e"]) (use assms in simp_all)
  moreover have "?n div 400 = a" by (rule int_div_pos_eq [where r = "100 * b + 4 * c + e"]) (use assms in simp_all)
  ultimately show ?thesis by (simp add: days_before_year_def)
qed

lemma civil_date_inverse:
  assumes "civil_date d = (y, m, dd)" "0 \<le> d"
  shows "civil_days y m dd = d \<and> date_ok y m dd \<and> 1 \<le> y \<and> days_before_year y \<le> d"
proof -
  define a where "a = d div 146097"
  define r0 where "r0 = d mod 146097"
  define b where "b = min 3 (r0 div 36524)"
  define r1 where "r1 = r0 - b * 36524"
  define c where "c = r1 div 1461"
  define r2 where "r2 = r1 mod 1461"
  define e where "e = min 3 (r2 div 365)"
  define r3 where "r3 = r2 - e * 365"
  have r0: "0 \<le> r0" "r0 < 146097" "d = 146097 * a + r0" "0 \<le> a"
    using assms(2) by (simp_all add: r0_def a_def pos_imp_zdiv_nonneg_iff)
  have b: "0 \<le> b" "b \<le> 3" "0 \<le> r1" "b < 3 \<longrightarrow> r1 < 36524" "r1 < 36525"
    using r0 by (auto simp: b_def r1_def min_def)
  have c: "0 \<le> c" "c \<le> 24" "0 \<le> r2" "r2 < 1461" "r1 = 1461 * c + r2"
    using b by (auto simp: c_def r2_def)
  have e: "0 \<le> e" "e \<le> 3" "0 \<le> r3" "e < 3 \<longrightarrow> r3 < 365" "r3 \<le> 365"
    using c by (auto simp: e_def r3_def min_def)
  have "civil_date d = (400 * a + 100 * b + 4 * c + e + 1,
      month_of 1 r3 (month_days (400 * a + 100 * b + 4 * c + e + 1)))"
    by (simp only: civil_date_def Let_def a_def r0_def b_def r1_def c_def r2_def e_def r3_def)
  from trans [OF assms(1) [symmetric] this]
  have y: "y = 400 * a + 100 * b + 4 * c + e + 1"
    and m0: "(m, dd) = month_of 1 r3 (month_days (400 * a + 100 * b + 4 * c + e + 1))"
    unfolding prod.inject by blast+
  have m: "(m, dd) = month_of 1 r3 (month_days y)" unfolding y by (rule m0)
  have d: "d = 146097 * a + 36524 * b + 1461 * c + 365 * e + r3"
    using r0(3) c(5) by (simp add: r1_def r3_def)
  have "r3 < 365 \<or> is_leap y"
  proof (cases "r3 = 365")
    case True
    then have e3: "e = 3" and r2: "r2 = 1460" using e c by (auto simp: r3_def)
    have "y = 4 * (100 * a + 25 * b + c + 1)" unfolding y e3 by simp
    then have "y mod 4 = 0" by simp
    moreover have "y mod 100 \<noteq> 0 \<or> y mod 400 = 0"
    proof (cases "c = 24")
      case True
      then have "b = 3" using r2 c(5) b by auto
      then have "y = 400 * (a + 1)" unfolding y e3 True by simp
      then show ?thesis by simp
    next
      case False
      have "y = (4 * c + 4) + 100 * (4 * a + b)" unfolding y e3 by simp
      then have "y mod 100 = (4 * c + 4) mod 100" by (simp only: mod_mult_self2)
      with False c(1,2) show ?thesis by simp
    qed
    ultimately show ?thesis by (simp add: is_leap_def)
  qed (use e in simp)
  then have "r3 < sum_list (month_days y)" using e(5) by (auto simp: month_days_def)
  moreover have "list_all (\<lambda>n. 0 < n) (month_days y)" by (simp add: month_days_def)
  ultimately have "1 \<le> m \<and> m < 1 + int (length (month_days y)) \<and> 1 \<le> dd \<and> dd \<le> month_days y ! nat (m - 1) \<and>
      sum_list (take (nat (m - 1)) (month_days y)) + dd - 1 = r3"
    by (intro month_of_sum [OF m [symmetric] e(3)])
  moreover have "length (month_days y) = 12" by (simp add: month_days_def)
  ultimately show ?thesis
    using year_arith [OF b(1,2) c(1,2) e(1,2), of a] b c e r0(4)
    unfolding civil_days_def date_ok_def y [symmetric] by (simp add: d) (simp add: y)
qed

lemma last_day: "d < days_before_year 10000 \<Longrightarrow> 0 \<le> d \<Longrightarrow> civil_date d = (y, m, dd) \<Longrightarrow> y < 10000"
proof (rule ccontr)
  assume d: "d < days_before_year 10000" "0 \<le> d" "civil_date d = (y, m, dd)" and "\<not> y < 10000"
  then have y: "9999 \<le> y - 1" by simp
  then have "9999 div 400 \<le> (y - 1) div 400" by (intro zdiv_mono1) simp_all
  moreover have "9999 div 4 \<le> (y - 1) div 4" using y by (intro zdiv_mono1) simp_all
  moreover have "365 * 9999 - 99 \<le> 365 * n - q" if "100 * q \<le> n" "9999 \<le> n" for n q :: int
    using that by linarith
  then have "365 * 9999 - 99 \<le> 365 * (y - 1) - (y - 1) div 100" using y by simp
  ultimately have "days_before_year 10000 \<le> days_before_year y"
    by (simp add: days_before_year_def)
  with civil_date_inverse [OF d(3,2)] d(1) show False by simp
qed

text \<open>An instant of the years 1 to 9999 is printed so that its second is read back.\<close>

lemma parse_rfc3339_rfc3339:
  assumes "0 \<le> t" "t < days_before_year 10000 * 86400 * second"
  shows "parse_rfc3339 (rfc3339 t) = Some (time_trunc t second)"
proof -
  define s where "s = t div second"
  define d where "d = s div 86400"
  define r where "r = s mod 86400"
  obtain y m dd where cd: "civil_date d = (y, m, dd)" by (metis prod_cases3)
  have s: "0 \<le> s" using assms(1) by (simp add: s_def pos_imp_zdiv_nonneg_iff)
  then have d: "0 \<le> d" by (simp add: d_def pos_imp_zdiv_nonneg_iff)
  have "s < days_before_year 10000 * 86400" using assms(2) by (simp add: s_def div_less_iff_less_mult)
  then have "d < days_before_year 10000" by (simp add: d_def div_less_iff_less_mult)
  then have y: "y < 10000" using last_day d cd by blast
  note c = civil_date_inverse [OF cd d]
  have date: "1 \<le> m" "m \<le> 12" "1 \<le> dd" "dd \<le> 31"
    using c by (auto simp: date_ok_def month_days_def nth_Cons' split: if_splits)
  have r: "0 \<le> r" "r < 86400" by (simp_all add: r_def)
  have hms: "r = 3600 * (r div 3600) + 60 * (r mod 3600 div 60) + r mod 60"
  proof -
    have "r mod 3600 mod 60 = r mod 60" by (rule mod_mod_cancel) simp
    then show ?thesis using div_mult_mod_eq [of r 3600] div_mult_mod_eq [of "r mod 3600" 60] by linarith
  qed
  have num: "read_num 4 (zero_pad 4 y @ rest) = Some (y, rest)"
    "read_num 2 (zero_pad 2 m @ rest) = Some (m, rest)" "read_num 2 (zero_pad 2 dd @ rest) = Some (dd, rest)"
    "read_num 2 (zero_pad 2 (r div 3600) @ rest) = Some (r div 3600, rest)"
    "read_num 2 (zero_pad 2 (r mod 3600 div 60) @ rest) = Some (r mod 3600 div 60, rest)"
    "read_num 2 (zero_pad 2 (r mod 60) @ rest) = Some (r mod 60, rest)" for rest
  proof -
    have two: "read_num 2 (zero_pad 2 n @ rest) = Some (n, rest)" if "0 \<le> n" "n < 100" for n
      by (rule zero_pad_read) (use that in simp_all)
    show "read_num 4 (zero_pad 4 y @ rest) = Some (y, rest)"
      by (rule zero_pad_read) (use c y in simp_all)
    show "read_num 2 (zero_pad 2 m @ rest) = Some (m, rest)" "read_num 2 (zero_pad 2 dd @ rest) = Some (dd, rest)"
      using date by (intro two; simp)+
    show "read_num 2 (zero_pad 2 (r div 3600) @ rest) = Some (r div 3600, rest)"
      using r by (intro two) (simp_all add: pos_imp_zdiv_nonneg_iff div_less_iff_less_mult)
    show "read_num 2 (zero_pad 2 (r mod 3600 div 60) @ rest) = Some (r mod 3600 div 60, rest)"
      by (intro two) (simp_all add: pos_imp_zdiv_nonneg_iff div_less_iff_less_mult)
    have "r mod 60 < 60" by simp
    then have "r mod 60 < 100" by linarith
    then show "read_num 2 (zero_pad 2 (r mod 60) @ rest) = Some (r mod 60, rest)" by (intro two) simp_all
  qed
  have char: "read_char x (x # rest) = Some rest" for x rest by (simp add: read_char_def)
  have fin: "read_fraction ''Z'' = (0, ''Z'')" "read_zone ''Z'' = Some 0"
    by (simp_all add: read_fraction_def read_zone_def)
  have ok: "date_ok y m dd \<and> r div 3600 < 24 \<and> r mod 3600 div 60 < 60 \<and> r mod 60 < 60"
  proof -
    have "r div 3600 < 24" using r by linarith
    moreover have "r mod 3600 div 60 < 60" using pos_mod_bound [of 3600 r] by linarith
    ultimately show ?thesis using c by simp
  qed
  have "parse_rfc3339 (rfc3339 t) = Some ((d * 86400 + r div 3600 * 3600 + r mod 3600 div 60 * 60 + r mod 60) * second)"
    unfolding rfc3339_def Let_def s_def [symmetric] d_def [symmetric] r_def [symmetric] cd prod.case
      parse_rfc3339_def
    by (simp only: append_Cons append_Nil num Option.bind.bind_lunit prod.case char fin if_P [OF ok]
        conjunct1 [OF c] diff_0_right add_0_right)
  also have "d * 86400 + r div 3600 * 3600 + r mod 3600 div 60 * 60 + r mod 60 = s"
    using hms div_mult_mod_eq [of s 86400] unfolding d_def [symmetric] r_def [symmetric] by linarith
  also have "s * second = time_trunc t second" by (simp add: s_def time_trunc_def minus_mod_eq_div_mult)
  finally show ?thesis .
qed

subsection \<open>Saturation errors in messages\<close>

text \<open>The expression \<open>saturationMessage\<close>, which ignores case: the leftmost place where it matches, with
  the data set, the text between \<open>window\<close> and \<open>saturated limit\<close>, and the digits.\<close>

definition is_word :: "char \<Rightarrow> bool" where
  "is_word c \<longleftrightarrow> is_alpha c \<or> is_digit c \<or> c = CHR ''_''"

definition has_prefix_fold :: "string \<Rightarrow> string \<Rightarrow> bool" where
  "has_prefix_fold p s \<longleftrightarrow> has_prefix (to_lower p) (to_lower s)"

fun cut_line :: "string \<Rightarrow> string \<Rightarrow> (string \<times> string) option" where
  "cut_line sep [] = None"
| "cut_line sep (c # cs) =
     (if has_prefix_fold sep (c # cs) then Some ([], drop (length sep) (c # cs))
      else if c = CHR 0x0A then None
      else map_option (\<lambda>(a, b). (c # a, b)) (cut_line sep cs))"

definition saturation_at :: "string \<Rightarrow> (string \<times> string \<times> string) option" where
  "saturation_at s =
     (if \<not> has_prefix_fold ''graphql dataset '' s then None
      else
        (let rest = drop 16 s; ds = takeWhile is_word rest; r2 = dropWhile is_word rest; r3 = drop 8 r2
         in if ds = [] \<or> \<not> has_prefix_fold '' window '' r2 then None
            else
              (case cut_line '' saturated limit '' r3 of
                 Some (mid, tail) \<Rightarrow> Some (ds, mid, takeWhile is_digit tail)
               | None \<Rightarrow>
                   if has_prefix_fold ''saturated limit '' r3
                   then Some (ds, [], takeWhile is_digit (drop 16 r3)) else None)))"

fun find_saturation :: "string \<Rightarrow> (string \<times> string \<times> string) option" where
  "find_saturation [] = None"
| "find_saturation (c # cs) =
     (case saturation_at (c # cs) of Some m \<Rightarrow> Some m | None \<Rightarrow> find_saturation cs)"

definition saturation_of :: "gerr \<Rightarrow> gerr option" where
  "saturation_of e = (case e of SaturationError ds f t l \<Rightarrow> Some e | _ \<Rightarrow> None)"

definition time_or_zero :: "string \<Rightarrow> time" where
  "time_or_zero s = (case parse_rfc3339 s of Some t \<Rightarrow> t | None \<Rightarrow> 0)"

definition limit_value :: "string \<Rightarrow> int" where
  "limit_value s = (case parse_digits s of Some n \<Rightarrow> min n max_int64 | None \<Rightarrow> 0)"

definition as_saturation :: "gerr \<Rightarrow> gerr option" where
  "as_saturation e =
     (case errors_as saturation_of e of
        Some x \<Rightarrow> Some x
      | None \<Rightarrow>
          (case find_saturation (err_text e) of
             None \<Rightarrow> None
           | Some (ds, mid, lim) \<Rightarrow>
               Some (case str_cut ''..'' mid of
                   (a, b, ok) \<Rightarrow>
                     if ok then SaturationError ds (time_or_zero a) (time_or_zero b) (limit_value lim)
                     else SaturationError ds 0 0 (limit_value lim))))"

lemma lower_char_space [simp]: "lower_char c = CHR '' '' \<longleftrightarrow> c = CHR '' ''"
proof (cases "65 \<le> (of_char c :: nat) \<and> (of_char c :: nat) \<le> 90")
  case True
  then have "(of_char (lower_char c) :: nat) = of_char c + 32" by (simp add: lower_char_def)
  with True have "(of_char (lower_char c) :: nat) \<noteq> 32" "(of_char c :: nat) \<noteq> 32" by linarith+
  then show ?thesis by auto
qed (auto simp: lower_char_def)

lemma lower_space [simp]: "lower_char (CHR '' '') = CHR '' ''"
  by simp

lemma cut_line_first:
  assumes "CHR '' '' \<notin> set u" "CHR 0x0A \<notin> set u"
  shows "cut_line (CHR '' '' # sep) (u @ CHR '' '' # sep @ v) = Some (u, v)"
  using assms
proof (induction u)
  case Nil
  then show ?case by (simp add: has_prefix_fold_def has_prefix_def to_lower_def)
next
  case (Cons c u)
  then have "\<not> has_prefix_fold (CHR '' '' # sep) (c # u @ CHR '' '' # sep @ v)"
    by (auto simp: has_prefix_fold_def has_prefix_def to_lower_def)
  moreover have "c \<noteq> CHR 0x0A" using Cons.prems(2) by auto
  ultimately show ?case using Cons by simp
qed

lemma str_cut_dots:
  "CHR ''.'' \<notin> set u \<Longrightarrow> str_cut ''..'' (u @ ''..'' @ v) = (u, v, True)"
  by (induction u) (auto simp: has_prefix_def split: prod.splits bool.splits)

definition date_char :: "char \<Rightarrow> bool" where
  "date_char c \<longleftrightarrow> is_digit c \<or> c \<in> set ''-:TZ''"

lemma zero_pad_chars: "0 \<le> n \<Longrightarrow> list_all date_char (zero_pad w n)"
  using dec_digits_digits [of n]
  by (auto simp: zero_pad_def Let_def list_all_iff date_char_def is_digit_def)

lemma rfc3339_chars:
  assumes "0 \<le> t"
  shows "list_all date_char (rfc3339 t)"
proof -
  obtain y m dd where c: "civil_date (t div second div 86400) = (y, m, dd)" by (metis prod_cases3)
  have "0 \<le> t div second div 86400" using assms by (simp add: pos_imp_zdiv_nonneg_iff)
  from civil_date_inverse [OF c this] have "0 \<le> y" "0 \<le> m" "0 \<le> dd" by (auto simp: date_ok_def)
  moreover define r where "r = t div second mod 86400"
  moreover from this have "0 \<le> r div 3600" "0 \<le> r mod 3600 div 60" "0 \<le> r mod 60"
    by (simp_all add: pos_imp_zdiv_nonneg_iff)
  moreover have "date_char (CHR ''-'')" "date_char (CHR '':'')" "date_char (CHR ''T'')" "date_char (CHR ''Z'')"
    by (simp_all add: date_char_def)
  ultimately show ?thesis
    unfolding rfc3339_def Let_def c prod.case r_def [symmetric]
    by (simp only: list_all_append list.pred_inject zero_pad_chars simp_thms)
qed

lemma date_charD: "list_all date_char s \<Longrightarrow> c \<notin> set s" if "\<not> date_char c"
  using that by (auto simp: list_all_iff)

text \<open>The message of a saturation error is read back.\<close>

theorem as_saturation_roundtrip:
  assumes "list_all is_word ds" "ds \<noteq> []" "0 \<le> l" "l \<le> max_int64"
    and "0 \<le> f" "f < days_before_year 10000 * 86400 * second"
    and "0 \<le> t" "t < days_before_year 10000 * 86400 * second"
  shows "as_saturation (ErrNew (err_text (SaturationError ds f t l))) =
    Some (SaturationError ds (time_trunc f second) (time_trunc t second) l)"
proof -
  have special: "\<not> date_char (CHR '' '')" "\<not> date_char (CHR 0x0A)" "\<not> date_char (CHR ''.'')"
    by (simp_all add: date_char_def is_digit_def)
  let ?mid = "rfc3339 f @ ''..'' @ rfc3339 t"
  have chars: "list_all date_char (rfc3339 f)" "list_all date_char (rfc3339 t)"
    using assms(5,7) rfc3339_chars by blast+
  have cut: "cut_line '' saturated limit '' (?mid @ '' saturated limit '' @ itoa l) = Some (?mid, itoa l)"
    using cut_line_first [of ?mid "''saturated limit ''" "itoa l"] date_charD special chars by simp
  have words: "takeWhile is_word (ds @ CHR '' '' # rest) = ds" "dropWhile is_word (ds @ CHR '' '' # rest) = CHR '' '' # rest" for rest
  proof -
    have "\<not> is_word (CHR '' '')" by (simp add: is_word_def is_alpha_def is_digit_def)
    then show "takeWhile is_word (ds @ CHR '' '' # rest) = ds" "dropWhile is_word (ds @ CHR '' '' # rest) = CHR '' '' # rest"
      using assms(1) by (simp_all add: takeWhile_append2 dropWhile_append2 list_all_iff)
  qed
  have "list_all is_digit (itoa l)" using dec_digits_digits [of l] assms(3) by (simp add: itoa_def)
  then have dig: "takeWhile is_digit (itoa l) = itoa l" by (simp add: list_all_iff takeWhile_eq_all_conv)
  have msg: "err_text (SaturationError ds f t l) =
      ''GraphQL dataset '' @ ds @ '' window '' @ ?mid @ '' saturated limit '' @ itoa l"
    by (simp add: saturation_text_def)
  have "saturation_at (err_text (SaturationError ds f t l)) = Some (ds, ?mid, itoa l)"
  proof -
    have low: "to_lower ''GraphQL dataset '' = ''graphql dataset ''" "to_lower ''graphql dataset '' = ''graphql dataset ''"
      by code_simp+
    have a: "has_prefix_fold ''graphql dataset '' (''GraphQL dataset '' @ s)" for s
      unfolding has_prefix_fold_def has_prefix_def low using low(1) by (simp add: to_lower_def)
    have b: "has_prefix_fold '' window '' ('' window '' @ s)" for s
      by (simp add: has_prefix_fold_def has_prefix_def to_lower_def)
    have d: "drop 16 (''GraphQL dataset '' @ s) = s" "drop 8 ('' window '' @ s) = s" for s by simp_all
    have w: "takeWhile is_word (ds @ '' window '' @ s) = ds" "dropWhile is_word (ds @ '' window '' @ s) = '' window '' @ s" for s
      using words [of "''window '' @ s"] by simp_all
    show ?thesis
      by (simp only: msg saturation_at_def Let_def d w a b cut option.case prod.case dig assms(2)
          simp_thms if_False if_True)
  qed
  moreover have "err_text (SaturationError ds f t l) = CHR ''G'' # tl (err_text (SaturationError ds f t l))"
    unfolding msg by simp
  ultimately have "find_saturation (err_text (SaturationError ds f t l)) = Some (ds, ?mid, itoa l)"
    by (metis find_saturation.simps(2) option.simps(5))
  moreover have "str_cut ''..'' ?mid = (rfc3339 f, rfc3339 t, True)"
    using str_cut_dots date_charD special(3) chars(1) by blast
  moreover have "limit_value (itoa l) = l" using assms(3,4) by (simp add: limit_value_def itoa_def)
  moreover have "time_or_zero (rfc3339 f) = time_trunc f second" "time_or_zero (rfc3339 t) = time_trunc t second"
    using parse_rfc3339_rfc3339 assms(5-8) by (simp_all add: time_or_zero_def)
  moreover have "errors_as saturation_of (ErrNew x) = None" for x
    by (simp add: errors_as_def saturation_of_def)
  ultimately show ?thesis by (simp add: as_saturation_def)
qed

theorem as_saturation_roundtrip_witness:
  "as_saturation (ErrNew (err_text (SaturationError ''httpRequests'' (5 * second + 7) (60 * second) 10000))) =
     Some (SaturationError ''httpRequests'' (5 * second) (60 * second) 10000)"
proof -
  have w: "list_all is_word ''httpRequests''" by code_simp
  have y: "days_before_year 10000 = 3652059" by (simp add: days_before_year_def)
  have "as_saturation (ErrNew (err_text (SaturationError ''httpRequests'' (5 * second + 7) (60 * second) 10000))) =
      Some (SaturationError ''httpRequests'' (time_trunc (5 * second + 7) second) (time_trunc (60 * second) second) 10000)"
    by (rule as_saturation_roundtrip [OF w]) (simp_all add: y)
  then show ?thesis by (simp add: time_trunc_def)
qed

end
