(* ===== verification/JsonAny.thy ===== *)
theory JsonAny
  imports Client GqlText GoTime
begin

text \<open>
  JSON decoded into \<open>any\<close>, as the collectors read rows: objects are maps, numbers are float64 values,
  here exact rationals within the float64 range. The collectors reach Cloudflare through the interface
  \<open>cfapi.Client\<close>, the record \<open>client\<close>.
\<close>

definition max_float64 :: f64 where
  "max_float64 = 2 ^ 1024 - 2 ^ 970"

text \<open>The value of a JSON number, \<open>None\<close> when it is out of range.\<close>

definition digits_value :: "string \<Rightarrow> int" where
  "digits_value s = foldl (\<lambda>n c. 10 * n + digit_val c) 0 s"

definition ten_power :: "int \<Rightarrow> f64" where
  "ten_power n = (if 0 \<le> n then 10 ^ nat n else 1 / 10 ^ nat (- n))"

definition number_value :: "string \<Rightarrow> f64" where
  "number_value s =
     (let body = trim_prefix ''-'' s;
          mant = takeWhile (\<lambda>c. c \<noteq> CHR ''e'' \<and> c \<noteq> CHR ''E'') body;
          ex = trim_prefix ''+'' (drop (Suc (length mant)) body);
          whole = takeWhile is_digit mant;
          frac = drop (Suc (length whole)) mant;
          scale = (if ex = [] then 0
                   else if has_prefix ''-'' ex then - digits_value (drop 1 ex) else digits_value ex);
          v = of_int (digits_value (whole @ frac)) * ten_power (scale - int (length frac))
      in if has_prefix ''-'' s then - v else v)"

definition json_float :: "string \<Rightarrow> f64 option" where
  "json_float s = (let v = number_value s in if \<bar>v\<bar> \<le> max_float64 then Some v else None)"

lemma number_value_samples:
  "number_value ''12.50'' = 25 / 2" "number_value ''-3e2'' = - 300" "number_value ''5E-1'' = 1 / 2"
  by (simp_all add: number_value_def Let_def trim_prefix_def has_prefix_def digits_value_def digit_val_def
      ten_power_def is_digit_def)

text \<open>
  \<open>strconv.ParseFloat\<close>: decimal and hexadecimal literals with separating underscores. \<open>None\<close> stands for an
  error and for the values that are not finite, which the collectors reject alike.
\<close>

definition float_digit :: "bool \<Rightarrow> char \<Rightarrow> int option" where
  "float_digit hex c =
     (if hex then map_option int (hex_val (lower_char c)) else if is_digit c then Some (digit_val c) else None)"

fun scan_mantissa :: "bool \<Rightarrow> bool \<Rightarrow> int \<Rightarrow> nat \<Rightarrow> bool \<Rightarrow> string \<Rightarrow> int \<times> nat \<times> bool \<times> string" where
  "scan_mantissa hex dot m f d [] = (m, f, d, [])"
| "scan_mantissa hex dot m f d (c # cs) =
     (if c = CHR ''_'' then scan_mantissa hex dot m f d cs
      else if c = CHR ''.'' \<and> \<not> dot then scan_mantissa hex True m f d cs
      else (case float_digit hex c of
              None \<Rightarrow> (m, f, d, c # cs)
            | Some v \<Rightarrow> scan_mantissa hex dot ((if hex then 16 else 10) * m + v) (if dot then Suc f else f) True cs))"

definition float_exponent :: "bool \<Rightarrow> string \<Rightarrow> int option" where
  "float_exponent hex rest =
     (if rest \<noteq> [] \<and> lower_char (hd rest) = (if hex then CHR ''p'' else CHR ''e'') then
        (let r = tl rest;
             neg = has_prefix ''-'' r;
             ds = (if neg \<or> has_prefix ''+'' r then drop 1 r else r)
         in if ds \<noteq> [] \<and> is_digit (hd ds) \<and> list_all (\<lambda>c. is_digit c \<or> c = CHR ''_'') ds
            then Some ((if neg then - 1 else 1) * digits_value (filter is_digit ds))
            else None)
      else if hex \<or> rest \<noteq> [] then None else Some 0)"

text \<open>\<open>underscoreOK\<close>: the previous character is a digit (\<open>0\<close>), an underscore or neither (\<open>!\<close>).\<close>

fun underscores_ok :: "bool \<Rightarrow> char \<Rightarrow> string \<Rightarrow> bool" where
  "underscores_ok hex i [] = (i \<noteq> CHR ''_'')"
| "underscores_ok hex i (c # cs) =
     (if is_digit c \<or> (hex \<and> hex_val (lower_char c) \<noteq> None) then underscores_ok hex (CHR ''0'') cs
      else if c = CHR ''_'' then i = CHR ''0'' \<and> underscores_ok hex (CHR ''_'') cs
      else i \<noteq> CHR ''_'' \<and> underscores_ok hex (CHR ''!'') cs)"

definition hex_prefix :: "string \<Rightarrow> bool" where
  "hex_prefix body = (2 < length body \<and> take 2 (to_lower body) = ''0x'')"

definition parse_float :: "string \<Rightarrow> f64 option" where
  "parse_float s =
     (let neg = has_prefix ''-'' s;
          body = (if neg \<or> has_prefix ''+'' s then drop 1 s else s);
          hex = hex_prefix body;
          digits = (if hex then drop 2 body else body)
      in case scan_mantissa hex False 0 0 False digits of
           (m, f, d, rest) \<Rightarrow>
             (case float_exponent hex rest of
                None \<Rightarrow> None
              | Some e \<Rightarrow>
                  (let v = of_int m * (if hex then (if 0 \<le> e then 2 ^ nat e else 1 / 2 ^ nat (- e)) / 16 ^ f
                                       else ten_power (e - int f))
                   in if d \<and> (CHR ''_'' \<in> set s \<longrightarrow> underscores_ok hex (if hex then CHR ''0'' else CHR ''^'') digits) \<and>
                         v \<le> max_float64
                      then Some (if neg then - v else v) else None)))"

text \<open>Decoding fails when any number in the value is out of range.\<close>

fun floats_ok :: "json \<Rightarrow> bool" where
  "floats_ok (JNum s) = (json_float s \<noteq> None)"
| "floats_ok (JArr xs) = list_all floats_ok xs"
| "floats_ok (JObj kvs) = list_all (\<lambda>kv. floats_ok (snd kv)) kvs"
| "floats_ok _ = True"

definition is_map :: "json \<Rightarrow> bool" where
  "is_map j = (case j of JObj kvs \<Rightarrow> True | JNull \<Rightarrow> True | _ \<Rightarrow> False)"

text \<open>\<open>json.Unmarshal\<close> into a \<open>[]map[string]any\<close>.\<close>

definition decode_any_rows :: "json \<Rightarrow> json list option" where
  "decode_any_rows j =
     (case decode_list j of
        None \<Rightarrow> None
      | Some rows \<Rightarrow> if list_all (\<lambda>r. is_map r \<and> floats_ok r) rows then Some rows else None)"

text \<open>A member of a map, and a dotted path through maps.\<close>

definition any_member :: "json \<Rightarrow> string \<Rightarrow> json option" where
  "any_member j k = (case j of JObj kvs \<Rightarrow> map_of (json_map kvs) k | _ \<Rightarrow> None)"

fun any_path :: "json \<Rightarrow> string list \<Rightarrow> json option" where
  "any_path j [] = Some j"
| "any_path j (k # ks) = (case any_member j k of None \<Rightarrow> None | Some v \<Rightarrow> any_path v ks)"

definition any_number :: "json \<Rightarrow> f64 option" where
  "any_number j = (case j of JNum s \<Rightarrow> json_float s | _ \<Rightarrow> None)"

definition any_string :: "json \<Rightarrow> string option" where
  "any_string j = (case j of JStr s \<Rightarrow> Some s | _ \<Rightarrow> None)"

subsection \<open>The client interface\<close>

text \<open>\<open>GetPage\<close> and \<open>QueryBatch\<close> are optional interfaces of a client; a page is its whole envelope.\<close>

record 'w client =
  cl_settings :: "'w \<Rightarrow> string \<Rightarrow> string \<Rightarrow> string \<Rightarrow> 'w \<times> (gerr + dataset_settings)"
  cl_query :: "'w \<Rightarrow> graphql_request \<Rightarrow> 'w \<times> (gerr + json)"
  cl_ctx_err :: "'w \<Rightarrow> 'w \<times> gerr option"
  cl_page :: "('w \<Rightarrow> string \<Rightarrow> (string \<times> string) list \<Rightarrow> 'w \<times> (gerr + json)) option"
  cl_batch :: "('w \<Rightarrow> (string \<times> graphql_request) list \<Rightarrow> 'w \<times> (gerr + (string \<times> json) list)) option"

definition available_fields :: "dataset_settings \<Rightarrow> string list" where
  "available_fields s = (case ds_fields s of None \<Rightarrow> [] | Some fs \<Rightarrow> fs)"

text \<open>Loops that stop at the first error.\<close>

fun fold_err :: "('a \<Rightarrow> 'b \<Rightarrow> gerr + 'b) \<Rightarrow> 'a list \<Rightarrow> 'b \<Rightarrow> gerr + 'b" where
  "fold_err f [] b = Inr b"
| "fold_err f (x # xs) b = (case f x b of Inl e \<Rightarrow> Inl e | Inr b' \<Rightarrow> fold_err f xs b')"

fun first_error :: "('a \<Rightarrow> gerr option) \<Rightarrow> 'a list \<Rightarrow> gerr option" where
  "first_error f [] = None"
| "first_error f (x # xs) = (case f x of Some e \<Rightarrow> Some e | None \<Rightarrow> first_error f xs)"

lemma fold_err_inv:
  assumes "fold_err f xs b = Inr b'" "I b" "\<And>x b b'. x \<in> set xs \<Longrightarrow> f x b = Inr b' \<Longrightarrow> I b \<Longrightarrow> I b'"
  shows "I b'"
  using assms
proof (induction xs arbitrary: b)
  case (Cons x xs)
  then obtain b1 where "f x b = Inr b1" "fold_err f xs b1 = Inr b'" by (auto split: sum.splits)
  with Cons show ?case by (metis list.set_intros)
qed simp

lemma first_error_None: "first_error f xs = None \<longleftrightarrow> (\<forall>x \<in> set xs. f x = None)"
  by (induction xs) (auto split: option.splits)

text \<open>What a sequence of emissions adds to the counter \<open>m\<close>.\<close>

definition counter_total :: "string \<Rightarrow> emission list \<Rightarrow> f64" where
  "counter_total m es = sum_list (map (\<lambda>e. case e of ECounter n v a \<Rightarrow> if n = m then v else 0 | _ \<Rightarrow> 0) es)"

text \<open>\<open>utf8.RuneCountInString\<close>: a byte that starts no character counts as one.\<close>

function rune_count :: "string \<Rightarrow> nat" where
  "rune_count s = (if s = [] then 0 else Suc (rune_count (drop (max 1 (rune_len s)) s)))"
  by pat_completeness auto
termination
  by (relation "measure length") auto

declare rune_count.simps [simp del]

end
