(* ===== verification/Admission.thy ===== *)
theory Admission
  imports Prelude
begin

text \<open>
  The contract of the admission of metric series, which \<open>collectors/r2/admission.go\<close> and the files \<open>names.go\<close>
  of \<open>d1\<close>, \<open>kv\<close>, \<open>queues\<close> and \<open>durableobjects\<close> implement separately: the first 49 series of a metric keep their
  identity for the life of the process, all others are folded into one remainder series.
\<close>

text \<open>A sequence of admissions and the series it reports.\<close>

fun admit_all :: "('k \<Rightarrow> 's \<Rightarrow> 'k \<times> 's) \<Rightarrow> 'k list \<Rightarrow> 's \<Rightarrow> 'k list \<times> 's" where
  "admit_all admit [] s = ([], s)"
| "admit_all admit (k # ks) s =
     (case admit k s of (k', s1) \<Rightarrow> (case admit_all admit ks s1 of (ks', s2) \<Rightarrow> (k' # ks', s2)))"

locale series_admission =
  fixes admit :: "'k \<Rightarrow> 's \<Rightarrow> 'k \<times> 's"
    and known :: "'s \<Rightarrow> 'k set"
    and metric :: "'k \<Rightarrow> string"
    and remainder :: "'k set"
    and valid :: "'k \<Rightarrow> bool"
    and ok :: "'s \<Rightarrow> bool"
  assumes admit_ok: "ok s \<Longrightarrow> ok (snd (admit k s))"
    and admit_grows: "ok s \<Longrightarrow> known s \<subseteq> known (snd (admit k s))"
    and admit_reports: "ok s \<Longrightarrow> valid k \<Longrightarrow> fst (admit k s) \<in> known (snd (admit k s)) \<union> remainder"
    and admit_sticky: "ok s \<Longrightarrow> k \<in> known s \<Longrightarrow> admit k s = (k, s)"
    and known_finite: "ok s \<Longrightarrow> finite {k \<in> known s. metric k = m}"
    and known_bound: "ok s \<Longrightarrow> card {k \<in> known s. metric k = m} \<le> 49"
    and remainder_single: "k \<in> remainder \<Longrightarrow> k' \<in> remainder \<Longrightarrow> metric k = metric k' \<Longrightarrow> k = k'"
begin

lemma admit_all_reports:
  "admit_all admit ks s = (ks', s') \<Longrightarrow> ok s \<Longrightarrow> list_all valid ks \<Longrightarrow>
   ok s' \<and> known s \<subseteq> known s' \<and> set ks' \<subseteq> known s' \<union> remainder"
proof (induction ks arbitrary: s ks')
  case (Cons k ks)
  obtain k1 s1 where 1: "admit k s = (k1, s1)" by fastforce
  with Cons.prems(1) obtain ks1 where 2: "admit_all admit ks s1 = (ks1, s')" "ks' = k1 # ks1"
    by (auto split: prod.splits)
  have "ok s1" "known s \<subseteq> known s1" "k1 \<in> known s1 \<union> remainder"
    using admit_ok [OF Cons.prems(2), of k] admit_grows [OF Cons.prems(2), of k] Cons.prems(3)
      admit_reports [OF Cons.prems(2), of k] by (simp_all add: 1)
  with Cons.IH [OF 2(1)] Cons.prems(3) 2(2) show ?case by auto
qed simp

text \<open>However many series are offered, at most 50 of a metric are ever reported.\<close>

lemma series_bound:
  assumes "ok s" "list_all valid ks"
  shows "card {k \<in> set (fst (admit_all admit ks s)). metric k = m} \<le> 50"
proof -
  obtain ks' s' where r: "admit_all admit ks s = (ks', s')" by fastforce
  note f = admit_all_reports [OF r assms]
  let ?K = "{k \<in> known s'. metric k = m}" and ?R = "{k \<in> remainder. metric k = m}"
  have "card ?R \<le> 1 \<and> finite ?R"
  proof (cases "?R = {}")
    case False
    then obtain k where "k \<in> ?R" by blast
    then have "?R = {k}" using remainder_single by blast
    then show ?thesis by simp
  qed (metis (no_types, lifting) card.empty finite.emptyI zero_le)
  moreover have "{k \<in> set ks'. metric k = m} \<subseteq> ?K \<union> ?R" using f by blast
  moreover have "finite ?K" "card ?K \<le> 49" using f known_finite known_bound by blast+
  ultimately have "card {k \<in> set ks'. metric k = m} \<le> card ?K + card ?R"
    by (meson card_Un_le card_mono finite_UnI le_trans)
  with \<open>card ?R \<le> 1 \<and> finite ?R\<close> \<open>card ?K \<le> 49\<close> show ?thesis by (simp add: r)
qed

text \<open>A series once known is reported as itself for ever after.\<close>

lemma series_kept:
  "ok s \<Longrightarrow> list_all valid ks \<Longrightarrow> i < length ks \<Longrightarrow> ks ! i \<in> known s \<Longrightarrow>
   fst (admit_all admit ks s) ! i = ks ! i"
proof (induction ks arbitrary: s i)
  case (Cons k ks)
  obtain k1 s1 where 1: "admit k s = (k1, s1)" by fastforce
  have s1: "ok s1" "known s \<subseteq> known s1"
    using admit_ok [OF Cons.prems(1), of k] admit_grows [OF Cons.prems(1), of k] by (simp_all add: 1)
  show ?case
  proof (cases i)
    case 0
    with Cons.prems 1 admit_sticky [of s k] show ?thesis by (simp split: prod.splits)
  next
    case (Suc j)
    with Cons.prems s1 have "fst (admit_all admit ks s1) ! j = ks ! j" by (intro Cons.IH) auto
    with Suc 1 show ?thesis by (cases "admit_all admit ks s1") simp
  qed
qed simp

end

end
