(* ===== verification/ResourceNames.thy ===== *)
theory ResourceNames
  imports JsonAny Admission
begin

text \<open>
  Names of Cloudflare resources, \<open>internal/collectors/d1/names.go\<close> and its copies in \<open>kv\<close>, \<open>queues\<close> and
  \<open>durableobjects\<close>, which differ in the listed path and the members of a row only: the complete listing of an
  account's resources, the map from identifiers to names that are unambiguous, its cache, and the admission of at
  most 49 names per metric. A nil map of names and an empty one are not distinguished.
\<close>

record resource =
  rs_dimension :: string
  rs_path :: string
  rs_id :: string
  rs_name :: string

definition d1_resource :: resource where
  "d1_resource = \<lparr>rs_dimension = ''databaseId'', rs_path = ''/d1/database'', rs_id = ''uuid'', rs_name = ''name''\<rparr>"

definition kv_resource :: resource where
  "kv_resource = \<lparr>rs_dimension = ''namespaceId'', rs_path = ''/storage/kv/namespaces'', rs_id = ''id'',
     rs_name = ''title''\<rparr>"

definition queues_resource :: resource where
  "queues_resource = \<lparr>rs_dimension = ''queueId'', rs_path = ''/queues'', rs_id = ''queue_id'',
     rs_name = ''queue_name''\<rparr>"

definition durable_resource :: resource where
  "durable_resource = \<lparr>rs_dimension = ''namespaceId'', rs_path = ''/workers/durable_objects/namespaces'',
     rs_id = ''id'', rs_name = ''name''\<rparr>"

subsection \<open>Pages\<close>

text \<open>\<open>url.PathEscape\<close>.\<close>

definition upper_hex :: "nat \<Rightarrow> char" where
  "upper_hex n = ''0123456789ABCDEF'' ! n"

definition path_char :: "char \<Rightarrow> string" where
  "path_char c =
     (if is_alpha c \<or> is_digit c \<or> c \<in> set ''-_.~$&+=:@'' then [c]
      else (let n = (of_char c :: nat) in [CHR ''%'', upper_hex (n div 16), upper_hex (n mod 16)]))"

definition path_escape :: "string \<Rightarrow> string" where
  "path_escape s = concat (map path_char s)"

definition opt_member :: "string \<Rightarrow> (string \<times> json) list \<Rightarrow> json" where
  "opt_member k m = (case member k m of Some v \<Rightarrow> v | None \<Rightarrow> JNull)"

definition decode_resource_row :: "resource \<Rightarrow> json \<Rightarrow> (string \<times> string) option" where
  "decode_resource_row r j =
     (case decode_obj j of
        None \<Rightarrow> None
      | Some m \<Rightarrow>
          (case (decode_str (opt_member (rs_id r) m), decode_str (opt_member (rs_name r) m)) of
             (Some i, Some n) \<Rightarrow> Some (i, n)
           | _ \<Rightarrow> None))"

record name_page =
  np_rows :: "(string \<times> string) list"
  np_page :: int
  np_per_page :: int
  np_count :: int
  np_total :: int

definition decode_name_rows :: "resource \<Rightarrow> json \<Rightarrow> (string \<times> string) list option" where
  "decode_name_rows r j = Option.bind (decode_list j) (\<lambda>xs. those (map (decode_resource_row r) xs))"

definition decode_name_page :: "resource \<Rightarrow> json \<Rightarrow> name_page option" where
  "decode_name_page r j =
     (case decode_obj j of
        None \<Rightarrow> None
      | Some m \<Rightarrow>
          (case (decode_name_rows r (opt_member ''result'' m), decode_obj (opt_member ''result_info'' m)) of
             (Some rows, Some info) \<Rightarrow>
               (case (decode_int (opt_member ''page'' info), decode_int (opt_member ''per_page'' info),
                      decode_int (opt_member ''count'' info), decode_int (opt_member ''total_count'' info)) of
                  (Some p, Some per, Some c, Some t) \<Rightarrow>
                    Some \<lparr>np_rows = rows, np_page = p, np_per_page = per, np_count = c, np_total = t\<rparr>
                | _ \<Rightarrow> None)
           | _ \<Rightarrow> None))"

definition name_page_ok :: "int \<Rightarrow> name_page \<Rightarrow> bool" where
  "name_page_ok page p \<longleftrightarrow>
     np_page p = page \<and> np_per_page p > 0 \<and> np_count p = int (length (np_rows p)) \<and>
     int (length (np_rows p)) \<le> np_per_page p \<and> 0 \<le> np_total p \<and> np_total p \<le> 5000"

subsection \<open>Names\<close>

definition usable_name :: "string \<Rightarrow> bool" where
  "usable_name n \<longleftrightarrow> trim_space n \<noteq> [] \<and> valid_string n \<and> rune_count n \<le> 128 \<and> n \<noteq> ''other''"

record name_state =
  ns_names :: "string \<rightharpoonup> string"
  ns_ambiguous :: "string set"
  ns_owners :: "string \<rightharpoonup> string"

definition empty_names :: name_state where
  "empty_names = \<lparr>ns_names = Map.empty, ns_ambiguous = {}, ns_owners = Map.empty\<rparr>"

text \<open>The identifiers a usable name makes ambiguous.\<close>

definition name_clash :: "string \<Rightarrow> string \<Rightarrow> name_state \<Rightarrow> string set" where
  "name_clash i n s =
     (case ns_names s i of Some p \<Rightarrow> if p \<noteq> n then {i} else {} | None \<Rightarrow> {}) \<union>
     (case ns_owners s n of Some ow \<Rightarrow> if ow \<noteq> i then {i, ow} else {} | None \<Rightarrow> {})"

definition add_name_row :: "string \<times> string \<Rightarrow> name_state \<Rightarrow> name_state" where
  "add_name_row row s =
     (case row of (i, n) \<Rightarrow>
        if i = [] then s
        else if \<not> usable_name n then s\<lparr>ns_ambiguous := insert i (ns_ambiguous s)\<rparr>
        else \<lparr>ns_names = (ns_names s)(i \<mapsto> n), ns_ambiguous = ns_ambiguous s \<union> name_clash i n s,
              ns_owners = (ns_owners s)(n \<mapsto> i)\<rparr>)"

definition final_names :: "name_state \<Rightarrow> string \<rightharpoonup> string" where
  "final_names s = (\<lambda>i. if i \<in> ns_ambiguous s then None else ns_names s i)"

text \<open>\<open>n\<close> of the 100 pages may still be fetched.\<close>

type_synonym 'w page_getter = "'w \<Rightarrow> string \<Rightarrow> (string \<times> string) list \<Rightarrow> 'w \<times> (gerr + json)"

definition names_path :: "resource \<Rightarrow> string \<Rightarrow> string" where
  "names_path r account = ''/accounts/'' @ path_escape account @ rs_path r"

fun name_pages ::
  "'w page_getter \<Rightarrow> resource \<Rightarrow> string \<Rightarrow> nat \<Rightarrow> int \<Rightarrow> int \<Rightarrow> nat \<Rightarrow> name_state \<Rightarrow> 'w \<Rightarrow>
   'w \<times> (string \<rightharpoonup> string) option"
where
  "name_pages get r account 0 per listed seen s w = (w, None)"
| "name_pages get r account (Suc n) per listed seen s w =
     (let page = int (100 - n) in
      case get w (names_path r account) [(''page'', itoa page), (''per_page'', itoa per)] of
        (w1, Inl e) \<Rightarrow> (w1, None)
      | (w1, Inr j) \<Rightarrow>
          (case decode_name_page r j of
             None \<Rightarrow> (w1, None)
           | Some p \<Rightarrow>
               (let seen' = seen + length (np_rows p); s' = fold add_name_row (np_rows p) s in
                if \<not> name_page_ok page p \<or> (listed \<ge> 0 \<and> listed \<noteq> np_total p) \<or> seen' > 5000 \<or>
                   int seen' > np_total p
                then (w1, None)
                else if int seen' = np_total p then (w1, Some (final_names s'))
                else if int (length (np_rows p)) \<noteq> np_per_page p then (w1, None)
                else name_pages get r account n (np_per_page p) (np_total p) seen' s' w1)))"

definition load_names :: "'w client \<Rightarrow> resource \<Rightarrow> string \<Rightarrow> 'w \<Rightarrow> 'w \<times> (string \<rightharpoonup> string) option" where
  "load_names k r account w =
     (case cl_page k of
        None \<Rightarrow> (w, None)
      | Some get \<Rightarrow> name_pages get r account 100 50 (- 1) 0 empty_names w)"

text \<open>The copies of \<open>loadNames\<close> in the other packages.\<close>

definition kv_load_names :: "'w client \<Rightarrow> string \<Rightarrow> 'w \<Rightarrow> 'w \<times> (string \<rightharpoonup> string) option" where
  "kv_load_names k = load_names k kv_resource"

definition queues_load_names :: "'w client \<Rightarrow> string \<Rightarrow> 'w \<Rightarrow> 'w \<times> (string \<rightharpoonup> string) option" where
  "queues_load_names k = load_names k queues_resource"

definition durable_load_names :: "'w client \<Rightarrow> string \<Rightarrow> 'w \<Rightarrow> 'w \<times> (string \<rightharpoonup> string) option" where
  "durable_load_names k = load_names k durable_resource"

subsection \<open>The cache\<close>

record name_entry =
  ne_until :: time
  ne_names :: "string \<rightharpoonup> string"

type_synonym name_cache = "string \<rightharpoonup> name_entry"

definition or_empty :: "(string \<rightharpoonup> string) option \<Rightarrow> string \<rightharpoonup> string" where
  "or_empty names = (case names of None \<Rightarrow> Map.empty | Some m \<Rightarrow> m)"

definition cached_names :: "string \<Rightarrow> time \<Rightarrow> name_cache \<Rightarrow> (string \<rightharpoonup> string) option" where
  "cached_names i now c =
     (case c i of Some e \<Rightarrow> if now < ne_until e then Some (ne_names e) else None | None \<Rightarrow> None)"

definition lookup_names ::
  "('w \<Rightarrow> 'w \<times> time) \<Rightarrow> 'w client \<Rightarrow> resource \<Rightarrow> string \<Rightarrow> 'w \<times> name_cache \<Rightarrow>
   ('w \<times> name_cache) \<times> (string \<rightharpoonup> string)"
where
  "lookup_names clock k r account st =
     (case st of (w, c) \<Rightarrow>
      (case clock w of (w1, now) \<Rightarrow>
      (case cached_names (account @ rs_path r) now c of
         Some names \<Rightarrow> ((w1, c), names)
       | None \<Rightarrow>
           (case load_names k r account w1 of (w2, loaded) \<Rightarrow>
            (case clock w2 of (w3, later) \<Rightarrow>
              ((w3, c(account @ rs_path r \<mapsto> \<lparr>ne_until = later + hour, ne_names = or_empty loaded\<rparr>)),
               or_empty loaded))))))"

subsection \<open>Admission\<close>

type_synonym admission = "string \<Rightarrow> string list"

definition admit_name :: "string \<Rightarrow> string \<Rightarrow> admission \<Rightarrow> string \<times> admission" where
  "admit_name metric name a =
     (if name = [] \<or> name = ''other'' then (''other'', a)
      else if name \<in> set (a metric) then (name, a)
      else if length (a metric) \<ge> 49 then (''other'', a)
      else (name, a(metric := name # a metric)))"

subsection \<open>What the names of a listing are\<close>

definition bad_name :: "(string \<times> string) list \<Rightarrow> string \<Rightarrow> bool" where
  "bad_name rows i \<longleftrightarrow> (\<exists>n. (i, n) \<in> set rows \<and> \<not> usable_name n)"

definition two_names :: "(string \<times> string) list \<Rightarrow> string \<Rightarrow> bool" where
  "two_names rows i \<longleftrightarrow> (\<exists>n m. (i, n) \<in> set rows \<and> (i, m) \<in> set rows \<and> n \<noteq> m)"

definition shared_name :: "(string \<times> string) list \<Rightarrow> string \<Rightarrow> bool" where
  "shared_name rows i \<longleftrightarrow>
     (\<exists>n j. (i, n) \<in> set rows \<and> (j, n) \<in> set rows \<and> usable_name n \<and> j \<noteq> i \<and> j \<noteq> [])"

definition unclear :: "(string \<times> string) list \<Rightarrow> string \<Rightarrow> bool" where
  "unclear rows i \<longleftrightarrow> bad_name rows i \<or> two_names rows i \<or> shared_name rows i"

lemma bad_name_snoc: "bad_name (rows @ [(i, n)]) k \<longleftrightarrow> bad_name rows k \<or> (k = i \<and> \<not> usable_name n)"
  unfolding bad_name_def by auto

lemma two_names_snoc:
  "two_names (rows @ [(i, n)]) k \<longleftrightarrow> two_names rows k \<or> (k = i \<and> (\<exists>m. (i, m) \<in> set rows \<and> m \<noteq> n))"
  unfolding two_names_def by auto

lemma shared_name_snoc:
  "i \<noteq> [] \<Longrightarrow> shared_name (rows @ [(i, n)]) k \<longleftrightarrow> shared_name rows k \<or>
     (usable_name n \<and> k = i \<and> (\<exists>j. (j, n) \<in> set rows \<and> j \<noteq> i \<and> j \<noteq> [])) \<or>
     (usable_name n \<and> k \<noteq> i \<and> (k, n) \<in> set rows)"
  unfolding shared_name_def by auto

lemma shared_name_snoc_empty: "k \<noteq> [] \<Longrightarrow> shared_name (rows @ [([], n)]) k \<longleftrightarrow> shared_name rows k"
  unfolding shared_name_def by auto

lemmas unclear_snoc = unclear_def bad_name_snoc two_names_snoc shared_name_snoc

lemma unclear_snoc_empty: "k \<noteq> [] \<Longrightarrow> unclear (rows @ [([], n)]) k \<longleftrightarrow> unclear rows k"
  by (simp add: unclear_def bad_name_snoc two_names_snoc shared_name_snoc_empty)

text \<open>The state of the loop after some rows: a table is sound when it holds usable rows only, and complete when it
  has an entry for each of them.\<close>

definition names_sound :: "(string \<times> string) list \<Rightarrow> name_state \<Rightarrow> bool" where
  "names_sound rows s \<longleftrightarrow>
     (\<forall>i n. ns_names s i = Some n \<or> ns_owners s n = Some i \<longrightarrow> i \<noteq> [] \<and> (i, n) \<in> set rows \<and> usable_name n)"

definition names_complete :: "(string \<times> string) list \<Rightarrow> name_state \<Rightarrow> bool" where
  "names_complete rows s \<longleftrightarrow>
     (\<forall>i n. i \<noteq> [] \<longrightarrow> (i, n) \<in> set rows \<longrightarrow> usable_name n \<longrightarrow> ns_names s i \<noteq> None \<and> ns_owners s n \<noteq> None)"

definition ambiguous_exact :: "(string \<times> string) list \<Rightarrow> name_state \<Rightarrow> bool" where
  "ambiguous_exact rows s \<longleftrightarrow> (\<forall>i. i \<in> ns_ambiguous s \<longleftrightarrow> i \<noteq> [] \<and> unclear rows i)"

definition names_inv :: "(string \<times> string) list \<Rightarrow> name_state \<Rightarrow> bool" where
  "names_inv rows s \<longleftrightarrow> names_sound rows s \<and> names_complete rows s \<and> ambiguous_exact rows s"

lemma names_soundD:
  "names_sound rows s \<Longrightarrow> ns_names s i = Some n \<Longrightarrow> i \<noteq> [] \<and> (i, n) \<in> set rows \<and> usable_name n"
  "names_sound rows s \<Longrightarrow> ns_owners s n = Some i \<Longrightarrow> i \<noteq> [] \<and> (i, n) \<in> set rows \<and> usable_name n"
  unfolding names_sound_def by blast+

lemma names_completeD:
  assumes "names_complete rows s" "i \<noteq> []" "(i, n) \<in> set rows" "usable_name n"
  shows "\<exists>m. ns_names s i = Some m" "\<exists>j. ns_owners s n = Some j"
  using assms unfolding names_complete_def by blast+

lemma name_clash_iff:
  "k \<in> name_clash i n s \<longleftrightarrow>
     (k = i \<and> (\<exists>p. ns_names s i = Some p \<and> p \<noteq> n)) \<or>
     (\<exists>ow. ns_owners s n = Some ow \<and> ow \<noteq> i \<and> (k = i \<or> k = ow))"
  by (auto simp: name_clash_def split: option.splits if_splits)

lemma clash_unclear:
  assumes "names_sound rows s" "i \<noteq> []" "usable_name n" "k \<in> name_clash i n s"
  shows "k \<noteq> [] \<and> unclear (rows @ [(i, n)]) k"
proof -
  from assms(4) consider p where "k = i" "ns_names s i = Some p" "p \<noteq> n"
    | ow where "ns_owners s n = Some ow" "ow \<noteq> i" "k = i \<or> k = ow"
    unfolding name_clash_iff by blast
  then show ?thesis
  proof cases
    case 1
    with names_soundD(1) [OF assms(1) 1(2)] assms(2) show ?thesis by (auto simp: unclear_snoc)
  next
    case 2
    with names_soundD(2) [OF assms(1) 2(1)] assms(2,3) show ?thesis by (auto simp: unclear_snoc)
  qed
qed

text \<open>Conversely, a row that makes an identifier ambiguous for the first time clashes with the state.\<close>

lemma new_name_clash:
  assumes inv: "names_sound rows s" "names_complete rows s" and i: "i \<noteq> []" and old: "\<not> unclear rows i"
    and m: "(i, m) \<in> set rows" "m \<noteq> n"
  shows "i \<in> name_clash i n s"
proof -
  have "usable_name m" using old m by (auto simp: unclear_def bad_name_def)
  from names_completeD(1) [OF inv(2) i m(1) this] obtain p where p: "ns_names s i = Some p" by blast
  with names_soundD(1) [OF inv(1) p] m old have "p = m" by (auto simp: unclear_def two_names_def)
  with p m show ?thesis by (simp add: name_clash_iff)
qed

lemma new_owner_clash:
  assumes inv: "names_sound rows s" "names_complete rows s" and n: "usable_name n"
    and j: "(j, n) \<in> set rows" "j \<noteq> i" "j \<noteq> []" and k: "k = i \<or> k = j" and old: "\<not> unclear rows k"
    and i: "i \<noteq> []"
  shows "k \<in> name_clash i n s"
proof -
  from names_completeD(2) [OF inv(2) j(3,1) n] obtain ow where ow: "ns_owners s n = Some ow" by blast
  from names_soundD(2) [OF inv(1) ow] have o: "ow \<noteq> []" "(ow, n) \<in> set rows" by blast+
  have "k = i \<Longrightarrow> ow \<noteq> i" using old o j n i by (auto simp: unclear_def shared_name_def)
  moreover have "k = j \<Longrightarrow> ow = j" using old o j n by (auto simp: unclear_def shared_name_def)
  ultimately show ?thesis using ow k j by (auto simp: name_clash_iff)
qed

lemma name_clash_exact:
  assumes inv: "names_inv rows s" and i: "i \<noteq> []" and n: "usable_name n"
  shows "k \<in> ns_ambiguous s \<union> name_clash i n s \<longleftrightarrow> k \<noteq> [] \<and> unclear (rows @ [(i, n)]) k"
proof -
  have s: "names_sound rows s" "names_complete rows s" and a: "k \<in> ns_ambiguous s \<longleftrightarrow> k \<noteq> [] \<and> unclear rows k"
    using inv by (simp_all add: names_inv_def ambiguous_exact_def)
  have old: "unclear rows k \<Longrightarrow> unclear (rows @ [(i, n)]) k" using i by (auto simp: unclear_snoc)
  have new: "k \<in> name_clash i n s" if k: "k \<noteq> []" "\<not> unclear rows k" "unclear (rows @ [(i, n)]) k"
  proof -
    from k(2,3) i n consider m where "k = i" "(i, m) \<in> set rows" "m \<noteq> n"
      | j where "k = i" "(j, n) \<in> set rows" "j \<noteq> i" "j \<noteq> []" | "k \<noteq> i" "(k, n) \<in> set rows"
      by (auto simp: unclear_snoc)
    then show ?thesis
    proof cases
      case 1
      with new_name_clash [OF s i] k(2) show ?thesis by simp
    next
      case 2
      with new_owner_clash [OF s n 2(2-4) _ k(2) i] show ?thesis by simp
    next
      case 3
      with new_owner_clash [OF s n 3(2,1) k(1) _ k(2) i] show ?thesis by simp
    qed
  qed
  from a old new clash_unclear [OF s(1) i n] show ?thesis by blast
qed

lemma add_name_row_inv:
  assumes inv: "names_inv rows s"
  shows "names_inv (rows @ [row]) (add_name_row row s)"
proof -
  obtain i n where row: "row = (i, n)" by (cases row)
  have d: "names_sound rows s" "names_complete rows s" "ambiguous_exact rows s"
    using inv by (simp_all add: names_inv_def)
  consider "i = []" | "i \<noteq> []" "\<not> usable_name n" | "i \<noteq> []" "usable_name n" by blast
  then show ?thesis
  proof cases
    case 1
    then have "add_name_row row s = s" by (simp add: add_name_row_def row)
    moreover have "names_sound (rows @ [row]) s" using d(1) by (auto simp: names_sound_def)
    moreover have "names_complete (rows @ [row]) s" using d(2) 1 by (simp add: names_complete_def row)
    moreover have "ambiguous_exact (rows @ [row]) s"
      using d(3) unclear_snoc_empty [of _ rows n] 1 unfolding ambiguous_exact_def row by blast
    ultimately show ?thesis by (simp add: names_inv_def)
  next
    case 2
    then have r: "add_name_row row s = s\<lparr>ns_ambiguous := insert i (ns_ambiguous s)\<rparr>" (is "_ = ?s")
      by (simp add: add_name_row_def row)
    have "names_sound (rows @ [row]) ?s" using d(1) by (auto simp: names_sound_def)
    moreover have "names_complete (rows @ [row]) ?s" using d(2) 2 by (auto simp: names_complete_def row)
    moreover have "unclear (rows @ [row]) k \<longleftrightarrow> unclear rows k \<or> k = i" for k
      using 2 by (auto simp: unclear_snoc row)
    then have "ambiguous_exact (rows @ [row]) ?s" using d(3) 2 by (auto simp: ambiguous_exact_def)
    ultimately show ?thesis by (simp add: names_inv_def r)
  next
    case 3
    then have r: "add_name_row row s = \<lparr>ns_names = (ns_names s)(i \<mapsto> n),
        ns_ambiguous = ns_ambiguous s \<union> name_clash i n s, ns_owners = (ns_owners s)(n \<mapsto> i)\<rparr>" (is "_ = ?s")
      by (simp add: add_name_row_def row)
    have "names_sound (rows @ [row]) ?s" using d(1) 3 by (auto simp: names_sound_def row)
    moreover have "names_complete (rows @ [row]) ?s" using d(2) 3 by (auto simp: names_complete_def row)
    moreover have "ambiguous_exact (rows @ [row]) ?s"
      using name_clash_exact [OF inv 3] by (simp add: ambiguous_exact_def row)
    ultimately show ?thesis by (simp add: names_inv_def r)
  qed
qed

lemma names_inv_fold: "names_inv rows s \<Longrightarrow> names_inv (rows @ rest) (fold add_name_row rest s)"
proof (induction rest arbitrary: rows s)
  case (Cons row rest)
  from Cons.IH [OF add_name_row_inv [OF Cons.prems]] show ?case by simp
qed simp

lemma names_inv_empty: "names_inv [] empty_names"
  by (simp add: names_inv_def names_sound_def names_complete_def ambiguous_exact_def empty_names_def unclear_def
      bad_name_def two_names_def shared_name_def)

lemma final_names_exact:
  assumes "names_inv rows s"
  shows "final_names s i = Some n \<longleftrightarrow> i \<noteq> [] \<and> (i, n) \<in> set rows \<and> \<not> unclear rows i"
proof -
  have d: "names_sound rows s" "names_complete rows s" "i \<in> ns_ambiguous s \<longleftrightarrow> i \<noteq> [] \<and> unclear rows i"
    using assms by (simp_all add: names_inv_def ambiguous_exact_def)
  show ?thesis
  proof
    assume f: "final_names s i = Some n"
    then have "ns_names s i = Some n" "i \<notin> ns_ambiguous s" by (simp_all add: final_names_def split: if_splits)
    with names_soundD(1) [OF d(1)] d(3) show "i \<noteq> [] \<and> (i, n) \<in> set rows \<and> \<not> unclear rows i" by blast
  next
    assume r: "i \<noteq> [] \<and> (i, n) \<in> set rows \<and> \<not> unclear rows i"
    then have "usable_name n" by (auto simp: unclear_def bad_name_def)
    with names_completeD(1) [OF d(2)] r obtain m where m: "ns_names s i = Some m" by blast
    with names_soundD(1) [OF d(1) m] r have "m = n" by (auto simp: unclear_def two_names_def)
    with m r d(3) show "final_names s i = Some n" by (simp add: final_names_def)
  qed
qed

subsection \<open>The listing\<close>

definition served_page :: "'w page_getter \<Rightarrow> resource \<Rightarrow> string \<Rightarrow> name_page \<Rightarrow> bool" where
  "served_page get r account p \<longleftrightarrow>
     (\<exists>v v' q j. get v (names_path r account) q = (v', Inr j) \<and> decode_name_page r j = Some p)"

definition page_rows :: "name_page list \<Rightarrow> (string \<times> string) list" where
  "page_rows ps = concat (map np_rows ps)"

lemma name_pages_listing:
  assumes "name_pages get r account m per listed seen s w = (w', Some names)"
    and "names_inv rows s" "seen = length rows" "m \<le> 100"
  shows "\<exists>ps s'. map np_page ps = map int [101 - m..<101 - m + length ps] \<and>
    (\<forall>p \<in> set ps. served_page get r account p \<and> np_total p = int (length (rows @ page_rows ps))) \<and>
    (0 \<le> listed \<longrightarrow> listed = int (length (rows @ page_rows ps))) \<and>
    names_inv (rows @ page_rows ps) s' \<and> names = final_names s'"
  using assms
proof (induction get r account m per listed seen s w arbitrary: rows rule: name_pages.induct)
  case (2 get r account n per listed seen s w)
  let ?q = "[(''page'', itoa (int (100 - n))), (''per_page'', itoa per)]"
  from "2.prems"(1) obtain w1 j p where get: "get w (names_path r account) ?q = (w1, Inr j)"
    and p: "decode_name_page r j = Some p"
    by (auto simp: Let_def split: prod.splits sum.splits option.splits)
  let ?s = "fold add_name_row (np_rows p) s" and ?seen = "seen + length (np_rows p)"
  have served: "served_page get r account p" using get p by (auto simp: served_page_def)
  from "2.prems"(1) get p have ok: "name_page_ok (int (100 - n)) p" "0 \<le> listed \<longrightarrow> listed = np_total p"
    "\<not> (?seen > 5000 \<or> int ?seen > np_total p)"
    by (auto simp: Let_def split: if_splits)
  have page: "np_page p = int (100 - n)" using ok(1) by (simp add: name_page_ok_def)
  have inv: "names_inv (rows @ np_rows p) ?s" by (rule names_inv_fold [OF "2.prems"(2)])
  show ?case
  proof (cases "int ?seen = np_total p")
    case True
    then have "names = final_names ?s" using "2.prems"(1) get p ok by (simp add: Let_def split: if_split_asm)
    moreover have "[101 - Suc n..<101 - Suc n + length [p]] = [100 - n]" by simp
    ultimately show ?thesis using True served page ok(2) inv "2.prems"(3)
      by (intro exI [of _ "[p]"] exI [of _ ?s]) (simp add: page_rows_def)
  next
    case False
    from "2.prems"(1) get p ok False
    have rest: "name_pages get r account n (np_per_page p) (np_total p) ?seen ?s w1 = (w', Some names)"
      by (auto simp: Let_def split: if_splits)
    have full: "\<not> (\<not> name_page_ok (int (100 - n)) p \<or> (0 \<le> listed \<and> listed \<noteq> np_total p) \<or> ?seen > 5000 \<or>
        int ?seen > np_total p)" "int (length (np_rows p)) = np_per_page p"
      using ok "2.prems"(1) get p False by (auto simp: Let_def split: if_splits)
    have IH: "\<exists>ps s'. map np_page ps = map int [101 - n..<101 - n + length ps] \<and>
        (\<forall>p' \<in> set ps. served_page get r account p' \<and>
           np_total p' = int (length ((rows @ np_rows p) @ page_rows ps))) \<and>
        (0 \<le> np_total p \<longrightarrow> np_total p = int (length ((rows @ np_rows p) @ page_rows ps))) \<and>
        names_inv ((rows @ np_rows p) @ page_rows ps) s' \<and> names = final_names s'"
      by (rule "2.IH" [OF refl get [symmetric] refl p refl refl])
        (use full False rest inv "2.prems"(3,4) in auto)
    then obtain ps s' where i: "map np_page ps = map int [101 - n..<101 - n + length ps]"
      "\<forall>p' \<in> set ps. served_page get r account p' \<and>
         np_total p' = int (length ((rows @ np_rows p) @ page_rows ps))"
      "0 \<le> np_total p \<longrightarrow> np_total p = int (length ((rows @ np_rows p) @ page_rows ps))"
      "names_inv ((rows @ np_rows p) @ page_rows ps) s'" "names = final_names s'" by blast
    have "0 \<le> np_total p" using ok(1) by (simp add: name_page_ok_def)
    moreover have "[101 - Suc n..<101 - Suc n + length (p # ps)] = (100 - n) # [101 - n..<101 - n + length ps]"
    proof -
      have "101 - Suc n = 100 - n" "101 - n = Suc (100 - n)" using "2.prems"(4) by simp_all
      then show ?thesis by (simp only: upt_conv_Cons list.size add_Suc_right) (simp add: upt_conv_Cons del: upt_Suc)
    qed
    ultimately show ?thesis using i served page ok(2)
      by (intro exI [of _ "p # ps"] exI [of _ s']) (simp add: page_rows_def)
  qed
qed simp

text \<open>C30. The names of an account are its complete listing, and only what is unambiguous in it: every page was served,
  in order, with one total that the rows reach exactly; an identifier has a name if and only if all its rows
  agree on this usable name and no other resource has it. So a name never stands for two resources.\<close>

theorem resource_names_exact:
  assumes "load_names k r account w = (w', Some names)"
  shows "\<exists>get ps. cl_page k = Some get \<and> map np_page ps = map int [1..<1 + length ps] \<and>
    (\<forall>p \<in> set ps. served_page get r account p \<and> np_total p = int (length (page_rows ps))) \<and>
    (\<forall>i n. names i = Some n \<longleftrightarrow> i \<noteq> [] \<and> (i, n) \<in> set (page_rows ps) \<and> \<not> unclear (page_rows ps) i) \<and>
    (\<forall>i j n. names i = Some n \<longrightarrow> names j = Some n \<longrightarrow> i = j)"
proof -
  from assms obtain get where get: "cl_page k = Some get"
    "name_pages get r account 100 50 (- 1) 0 empty_names w = (w', Some names)"
    by (auto simp: load_names_def split: option.splits)
  from name_pages_listing [OF get(2) names_inv_empty] obtain ps s' where
    ps: "map np_page ps = map int [1..<1 + length ps]"
      "\<forall>p \<in> set ps. served_page get r account p \<and> np_total p = int (length (page_rows ps))"
    and s: "names_inv (page_rows ps) s'" "names = final_names s'" by auto
  note exact = final_names_exact [OF s(1), folded s(2)]
  have "i = j" if "names i = Some n" "names j = Some n" for i j n
    using that unfolding exact by (auto simp: unclear_def shared_name_def bad_name_def)
  with get ps exact show ?thesis by blast
qed

text \<open>A listing of two databases of which one has no name.\<close>

definition sample_listing :: json where
  "sample_listing = JObj
     [(''result'', JArr [JObj [(''uuid'', JStr ''a1''), (''name'', JStr ''orders'')],
                         JObj [(''uuid'', JStr ''b2''), (''name'', JNull)]]),
      (''result_info'', JObj [(''page'', JNum ''1''), (''per_page'', JNum ''50''), (''count'', JNum ''2''),
                              (''total_count'', JNum ''2'')])]"

definition listing_client :: "unit client" where
  "listing_client = \<lparr>cl_settings = (\<lambda>w scope ident ds. (w, Inl json_error)),
     cl_query = (\<lambda>w r. (w, Inl json_error)), cl_ctx_err = (\<lambda>w. (w, None)),
     cl_page = Some (\<lambda>w path q. (w, Inr sample_listing)), cl_batch = None\<rparr>"

lemma sample_names: "load_names listing_client d1_resource ''acc'' () = ((), Some [''a1'' \<mapsto> ''orders''])"
proof -
  have page: "decode_name_page d1_resource sample_listing =
      Some \<lparr>np_rows = [(''a1'', ''orders''), (''b2'', [])], np_page = 1, np_per_page = 50, np_count = 2, np_total = 2\<rparr>"
    by code_simp
  have usable: "usable_name ''orders''" "\<not> usable_name []" by code_simp+
  have "name_pages (\<lambda>w path q. (w, Inr sample_listing)) d1_resource ''acc'' (Suc 99) 50 (- 1) 0 empty_names () =
      ((), Some [''a1'' \<mapsto> ''orders''])"
    by (subst name_pages.simps(2)) (simp add: page name_page_ok_def add_name_row_def usable empty_names_def
        final_names_def name_clash_def Let_def fun_eq_iff)
  then show ?thesis by (simp add: load_names_def listing_client_def)
qed

theorem resource_names_exact_witness:
  "\<exists>get ps. cl_page listing_client = Some get \<and> map np_page ps = map int [1..<1 + length ps] \<and>
     (''a1'', ''orders'') \<in> set (page_rows ps) \<and> \<not> unclear (page_rows ps) ''a1''"
proof -
  have "\<exists>get ps. cl_page listing_client = Some get \<and> map np_page ps = map int [1..<1 + length ps] \<and>
     (\<forall>i n. [''a1'' \<mapsto> ''orders''] i = Some n \<longleftrightarrow>
        i \<noteq> [] \<and> (i, n) \<in> set (page_rows ps) \<and> \<not> unclear (page_rows ps) i)"
    using resource_names_exact [OF sample_names] by blast
  moreover have "[''a1'' \<mapsto> ''orders''] ''a1'' = Some ''orders''" by simp
  ultimately show ?thesis by blast
qed

subsection \<open>The cache\<close>

lemma lookup_names_fresh:
  assumes "cached_names (account @ rs_path r) now c = Some names" "clock w = (w1, now)"
  shows "lookup_names clock k r account (w, c) = ((w1, c), names)"
  using assms by (simp add: lookup_names_def)

text \<open>A failed refresh replaces the old names: nothing stays alive beyond its hour.\<close>

lemma lookup_names_failed:
  assumes "cached_names (account @ rs_path r) now c = None" "clock w = (w1, now)"
    "load_names k r account w1 = (w2, None)" "clock w2 = (w3, later)"
  shows "lookup_names clock k r account (w, c) =
    ((w3, c(account @ rs_path r \<mapsto> \<lparr>ne_until = later + hour, ne_names = Map.empty\<rparr>)), Map.empty)"
  using assms by (simp add: lookup_names_def or_empty_def)

subsection \<open>Admission of names\<close>

definition admission_ok :: "admission \<Rightarrow> bool" where
  "admission_ok a \<longleftrightarrow> (\<forall>m. distinct (a m) \<and> length (a m) \<le> 49 \<and> [] \<notin> set (a m) \<and> ''other'' \<notin> set (a m))"

definition admit_series :: "string \<times> string \<Rightarrow> admission \<Rightarrow> (string \<times> string) \<times> admission" where
  "admit_series k a = (case admit_name (fst k) (snd k) a of (n, a') \<Rightarrow> ((fst k, n), a'))"

definition known_series :: "admission \<Rightarrow> (string \<times> string) set" where
  "known_series a = {(m, n). n \<in> set (a m)}"

lemma admission_okD:
  "admission_ok a \<Longrightarrow> distinct (a m) \<and> length (a m) \<le> 49 \<and> [] \<notin> set (a m) \<and> ''other'' \<notin> set (a m)"
  unfolding admission_ok_def by blast

lemma known_series_metric: "{k \<in> known_series a. fst k = m} = Pair m ` set (a m)"
  by (auto simp: known_series_def)

lemma admit_name_cases:
  obtains "admit_name m n a = (''other'', a)" "n \<notin> set (a m) \<or> n = [] \<or> n = ''other''"
  | "admit_name m n a = (n, a)" "n \<in> set (a m)"
  | "admit_name m n a = (n, a(m := n # a m))" "n \<notin> set (a m)" "n \<noteq> []" "n \<noteq> ''other''" "length (a m) < 49"
  unfolding admit_name_def by (metis leI)

lemma admission_ok_snd: "admission_ok a \<Longrightarrow> admission_ok (snd (admit_series k a))"
proof (cases k)
  case (Pair m n)
  assume a: "admission_ok a"
  show ?thesis
  proof (cases rule: admit_name_cases [of m n a])
    case 3
    then have "admission_ok (a(m := n # a m))" using a by (simp add: admission_ok_def)
    with 3 Pair show ?thesis by (simp add: admit_series_def)
  qed (use a Pair in \<open>simp_all add: admit_series_def\<close>)
qed

lemma admit_series_state:
  "known_series a \<subseteq> known_series (snd (admit_series k a)) \<and>
   fst (admit_series k a) \<in> known_series (snd (admit_series k a)) \<union> {k. snd k = ''other''}"
proof (cases k)
  case (Pair m n)
  show ?thesis
    by (cases rule: admit_name_cases [of m n a]) (auto simp: Pair admit_series_def known_series_def)
qed

lemma admit_series_sticky: "admission_ok a \<Longrightarrow> k \<in> known_series a \<Longrightarrow> admit_series k a = (k, a)"
  by (cases k) (auto simp: admit_series_def known_series_def admit_name_def dest: admission_okD)

interpretation names: series_admission admit_series known_series fst "{k. snd k = ''other''}" "\<lambda>k. True" admission_ok
proof (unfold_locales, goal_cases)
  case (1 s k)
  then show ?case by (rule admission_ok_snd)
next
  case (2 s k)
  then show ?case using admit_series_state by blast
next
  case (3 s k)
  then show ?case using admit_series_state by blast
next
  case (4 s k)
  then show ?case by (rule admit_series_sticky)
next
  case (5 s m)
  then show ?case by (simp add: known_series_metric)
next
  case (6 s m)
  have "card (Pair m ` set (s m)) \<le> length (s m)" by (meson card_image_le card_length finite_set le_trans)
  with admission_okD [OF 6, of m] show ?case by (simp add: known_series_metric)
next
  case (7 k k')
  then show ?case by (simp add: prod_eq_iff)
qed

text \<open>However many names a collector meets, it reports at most 50 series of a metric, and a name that was reported
  once is reported as itself ever after.\<close>

theorem name_series_bounded:
  assumes "admission_ok a"
  shows "card {k \<in> set (fst (admit_all admit_series ks a)). fst k = m} \<le> 50 \<and>
    (\<forall>i < length ks. ks ! i \<in> known_series a \<longrightarrow> fst (admit_all admit_series ks a) ! i = ks ! i)"
  using names.series_bound [OF assms, of ks m] names.series_kept [OF assms, of ks] by (simp add: list_all_iff)

theorem name_series_bounded_witness:
  "admission_ok (\<lambda>m. [''orders'']) \<and>
   fst (admit_all admit_series [(''reads'', ''orders''), (''reads'', [])] (\<lambda>m. [''orders''])) ! 0 = (''reads'', ''orders'')"
proof -
  have ok: "admission_ok (\<lambda>m. [''orders''])" by (simp add: admission_ok_def)
  have "[(''reads'', ''orders''), (''reads'', [])] ! 0 \<in> known_series (\<lambda>m. [''orders''])"
    by (simp add: known_series_def)
  with name_series_bounded [OF ok, of "[(''reads'', ''orders''), (''reads'', [])]"] ok show ?thesis by auto
qed

end
