(* ===== verification/GroupMetrics.thy ===== *)
theory GroupMetrics
  imports Splitter ResourceNames "HOL-Library.AList"
begin

text \<open>
  The account-level Groups collectors of D1 and KV, \<open>internal/collectors/d1/d1.go\<close>, \<open>kv/kv.go\<close> and their files
  \<open>named_metrics.go\<close>: the required fields of a dataset, the bisected query, the aggregation of the rows of
  complete five-minute buckets, per-name series with admission, the cap on series and the emission. The two
  packages share their text; what differs is a \<open>groups_family\<close> and the optional depth metrics of D1, a parameter
  here and a definition in \<open>GroupsDepth\<close>.
\<close>

abbreviation five_minutes :: duration where "five_minutes \<equiv> 300000000000"

record groups_metric =
  gm_name :: string
  gm_field :: string
  gm_gauge :: bool

record groups_spec =
  gs_collector :: string
  gs_dataset :: string
  gs_metrics :: "groups_metric list"

record groups_family =
  gf_label :: string
  gf_resource :: resource
  gf_attr :: string

definition d1_family :: groups_family where
  "d1_family = \<lparr>gf_label = ''D1'', gf_resource = d1_resource, gf_attr = ''cloudflare.d1.database_name''\<rparr>"

definition kv_family :: groups_family where
  "kv_family = \<lparr>gf_label = ''KV'', gf_resource = kv_resource, gf_attr = ''cloudflare.kv.namespace_name''\<rparr>"

definition counter_of :: "string \<Rightarrow> string \<Rightarrow> groups_metric" where
  "counter_of n f = \<lparr>gm_name = n, gm_field = f, gm_gauge = False\<rparr>"

definition gauge_of :: "string \<Rightarrow> string \<Rightarrow> groups_metric" where
  "gauge_of n f = \<lparr>gm_name = n, gm_field = f, gm_gauge = True\<rparr>"

definition d1_datasets :: "groups_spec list" where
  "d1_datasets =
    [\<lparr>gs_collector = ''d1.analytics'', gs_dataset = ''d1AnalyticsAdaptiveGroups'',
      gs_metrics = [counter_of ''cloudflare.d1.read_queries'' ''sum.readQueries'',
                    counter_of ''cloudflare.d1.write_queries'' ''sum.writeQueries'']\<rparr>,
     \<lparr>gs_collector = ''d1.queries'', gs_dataset = ''d1QueriesAdaptiveGroups'',
      gs_metrics = [counter_of ''cloudflare.d1.queries'' ''count'']\<rparr>,
     \<lparr>gs_collector = ''d1.storage'', gs_dataset = ''d1StorageAdaptiveGroups'',
      gs_metrics = [gauge_of ''cloudflare.d1.storage.max_database_bytes'' ''max.databaseSizeBytes'']\<rparr>]"

definition kv_datasets :: "groups_spec list" where
  "kv_datasets =
    [\<lparr>gs_collector = ''kv.operations'', gs_dataset = ''kvOperationsAdaptiveGroups'',
      gs_metrics = [counter_of ''cloudflare.kv.requests'' ''sum.requests'']\<rparr>,
     \<lparr>gs_collector = ''kv.storage'', gs_dataset = ''kvStorageAdaptiveGroups'',
      gs_metrics = [gauge_of ''cloudflare.kv.storage.max_namespace_bytes'' ''max.byteCount'',
                    gauge_of ''cloudflare.kv.storage.max_namespace_keys'' ''max.keyCount'']\<rparr>]"

definition groups_error :: "groups_family \<Rightarrow> groups_spec \<Rightarrow> string \<Rightarrow> gerr" where
  "groups_error fam spec what = ErrNew (gf_label fam @ '' Groups dataset '' @ gs_dataset spec @ what)"

subsection \<open>Fields\<close>

definition has_available_field :: "string list \<Rightarrow> string \<Rightarrow> bool" where
  "has_available_field available wanted =
     list_ex (\<lambda>f. equal_fold f wanted \<or>
       (case str_cut ''.'' wanted of (p, s, found) \<Rightarrow> found \<and> equal_fold f (p @ ''_'' @ s))) available"

definition dimension_field :: "groups_family \<Rightarrow> string" where
  "dimension_field fam = ''dimensions.'' @ rs_dimension (gf_resource fam)"

definition required_fields ::
  "groups_family \<Rightarrow> groups_spec \<Rightarrow> dataset_settings \<Rightarrow> gerr + string list" where
  "required_fields fam spec s =
     (let wanted = map gm_field (gs_metrics spec) @ [''dimensions.datetimeFiveMinutes''];
          n = int (length wanted)
      in case find (\<lambda>f. \<not> has_available_field (available_fields s) f) wanted of
           Some f \<Rightarrow> Inl (groups_error fam spec ('' is missing required field '' @ f))
         | None \<Rightarrow>
             if n > ds_max_fields s
             then Inl (groups_error fam spec ('' requires '' @ itoa n @ '' fields, limit '' @ itoa (ds_max_fields s)))
             else if n < ds_max_fields s \<and> has_available_field (available_fields s) (dimension_field fam)
             then Inr (wanted @ [dimension_field fam]) else Inr wanted)"

subsection \<open>Rows\<close>

definition floor_bucket :: "time \<Rightarrow> time" where
  "floor_bucket t = time_trunc t five_minutes"

definition ceil_bucket :: "time \<Rightarrow> time" where
  "ceil_bucket t = (if floor_bucket t = t then floor_bucket t else floor_bucket t + five_minutes)"

definition any_map :: "json \<Rightarrow> string \<Rightarrow> json option" where
  "any_map row k = (case any_member row k of Some (JObj kvs) \<Rightarrow> Some (JObj kvs) | _ \<Rightarrow> None)"

definition row_bucket :: "json \<Rightarrow> gerr + time" where
  "row_bucket row =
     (case any_map row ''dimensions'' of
        None \<Rightarrow> Inl (ErrNew ''missing dimensions'')
      | Some dims \<Rightarrow>
          (case any_member dims ''datetimeFiveMinutes'' of
             None \<Rightarrow> Inl (ErrNew ''missing datetimeFiveMinutes'')
           | Some (JStr s) \<Rightarrow>
               (case parse_rfc3339 s of None \<Rightarrow> Inl (ErrNew ''parsing time'') | Some t \<Rightarrow> Inr t)
           | Some _ \<Rightarrow> Inl (ErrNew ''invalid datetimeFiveMinutes type'')))"

definition any_nonnegative :: "json \<Rightarrow> f64 option" where
  "any_nonnegative j =
     (case (case j of JNum s \<Rightarrow> json_float s | JStr s \<Rightarrow> parse_float s | _ \<Rightarrow> None) of
        Some v \<Rightarrow> if 0 \<le> v then Some v else None
      | None \<Rightarrow> None)"

definition numeric_field :: "json \<Rightarrow> string \<Rightarrow> f64 option" where
  "numeric_field row field =
     Option.bind
       (case str_cut ''.'' field of
          (p, s, found) \<Rightarrow>
            if found then Option.bind (any_map row p) (\<lambda>g. any_member g s) else any_member row field)
       any_nonnegative"

subsection \<open>The bisected query\<close>

type_synonym 'w row_query = "'w \<Rightarrow> graphql_request \<Rightarrow> 'w \<times> (gerr + json list)"

definition plain_leaf :: "'w client \<Rightarrow> 'w row_query" where
  "plain_leaf k w r =
     (case cl_query k w r of
        (w', Inl e) \<Rightarrow> (w', Inl e)
      | (w', Inr j) \<Rightarrow> (w', case decode_any_rows j of None \<Rightarrow> Inl json_error | Some rows \<Rightarrow> Inr rows))"

definition is_saturation_error :: "gerr \<Rightarrow> string \<Rightarrow> bool" where
  "is_saturation_error e dataset =
     (case as_saturation e of Some (SaturationError ds f t l) \<Rightarrow> ds = dataset | _ \<Rightarrow> False)"

definition groups_query :: "'w row_query \<Rightarrow> graphql_request \<Rightarrow> ('w, json) window_query" where
  "groups_query leaf r w fr to =
     (case leaf w (r\<lparr>gr_from := fr, gr_to := to\<rparr>) of
        (w', Inl e) \<Rightarrow> (w', [], is_saturation_error e (gr_dataset r), Some e)
      | (w', Inr rows) \<Rightarrow>
          if int (length rows) \<ge> gr_limit r
          then (w', rows, True, Some (ErrNew (''result reached requested limit '' @ itoa (gr_limit r))))
          else (w', rows, False, None))"

definition saturated_window :: "gerr \<Rightarrow> (time \<times> time \<times> gerr \<times> gerr option) option" where
  "saturated_window e = (case e of SaturatedWindowError f t r c \<Rightarrow> Some (f, t, r, c) | _ \<Rightarrow> None)"

text \<open>\<open>fmt.Errorf\<close> with \<open>%w\<close>, also for a nil error.\<close>

definition wrap_error :: "string \<Rightarrow> gerr option \<Rightarrow> gerr" where
  "wrap_error s e = (case e of Some e \<Rightarrow> ErrWrap s e | None \<Rightarrow> ErrNew (s @ ''%!w(<nil>)''))"

definition query_error :: "groups_family \<Rightarrow> gerr \<Rightarrow> gerr" where
  "query_error fam e =
     (case errors_as saturated_window e of
        None \<Rightarrow> e
      | Some (f, t, reason, cause) \<Rightarrow>
          if errors_is reason ErrWindowIrreducible
          then wrap_error (gf_label fam @ '' Groups query still saturates an irreducible five-minute window: '') cause
          else wrap_error (''cannot split saturated '' @ gf_label fam @ '' Groups window '' @ rfc3339 f @ ''..''
                 @ rfc3339 t @ '': '') cause)"

definition query_rows ::
  "groups_family \<Rightarrow> 'w row_query \<Rightarrow> graphql_request \<Rightarrow> 'w \<Rightarrow> 'w \<times> (gerr + json list)" where
  "query_rows fam leaf r w =
     (case bisect (gr_from r) (gr_to r) five_minutes five_minutes (groups_query leaf r) w of
        (w', Inl e) \<Rightarrow> (w', Inl (query_error fam e))
      | (w', Inr rows) \<Rightarrow> (w', Inr rows))"

subsection \<open>Aggregation\<close>

record series_value =
  mv_name :: string
  mv_value :: f64
  mv_gauge :: bool
  mv_attrs :: "attr list"

text \<open>\<open>counters\<close> with \<open>counterSeen\<close> and \<open>gauges\<close> with \<open>gaugeSeen\<close> are one map each.\<close>

record groups_sums =
  ag_counters :: "string \<rightharpoonup> f64"
  ag_gauges :: "string \<rightharpoonup> f64"
  ag_latest :: time

definition no_sums :: groups_sums where
  "no_sums = \<lparr>ag_counters = Map.empty, ag_gauges = Map.empty, ag_latest = 0\<rparr>"

definition or_zero :: "f64 option \<Rightarrow> f64" where
  "or_zero v = (case v of Some x \<Rightarrow> x | None \<Rightarrow> 0)"

definition add_counter :: "string \<Rightarrow> f64 \<Rightarrow> groups_sums \<Rightarrow> groups_sums" where
  "add_counter n v a = a\<lparr>ag_counters := (ag_counters a)(n \<mapsto> or_zero (ag_counters a n) + v)\<rparr>"

definition enter_bucket :: "time \<Rightarrow> groups_sums \<Rightarrow> groups_sums" where
  "enter_bucket b a = (if b > ag_latest a then a\<lparr>ag_latest := b, ag_gauges := Map.empty\<rparr> else a)"

definition raise_gauge :: "time \<Rightarrow> string \<Rightarrow> f64 \<Rightarrow> groups_sums \<Rightarrow> groups_sums" where
  "raise_gauge b n v a =
     (if b = ag_latest a \<and> (case ag_gauges a n of None \<Rightarrow> True | Some old \<Rightarrow> v > old)
      then a\<lparr>ag_gauges := (ag_gauges a)(n \<mapsto> v)\<rparr> else a)"

definition add_metric :: "time \<Rightarrow> groups_metric \<times> f64 \<Rightarrow> groups_sums \<Rightarrow> groups_sums" where
  "add_metric b mv a =
     (case mv of (m, v) \<Rightarrow>
        if gm_gauge m then raise_gauge b (gm_name m) v (enter_bucket b a) else add_counter (gm_name m) v a)"

definition spec_values :: "groups_family \<Rightarrow> groups_spec \<Rightarrow> json \<Rightarrow> gerr + (groups_metric \<times> f64) list" where
  "spec_values fam spec row =
     sum_map (\<lambda>m. case numeric_field row (gm_field m) of
         None \<Rightarrow> Inl (groups_error fam spec ('' returned a row without valid '' @ gm_field m))
       | Some v \<Rightarrow> Inr (m, v)) (gs_metrics spec)"

definition in_buckets :: "time \<Rightarrow> time \<Rightarrow> time \<Rightarrow> bool" where
  "in_buckets fr to b \<longleftrightarrow> \<not> (b < fr \<or> \<not> b < to \<or> b + five_minutes > to)"

definition add_row ::
  "groups_family \<Rightarrow> groups_spec \<Rightarrow> time \<Rightarrow> time \<Rightarrow> json \<Rightarrow> groups_sums \<Rightarrow> gerr + groups_sums" where
  "add_row fam spec fr to row a =
     (case row_bucket row of
        Inl _ \<Rightarrow> Inl (groups_error fam spec '' returned an invalid five-minute bucket'')
      | Inr b \<Rightarrow>
          if \<not> in_buckets fr to b then Inr a
          else (case spec_values fam spec row of
                  Inl e \<Rightarrow> Inl e | Inr vs \<Rightarrow> Inr (fold (add_metric b) vs a)))"

definition metric_result :: "groups_sums \<Rightarrow> groups_metric \<Rightarrow> series_value list" where
  "metric_result a m =
     (case (if gm_gauge m then ag_gauges a (gm_name m) else ag_counters a (gm_name m)) of
        None \<Rightarrow> []
      | Some v \<Rightarrow> [\<lparr>mv_name = gm_name m, mv_value = v, mv_gauge = gm_gauge m, mv_attrs = []\<rparr>])"

definition aggregate ::
  "groups_family \<Rightarrow> groups_spec \<Rightarrow> time \<Rightarrow> time \<Rightarrow> json list \<Rightarrow> gerr + series_value list" where
  "aggregate fam spec fr to rows =
     (case fold_err (add_row fam spec fr to) rows no_sums of
        Inl e \<Rightarrow> Inl e
      | Inr a \<Rightarrow> Inr (concat (map (metric_result a) (gs_metrics spec))))"

subsection \<open>Series by name\<close>

text \<open>\<open>namedRows\<close>: a gauge is read from the rows of the latest complete bucket only.\<close>

definition latest_bucket :: "time \<Rightarrow> time \<Rightarrow> json list \<Rightarrow> time" where
  "latest_bucket fr to rows =
     fold (\<lambda>row l. case row_bucket row of Inl _ \<Rightarrow> l | Inr b \<Rightarrow> if in_buckets fr to b \<and> b > l then b else l) rows 0"

definition kept_rows :: "time \<Rightarrow> time \<Rightarrow> bool \<Rightarrow> json list \<Rightarrow> json list" where
  "kept_rows fr to gauge rows =
     (if gauge then filter (\<lambda>row. case row_bucket row of Inl _ \<Rightarrow> True | Inr b \<Rightarrow> b = latest_bucket fr to rows) rows
      else rows)"

definition row_name :: "string \<Rightarrow> (string \<rightharpoonup> string) \<Rightarrow> json \<Rightarrow> string" where
  "row_name dimension names row =
     (let i = (case Option.bind (Option.bind (any_map row ''dimensions'') (\<lambda>d. any_member d dimension)) any_string of
                 Some s \<Rightarrow> s | None \<Rightarrow> []);
          n = (case names i of Some n \<Rightarrow> n | None \<Rightarrow> [])
      in if n = [] then ''other'' else n)"

definition named_rows ::
  "string \<Rightarrow> (string \<rightharpoonup> string) \<Rightarrow> time \<Rightarrow> time \<Rightarrow> bool \<Rightarrow> json list \<Rightarrow> (string \<times> json list) list" where
  "named_rows dimension names fr to gauge rows =
     (let kept = kept_rows fr to gauge rows; f = row_name dimension names
      in map (\<lambda>n. (n, filter (\<lambda>row. f row = n) kept)) (sort (remdups (map f kept))))"

definition named_points ::
  "groups_family \<Rightarrow> groups_spec \<Rightarrow> time \<Rightarrow> time \<Rightarrow> string \<times> json list \<Rightarrow> gerr + series_value list" where
  "named_points fam spec fr to g =
     (case aggregate fam spec fr to (snd g) of
        Inl e \<Rightarrow> Inl e
      | Inr vs \<Rightarrow> Inr (map (\<lambda>v. v\<lparr>mv_attrs := [\<lparr>key = gf_attr fam, val = fst g\<rparr>]\<rparr>) vs))"

text \<open>The result of \<open>aggregateNamed\<close> with its index \<open>merged\<close>: an association list in order of appearance.\<close>

type_synonym named_series = "((string \<times> string) \<times> series_value) list"

definition first_val :: "attr list \<Rightarrow> string" where
  "first_val as = (case as of a # _ \<Rightarrow> val a | [] \<Rightarrow> [])"

definition relabel :: "string \<Rightarrow> attr list \<Rightarrow> attr list" where
  "relabel n as = (case as of a # rest \<Rightarrow> a\<lparr>val := n\<rparr> # rest | [] \<Rightarrow> [])"

definition join_point :: "series_value \<Rightarrow> series_value \<Rightarrow> series_value" where
  "join_point old p =
     old\<lparr>mv_value := (if mv_gauge p then max (mv_value old) (mv_value p) else mv_value old + mv_value p)\<rparr>"

definition merge_point :: "series_value \<Rightarrow> named_series \<times> admission \<Rightarrow> named_series \<times> admission" where
  "merge_point p st =
     (case st of (res, a) \<Rightarrow>
      (case admit_name (mv_name p) (first_val (mv_attrs p)) a of (n, a') \<Rightarrow>
        (AList.update (mv_name p, n)
           (case map_of res (mv_name p, n) of
              Some old \<Rightarrow> join_point old p
            | None \<Rightarrow> p\<lparr>mv_attrs := relabel n (mv_attrs p)\<rparr>) res, a')))"

definition merge_points :: "series_value list \<Rightarrow> admission \<Rightarrow> series_value list \<times> admission" where
  "merge_points ps a = (case fold merge_point ps ([], a) of (res, a') \<Rightarrow> (map snd res, a'))"

definition first_gauge :: "groups_spec \<Rightarrow> bool" where
  "first_gauge spec = (case gs_metrics spec of m # _ \<Rightarrow> gm_gauge m | [] \<Rightarrow> False)"

text \<open>The state of a collector: the world of its client, the shared cache of names and its admission.\<close>

type_synonym 'w groups_state = "'w \<times> name_cache \<times> admission"

definition names_for ::
  "('w \<Rightarrow> 'w \<times> time) \<Rightarrow> 'w client \<Rightarrow> groups_family \<Rightarrow> string \<Rightarrow> string list \<Rightarrow> json list \<Rightarrow> 'w \<times> name_cache \<Rightarrow>
   ('w \<times> name_cache) \<times> (string \<rightharpoonup> string)"
where
  "names_for clock k fam account wanted rows st =
     (if dimension_field fam \<in> set wanted \<and> rows \<noteq> [] then lookup_names clock k (gf_resource fam) account st
      else (st, Map.empty))"

definition aggregate_named ::
  "('w \<Rightarrow> 'w \<times> time) \<Rightarrow> 'w client \<Rightarrow> groups_family \<Rightarrow> groups_spec \<Rightarrow> string \<Rightarrow> time \<Rightarrow> time \<Rightarrow> string list \<Rightarrow>
   json list \<Rightarrow> 'w groups_state \<Rightarrow> 'w groups_state \<times> (gerr + series_value list)"
where
  "aggregate_named clock k fam spec account fr to wanted rows st =
     (case st of (w, c, a) \<Rightarrow>
      (case aggregate fam spec fr to rows of
         Inl e \<Rightarrow> ((w, c, a), Inl e)
       | Inr _ \<Rightarrow>
           (case names_for clock k fam account wanted rows (w, c) of
              ((w1, c1), names) \<Rightarrow>
                (case sum_map (named_points fam spec fr to)
                    (named_rows (rs_dimension (gf_resource fam)) names fr to (first_gauge spec) rows) of
                   Inl e \<Rightarrow> ((w1, c1, a), Inl e)
                 | Inr pss \<Rightarrow> (case merge_points (concat pss) a of (vs, a') \<Rightarrow> ((w1, c1, a'), Inr vs))))))"

subsection \<open>The cap on series\<close>

definition attr_json :: "attr \<Rightarrow> string" where
  "attr_json a = ''{'' @ json_quote ''Key'' @ '':'' @ json_quote (key a) @ '','' @ json_quote ''Value'' @ '':''
     @ json_quote (val a) @ ''}''"

text \<open>\<open>metricValueKey\<close>: the JSON text of the name and the attributes; a nil slice is null.\<close>

definition value_key :: "series_value \<Rightarrow> string" where
  "value_key v = ''['' @ json_quote (mv_name v) @ '',''
     @ (if mv_attrs v = [] then ''null'' else ''['' @ str_join '','' (map attr_json (mv_attrs v)) @ '']'') @ '']''"

definition apply_series_cap :: "int \<Rightarrow> series_value list \<Rightarrow> gerr + series_value list" where
  "apply_series_cap limit vs =
     (if limit \<le> 0 then Inl (ErrNew ''platform metric series cap must be positive'')
      else Inr (take (nat limit) (sort_key value_key vs)))"

subsection \<open>A window\<close>

definition value_emission :: "series_value \<Rightarrow> emission" where
  "value_emission v =
     (if mv_gauge v then EGauge (mv_name v) (mv_value v) (mv_attrs v)
      else ECounter (mv_name v) (mv_value v) (mv_attrs v))"

record groups_config =
  gc_account :: string
  gc_series :: int

text \<open>\<open>collectDepth\<close> of a family: it sees the request and the settings of the window.\<close>

type_synonym 'w depth_reader =
  "groups_spec \<Rightarrow> graphql_request \<Rightarrow> dataset_settings \<Rightarrow> 'w \<Rightarrow> 'w \<times> (gerr + series_value list)"

definition no_depth :: "'w depth_reader" where
  "no_depth spec r s w = (w, Inr [])"

definition settings_error ::
  "groups_family \<Rightarrow> groups_spec \<Rightarrow> dataset_settings \<Rightarrow> gerr option" where
  "settings_error fam spec s =
     (if \<not> ds_enabled s then Some (groups_error fam spec '' is disabled'')
      else if ds_max_fields s \<le> 0 then Some (groups_error fam spec '' has an invalid field limit'')
      else if ds_page_size s \<le> 0 then Some (groups_error fam spec '' has an invalid page-size limit'')
      else None)"

definition groups_request ::
  "groups_spec \<Rightarrow> groups_config \<Rightarrow> dataset_settings \<Rightarrow> string list \<Rightarrow> time \<Rightarrow> time \<Rightarrow> graphql_request" where
  "groups_request spec cfg s wanted fr to =
     \<lparr>gr_scope = account_scope, gr_scope_id = gc_account cfg, gr_dataset = gs_dataset spec, gr_wanted = wanted,
      gr_join = [], gr_filter = [], gr_from = fr, gr_to = to, gr_limit = min 10000 (ds_page_size s)\<rparr>"

text \<open>The series of a request: query, names, optional depth, and the cap, which prefers the former.\<close>

definition groups_series ::
  "'w depth_reader \<Rightarrow> ('w \<Rightarrow> 'w \<times> time) \<Rightarrow> 'w client \<Rightarrow> groups_family \<Rightarrow> groups_spec \<Rightarrow> groups_config \<Rightarrow>
   dataset_settings \<Rightarrow> graphql_request \<Rightarrow> 'w groups_state \<Rightarrow> 'w groups_state \<times> (gerr + series_value list)"
where
  "groups_series depth clock k fam spec cfg s r st =
     (case st of (w, c, a) \<Rightarrow>
      (case query_rows fam (plain_leaf k) r w of
         (w1, Inl e) \<Rightarrow>
           ((w1, c, a), Inl (ErrWrap (''query '' @ gf_label fam @ '' Groups dataset '' @ gs_dataset spec @ '': '') e))
       | (w1, Inr rows) \<Rightarrow>
           (case aggregate_named clock k fam spec (gc_account cfg) (gr_from r) (gr_to r) (gr_wanted r) rows (w1, c, a) of
              (st2, Inl e) \<Rightarrow> (st2, Inl e)
            | ((w2, c2, a2), Inr vs) \<Rightarrow>
                (case depth spec r s w2 of
                   (w3, Inl e) \<Rightarrow> ((w3, c2, a2), Inl e)
                 | (w3, Inr ds) \<Rightarrow>
                     ((w3, c2, a2),
                      (case apply_series_cap (gc_series cfg) vs of
                         Inl e \<Rightarrow> Inl e
                       | Inr capped \<Rightarrow>
                           Inr (capped @ take (nat (gc_series cfg - int (length capped))) (sort_key value_key ds))))))))"

definition window_series ::
  "'w depth_reader \<Rightarrow> ('w \<Rightarrow> 'w \<times> time) \<Rightarrow> 'w client \<Rightarrow> groups_family \<Rightarrow> groups_spec \<Rightarrow> groups_config \<Rightarrow>
   dataset_settings \<Rightarrow> string list \<Rightarrow> time \<Rightarrow> time \<Rightarrow> 'w groups_state \<Rightarrow>
   'w groups_state \<times> (gerr + time \<times> series_value list)"
where
  "window_series depth clock k fam spec cfg s wanted fr to st =
     (let cf = ceil_bucket fr; ct = (if floor_bucket to < fr then fr else floor_bucket to)
      in if \<not> cf < ct then (st, Inl (ErrNew ''window contains no complete five-minute bucket''))
         else (case groups_series depth clock k fam spec cfg s (groups_request spec cfg s wanted cf ct) st of
                 (st', Inl e) \<Rightarrow> (st', Inl e) | (st', Inr vs) \<Rightarrow> (st', Inr (ct, vs))))"

definition groups_read ::
  "'w depth_reader \<Rightarrow> ('w \<Rightarrow> 'w \<times> time) \<Rightarrow> 'w client \<Rightarrow> groups_family \<Rightarrow> groups_spec \<Rightarrow> groups_config \<Rightarrow>
   time \<Rightarrow> time \<Rightarrow> 'w groups_state \<Rightarrow> 'w groups_state \<times> (gerr + time \<times> series_value list)"
where
  "groups_read depth clock k fam spec cfg fr to st =
     (case st of (w, c, a) \<Rightarrow>
      if \<not> fr < to then (st, Inl (ErrNew (''invalid '' @ gf_label fam @ '' Groups window'')))
      else if gc_account cfg = [] then
        (st, Inl (ErrNew (gf_label fam @ '' Groups collector requires a configured Cloudflare account and API'')))
      else
        (case cl_settings k w account_scope (gc_account cfg) (gs_dataset spec) of
           (w1, Inl e) \<Rightarrow>
             ((w1, c, a), Inl (ErrWrap (''read '' @ gf_label fam @ '' Groups settings for '' @ gs_dataset spec @ '': '') e))
         | (w1, Inr s) \<Rightarrow>
             (case settings_error fam spec s of
                Some e \<Rightarrow> ((w1, c, a), Inl e)
              | None \<Rightarrow>
                  (case required_fields fam spec s of
                     Inl e \<Rightarrow> ((w1, c, a), Inl e)
                   | Inr wanted \<Rightarrow> window_series depth clock k fam spec cfg s wanted fr to (w1, c, a)))))"

text \<open>\<open>CollectWindow\<close>.\<close>

definition groups_collect ::
  "'w depth_reader \<Rightarrow> ('w \<Rightarrow> 'w \<times> time) \<Rightarrow> 'w client \<Rightarrow> groups_family \<Rightarrow> groups_spec \<Rightarrow> groups_config \<Rightarrow> 's emit \<Rightarrow>
   time \<Rightarrow> time \<Rightarrow> 's \<Rightarrow> 'w groups_state \<Rightarrow> 'w groups_state \<times> 's \<times> time \<times> gerr option"
where
  "groups_collect depth clock k fam spec cfg emit fr to out st =
     (case groups_read depth clock k fam spec cfg fr to st of
        (st', Inl e) \<Rightarrow> (st', out, fr, Some e)
      | (st', Inr (ct, vs)) \<Rightarrow>
          (case emit_all emit out (map value_emission vs) of
             (out', Some e) \<Rightarrow> (st', out', fr, Some e)
           | (out', None) \<Rightarrow> (st', out', ct, None)))"

definition kv_collect ::
  "('w \<Rightarrow> 'w \<times> time) \<Rightarrow> 'w client \<Rightarrow> groups_spec \<Rightarrow> groups_config \<Rightarrow> 's emit \<Rightarrow>
   time \<Rightarrow> time \<Rightarrow> 's \<Rightarrow> 'w groups_state \<Rightarrow> 'w groups_state \<times> 's \<times> time \<times> gerr option"
where
  "kv_collect clock k spec cfg emit = groups_collect no_depth clock k kv_family spec cfg emit"

end
