(* ===== verification/GroupsProps.thy ===== *)
theory GroupsProps
  imports GroupMetrics "HOL-Library.Multiset"
begin

text \<open>
  The Groups collectors lose nothing: the counters of a window add up to the values in its rows, whatever the names
  and the admission fold together.
\<close>

subsection \<open>Sums\<close>

definition value_sum :: "string \<Rightarrow> series_value list \<Rightarrow> f64" where
  "value_sum n vs = sum_list (map (\<lambda>v. if mv_name v = n then mv_value v else 0) vs)"

definition row_amount :: "time \<Rightarrow> time \<Rightarrow> string \<Rightarrow> json \<Rightarrow> f64" where
  "row_amount fr to field row =
     (case row_bucket row of
        Inl _ \<Rightarrow> 0 | Inr b \<Rightarrow> if in_buckets fr to b then or_zero (numeric_field row field) else 0)"

definition rows_amount :: "time \<Rightarrow> time \<Rightarrow> string \<Rightarrow> json list \<Rightarrow> f64" where
  "rows_amount fr to field rows = sum_list (map (row_amount fr to field) rows)"

lemma value_sum_simps [simp]:
  "value_sum n [] = 0" "value_sum n (v # vs) = (if mv_name v = n then mv_value v else 0) + value_sum n vs"
  "value_sum n (vs @ us) = value_sum n vs + value_sum n us"
  by (simp_all add: value_sum_def)

lemma value_sum_concat: "value_sum n (concat vss) = sum_list (map (value_sum n) vss)"
  by (induction vss) simp_all

lemma value_sum_other: "n \<notin> mv_name ` set vs \<Longrightarrow> value_sum n vs = 0"
  by (induction vs) auto

lemma sum_list_sort: "sum_list (map g (sort_key f xs)) = (sum_list (map g xs) :: f64)"
proof -
  have "mset (map g (sort_key f xs)) = mset (map g xs)" by simp
  then show ?thesis by (metis sum_mset_sum_list)
qed

lemma value_sum_sort: "value_sum n (sort_key f vs) = value_sum n vs"
  by (simp add: value_sum_def sum_list_sort)

lemma sum_list_single: "distinct ns \<Longrightarrow> (\<Sum>n\<leftarrow>ns. if c = n then v else 0) = (if c \<in> set ns then v else (0::f64))"
  by (induction ns) auto

text \<open>A list cut into classes loses nothing.\<close>

lemma sum_list_classes:
  assumes "distinct ns" "f ` set xs \<subseteq> set ns"
  shows "(\<Sum>n\<leftarrow>ns. sum_list (map g (filter (\<lambda>x. f x = n) xs))) = (sum_list (map g xs) :: f64)"
  using assms(2)
proof (induction xs)
  case (Cons x xs)
  have "(\<Sum>n\<leftarrow>ns. sum_list (map g (filter (\<lambda>x. f x = n) (x # xs)))) =
      (\<Sum>n\<leftarrow>ns. (if f x = n then g x else 0) + sum_list (map g (filter (\<lambda>x. f x = n) xs)))"
    by (rule arg_cong [of _ _ sum_list]) simp
  also have "\<dots> = (if f x \<in> set ns then g x else 0) + sum_list (map g xs)"
    using Cons sum_list_single [OF assms(1), of "f x" "g x"] by (simp add: sum_list_addf)
  finally show ?case using Cons.prems by simp
qed simp

lemma sum_list_update:
  fixes g :: "'k \<Rightarrow> 'v \<Rightarrow> f64"
  assumes "distinct (map fst ps)"
  shows "(\<Sum>(k, v)\<leftarrow>AList.update k0 v0 ps. g k v) =
    (\<Sum>(k, v)\<leftarrow>ps. g k v) + g k0 v0 - (case map_of ps k0 of Some old \<Rightarrow> g k0 old | None \<Rightarrow> 0)"
  using assms by (induction ps) (auto split: option.splits)

subsection \<open>Aggregation\<close>

lemma spec_values_Inr:
  assumes "spec_values fam spec row = Inr vs"
  shows "vs = map (\<lambda>m. (m, or_zero (numeric_field row (gm_field m)))) (gs_metrics spec)"
proof -
  have "vs = map (\<lambda>m. (m, or_zero (f m))) ms"
    if "sum_map (\<lambda>m. case f m of None \<Rightarrow> Inl (e m) | Some v \<Rightarrow> Inr (m, v)) ms = Inr vs"
    for ms :: "groups_metric list" and f e
    using that by (induction ms arbitrary: vs) (auto simp: or_zero_def split: sum.splits option.splits)
  from this [OF assms [unfolded spec_values_def]] show ?thesis .
qed

lemma enter_bucket_counters [simp]: "ag_counters (enter_bucket b a) = ag_counters a"
  by (simp add: enter_bucket_def)

lemma raise_gauge_counters [simp]: "ag_counters (raise_gauge b n v a) = ag_counters a"
  by (simp add: raise_gauge_def)

lemma add_metric_counter:
  "or_zero (ag_counters (add_metric b (m, v) a) n) =
     or_zero (ag_counters a n) + (if \<not> gm_gauge m \<and> gm_name m = n then v else 0)"
  by (auto simp: add_metric_def add_counter_def or_zero_def)

lemma fold_metrics_counter:
  "or_zero (ag_counters (fold (add_metric b) (map (\<lambda>m. (m, f m)) ms) a) n) =
     or_zero (ag_counters a n) + (\<Sum>m\<leftarrow>ms. if \<not> gm_gauge m \<and> gm_name m = n then f m else 0)"
  by (induction ms arbitrary: a) (simp_all add: add_metric_counter)

lemma metrics_single:
  assumes "distinct (map gm_name ms)" "m \<in> set ms" "\<not> gm_gauge m"
  shows "(\<Sum>x\<leftarrow>ms. if \<not> gm_gauge x \<and> gm_name x = gm_name m then f x else 0) = (f m :: f64)"
proof -
  have "inj_on gm_name (set ms)" "distinct ms" using assms(1) by (simp_all add: distinct_map)
  then have "\<not> gm_gauge x \<and> gm_name x = gm_name m \<longleftrightarrow> m = x" if "x \<in> set ms" for x
    using assms(2,3) that by (auto dest: inj_onD)
  then have "(\<Sum>x\<leftarrow>ms. if \<not> gm_gauge x \<and> gm_name x = gm_name m then f x else 0) =
      (\<Sum>x\<leftarrow>ms. if m = x then f m else 0)"
    by (intro arg_cong [of _ _ sum_list] map_cong) auto
  with sum_list_single [OF \<open>distinct ms\<close>, of m "f m"] assms(2) show ?thesis by simp
qed

lemma add_row_counter:
  assumes "add_row fam spec fr to row a = Inr a'" "distinct (map gm_name (gs_metrics spec))"
    "m \<in> set (gs_metrics spec)" "\<not> gm_gauge m"
  shows "or_zero (ag_counters a' (gm_name m)) = or_zero (ag_counters a (gm_name m)) + row_amount fr to (gm_field m) row"
proof -
  from assms(1) obtain b where b: "row_bucket row = Inr b" by (auto simp: add_row_def split: sum.splits)
  show ?thesis
  proof (cases "in_buckets fr to b")
    case True
    with assms(1) b obtain vs where vs: "spec_values fam spec row = Inr vs" "a' = fold (add_metric b) vs a"
      by (auto simp: add_row_def split: sum.splits)
    show ?thesis unfolding vs(2) spec_values_Inr [OF vs(1)] fold_metrics_counter metrics_single [OF assms(2-4)]
      using b True by (simp add: row_amount_def)
  qed (use assms(1) b in \<open>simp add: add_row_def row_amount_def\<close>)
qed

lemma fold_rows_counter:
  assumes "distinct (map gm_name (gs_metrics spec))" "m \<in> set (gs_metrics spec)" "\<not> gm_gauge m"
  shows "fold_err (add_row fam spec fr to) rows a = Inr a' \<Longrightarrow>
    or_zero (ag_counters a' (gm_name m)) =
      or_zero (ag_counters a (gm_name m)) + rows_amount fr to (gm_field m) rows"
proof (induction rows arbitrary: a)
  case (Cons row rows)
  then obtain a1 where 1: "add_row fam spec fr to row a = Inr a1" "fold_err (add_row fam spec fr to) rows a1 = Inr a'"
    by (auto split: sum.splits)
  from Cons.IH [OF 1(2)] add_row_counter [OF 1(1) assms] show ?case by (simp add: rows_amount_def)
qed (simp add: rows_amount_def)

lemma metric_result_shape:
  "v \<in> set (metric_result a m) \<Longrightarrow> mv_name v = gm_name m \<and> mv_gauge v = gm_gauge m \<and> mv_attrs v = []"
  by (auto simp: metric_result_def split: option.splits)

lemma metric_result_sum:
  "\<not> gm_gauge m \<Longrightarrow> value_sum n (metric_result a m) = (if gm_name m = n then or_zero (ag_counters a n) else 0)"
  by (auto simp: metric_result_def or_zero_def split: option.splits)

lemma results_sum:
  assumes "distinct (map gm_name ms)" "m \<in> set ms" "\<not> gm_gauge m"
  shows "value_sum (gm_name m) (concat (map (metric_result a) ms)) = or_zero (ag_counters a (gm_name m))"
  using assms
proof (induction ms)
  case (Cons x ms)
  have other: "value_sum (gm_name m) (metric_result a x') = 0" if "gm_name x' \<noteq> gm_name m" for x'
    using that metric_result_shape [of _ a x'] by (intro value_sum_other) auto
  show ?case
  proof (cases "x = m")
    case True
    with Cons.prems have "value_sum (gm_name m) (concat (map (metric_result a) ms)) = 0"
      by (intro value_sum_other) (auto dest!: metric_result_shape)
    with True Cons.prems show ?thesis by (simp add: metric_result_sum)
  next
    case False
    with Cons.prems have "m \<in> set ms" "gm_name x \<noteq> gm_name m" by auto
    with Cons show ?thesis by (simp add: other)
  qed
qed simp

definition spec_point :: "groups_spec \<Rightarrow> series_value \<Rightarrow> bool" where
  "spec_point spec v \<longleftrightarrow> (\<exists>m \<in> set (gs_metrics spec). mv_name v = gm_name m \<and> mv_gauge v = gm_gauge m)"

definition points_of :: "groups_spec \<Rightarrow> series_value list \<Rightarrow> bool" where
  "points_of spec vs \<longleftrightarrow> (\<forall>v \<in> set vs. spec_point spec v)"

lemma spec_point_cong: "mv_name u = mv_name v \<Longrightarrow> mv_gauge u = mv_gauge v \<Longrightarrow> spec_point spec u = spec_point spec v"
  by (simp add: spec_point_def)

lemma spec_point_counter:
  assumes "spec_point spec v" "mv_name v = gm_name m" "distinct (map gm_name (gs_metrics spec))"
    "m \<in> set (gs_metrics spec)"
  shows "mv_gauge v = gm_gauge m"
  using assms by (auto simp: spec_point_def distinct_map dest: inj_onD)

lemma aggregate_counter:
  assumes "aggregate fam spec fr to rows = Inr vs" and s: "distinct (map gm_name (gs_metrics spec))"
    "m \<in> set (gs_metrics spec)" "\<not> gm_gauge m"
  shows "value_sum (gm_name m) vs = rows_amount fr to (gm_field m) rows"
proof -
  from assms(1) obtain a where a: "fold_err (add_row fam spec fr to) rows no_sums = Inr a"
    and vs: "vs = concat (map (metric_result a) (gs_metrics spec))" by (auto simp: aggregate_def split: sum.splits)
  show ?thesis unfolding vs results_sum [OF s] fold_rows_counter [OF s a] by (simp add: no_sums_def or_zero_def)
qed

lemma aggregate_shape:
  "aggregate fam spec fr to rows = Inr vs \<Longrightarrow> points_of spec vs"
  by (auto simp: aggregate_def points_of_def spec_point_def dest!: metric_result_shape split: sum.splits)

subsection \<open>Series by name\<close>

lemma named_rows_amount:
  assumes "\<not> gauge"
  shows "(\<Sum>g\<leftarrow>named_rows d names fr to gauge rows. rows_amount fr to field (snd g)) = rows_amount fr to field rows"
proof -
  let ?f = "row_name d names"
  have "(\<Sum>g\<leftarrow>named_rows d names fr to gauge rows. rows_amount fr to field (snd g)) =
      (\<Sum>n\<leftarrow>sort (remdups (map ?f rows)). rows_amount fr to field (filter (\<lambda>row. ?f row = n) rows))"
    using assms by (simp add: named_rows_def kept_rows_def Let_def comp_def)
  also have "\<dots> = rows_amount fr to field rows"
    unfolding rows_amount_def by (rule sum_list_classes) simp_all
  finally show ?thesis .
qed

lemma named_points_counter:
  assumes "named_points fam spec fr to g = Inr vs" "distinct (map gm_name (gs_metrics spec))"
    "m \<in> set (gs_metrics spec)" "\<not> gm_gauge m"
  shows "value_sum (gm_name m) vs = rows_amount fr to (gm_field m) (snd g) \<and> points_of spec vs"
proof -
  from assms(1) obtain us where us: "aggregate fam spec fr to (snd g) = Inr us"
    and vs: "vs = map (\<lambda>v. v\<lparr>mv_attrs := [\<lparr>key = gf_attr fam, val = fst g\<rparr>]\<rparr>) us"
    by (auto simp: named_points_def split: sum.splits)
  have "value_sum (gm_name m) vs = value_sum (gm_name m) us"
    unfolding vs value_sum_def map_map by (rule arg_cong [of _ _ sum_list]) simp
  with aggregate_counter [OF us assms(2-4)] aggregate_shape [OF us] show ?thesis
    by (simp add: vs points_of_def spec_point_def)
qed

lemma sum_map_points:
  assumes s: "distinct (map gm_name (gs_metrics spec))" "m \<in> set (gs_metrics spec)" "\<not> gm_gauge m"
  shows "sum_map (named_points fam spec fr to) gs = Inr pss \<Longrightarrow>
    value_sum (gm_name m) (concat pss) = (\<Sum>g\<leftarrow>gs. rows_amount fr to (gm_field m) (snd g)) \<and>
    points_of spec (concat pss)"
proof (induction gs arbitrary: pss)
  case (Cons g gs)
  then obtain vs pss' where 1: "named_points fam spec fr to g = Inr vs"
    "sum_map (named_points fam spec fr to) gs = Inr pss'" "pss = vs # pss'" by (auto split: sum.splits)
  from Cons.IH [OF 1(2)] named_points_counter [OF 1(1) s] 1(3) show ?case by (auto simp: points_of_def)
qed (simp add: points_of_def)

text \<open>The merge under the admitted names.\<close>

definition series_sum :: "string \<Rightarrow> named_series \<Rightarrow> f64" where
  "series_sum n res = (\<Sum>(k, v)\<leftarrow>res. if fst k = n then mv_value v else 0)"

definition series_ok :: "groups_spec \<Rightarrow> named_series \<Rightarrow> bool" where
  "series_ok spec res \<longleftrightarrow> distinct (map fst res) \<and> points_of spec (map snd res) \<and>
     (\<forall>(k, v) \<in> set res. mv_name v = fst k)"

lemma series_okD:
  assumes "series_ok spec res"
  shows "distinct (map fst res)" "points_of spec (map snd res)" "(k, v) \<in> set res \<Longrightarrow> mv_name v = fst k"
  using assms unfolding series_ok_def by blast+

lemma series_ok_update:
  assumes ok: "series_ok spec res" and v: "mv_name v = fst k" and p: "spec_point spec v"
  shows "series_ok spec (AList.update k v res)"
proof -
  have sub: "x = (k, v) \<or> x \<in> set res" if "x \<in> set (AList.update k v res)" for x
    using that by (induction res) (auto split: if_splits)
  have "distinct (map fst (AList.update k v res))" using series_okD(1) [OF ok] by (rule distinct_update)
  moreover have "spec_point spec (snd x)" if "x \<in> set (AList.update k v res)" for x
    using sub [OF that] series_okD(2) [OF ok] p by (auto simp: points_of_def)
  moreover have "mv_name (snd x) = fst (fst x)" if "x \<in> set (AList.update k v res)" for x
    using sub [OF that] series_okD(3) [OF ok] v by (cases x) auto
  ultimately show ?thesis unfolding series_ok_def points_of_def by auto
qed

text \<open>The value a point leaves behind, and what it adds.\<close>

definition merged_value :: "string \<Rightarrow> series_value \<Rightarrow> series_value option \<Rightarrow> series_value" where
  "merged_value l p before = (case before of Some old \<Rightarrow> join_point old p | None \<Rightarrow> p\<lparr>mv_attrs := relabel l (mv_attrs p)\<rparr>)"

lemma merged_value_name: "(\<And>old. before = Some old \<Longrightarrow> mv_name old = mv_name p) \<Longrightarrow> mv_name (merged_value l p before) = mv_name p"
  by (cases before) (simp_all add: merged_value_def join_point_def)

lemma merged_value_point:
  "(\<And>old. before = Some old \<Longrightarrow> spec_point spec old) \<Longrightarrow> spec_point spec p \<Longrightarrow> spec_point spec (merged_value l p before)"
  by (cases before) (simp_all add: merged_value_def join_point_def spec_point_def)

lemma merged_value_adds:
  "\<not> mv_gauge p \<Longrightarrow>
   mv_value (merged_value l p before) - (case before of Some old \<Rightarrow> mv_value old | None \<Rightarrow> 0) = mv_value p"
  by (cases before) (simp_all add: merged_value_def join_point_def)

lemma merge_point_eq:
  obtains l where "merge_point p (res, a) =
    (AList.update (mv_name p, l) (merged_value l p (map_of res (mv_name p, l))) res, snd (admit_name (mv_name p) (first_val (mv_attrs p)) a))"
  unfolding merge_point_def merged_value_def
  by (cases "admit_name (mv_name p) (first_val (mv_attrs p)) a") simp

lemma merge_point_ok:
  assumes m: "merge_point p (res, a) = (res', a')" and ok: "series_ok spec res" and p: "spec_point spec p"
  shows "series_ok spec res'"
    "mv_name p = n \<Longrightarrow> \<not> mv_gauge p \<Longrightarrow> series_sum n res' = series_sum n res + mv_value p"
    "mv_name p \<noteq> n \<Longrightarrow> series_sum n res' = series_sum n res"
proof -
  obtain l where r: "res' = AList.update (mv_name p, l) (merged_value l p (map_of res (mv_name p, l))) res"
    using m by (metis merge_point_eq prod.inject)
  let ?k = "(mv_name p, l)"
  let ?v = "merged_value l p (map_of res ?k)"
  have old: "mv_name x = mv_name p \<and> spec_point spec x" if "map_of res ?k = Some x" for x
  proof
    from map_of_SomeD [OF that] have x: "(?k, x) \<in> set res" .
    from series_okD(3) [OF ok x] show "mv_name x = mv_name p" by simp
    from x have "x \<in> set (map snd res)" by force
    with series_okD(2) [OF ok] show "spec_point spec x" unfolding points_of_def by blast
  qed
  have "mv_name ?v = mv_name p" by (rule merged_value_name) (rule conjunct1 [OF old])
  then have "mv_name ?v = fst ?k" by simp
  moreover have "spec_point spec ?v" by (rule merged_value_point [OF conjunct2 [OF old] p])
  ultimately show "series_ok spec res'" unfolding r by (rule series_ok_update [OF ok])
  have "series_sum n res' = series_sum n res + (if mv_name p = n then mv_value ?v else 0)
      - (case map_of res ?k of Some x \<Rightarrow> if mv_name p = n then mv_value x else 0 | None \<Rightarrow> 0)"
    unfolding r series_sum_def using sum_list_update [OF series_okD(1) [OF ok], of "\<lambda>k v. if fst k = n then mv_value v else 0" ?k ?v]
    by (simp add: prod.sel cong: option.case_cong)
  then show "mv_name p = n \<Longrightarrow> \<not> mv_gauge p \<Longrightarrow> series_sum n res' = series_sum n res + mv_value p"
    "mv_name p \<noteq> n \<Longrightarrow> series_sum n res' = series_sum n res"
    using merged_value_adds [of p l "map_of res ?k"] by (auto split: option.splits)
qed

lemma merge_fold_ok:
  assumes s: "distinct (map gm_name (gs_metrics spec))" "m \<in> set (gs_metrics spec)" "\<not> gm_gauge m"
  shows "fold merge_point ps (res, a) = (res', a') \<Longrightarrow> points_of spec ps \<Longrightarrow> series_ok spec res \<Longrightarrow>
    series_ok spec res' \<and> series_sum (gm_name m) res' = series_sum (gm_name m) res + value_sum (gm_name m) ps"
proof (induction ps arbitrary: res a)
  case (Cons p ps)
  obtain res1 a1 where 1: "merge_point p (res, a) = (res1, a1)" by fastforce
  with Cons.prems(1) have 2: "fold merge_point ps (res1, a1) = (res', a')" by simp
  from Cons.prems(2) have p: "spec_point spec p" and ps: "points_of spec ps" by (simp_all add: points_of_def)
  note mp = merge_point_ok [OF 1 Cons.prems(3) p]
  have "mv_name p = gm_name m \<Longrightarrow> \<not> mv_gauge p" using spec_point_counter [OF p _ s(1,2)] s(3) by simp
  with Cons.IH [OF 2 ps mp(1)] mp(2,3) [of "gm_name m"] show ?case by auto
qed simp

lemma series_sum_values:
  "series_ok spec res \<Longrightarrow> value_sum n (map snd res) = series_sum n res"
  unfolding value_sum_def series_sum_def map_map
  by (rule arg_cong [of _ _ sum_list]) (auto dest: series_okD(3))

lemma aggregate_named_counter:
  assumes r: "aggregate_named clock k fam spec account fr to wanted rows st = (st', Inr vs)"
    and s: "distinct (map gm_name (gs_metrics spec))" "m \<in> set (gs_metrics spec)" "\<not> gm_gauge m" "\<not> first_gauge spec"
  shows "value_sum (gm_name m) vs = rows_amount fr to (gm_field m) rows \<and> points_of spec vs"
proof -
  obtain w c a where st: "st = (w, c, a)" by (cases st)
  obtain w1 c1 names where n: "names_for clock k fam account wanted rows (w, c) = ((w1, c1), names)" by (metis surj_pair)
  from r st n obtain pss a' where
    pss: "sum_map (named_points fam spec fr to)
      (named_rows (rs_dimension (gf_resource fam)) names fr to (first_gauge spec) rows) = Inr pss"
    and vs: "merge_points (concat pss) a = (vs, a')"
    by (auto simp: aggregate_named_def split: sum.splits prod.splits)
  note p = sum_map_points [OF s(1-3) pss, unfolded named_rows_amount [OF s(4)]]
  obtain res a1 where f: "fold merge_point (concat pss) ([], a) = (res, a1)" by fastforce
  then have v: "vs = map snd res" using vs by (simp add: merge_points_def)
  have "series_ok spec []" by (simp add: series_ok_def points_of_def)
  from merge_fold_ok [OF s(1-3) f _ this] p have ok: "series_ok spec res"
    "series_sum (gm_name m) res = rows_amount fr to (gm_field m) rows" by (simp_all add: series_sum_def)
  with series_sum_values [OF ok(1)] series_okD(2) [OF ok(1)] show ?thesis by (simp add: v)
qed

subsection \<open>A window\<close>

lemma counter_total_values:
  assumes "\<And>v. v \<in> set vs \<Longrightarrow> mv_name v = n \<Longrightarrow> \<not> mv_gauge v"
  shows "counter_total n (map value_emission vs) = value_sum n vs"
  using assms by (induction vs) (auto simp: counter_total_def value_emission_def)

lemma query_rows_leaves:
  "query_rows fam leaf r w = (w', Inr rows) \<Longrightarrow>
   \<exists>ls. leaves (groups_query leaf r) (gr_from r) (gr_to r) w ls w' \<and> rows = leaf_rows ls"
  using bisect_leaves by (fastforce simp: query_rows_def split: prod.splits sum.splits)

lemma groups_read_success:
  assumes "groups_read depth clock k fam spec cfg fr to st = (st', Inr (ct, vs))"
  shows "\<exists>s wanted st1. required_fields fam spec s = Inr wanted \<and> fr < to \<and> ceil_bucket fr < ct \<and>
    ct = floor_bucket to \<and>
    groups_series depth clock k fam spec cfg s (groups_request spec cfg s wanted (ceil_bucket fr) ct) st1 = (st', Inr vs)"
proof -
  obtain w c a where st: "st = (w, c, a)" by (cases st)
  from assms obtain s wanted w1 where 1: "required_fields fam spec s = Inr wanted" "fr < to"
    "window_series depth clock k fam spec cfg s wanted fr to (w1, c, a) = (st', Inr (ct, vs))"
    by (auto simp: groups_read_def st split: if_splits prod.splits sum.splits option.splits)
  from 1(3) have 2: "ct = (if floor_bucket to < fr then fr else floor_bucket to)" "ceil_bucket fr < ct"
    "groups_series depth clock k fam spec cfg s (groups_request spec cfg s wanted (ceil_bucket fr) ct) (w1, c, a) = (st', Inr vs)"
    by (auto simp: window_series_def Let_def split: if_splits prod.splits sum.splits)
  have "fr \<le> ceil_bucket fr"
    using time_trunc_gt [of five_minutes fr] by (simp add: ceil_bucket_def floor_bucket_def)
  with 2(1,2) have "ct = floor_bucket to" by (simp split: if_splits)
  with 1 2 show ?thesis by blast
qed

lemma groups_window_bounds:
  assumes "groups_collect depth clock k fam spec cfg emit fr to out st = (st', out', mark, None)"
  shows "fr < mark \<and> mark \<le> to \<and> mark mod five_minutes = 0"
proof -
  from assms obtain vs where "groups_read depth clock k fam spec cfg fr to st = (st', Inr (mark, vs))"
    by (auto simp: groups_collect_def split: prod.splits sum.splits option.splits)
  from groups_read_success [OF this] have "ceil_bucket fr < mark" "mark = floor_bucket to" by blast+
  moreover have "fr \<le> ceil_bucket fr"
    using time_trunc_gt [of five_minutes fr] by (simp add: ceil_bucket_def floor_bucket_def)
  ultimately show ?thesis using time_trunc_le [of to five_minutes] by (simp add: floor_bucket_def)
qed

lemma groups_counts:
  assumes c: "groups_collect depth clock k fam spec cfg emit fr to out st = (st', out', mark, None)"
    and s: "distinct (map gm_name (gs_metrics spec))" "m \<in> set (gs_metrics spec)" "\<not> gm_gauge m" "\<not> first_gauge spec"
    and d: "\<And>r s w w' ds. depth spec r s w = (w', Inr ds) \<Longrightarrow> gm_name m \<notin> mv_name ` set ds"
  shows "\<exists>r ls es. gr_from r = ceil_bucket fr \<and> gr_to r = mark \<and> mark = floor_bucket to \<and>
    tiles (ceil_bucket fr) mark ls \<and>
    (\<forall>(a, b, rows) \<in> set ls. \<exists>t t'. groups_query (plain_leaf k) r t a b = (t', rows, False, None)) \<and>
    emit_all emit out es = (out', None) \<and>
    (int (length es) < gc_series cfg \<longrightarrow>
       counter_total (gm_name m) es = rows_amount (ceil_bucket fr) mark (gm_field m) (leaf_rows ls))"
proof -
  from c obtain vs where rd: "groups_read depth clock k fam spec cfg fr to st = (st', Inr (mark, vs))"
    and em: "emit_all emit out (map value_emission vs) = (out', None)"
    by (auto simp: groups_collect_def split: prod.splits sum.splits option.splits)
  from groups_read_success [OF rd] obtain s0 wanted st1 where mark: "mark = floor_bucket to"
    and gs: "groups_series depth clock k fam spec cfg s0 (groups_request spec cfg s0 wanted (ceil_bucket fr) mark) st1
      = (st', Inr vs)" by blast
  define r where "r = groups_request spec cfg s0 wanted (ceil_bucket fr) mark"
  have r: "gr_from r = ceil_bucket fr" "gr_to r = mark" by (simp_all add: r_def groups_request_def)
  obtain w c0 a where st1: "st1 = (w, c0, a)" by (cases st1)
  from gs st1 obtain w1 rows st2 us w2 c2 a2 w3 ds capped where
    q: "query_rows fam (plain_leaf k) r w = (w1, Inr rows)" and
    an: "aggregate_named clock k fam spec (gc_account cfg) (gr_from r) (gr_to r) (gr_wanted r) rows (w1, c0, a)
      = ((w2, c2, a2), Inr us)" and
    dp: "depth spec r s0 w2 = (w3, Inr ds)" and cap: "apply_series_cap (gc_series cfg) us = Inr capped" and
    vs: "vs = capped @ take (nat (gc_series cfg - int (length capped))) (sort_key value_key ds)"
    unfolding r_def [symmetric] by (auto simp: groups_series_def split: prod.splits sum.splits)
  note u = aggregate_named_counter [OF an s, unfolded r]
  from query_rows_leaves [OF q, unfolded r] obtain ls where
    ls: "leaves (groups_query (plain_leaf k) r) (ceil_bucket fr) mark w ls w1" "rows = leaf_rows ls" by blast
  have "counter_total (gm_name m) (map value_emission vs) = rows_amount (ceil_bucket fr) mark (gm_field m) (leaf_rows ls)"
    if len: "int (length (map value_emission vs)) < gc_series cfg"
  proof -
    let ?rest = "take (nat (gc_series cfg - int (length capped))) (sort_key value_key ds)"
    have "capped = sort_key value_key us"
      using cap len vs by (auto simp: apply_series_cap_def split: if_splits)
    moreover have notin: "gm_name m \<notin> mv_name ` set ?rest" using d [OF dp] by (auto dest: in_set_takeD)
    ultimately have sum: "value_sum (gm_name m) vs = value_sum (gm_name m) us"
      using value_sum_other [OF notin] by (simp add: vs value_sum_sort)
    have "\<not> mv_gauge v" if v: "v \<in> set vs" "mv_name v = gm_name m" for v
    proof -
      have "v \<notin> set ?rest" using notin v(2) by (metis imageI)
      with v(1) have "v \<in> set us" using \<open>capped = _\<close> by (auto simp: vs)
      then have "spec_point spec v" using u by (simp add: points_of_def)
      with spec_point_counter [OF _ v(2) s(1,2)] s(3) show ?thesis by simp
    qed
    from counter_total_values [OF this] sum u ls(2) show ?thesis by simp
  qed
  then show ?thesis using r mark em leaves_tile [OF ls(1)] leaves_unsaturated [OF ls(1)]
    by (intro exI [of _ r] exI [of _ ls] exI [of _ "map value_emission vs"] conjI) (simp_all, blast)
qed

end
