(* ===== verification/GroupsDepth.thy ===== *)
theory GroupsDepth
  imports GroupsProps
begin

text \<open>
  The optional depth metrics of D1, \<open>internal/collectors/d1/depth.go\<close>: additive counts and the quantiles of the
  latest bucket, asked for in chunks that fit the field limit, over windows that fit the duration limit, as raw
  rows whose numbers keep their text.
\<close>

subsection \<open>Raw rows\<close>

definition depth_leaf :: "'w client \<Rightarrow> 'w row_query" where
  "depth_leaf k w r =
     (case cl_batch k of
        None \<Rightarrow> (w, Inl (ErrNew ''depth collection requires raw GraphQL batch queries''))
      | Some batch \<Rightarrow>
          (case batch w [(''depth'', r)] of
             (w', Inl e) \<Rightarrow> (w', Inl e)
           | (w', Inr m) \<Rightarrow>
               (w', case map_of m ''depth'' of
                      Some (JArr rows) \<Rightarrow> if list_all is_map rows then Inr rows else Inl json_error
                    | _ \<Rightarrow> Inl (ErrNew ''depth dataset must be a nonnull row array''))))"

subsection \<open>Windows within the duration limit\<close>

definition depth_duration :: "dataset_settings \<Rightarrow> duration" where
  "depth_duration s = go_quot (wrap_int64 (ds_max_duration s * second)) five_minutes * five_minutes"

definition depth_bucket_error :: "time \<Rightarrow> time \<Rightarrow> json \<Rightarrow> gerr option" where
  "depth_bucket_error fr to row =
     (case row_bucket row of
        Inl e \<Rightarrow> Some e
      | Inr b \<Rightarrow>
          if b \<noteq> time_trunc b five_minutes \<or> \<not> in_buckets fr to b
          then Some (ErrNew ''D1 depth returned an incomplete or out-of-window bucket'') else None)"

function depth_windows ::
  "'w row_query \<Rightarrow> graphql_request \<Rightarrow> duration \<Rightarrow> time \<Rightarrow> 'w \<Rightarrow> 'w \<times> (gerr + json list)" where
  "depth_windows leaf r d start w =
     (if \<not> start < gr_to r \<or> d \<le> 0 then (w, Inr [])
      else
        (let stop = min (start + d) (gr_to r) in
         case query_rows d1_family leaf (r\<lparr>gr_from := start, gr_to := stop\<rparr>) w of
           (w1, Inl e) \<Rightarrow> (w1, Inl e)
         | (w1, Inr rows) \<Rightarrow>
             (case first_error (depth_bucket_error start stop) rows of
                Some e \<Rightarrow> (w1, Inl e)
              | None \<Rightarrow>
                  (case depth_windows leaf r d stop w1 of
                     (w2, Inl e) \<Rightarrow> (w2, Inl e)
                   | (w2, Inr rest) \<Rightarrow> (w2, Inr (rows @ rest))))))"
  by pat_completeness auto
termination
  by (relation "measure (\<lambda>(leaf, r, d, start, w). nat (gr_to r - start))") auto

declare depth_windows.simps [simp del]

definition depth_rows ::
  "'w row_query \<Rightarrow> graphql_request \<Rightarrow> dataset_settings \<Rightarrow> 'w \<Rightarrow> 'w \<times> (gerr + json list)" where
  "depth_rows leaf r s w =
     (if depth_duration s < five_minutes \<or> ds_not_older s \<le> 0
      then (w, Inl (ErrNew ''D1 depth requires complete-bucket duration and retention limits''))
      else depth_windows leaf r (depth_duration s) (gr_from r) w)"

subsection \<open>Values\<close>

record depth_field =
  df_field :: string
  df_metric :: string
  df_statistic :: string
  df_divisor :: f64

definition quantile_fields :: "string \<Rightarrow> depth_field list" where
  "quantile_fields stat =
     [\<lparr>df_field = ''quantiles.queryBatchTimeMsP'' @ drop 1 stat, df_metric = ''cloudflare.d1.query.batch_time'',
       df_statistic = stat, df_divisor = 1000\<rparr>,
      \<lparr>df_field = ''quantiles.queryBatchResponseBytesP'' @ drop 1 stat,
       df_metric = ''cloudflare.d1.query.batch_response_size'', df_statistic = stat, df_divisor = 1\<rparr>]"

definition analytics_depth_fields :: "depth_field list" where
  "analytics_depth_fields =
     [\<lparr>df_field = ''sum.rowsRead'', df_metric = ''cloudflare.d1.rows_read'', df_statistic = [], df_divisor = 1\<rparr>,
      \<lparr>df_field = ''sum.rowsWritten'', df_metric = ''cloudflare.d1.rows_written'', df_statistic = [], df_divisor = 1\<rparr>]
     @ concat (map quantile_fields [''p50'', ''p75'', ''p99'', ''p999''])"

definition group_member :: "json \<Rightarrow> string \<Rightarrow> json option" where
  "group_member row field =
     (case str_cut ''.'' field of (part, k, found) \<Rightarrow> Option.bind (any_map row part) (\<lambda>g. any_member g k))"

text \<open>A required count is an unsigned 64-bit integer, checked exactly.\<close>

definition is_uint64 :: "f64 \<Rightarrow> bool" where
  "is_uint64 v \<longleftrightarrow> of_int \<lfloor>v\<rfloor> = v \<and> 0 \<le> v \<and> v < 2 ^ 64"

definition depth_count :: "json \<Rightarrow> string \<Rightarrow> gerr + f64" where
  "depth_count row field =
     (case group_member row field of
        Some (JNum s) \<Rightarrow>
          if is_uint64 (number_value s) then Inr (number_value s)
          else Inl (ErrNew (''invalid unsigned integral count '' @ field))
      | _ \<Rightarrow> Inl (ErrNew (''missing or invalid selected count '' @ field)))"

text \<open>An optional statistic: absent, null and negative values are skipped.\<close>

definition depth_number :: "json \<Rightarrow> string \<Rightarrow> gerr + f64 option" where
  "depth_number row field =
     (case group_member row field of
        None \<Rightarrow> Inr None
      | Some JNull \<Rightarrow> Inr None
      | Some (JNum s) \<Rightarrow>
          (case json_float s of
             None \<Rightarrow> Inl (ErrWrap (''invalid optional D1 field '' @ field @ '': '') (ErrNew ''value out of range''))
           | Some v \<Rightarrow> Inr (if 0 \<le> v then Some v else None))
      | Some j \<Rightarrow>
          (case any_nonnegative j of
             Some v \<Rightarrow> Inr (Some v) | None \<Rightarrow> Inl (ErrNew (''invalid optional D1 field '' @ field))))"

definition depth_value :: "depth_field \<Rightarrow> json \<Rightarrow> gerr + f64 option" where
  "depth_value f row =
     (if df_statistic f = [] then
        (case depth_count row (df_field f) of Inl e \<Rightarrow> Inl e | Inr v \<Rightarrow> Inr (Some v))
      else depth_number row (df_field f))"

text \<open>The running total, \<open>None\<close> while nothing was found.\<close>

definition add_depth :: "depth_field \<Rightarrow> time \<Rightarrow> json \<Rightarrow> f64 option \<Rightarrow> gerr + f64 option" where
  "add_depth f latest row acc =
     (if df_statistic f \<noteq> [] \<and> row_bucket row \<noteq> Inr latest then Inr acc
      else
        (case depth_value f row of
           Inl e \<Rightarrow> Inl e
         | Inr None \<Rightarrow> Inr acc
         | Inr (Some v) \<Rightarrow>
             if or_zero acc + v > max_float64 then Inl (ErrNew ''D1 depth aggregation overflow'')
             else Inr (Some (or_zero acc + v))))"

definition depth_point :: "depth_field \<Rightarrow> f64 \<Rightarrow> series_value" where
  "depth_point f v =
     \<lparr>mv_name = df_metric f, mv_value = v / df_divisor f, mv_gauge = (df_statistic f \<noteq> []),
      mv_attrs = (if df_statistic f = [] then [] else [\<lparr>key = ''cloudflare.statistic'', val = df_statistic f\<rparr>])\<rparr>"

definition depth_points :: "json list \<Rightarrow> time \<Rightarrow> depth_field \<Rightarrow> gerr + series_value list" where
  "depth_points rows latest f =
     (case fold_err (add_depth f latest) rows None of
        Inl e \<Rightarrow> Inl e | Inr None \<Rightarrow> Inr [] | Inr (Some v) \<Rightarrow> Inr [depth_point f v])"

subsection \<open>Chunks of fields\<close>

text \<open>The buckets seen so far and the latest; a bucket that comes twice is ambiguous.\<close>

definition note_bucket :: "json \<Rightarrow> time set \<times> time \<Rightarrow> gerr + time set \<times> time" where
  "note_bucket row st =
     (case row_bucket row of
        Inl e \<Rightarrow> Inl e
      | Inr b \<Rightarrow>
          if b \<in> fst st then Inl (ErrNew ''duplicate ambiguous D1 account bucket'')
          else Inr (insert b (fst st), max b (snd st)))"

function chunks :: "nat \<Rightarrow> 'a list \<Rightarrow> 'a list list" where
  "chunks n xs = (if xs = [] \<or> n = 0 then [] else take n xs # chunks n (drop n xs))"
  by pat_completeness auto
termination
  by (relation "measure (\<lambda>(n, xs). length xs)") auto

declare chunks.simps [simp del]

definition depth_chunk ::
  "'w row_query \<Rightarrow> graphql_request \<Rightarrow> dataset_settings \<Rightarrow> depth_field list \<Rightarrow> 'w \<Rightarrow> 'w \<times> (gerr + series_value list)"
where
  "depth_chunk leaf r s fs w =
     (case depth_rows leaf (r\<lparr>gr_wanted := ''dimensions.datetimeFiveMinutes'' # map df_field fs\<rparr>) s w of
        (w1, Inl e) \<Rightarrow> (w1, Inl e)
      | (w1, Inr rows) \<Rightarrow>
          (w1, case fold_err note_bucket rows ({}, 0) of
                 Inl e \<Rightarrow> Inl e
               | Inr (seen, latest) \<Rightarrow>
                   (case sum_map (depth_points rows latest) fs of
                      Inl e \<Rightarrow> Inl e | Inr pss \<Rightarrow> Inr (concat pss))))"

fun depth_loop ::
  "'w row_query \<Rightarrow> graphql_request \<Rightarrow> dataset_settings \<Rightarrow> depth_field list list \<Rightarrow> 'w \<Rightarrow>
   'w \<times> (gerr + series_value list)"
where
  "depth_loop leaf r s [] w = (w, Inr [])"
| "depth_loop leaf r s (fs # fss) w =
     (case depth_chunk leaf r s fs w of
        (w1, Inl e) \<Rightarrow> (w1, Inl e)
      | (w1, Inr ps) \<Rightarrow>
          (case depth_loop leaf r s fss w1 of
             (w2, Inl e) \<Rightarrow> (w2, Inl e) | (w2, Inr qs) \<Rightarrow> (w2, Inr (ps @ qs))))"

definition d1_depth :: "'w client \<Rightarrow> 'w depth_reader" where
  "d1_depth k spec r s w =
     (if gs_collector spec \<noteq> ''d1.analytics'' \<or> ds_max_fields s - 1 \<le> 0 then (w, Inr [])
      else depth_loop (depth_leaf k) r s
        (chunks (nat (ds_max_fields s - 1))
          (filter (\<lambda>f. has_available_field (available_fields s) (df_field f)) analytics_depth_fields)) w)"

definition d1_collect ::
  "('w \<Rightarrow> 'w \<times> time) \<Rightarrow> 'w client \<Rightarrow> groups_spec \<Rightarrow> groups_config \<Rightarrow> 's emit \<Rightarrow>
   time \<Rightarrow> time \<Rightarrow> 's \<Rightarrow> 'w groups_state \<Rightarrow> 'w groups_state \<times> 's \<times> time \<times> gerr option"
where
  "d1_collect clock k spec cfg emit = groups_collect (d1_depth k) clock k d1_family spec cfg emit"

subsection \<open>What depth reports\<close>

definition depth_names :: "string set" where
  "depth_names = {''cloudflare.d1.rows_read'', ''cloudflare.d1.rows_written'', ''cloudflare.d1.query.batch_time'',
     ''cloudflare.d1.query.batch_response_size''}"

lemma analytics_depth_names: "f \<in> set analytics_depth_fields \<Longrightarrow> df_metric f \<in> depth_names"
  by (auto simp: analytics_depth_fields_def quantile_fields_def depth_names_def)

lemma chunks_set: "xs' \<in> set (chunks n xs) \<Longrightarrow> set xs' \<subseteq> set xs"
proof (induction n xs rule: chunks.induct)
  case (1 n xs)
  then show ?case
    by (subst (asm) chunks.simps) (auto split: if_splits dest: in_set_takeD in_set_dropD)
qed

lemma chunks_concat: "0 < n \<Longrightarrow> concat (chunks n xs) = xs"
proof (induction n xs rule: chunks.induct)
  case (1 n xs)
  then show ?case by (subst chunks.simps) simp
qed

lemma chunks_length: "xs' \<in> set (chunks n xs) \<Longrightarrow> length xs' \<le> n"
proof (induction n xs rule: chunks.induct)
  case (1 n xs)
  then show ?case by (subst (asm) chunks.simps) (auto split: if_splits)
qed

lemma depth_points_names:
  assumes "sum_map (depth_points rows latest) fs = Inr pss" "p \<in> set (concat pss)"
  shows "mv_name p \<in> df_metric ` set fs"
  using assms
proof (induction fs arbitrary: pss)
  case (Cons f fs)
  then obtain ps pss' where 1: "depth_points rows latest f = Inr ps" "sum_map (depth_points rows latest) fs = Inr pss'"
    "pss = ps # pss'" by (auto split: sum.splits)
  have "q \<in> set ps \<Longrightarrow> mv_name q = df_metric f" for q
    using 1(1) by (auto simp: depth_points_def depth_point_def split: sum.splits option.splits)
  with Cons 1 show ?case by auto
qed simp

lemma depth_chunk_names:
  "depth_chunk leaf r s fs w = (w', Inr ps) \<Longrightarrow> p \<in> set ps \<Longrightarrow> mv_name p \<in> df_metric ` set fs"
  by (auto simp: depth_chunk_def dest: depth_points_names split: prod.splits sum.splits)

lemma depth_loop_names:
  "depth_loop leaf r s fss w = (w', Inr ps) \<Longrightarrow> p \<in> set ps \<Longrightarrow> \<exists>fs \<in> set fss. mv_name p \<in> df_metric ` set fs"
proof (induction fss arbitrary: w w' ps)
  case (Cons fs fss)
  then obtain w1 qs w2 rs where 1: "depth_chunk leaf r s fs w = (w1, Inr qs)"
    "depth_loop leaf r s fss w1 = (w2, Inr rs)" "ps = qs @ rs" by (auto split: prod.splits sum.splits)
  show ?case
  proof (cases "p \<in> set qs")
    case True
    with depth_chunk_names [OF 1(1)] show ?thesis by auto
  next
    case False
    with Cons.IH [OF 1(2)] Cons.prems(2) 1(3) show ?thesis by auto
  qed
qed simp

lemma d1_depth_names:
  assumes "d1_depth k spec r s w = (w', Inr ds)"
  shows "mv_name ` set ds \<subseteq> depth_names"
proof
  fix n assume "n \<in> mv_name ` set ds"
  then obtain p where p: "p \<in> set ds" "n = mv_name p" by blast
  let ?fss = "chunks (nat (ds_max_fields s - 1))
      (filter (\<lambda>f. has_available_field (available_fields s) (df_field f)) analytics_depth_fields)"
  from assms p have "depth_loop (depth_leaf k) r s ?fss w = (w', Inr ds)"
    by (auto simp: d1_depth_def split: if_splits)
  moreover have "\<forall>fs \<in> set ?fss. set fs \<subseteq> set analytics_depth_fields" using chunks_set by fastforce
  ultimately obtain fss where l: "depth_loop (depth_leaf k) r s fss w = (w', Inr ds)"
    "\<forall>fs \<in> set fss. set fs \<subseteq> set analytics_depth_fields" by blast
  from depth_loop_names [OF l(1) p(1)] l(2) obtain f where "f \<in> set analytics_depth_fields" "n = df_metric f"
    unfolding p(2) by blast
  then show "n \<in> depth_names" using analytics_depth_names by blast
qed

subsection \<open>Counts\<close>

lemma group_specs:
  assumes "spec \<in> set (d1_datasets @ kv_datasets)"
  shows "distinct (map gm_name (gs_metrics spec))" "m \<in> set (gs_metrics spec) \<Longrightarrow> gm_gauge m = first_gauge spec"
    "m \<in> set (gs_metrics spec) \<Longrightarrow> gm_name m \<notin> depth_names"
  using assms by (auto simp: d1_datasets_def kv_datasets_def counter_of_def gauge_of_def first_gauge_def depth_names_def)

text \<open>C31. A D1 window without error counts every row once: its complete five-minute buckets are queried without gap,
  overlap or saturation, and unless the cap on series was reached the emitted counters of a metric add up to its
  values in all rows, whatever the names and the admission fold together, and whatever depth adds.\<close>

theorem d1_counts_conserved:
  assumes "d1_collect clock k spec cfg emit fr to out st = (st', out', mark, None)"
    and "spec \<in> set d1_datasets" "m \<in> set (gs_metrics spec)" "\<not> gm_gauge m"
  shows "\<exists>r ls es. gr_from r = ceil_bucket fr \<and> gr_to r = mark \<and> mark = floor_bucket to \<and>
    tiles (ceil_bucket fr) mark ls \<and>
    (\<forall>(a, b, rows) \<in> set ls. \<exists>t t'. groups_query (plain_leaf k) r t a b = (t', rows, False, None)) \<and>
    emit_all emit out es = (out', None) \<and>
    (int (length es) < gc_series cfg \<longrightarrow>
       counter_total (gm_name m) es = rows_amount (ceil_bucket fr) mark (gm_field m) (leaf_rows ls))"
proof (rule groups_counts [OF assms(1) [unfolded d1_collect_def] group_specs(1) assms(3,4)])
  show "spec \<in> set (d1_datasets @ kv_datasets)" using assms(2) by simp
  from group_specs(2) [OF this assms(3)] assms(4) show "\<not> first_gauge spec" by simp
  show "gm_name m \<notin> mv_name ` set ds" if "d1_depth k spec r s w = (w', Inr ds)" for r s w w' ds
  proof -
    have "gm_name m \<notin> depth_names" using group_specs(3) [of spec m] assms(2,3) by simp
    with d1_depth_names [OF that] show ?thesis by blast
  qed
qed

text \<open>A window on a server with one row of a named resource.\<close>

definition groups_row :: json where
  "groups_row = JObj [(''count'', JNum ''7''), (''sum'', JObj [(''requests'', JNum ''7'')]), (''dimensions'', JObj
     [(''datetimeFiveMinutes'', JStr ''1970-01-01T00:00:00Z''), (''databaseId'', JStr ''a1'')])]"

definition groups_settings :: dataset_settings where
  "groups_settings = \<lparr>ds_enabled = True,
     ds_fields = Some [''count'', ''sum_requests'', ''dimensions_datetimeFiveMinutes'', ''dimensions.databaseId''],
     ds_max_fields = 10, ds_max_duration = 86400, ds_not_older = 86400, ds_page_size = 100\<rparr>"

definition groups_client :: "unit client" where
  "groups_client = listing_client\<lparr>cl_settings := (\<lambda>w scope ident ds. (w, Inr groups_settings)),
     cl_query := (\<lambda>w r. (w, Inr (JArr [groups_row])))\<rparr>"

definition still_clock :: "unit \<Rightarrow> unit \<times> time" where
  "still_clock w = (w, 0)"

definition groups_sample_config :: groups_config where
  "groups_sample_config = \<lparr>gc_account = ''acc'', gc_series = 500\<rparr>"

definition start_state :: "unit groups_state" where
  "start_state = ((), Map.empty, \<lambda>m. [])"

abbreviation unix_epoch :: time where
  "unix_epoch \<equiv> unix_offset * second"

definition queries_spec :: groups_spec where
  "queries_spec = d1_datasets ! 1"

definition queries_metric :: groups_metric where
  "queries_metric = counter_of ''cloudflare.d1.queries'' ''count''"

lemma groups_number: "json_float ''7'' = Some 7"
  by (simp add: json_float_def number_value_def Let_def trim_prefix_def has_prefix_def digits_value_def
      digit_val_def ten_power_def is_digit_def max_float64_def)

lemma groups_row_facts:
  "row_bucket groups_row = Inr unix_epoch" "decode_any_rows (JArr [groups_row]) = Some [groups_row]"
  "numeric_field groups_row ''count'' = Some 7"
proof -
  show "row_bucket groups_row = Inr unix_epoch" by code_simp
  show "decode_any_rows (JArr [groups_row]) = Some [groups_row]"
    by (simp add: decode_any_rows_def groups_row_def is_map_def groups_number)
  have "str_cut ''.'' ''count'' = (''count'', [], False)" "any_member groups_row ''count'' = Some (JNum ''7'')"
    by code_simp+
  then show "numeric_field groups_row ''count'' = Some 7"
    by (simp add: numeric_field_def any_nonnegative_def groups_number)
qed

lemma queries_aggregate:
  "aggregate d1_family queries_spec unix_epoch (unix_epoch + five_minutes) [groups_row] =
     Inr [\<lparr>mv_name = ''cloudflare.d1.queries'', mv_value = 7, mv_gauge = False, mv_attrs = []\<rparr>]"
  by (simp add: aggregate_def add_row_def groups_row_facts in_buckets_def spec_values_def queries_spec_def
      d1_datasets_def counter_of_def add_metric_def add_counter_def no_sums_def or_zero_def metric_result_def)

lemma queries_wanted:
  "required_fields d1_family queries_spec groups_settings =
     Inr [''count'', ''dimensions.datetimeFiveMinutes'', ''dimensions.databaseId'']"
  by code_simp

lemma groups_client_calls:
  "cl_settings groups_client w scope ident ds = (w, Inr groups_settings)"
  "cl_query groups_client w r = (w, Inr (JArr [groups_row]))" "cl_page groups_client = cl_page listing_client"
  by (simp_all add: groups_client_def)

lemma queries_named:
  "snd (aggregate_named still_clock groups_client d1_family queries_spec ''acc'' unix_epoch (unix_epoch + five_minutes)
     [''count'', ''dimensions.datetimeFiveMinutes'', ''dimensions.databaseId''] [groups_row] start_state) =
   Inr [\<lparr>mv_name = ''cloudflare.d1.queries'', mv_value = 7, mv_gauge = False,
         mv_attrs = [\<lparr>key = ''cloudflare.d1.database_name'', val = ''orders''\<rparr>]\<rparr>]"
proof -
  have load: "load_names groups_client d1_resource ''acc'' () = ((), Some [''a1'' \<mapsto> ''orders''])"
    using sample_names by (simp add: load_names_def groups_client_calls)
  have dim: "dimension_field d1_family = ''dimensions.databaseId''" "gf_resource d1_family = d1_resource"
    "rs_dimension d1_resource = ''databaseId''" "gf_attr d1_family = ''cloudflare.d1.database_name''"
    by (simp_all add: dimension_field_def d1_family_def d1_resource_def)
  have name: "row_name ''databaseId'' [''a1'' \<mapsto> ''orders''] groups_row = ''orders''" by code_simp
  have counters: "first_gauge queries_spec = False" by code_simp
  have look: "lookup_names still_clock groups_client d1_resource ''acc'' ((), Map.empty) =
      (((), [''acc'' @ rs_path d1_resource \<mapsto> \<lparr>ne_until = hour, ne_names = [''a1'' \<mapsto> ''orders'']\<rparr>]),
       [''a1'' \<mapsto> ''orders''])"
    by (simp add: lookup_names_def still_clock_def load cached_names_def or_empty_def)
  show ?thesis
    by (simp add: aggregate_named_def start_state_def queries_aggregate names_for_def dim look named_rows_def counters
        kept_rows_def name named_points_def merge_points_def merge_point_def admit_name_def first_val_def relabel_def Let_def)
qed

lemma queries_window:
  "snd (d1_collect still_clock groups_client queries_spec groups_sample_config buffer_emit unix_epoch
     (unix_epoch + five_minutes) empty_buffer start_state) =
   (\<lparr>records = [], metrics = [\<lparr>bm_kind = ''counter'', bm_name = ''cloudflare.d1.queries'', bm_value = 7,
       bm_attrs = [\<lparr>key = ''cloudflare.d1.database_name'', val = ''orders''\<rparr>]\<rparr>]\<rparr>, unix_epoch + five_minutes, None)"
proof -
  let ?r = "groups_request queries_spec groups_sample_config groups_settings
      [''count'', ''dimensions.datetimeFiveMinutes'', ''dimensions.databaseId''] unix_epoch (unix_epoch + five_minutes)"
  have bounds: "ceil_bucket unix_epoch = unix_epoch" "floor_bucket (unix_epoch + five_minutes) = unix_epoch + five_minutes"
    by code_simp+
  have cfg: "gc_account groups_sample_config = ''acc''" "gc_series groups_sample_config = 500"
    by (simp_all add: groups_sample_config_def)
  have ok: "settings_error d1_family queries_spec groups_settings = None"
    by (simp add: settings_error_def groups_settings_def)
  have r: "gr_from ?r = unix_epoch" "gr_to ?r = unix_epoch + five_minutes" "gr_limit ?r = 100"
    "gr_wanted ?r = [''count'', ''dimensions.datetimeFiveMinutes'', ''dimensions.databaseId'']"
    by (simp_all add: groups_request_def groups_settings_def)
  have "groups_query (plain_leaf groups_client) ?r () unix_epoch (unix_epoch + five_minutes) = ((), [groups_row], False, None)"
    by (simp add: groups_query_def plain_leaf_def groups_client_calls groups_row_facts r)
  then have q: "query_rows d1_family (plain_leaf groups_client) ?r () = ((), Inr [groups_row])"
    unfolding query_rows_def r by (subst bisect.simps) simp
  obtain st where named: "aggregate_named still_clock groups_client d1_family queries_spec ''acc'' unix_epoch
      (unix_epoch + five_minutes) [''count'', ''dimensions.datetimeFiveMinutes'', ''dimensions.databaseId'']
      [groups_row] start_state = (st, Inr [\<lparr>mv_name = ''cloudflare.d1.queries'', mv_value = 7, mv_gauge = False,
         mv_attrs = [\<lparr>key = ''cloudflare.d1.database_name'', val = ''orders''\<rparr>]\<rparr>])"
    using queries_named by (metis prod.collapse)
  obtain w c a where st: "st = (w, c, a)" by (cases st)
  have nodepth: "d1_depth groups_client queries_spec r s w = (w, Inr [])" for r s w
    by (simp add: d1_depth_def queries_spec_def d1_datasets_def)
  from q named show ?thesis
    by (simp add: d1_collect_def groups_collect_def groups_read_def start_state_def groups_client_calls cfg ok
        queries_wanted window_series_def bounds groups_series_def r nodepth apply_series_cap_def value_emission_def
        buffer_metric_def empty_buffer_def st Let_def)
qed

theorem d1_counts_conserved_witness:
  "\<exists>r ls es. gr_to r = unix_epoch + five_minutes \<and> tiles unix_epoch (unix_epoch + five_minutes) ls \<and>
     (\<forall>(a, b, rows) \<in> set ls. \<exists>t t'. groups_query (plain_leaf groups_client) r t a b = (t', rows, False, None)) \<and>
     (int (length es) < 500 \<longrightarrow> counter_total ''cloudflare.d1.queries'' es =
        rows_amount unix_epoch (unix_epoch + five_minutes) ''count'' (leaf_rows ls))"
proof -
  let ?run = "d1_collect still_clock groups_client queries_spec groups_sample_config buffer_emit unix_epoch
     (unix_epoch + five_minutes) empty_buffer start_state"
  have run: "?run = (fst ?run, fst (snd ?run), unix_epoch + five_minutes, None)"
    using queries_window by (metis prod.collapse prod.inject)
  have s: "queries_spec \<in> set d1_datasets" "queries_metric \<in> set (gs_metrics queries_spec)" "\<not> gm_gauge queries_metric"
    by (simp_all add: queries_spec_def d1_datasets_def queries_metric_def counter_of_def)
  have m: "gm_name queries_metric = ''cloudflare.d1.queries''" "gm_field queries_metric = ''count''"
    "ceil_bucket unix_epoch = unix_epoch" "gc_series groups_sample_config = 500"
    by (simp add: queries_metric_def counter_of_def, simp add: queries_metric_def counter_of_def, code_simp,
        simp add: groups_sample_config_def)
  from d1_counts_conserved [OF run s, unfolded m] show ?thesis by blast
qed

text \<open>The same for KV, which has no depth metrics.\<close>

theorem kv_counts_conserved:
  assumes "kv_collect clock k spec cfg emit fr to out st = (st', out', mark, None)"
    and "spec \<in> set kv_datasets" "m \<in> set (gs_metrics spec)" "\<not> gm_gauge m"
  shows "\<exists>r ls es. gr_from r = ceil_bucket fr \<and> gr_to r = mark \<and> mark = floor_bucket to \<and>
    tiles (ceil_bucket fr) mark ls \<and>
    (\<forall>(a, b, rows) \<in> set ls. \<exists>t t'. groups_query (plain_leaf k) r t a b = (t', rows, False, None)) \<and>
    emit_all emit out es = (out', None) \<and>
    (int (length es) < gc_series cfg \<longrightarrow>
       counter_total (gm_name m) es = rows_amount (ceil_bucket fr) mark (gm_field m) (leaf_rows ls))"
proof (rule groups_counts [OF assms(1) [unfolded kv_collect_def] group_specs(1) assms(3,4)])
  show "spec \<in> set (d1_datasets @ kv_datasets)" using assms(2) by simp
  from group_specs(2) [OF this assms(3)] assms(4) show "\<not> first_gauge spec" by simp
  show "gm_name m \<notin> mv_name ` set ds" if "no_depth spec r s w = (w', Inr ds)" for r s w w' ds
    using that by (simp add: no_depth_def)
qed

end
