(* ===== verification/R2.thy ===== *)
theory R2
  imports Splitter JsonAny "HOL-Library.AList" "HOL-Library.Product_Lexorder"
begin

text \<open>
  The R2 Groups collectors, \<open>internal/collectors/r2/metrics.go\<close> and \<open>admission.go\<close>: the query plan of a
  dataset, the bisected query of complete five-minute buckets, the aggregation of rows into series and the
  admission of at most 49 named series per metric. A Go map that is iterated after sorting is an association
  list; the keys admitted by earlier polls are part of the collector's state.
\<close>

abbreviation r2_bucket :: duration where "r2_bucket \<equiv> 300000000000"

record r2_metric =
  rm_field :: string
  rm_name :: string
  rm_gauge :: bool

record r2_spec =
  rd_collector :: string
  rd_dataset :: string
  rd_metrics :: "r2_metric list"
  rd_resource_field :: string
  rd_resource_key :: string

definition r2_counter :: "string \<Rightarrow> string \<Rightarrow> r2_metric" where
  "r2_counter f n = \<lparr>rm_field = f, rm_name = n, rm_gauge = False\<rparr>"

definition r2_gauge :: "string \<Rightarrow> string \<Rightarrow> r2_metric" where
  "r2_gauge f n = \<lparr>rm_field = f, rm_name = n, rm_gauge = True\<rparr>"

definition r2_datasets :: "r2_spec list" where
  "r2_datasets =
    [\<lparr>rd_collector = ''r2.bandwidth'', rd_dataset = ''r2BandwidthUsageAdaptiveGroups'',
      rd_metrics = [r2_counter ''sum.bytesDownload'' ''cloudflare.r2.bandwidth.download.bytes'',
                    r2_counter ''sum.bytesUpload'' ''cloudflare.r2.bandwidth.upload.bytes''],
      rd_resource_field = ''dimensions.bucketName'', rd_resource_key = ''cloudflare.r2.bucket_name''\<rparr>,
     \<lparr>rd_collector = ''r2.catalog_data'', rd_dataset = ''r2CatalogDataOperationsAdaptiveGroups'',
      rd_metrics = [r2_counter ''count'' ''cloudflare.r2.catalog.data.operations''],
      rd_resource_field = ''dimensions.namespaceName'', rd_resource_key = ''cloudflare.r2.catalog.namespace_name''\<rparr>,
     \<lparr>rd_collector = ''r2.catalog_maintenance'', rd_dataset = ''r2CatalogTableMaintenanceAdaptiveGroups'',
      rd_metrics = [r2_counter ''count'' ''cloudflare.r2.catalog.maintenance.jobs''],
      rd_resource_field = ''dimensions.namespaceName'', rd_resource_key = ''cloudflare.r2.catalog.namespace_name''\<rparr>,
     \<lparr>rd_collector = ''r2.operations'', rd_dataset = ''r2OperationsAdaptiveGroups'',
      rd_metrics = [r2_counter ''sum.requests'' ''cloudflare.r2.requests''],
      rd_resource_field = ''dimensions.bucketName'', rd_resource_key = ''cloudflare.r2.bucket_name''\<rparr>,
     \<lparr>rd_collector = ''r2.storage'', rd_dataset = ''r2StorageAdaptiveGroups'',
      rd_metrics = [r2_gauge ''max.payloadSize'' ''cloudflare.r2.storage.payload.bytes'',
                    r2_gauge ''max.objectCount'' ''cloudflare.r2.storage.objects''],
      rd_resource_field = ''dimensions.bucketName'', rd_resource_key = ''cloudflare.r2.bucket_name''\<rparr>,
     \<lparr>rd_collector = ''r2.sql'', rd_dataset = ''r2sqlOperationsAdaptiveGroups'',
      rd_metrics = [r2_counter ''count'' ''cloudflare.r2sql.queries''],
      rd_resource_field = ''dimensions.bucket'', rd_resource_key = ''cloudflare.r2sql.bucket_name''\<rparr>]"

subsection \<open>The query plan\<close>

record r2_plan =
  pl_fields :: "string list"
  pl_limit :: int
  pl_resource :: bool
  pl_action :: bool

definition r2_timestamp_field :: string where
  "r2_timestamp_field = ''dimensions.datetimeFiveMinutes''"

definition r2_field_available :: "string list \<Rightarrow> string \<Rightarrow> bool" where
  "r2_field_available available wanted =
     (let w = to_lower wanted; flat = map (\<lambda>c. if c = CHR ''.'' then CHR ''_'' else c) w
      in list_ex (\<lambda>f. to_lower (trim_space f) = w \<or> to_lower (trim_space f) = flat) available)"

definition r2_error :: "r2_spec \<Rightarrow> string \<Rightarrow> gerr" where
  "r2_error spec what = ErrNew (''R2 Groups dataset '' @ rd_dataset spec @ what)"

definition missing_required :: "r2_spec \<Rightarrow> string list \<Rightarrow> string option" where
  "missing_required spec available =
     find (\<lambda>f. \<not> r2_field_available available f) (map rm_field (rd_metrics spec) @ [r2_timestamp_field])"

definition build_r2_plan :: "r2_spec \<Rightarrow> dataset_settings \<Rightarrow> gerr + r2_plan" where
  "build_r2_plan spec s =
     (if \<not> ds_enabled s then Inl (r2_error spec '' is disabled'')
      else if ds_max_fields s \<le> 0 then Inl (r2_error spec '' has an invalid field limit'')
      else if ds_page_size s \<le> 0 then Inl (r2_error spec '' has no page-size limit'')
      else if ds_max_duration s \<le> 0 \<or> ds_not_older s \<le> 0
      then Inl (r2_error spec '' has no duration or retention limit'')
      else
        (case missing_required spec (available_fields s) of
           Some f \<Rightarrow> Inl (r2_error spec ('' is missing required field '' @ f))
         | None \<Rightarrow>
             (let fields = map rm_field (rd_metrics spec) @ [r2_timestamp_field]
              in if int (length fields) > ds_max_fields s
                 then Inl (r2_error spec ('' field limit '' @ itoa (ds_max_fields s) @ '' is below its ''
                        @ itoa (int (length fields)) @ '' required fields''))
                 else
                   (let resource = (rd_resource_field spec \<noteq> [] \<and> int (length fields) < ds_max_fields s \<and>
                          r2_field_available (available_fields s) (rd_resource_field spec));
                        fields1 = (if resource then fields @ [rd_resource_field spec] else fields);
                        action = (rd_collector spec = ''r2.operations'' \<and> int (length fields1) < ds_max_fields s \<and>
                          r2_field_available (available_fields s) ''dimensions.actionType'')
                    in Inr \<lparr>pl_fields = (if action then fields1 @ [''dimensions.actionType''] else fields1),
                            pl_limit = min (ds_page_size s) 10000, pl_resource = resource, pl_action = action\<rparr>))))"

subsection \<open>Rows\<close>

definition r2_field_value :: "json \<Rightarrow> string \<Rightarrow> json option" where
  "r2_field_value row field = any_path row (split_char (CHR ''.'') field)"

definition r2_row_time :: "json \<Rightarrow> gerr + time" where
  "r2_row_time row =
     (case r2_field_value row r2_timestamp_field of
        None \<Rightarrow> Inl (ErrNew ''R2 Groups row is missing datetimeFiveMinutes'')
      | Some v \<Rightarrow>
          (case any_string v of
             None \<Rightarrow> Inl (ErrNew ''R2 Groups row has a malformed datetimeFiveMinutes'')
           | Some s \<Rightarrow>
               (case parse_rfc3339 s of
                  Some t \<Rightarrow>
                    if t = time_trunc t r2_bucket then Inr t
                    else Inl (ErrNew ''R2 Groups row has a malformed five-minute bucket timestamp'')
                | None \<Rightarrow> Inl (ErrNew ''R2 Groups row has a malformed five-minute bucket timestamp''))))"

definition bounded_r2_name :: "string \<Rightarrow> string" where
  "bounded_r2_name v =
     (if trim_space v = [] \<or> \<not> valid_string v \<or> rune_count v > 128 then ''other'' else v)"

definition ceil_r2_bucket :: "time \<Rightarrow> time" where
  "ceil_r2_bucket t = (if time_trunc t r2_bucket = t then t else time_trunc t r2_bucket + r2_bucket)"

definition check_r2_row :: "r2_spec \<Rightarrow> time \<Rightarrow> time \<Rightarrow> json \<Rightarrow> gerr option" where
  "check_r2_row spec fr to row =
     (case r2_row_time row of
        Inl e \<Rightarrow> Some e
      | Inr t \<Rightarrow> if t < fr \<or> \<not> t < to then Some (r2_error spec '' returned a bucket outside its half-open query window'')
                else None)"

definition r2_saturated :: "r2_spec \<Rightarrow> gerr \<Rightarrow> bool" where
  "r2_saturated spec e =
     (case as_saturation e of
        Some (SaturationError ds f t l) \<Rightarrow> equal_fold ds (rd_dataset spec)
      | _ \<Rightarrow> False)"

definition r2_request :: "r2_spec \<Rightarrow> string \<Rightarrow> r2_plan \<Rightarrow> time \<Rightarrow> time \<Rightarrow> graphql_request" where
  "r2_request spec account plan fr to =
     \<lparr>gr_scope = account_scope, gr_scope_id = account, gr_dataset = rd_dataset spec, gr_wanted = pl_fields plan,
      gr_join = [], gr_filter = [], gr_from = fr, gr_to = to, gr_limit = pl_limit plan\<rparr>"

text \<open>The query callback of the bisection.\<close>

definition r2_query :: "'w client \<Rightarrow> r2_spec \<Rightarrow> string \<Rightarrow> r2_plan \<Rightarrow> ('w, json) window_query" where
  "r2_query k spec account plan w fr to =
     (case cl_query k w (r2_request spec account plan fr to) of
        (w', Inl e) \<Rightarrow> (w', [], r2_saturated spec e, Some e)
      | (w', Inr j) \<Rightarrow>
          (case decode_any_rows j of
             None \<Rightarrow> (w', [], r2_saturated spec json_error, Some json_error)
           | Some rows \<Rightarrow>
               if int (length rows) \<ge> pl_limit plan then (w', [], True, None)
               else
                 (case first_error (check_r2_row spec fr to) rows of
                    Some e \<Rightarrow> (w', [], False, Some e)
                  | None \<Rightarrow> (w', rows, False, None))))"

definition saturated_reason :: "gerr \<Rightarrow> gerr option" where
  "saturated_reason e = (case e of SaturatedWindowError f t r c \<Rightarrow> Some r | _ \<Rightarrow> None)"

definition r2_query_rows ::
  "'w client \<Rightarrow> r2_spec \<Rightarrow> string \<Rightarrow> r2_plan \<Rightarrow> time \<Rightarrow> time \<Rightarrow> 'w \<Rightarrow> 'w \<times> (gerr + json list)" where
  "r2_query_rows k spec account plan fr to w =
     (case bisect fr to r2_bucket r2_bucket (r2_query k spec account plan) w of
        (w', Inr rows) \<Rightarrow> (w', Inr rows)
      | (w', Inl e) \<Rightarrow>
          (w', Inl (case errors_as saturated_reason e of
              Some reason \<Rightarrow>
                if errors_is reason ErrWindowIrreducible
                then r2_error spec '' remains saturated at the irreducible five-minute bucket''
                else r2_error spec '' cannot bisect a saturated interval on five-minute bucket boundaries''
            | None \<Rightarrow> e)))"

subsection \<open>Aggregation\<close>

type_synonym r2_key = "string \<times> string \<times> string"

record r2_point =
  pt_name :: string
  pt_gauge :: bool
  pt_value :: f64
  pt_time :: time
  pt_resource_key :: string
  pt_resource :: string
  pt_action :: string

type_synonym r2_points = "(r2_key \<times> r2_point) list"

definition new_r2_point :: "r2_spec \<Rightarrow> r2_metric \<Rightarrow> string \<Rightarrow> string \<Rightarrow> r2_point" where
  "new_r2_point spec d resource action =
     \<lparr>pt_name = rm_name d, pt_gauge = rm_gauge d, pt_value = 0, pt_time = 0,
      pt_resource_key = rd_resource_key spec, pt_resource = resource, pt_action = action\<rparr>"

definition update_r2_point :: "time \<Rightarrow> f64 \<Rightarrow> r2_metric \<Rightarrow> r2_point \<Rightarrow> r2_point" where
  "update_r2_point t v d p =
     (if rm_gauge d then
        (if t > pt_time p \<or> pt_time p = 0 then p\<lparr>pt_value := v, pt_time := t\<rparr>
         else if t = pt_time p \<and> v > pt_value p then p\<lparr>pt_value := v\<rparr> else p)
      else p\<lparr>pt_value := pt_value p + v\<rparr>)"

definition add_r2_value ::
  "r2_spec \<Rightarrow> json \<Rightarrow> time \<Rightarrow> string \<Rightarrow> string \<Rightarrow> r2_metric \<Rightarrow> r2_points \<Rightarrow> gerr + r2_points" where
  "add_r2_value spec row t resource action d ps =
     (case r2_field_value row (rm_field d) of
        None \<Rightarrow> Inl (r2_error spec ('' row is missing selected value field '' @ rm_field d))
      | Some raw \<Rightarrow>
          (case any_number raw of
             None \<Rightarrow> Inl (r2_error spec ('' row has an invalid value for '' @ rm_field d))
           | Some v \<Rightarrow>
               if v < 0 then Inl (r2_error spec ('' row has an invalid value for '' @ rm_field d))
               else
                 (let k = (rm_name d, resource, action);
                      p = (case map_of ps k of Some p \<Rightarrow> p | None \<Rightarrow> new_r2_point spec d resource action);
                      p' = update_r2_point t v d p
                  in if \<not> rm_gauge d \<and> pt_value p' > max_float64
                     then Inl (r2_error spec ('' counter overflow for '' @ rm_field d))
                     else Inr (AList.update k p' ps))))"

definition r2_resource :: "r2_spec \<Rightarrow> r2_plan \<Rightarrow> json \<Rightarrow> gerr + string" where
  "r2_resource spec plan row =
     (if \<not> pl_resource plan then Inr []
      else
        (case r2_field_value row (rd_resource_field spec) of
           None \<Rightarrow> Inl (r2_error spec '' row is missing its selected resource name'')
         | Some raw \<Rightarrow>
             (case (if raw = JNull then Some [] else any_string raw) of
                None \<Rightarrow> Inl (r2_error spec '' row has a malformed selected resource name'')
              | Some n \<Rightarrow> Inr (bounded_r2_name n))))"

definition r2_action :: "r2_plan \<Rightarrow> json \<Rightarrow> string" where
  "r2_action plan row =
     (if \<not> pl_action plan then []
      else bounded_r2_name (case r2_field_value row ''dimensions.actionType'' of
               None \<Rightarrow> [] | Some raw \<Rightarrow> (case any_string raw of None \<Rightarrow> [] | Some s \<Rightarrow> s)))"

definition add_r2_row ::
  "r2_spec \<Rightarrow> r2_plan \<Rightarrow> time \<Rightarrow> time \<Rightarrow> json \<Rightarrow> r2_points \<Rightarrow> gerr + r2_points" where
  "add_r2_row spec plan fr to row ps =
     (case r2_row_time row of
        Inl e \<Rightarrow> Inl e
      | Inr t \<Rightarrow>
          if t < fr \<or> \<not> t < to \<or> t + r2_bucket > to
          then Inl (r2_error spec '' returned an incomplete or out-of-window bucket'')
          else
            (case r2_resource spec plan row of
               Inl e \<Rightarrow> Inl e
             | Inr resource \<Rightarrow>
                 fold_err (add_r2_value spec row t resource (r2_action plan row)) (rd_metrics spec) ps))"

definition aggregate_r2_rows ::
  "r2_spec \<Rightarrow> r2_plan \<Rightarrow> time \<Rightarrow> time \<Rightarrow> json list \<Rightarrow> gerr + r2_points" where
  "aggregate_r2_rows spec plan fr to rows = fold_err (add_r2_row spec plan fr to) rows []"

subsection \<open>Admission\<close>

definition admitted_count :: "string \<Rightarrow> r2_key list \<Rightarrow> nat" where
  "admitted_count m admitted = length (filter (\<lambda>k. fst k = m) admitted)"

definition to_remainder :: "r2_spec \<Rightarrow> r2_key \<Rightarrow> r2_point \<Rightarrow> r2_key \<times> r2_point" where
  "to_remainder spec k p =
     (case k of (m, resource, action) \<Rightarrow>
        if rd_collector spec = ''r2.operations''
        then ((m, ''other'', ''other''), p\<lparr>pt_resource := ''other'', pt_action := ''other''\<rparr>)
        else ((m, ''other'', action), p\<lparr>pt_resource := ''other''\<rparr>))"

text \<open>The account aggregate and the remainder need no admission.\<close>

definition r2_unnamed :: "r2_key \<Rightarrow> bool" where
  "r2_unnamed k \<longleftrightarrow> (fst (snd k) = [] \<and> snd (snd k) = []) \<or> fst (snd k) = ''other'' \<or> snd (snd k) = ''other''"

definition admit_r2 ::
  "r2_spec \<Rightarrow> r2_key \<Rightarrow> r2_point \<Rightarrow> r2_key list \<Rightarrow> (r2_key \<times> r2_point) \<times> r2_key list" where
  "admit_r2 spec k p admitted =
     (if r2_unnamed k then (to_remainder spec k p, admitted)
      else if k \<in> set admitted then ((k, p), admitted)
      else if admitted_count (fst k) admitted < 49 then ((k, p), k # admitted)
      else (to_remainder spec k p, admitted))"

definition merge_r2_point :: "r2_key \<Rightarrow> r2_point \<Rightarrow> r2_points \<Rightarrow> r2_points" where
  "merge_r2_point k p res =
     (case map_of res k of
        None \<Rightarrow> AList.update k p res
      | Some prev \<Rightarrow>
          AList.update k (if pt_gauge p then prev\<lparr>pt_value := max (pt_value prev) (pt_value p)\<rparr>
                          else prev\<lparr>pt_value := pt_value prev + pt_value p\<rparr>) res)"

fun cap_loop :: "r2_spec \<Rightarrow> r2_points \<Rightarrow> r2_key list \<Rightarrow> r2_points \<Rightarrow> r2_points \<times> r2_key list" where
  "cap_loop spec [] admitted res = (res, admitted)"
| "cap_loop spec ((k, p) # ps) admitted res =
     (case admit_r2 spec k p admitted of
        ((k', p'), admitted') \<Rightarrow> cap_loop spec ps admitted' (merge_r2_point k' p' res))"

definition cap_resources :: "r2_spec \<Rightarrow> r2_points \<Rightarrow> r2_key list \<Rightarrow> r2_points \<times> r2_key list" where
  "cap_resources spec ps admitted = cap_loop spec (sort_key fst ps) admitted []"

subsection \<open>A window\<close>

definition r2_emission :: "r2_point \<Rightarrow> emission" where
  "r2_emission p =
     (let attrs = (if pt_resource_key p \<noteq> [] \<and> pt_resource p \<noteq> []
                   then [\<lparr>key = pt_resource_key p, val = pt_resource p\<rparr>] else []) @
                  (if pt_action p \<noteq> [] then [\<lparr>key = ''cloudflare.r2.action_type'', val = pt_action p\<rparr>] else [])
      in if pt_gauge p then EGauge (pt_name p) (pt_value p) attrs
         else ECounter (pt_name p) (pt_value p) attrs)"

definition r2_emissions :: "int \<Rightarrow> r2_points \<Rightarrow> emission list" where
  "r2_emissions configured ps =
     (let limit = (if configured \<le> 0 then 500 else configured)
      in map (\<lambda>(k, p). r2_emission p) (take (nat limit) (sort_key fst ps)))"

record r2_config =
  rc_account :: string
  rc_series :: int

text \<open>The part of \<open>CollectWindow\<close> that reads: the end of the complete buckets and their series.\<close>

definition r2_read_plan ::
  "'w client \<Rightarrow> r2_spec \<Rightarrow> r2_config \<Rightarrow> r2_plan \<Rightarrow> time \<Rightarrow> time \<Rightarrow> 'w \<Rightarrow> 'w \<times> (gerr + time \<times> r2_points)"
where
  "r2_read_plan k spec cfg plan fr to w =
     (let cf = ceil_r2_bucket fr; ct = time_trunc to r2_bucket
      in if \<not> cf < ct then (w, Inl (ErrNew ''window contains no complete five-minute bucket''))
         else
           (case r2_query_rows k spec (rc_account cfg) plan cf ct w of
              (w1, Inl e) \<Rightarrow> (w1, Inl (ErrWrap (''query R2 Groups dataset '' @ rd_dataset spec @ '': '') e))
            | (w1, Inr rows) \<Rightarrow>
                (case aggregate_r2_rows spec plan cf ct rows of
                   Inl e \<Rightarrow> (w1, Inl e)
                 | Inr points \<Rightarrow>
                     (case cl_ctx_err k w1 of
                        (w2, Some e) \<Rightarrow> (w2, Inl e)
                      | (w2, None) \<Rightarrow> (w2, Inr (ct, points))))))"

definition r2_read ::
  "'w client \<Rightarrow> r2_spec \<Rightarrow> r2_config \<Rightarrow> time \<Rightarrow> time \<Rightarrow> 'w \<Rightarrow> 'w \<times> (gerr + time \<times> r2_points)"
where
  "r2_read k spec cfg fr to w =
     (if \<not> fr < to then (w, Inl (ErrNew ''invalid R2 Groups window''))
      else if rc_account cfg = [] then
        (w, Inl (ErrNew ''R2 Groups require a configured Cloudflare account''))
      else
        (case cl_settings k w account_scope (rc_account cfg) (rd_dataset spec) of
           (w1, Inl e) \<Rightarrow> (w1, Inl (ErrWrap ''read R2 dataset settings: '' e))
         | (w1, Inr settings) \<Rightarrow>
             (case build_r2_plan spec settings of
                Inl e \<Rightarrow> (w1, Inl e)
              | Inr plan \<Rightarrow> r2_read_plan k spec cfg plan fr to w1)))"

text \<open>\<open>CollectWindow\<close>: the state is the world of the client and the admitted keys.\<close>

definition r2_collect ::
  "'w client \<Rightarrow> r2_spec \<Rightarrow> r2_config \<Rightarrow> 's emit \<Rightarrow> time \<Rightarrow> time \<Rightarrow> 's \<Rightarrow> 'w \<times> r2_key list \<Rightarrow>
   ('w \<times> r2_key list) \<times> 's \<times> time \<times> gerr option" where
  "r2_collect k spec cfg emit fr to out st =
     (case st of (w, admitted) \<Rightarrow>
      (case r2_read k spec cfg fr to w of
         (w1, Inl e) \<Rightarrow> ((w1, admitted), out, fr, Some e)
       | (w1, Inr (ct, points)) \<Rightarrow>
           (case cap_resources spec points admitted of
              (capped, admitted') \<Rightarrow>
                (case emit_all emit out (r2_emissions (rc_series cfg) capped) of
                   (out', Some e) \<Rightarrow> ((w1, admitted'), out', fr, Some e)
                 | (out', None) \<Rightarrow> ((w1, admitted'), out', ct, None)))))"

end
