(* ===== verification/R2Props.thy ===== *)
theory R2Props
  imports R2 Admission "HOL-Library.Multiset"
begin

text \<open>
  The R2 collectors lose nothing: what the counters of a window report is the sum over the rows of its complete
  buckets, whatever the admission folds together, and admission keeps the number of series bounded for ever.
\<close>

subsection \<open>Sums over series\<close>

definition metric_sum :: "string \<Rightarrow> r2_points \<Rightarrow> f64" where
  "metric_sum m ps = sum_list (map (\<lambda>(k, p). if fst k = m then pt_value p else 0) ps)"

definition metric_value :: "r2_metric \<Rightarrow> json \<Rightarrow> f64" where
  "metric_value d row =
     (case r2_field_value row (rm_field d) of
        None \<Rightarrow> 0 | Some raw \<Rightarrow> (case any_number raw of None \<Rightarrow> 0 | Some v \<Rightarrow> v))"

lemma metric_sum_simps [simp]:
  "metric_sum m [] = 0"
  "metric_sum m ((k, p) # ps) = (if fst k = m then pt_value p else 0) + metric_sum m ps"
  by (simp_all add: metric_sum_def)

lemma metric_sum_update:
  "distinct (map fst ps) \<Longrightarrow>
   metric_sum m (AList.update k p ps) =
     metric_sum m ps + (if fst k = m then pt_value p - (case map_of ps k of Some q \<Rightarrow> pt_value q | None \<Rightarrow> 0) else 0)"
  by (induction ps) auto

lemma metric_sum_sort: "metric_sum m (sort_key f ps) = metric_sum m ps"
proof -
  have "mset (map g (sort_key f ps)) = mset (map g ps)" for g :: "r2_key \<times> r2_point \<Rightarrow> f64" by simp
  then show ?thesis unfolding metric_sum_def by (metis sum_mset_sum_list)
qed

subsection \<open>Aggregation\<close>

text \<open>The shape of the series of a data set.\<close>

definition points_ok :: "r2_spec \<Rightarrow> r2_points \<Rightarrow> bool" where
  "points_ok spec ps \<longleftrightarrow> distinct (map fst ps) \<and>
     (\<forall>(k, p) \<in> set ps. pt_name p = fst k \<and> (\<exists>d \<in> set (rd_metrics spec). rm_name d = fst k \<and> rm_gauge d = pt_gauge p) \<and>
        (rd_collector spec = ''r2.operations'' \<or> snd (snd k) = []))"

lemma points_okD:
  assumes "points_ok spec ps"
  shows "distinct (map fst ps)"
    "(k, p) \<in> set ps \<Longrightarrow> pt_name p = fst k \<and> (\<exists>d \<in> set (rd_metrics spec). rm_name d = fst k \<and> rm_gauge d = pt_gauge p) \<and>
       (rd_collector spec = ''r2.operations'' \<or> snd (snd k) = [])"
  using assms unfolding points_ok_def by blast+

lemma points_ok_update:
  assumes "points_ok spec ps" "pt_name p = fst k" "\<exists>d \<in> set (rd_metrics spec). rm_name d = fst k \<and> rm_gauge d = pt_gauge p"
    "rd_collector spec = ''r2.operations'' \<or> snd (snd k) = []"
  shows "points_ok spec (AList.update k p ps)"
proof -
  have "set (AList.update k p ps) \<subseteq> insert (k, p) (set ps)" by (induction ps) auto
  then show ?thesis using assms unfolding points_ok_def
    by (auto simp: distinct_update)
qed

lemma add_r2_value_ok:
  assumes r: "add_r2_value spec row t resource action d ps = Inr ps'" and ok: "points_ok spec ps"
    and d: "d \<in> set (rd_metrics spec)" and a: "rd_collector spec = ''r2.operations'' \<or> action = []"
    and names: "inj_on rm_name (set (rd_metrics spec))"
  shows "points_ok spec ps' \<and>
    (\<forall>d0 \<in> set (rd_metrics spec). \<not> rm_gauge d0 \<longrightarrow>
       metric_sum (rm_name d0) ps' = metric_sum (rm_name d0) ps + (if d0 = d then metric_value d row else 0))"
proof -
  let ?k = "(rm_name d, resource, action)"
  define p where "p = (case map_of ps ?k of Some p \<Rightarrow> p | None \<Rightarrow> new_r2_point spec d resource action)"
  from r obtain raw v where v: "r2_field_value row (rm_field d) = Some raw" "any_number raw = Some v"
    and ps': "ps' = AList.update ?k (update_r2_point t v d p) ps"
    by (auto simp: add_r2_value_def Let_def p_def split: option.splits if_splits)
  have p: "pt_name p = rm_name d \<and> pt_gauge p = rm_gauge d"
  proof (cases "map_of ps ?k")
    case None
    then show ?thesis by (simp add: p_def new_r2_point_def)
  next
    case (Some q)
    from points_okD(2) [OF ok map_of_SomeD [OF Some]] names d Some show ?thesis
      by (auto simp: p_def dest: inj_onD)
  qed
  then have p': "pt_name (update_r2_point t v d p) = rm_name d" "pt_gauge (update_r2_point t v d p) = rm_gauge d"
    by (simp_all add: update_r2_point_def)
  have prev: "(case map_of ps ?k of Some q \<Rightarrow> pt_value q | None \<Rightarrow> 0) = pt_value p"
    by (simp add: p_def new_r2_point_def split: option.split)
  have "points_ok spec ps'" unfolding ps' using d p' a by (intro points_ok_update [OF ok]) auto
  moreover have "metric_sum (rm_name d0) ps' = metric_sum (rm_name d0) ps + (if d0 = d then metric_value d row else 0)"
    if d0: "d0 \<in> set (rd_metrics spec)" "\<not> rm_gauge d0" for d0
  proof (cases "d0 = d")
    case True
    with d0 show ?thesis unfolding ps' metric_sum_update [OF points_okD(1) [OF ok]] prev
      by (simp add: update_r2_point_def metric_value_def v)
  next
    case False
    then have "rm_name d0 \<noteq> rm_name d" using names d d0 by (auto dest: inj_onD)
    with False show ?thesis unfolding ps' metric_sum_update [OF points_okD(1) [OF ok]] by simp
  qed
  ultimately show ?thesis by blast
qed

lemma fold_metrics_ok:
  assumes "fold_err (add_r2_value spec row t resource action) ds ps = Inr ps'" "points_ok spec ps"
    and "set ds \<subseteq> set (rd_metrics spec)" "distinct ds" and a: "rd_collector spec = ''r2.operations'' \<or> action = []"
    and names: "inj_on rm_name (set (rd_metrics spec))"
  shows "points_ok spec ps' \<and>
    (\<forall>d0 \<in> set (rd_metrics spec). \<not> rm_gauge d0 \<longrightarrow>
       metric_sum (rm_name d0) ps' = metric_sum (rm_name d0) ps + (if d0 \<in> set ds then metric_value d0 row else 0))"
  using assms(1-4)
proof (induction ds arbitrary: ps)
  case (Cons d ds)
  then obtain ps1 where 1: "add_r2_value spec row t resource action d ps = Inr ps1"
    and 2: "fold_err (add_r2_value spec row t resource action) ds ps1 = Inr ps'" by (auto split: sum.splits)
  have "d \<in> set (rd_metrics spec)" using Cons.prems(3) by simp
  note s = add_r2_value_ok [OF 1 Cons.prems(2) this a names]
  have "points_ok spec ps1" "set ds \<subseteq> set (rd_metrics spec)" "distinct ds" using s Cons.prems by simp_all
  note IH = Cons.IH [OF 2 this]
  have "metric_sum (rm_name d0) ps' =
      metric_sum (rm_name d0) ps + (if d0 \<in> set (d # ds) then metric_value d0 row else 0)"
    if "d0 \<in> set (rd_metrics spec)" "\<not> rm_gauge d0" for d0
    using s IH that Cons.prems(4) by auto
  with IH show ?case by blast
qed simp

lemma aggregate_ok:
  assumes r: "aggregate_r2_rows spec plan fr to rows = Inr ps"
    and names: "distinct (map rm_name (rd_metrics spec))"
    and a: "rd_collector spec = ''r2.operations'' \<or> \<not> pl_action plan"
  shows "points_ok spec ps \<and>
    (\<forall>d \<in> set (rd_metrics spec). \<not> rm_gauge d \<longrightarrow>
       metric_sum (rm_name d) ps = sum_list (map (metric_value d) rows))"
proof -
  have names': "inj_on rm_name (set (rd_metrics spec))" "distinct (rd_metrics spec)"
    using names by (simp_all add: distinct_map)
  have "points_ok spec ps \<and>
    (\<forall>d \<in> set (rd_metrics spec). \<not> rm_gauge d \<longrightarrow>
       metric_sum (rm_name d) ps = metric_sum (rm_name d) ps0 + sum_list (map (metric_value d) rows))"
    if "fold_err (add_r2_row spec plan fr to) rows ps0 = Inr ps" "points_ok spec ps0" for ps0
    using that
  proof (induction rows arbitrary: ps0)
    case (Cons row rows)
    then obtain ps1 where 1: "add_r2_row spec plan fr to row ps0 = Inr ps1"
      and 2: "fold_err (add_r2_row spec plan fr to) rows ps1 = Inr ps" by (auto split: sum.splits)
    from 1 obtain t resource where
      "fold_err (add_r2_value spec row t resource (r2_action plan row)) (rd_metrics spec) ps0 = Inr ps1"
      by (auto simp: add_r2_row_def split: sum.splits if_splits)
    moreover have "rd_collector spec = ''r2.operations'' \<or> r2_action plan row = []"
      using a by (auto simp: r2_action_def)
    ultimately have s: "points_ok spec ps1 \<and>
        (\<forall>d0 \<in> set (rd_metrics spec). \<not> rm_gauge d0 \<longrightarrow>
           metric_sum (rm_name d0) ps1 = metric_sum (rm_name d0) ps0 + metric_value d0 row)"
      using fold_metrics_ok [OF _ Cons.prems(2) subset_refl names'(2) _ names'(1)] by fastforce
    from Cons.IH [OF 2] s show ?case by auto
  qed simp
  from this [of "[]"] r show ?thesis by (simp add: aggregate_r2_rows_def points_ok_def)
qed

subsection \<open>Admission\<close>

lemma points_ok_perm: "mset ps' = mset ps \<Longrightarrow> points_ok spec ps \<Longrightarrow> points_ok spec ps'"
proof -
  assume m: "mset ps' = mset ps" and ok: "points_ok spec ps"
  have "mset (map fst ps') = mset (map fst ps)" using m by simp
  then have "distinct (map fst ps')" using ok mset_eq_imp_distinct_iff unfolding points_ok_def by blast
  moreover have "set ps' = set ps" using m by (rule mset_eq_setD)
  ultimately show "points_ok spec ps'" using ok by (simp add: points_ok_def)
qed

lemma merge_r2_point_ok:
  assumes "points_ok spec res" "pt_name p = fst k" "d \<in> set (rd_metrics spec)" "rm_name d = fst k" "rm_gauge d = pt_gauge p"
    and "rd_collector spec = ''r2.operations'' \<or> snd (snd k) = []" and names: "inj_on rm_name (set (rd_metrics spec))"
  shows "points_ok spec (merge_r2_point k p res) \<and>
    (\<not> pt_gauge p \<or> fst k \<noteq> m \<longrightarrow>
       metric_sum m (merge_r2_point k p res) = metric_sum m res + (if fst k = m then pt_value p else 0))"
proof -
  note sums = metric_sum_update [OF points_okD(1) [OF assms(1)]]
  show ?thesis
  proof (cases "map_of res k")
    case None
    with assms sums show ?thesis by (auto simp: merge_r2_point_def intro!: points_ok_update)
  next
    case (Some q)
    define n where "n = (if pt_gauge p then q\<lparr>pt_value := max (pt_value q) (pt_value p)\<rparr>
                         else q\<lparr>pt_value := pt_value q + pt_value p\<rparr>)"
    from points_okD(2) [OF assms(1) map_of_SomeD [OF Some]]
    have q: "pt_name n = fst k" "\<exists>d \<in> set (rd_metrics spec). rm_name d = fst k \<and> rm_gauge d = pt_gauge n"
      by (auto simp: n_def)
    have "merge_r2_point k p res = AList.update k n res" using Some by (simp add: merge_r2_point_def n_def)
    with points_ok_update [OF assms(1) q assms(6)] sums [of m k n] Some show ?thesis
      by (auto simp: n_def)
  qed
qed

text \<open>The keys admitted so far.\<close>

definition admitted_ok :: "r2_key list \<Rightarrow> bool" where
  "admitted_ok admitted \<longleftrightarrow> distinct admitted \<and> (\<forall>m. admitted_count m admitted \<le> 49) \<and>
     (\<forall>k \<in> set admitted. \<not> r2_unnamed k)"

lemma to_remainder_ok:
  "to_remainder spec k p = (k', p') \<Longrightarrow>
   fst k' = fst k \<and> fst (snd k') = ''other'' \<and> pt_value p' = pt_value p \<and> pt_name p' = pt_name p \<and>
   pt_gauge p' = pt_gauge p \<and>
   (rd_collector spec = ''r2.operations'' \<longrightarrow> snd (snd k') = ''other'') \<and>
   (rd_collector spec \<noteq> ''r2.operations'' \<longrightarrow> snd (snd k') = snd (snd k))"
  by (cases k) (simp add: to_remainder_def split: if_split_asm, auto)

lemma admit_r2_cases:
  assumes "admit_r2 spec k p admitted = ((k', p'), admitted')" "admitted_ok admitted"
  obtains "to_remainder spec k p = (k', p')" "admitted' = admitted" "k \<notin> set admitted"
  | "k' = k" "p' = p" "k \<in> set admitted" "admitted' = admitted"
  | "k' = k" "p' = p" "admitted' = k # admitted" "admitted_ok admitted'"
proof -
  have un: "r2_unnamed k \<Longrightarrow> k \<notin> set admitted" using assms(2) by (auto simp: admitted_ok_def)
  have new: "admitted_ok (k # admitted)"
    if "\<not> r2_unnamed k" "k \<notin> set admitted" "admitted_count (fst k) admitted < 49"
    using that assms(2) by (simp add: admitted_ok_def admitted_count_def)
  show ?thesis
    using assms(1) un new that unfolding admit_r2_def by (metis prod.inject)
qed

definition remainder_key :: "r2_spec \<Rightarrow> r2_key \<Rightarrow> bool" where
  "remainder_key spec k \<longleftrightarrow> fst (snd k) = ''other'' \<and>
     snd (snd k) = (if rd_collector spec = ''r2.operations'' then ''other'' else [])"

text \<open>The keys alone, as an instance of the shared contract of admission.\<close>

definition admit_r2_key :: "r2_spec \<Rightarrow> r2_point \<Rightarrow> r2_key \<Rightarrow> r2_key list \<Rightarrow> r2_key \<times> r2_key list" where
  "admit_r2_key spec p k admitted = (case admit_r2 spec k p admitted of ((k', _), admitted') \<Rightarrow> (k', admitted'))"

definition key_of_spec :: "r2_spec \<Rightarrow> r2_key \<Rightarrow> bool" where
  "key_of_spec spec k \<longleftrightarrow> rd_collector spec = ''r2.operations'' \<or> snd (snd k) = []"

lemma admit_r2_key_cases:
  assumes "admitted_ok admitted"
  obtains (remainder) k' p' where "to_remainder spec k p = (k', p')" "admit_r2_key spec p k admitted = (k', admitted)"
      "k \<notin> set admitted"
  | (known) "admit_r2_key spec p k admitted = (k, admitted)" "k \<in> set admitted"
  | (new) "admit_r2_key spec p k admitted = (k, k # admitted)" "admitted_ok (k # admitted)" "k \<notin> set admitted"
proof -
  obtain k' p' admitted' where a: "admit_r2 spec k p admitted = ((k', p'), admitted')" by (metis surj_pair)
  then have e: "admit_r2_key spec p k admitted = (k', admitted')" by (simp add: admit_r2_key_def)
  from a assms show thesis
  proof (cases rule: admit_r2_cases)
    case 1
    with e show thesis by (intro remainder) simp_all
  next
    case 2
    with e show thesis by (intro known) simp_all
  next
    case 3
    then have "distinct (k # admitted)" using \<open>admitted_ok admitted'\<close> by (simp add: admitted_ok_def)
    with 3 e show thesis by (intro new) simp_all
  qed
qed

interpretation r2: series_admission "admit_r2_key spec p" set fst "{k. remainder_key spec k}" "key_of_spec spec" admitted_ok
  for spec p
proof (unfold_locales, goal_cases)
  case (1 s k)
  show ?case by (cases rule: admit_r2_key_cases [OF 1, of spec k p]) (use 1 in auto)
next
  case (2 s k)
  show ?case by (cases rule: admit_r2_key_cases [OF 2, of spec k p]) (use 2 in auto)
next
  case (3 s k)
  show ?case
  proof (cases rule: admit_r2_key_cases [OF 3(1), of spec k p])
    case (1 k' p')
    with to_remainder_ok [OF 1(1)] 3(2) show ?thesis
      by (cases "rd_collector spec = ''r2.operations''") (simp_all add: remainder_key_def key_of_spec_def)
  qed simp_all
next
  case (4 s k)
  show ?case by (cases rule: admit_r2_key_cases [OF 4(1), of spec k p]) (use 4 in auto)
next
  case (5 s m)
  then show ?case by simp
next
  case (6 s m)
  have "{k \<in> set s. fst k = m} = set (filter (\<lambda>k. fst k = m) s)" by auto
  then have "card {k \<in> set s. fst k = m} \<le> admitted_count m s"
    using card_length [of "filter (\<lambda>k. fst k = m) s"] by (simp add: admitted_count_def)
  with 6 show ?case unfolding admitted_ok_def by (meson le_trans)
next
  case (7 k k')
  then show ?case by (auto simp: remainder_key_def prod_eq_iff)
qed

lemma merge_keys: "fst ` set (merge_r2_point k p res) = insert k (fst ` set res)"
  by (auto simp: merge_r2_point_def dom_update split: option.split)

lemma points_ok_Cons: "points_ok spec (x # ps) \<Longrightarrow> points_ok spec ps"
  by (simp add: points_ok_def)

lemma cap_loop_ok:
  assumes "cap_loop spec ps admitted res = (res', admitted')" "points_ok spec ps" "points_ok spec res"
    and "admitted_ok admitted" and names: "inj_on rm_name (set (rd_metrics spec))"
    and counter: "\<And>d. d \<in> set (rd_metrics spec) \<Longrightarrow> rm_name d = m \<Longrightarrow> \<not> rm_gauge d"
  shows "points_ok spec res' \<and> admitted_ok admitted' \<and> set admitted \<subseteq> set admitted' \<and>
    fst ` set res' \<subseteq> fst ` set res \<union> set admitted' \<union> {k. remainder_key spec k} \<and>
    metric_sum m res' = metric_sum m res + metric_sum m ps"
  using assms(1-4)
proof (induction ps arbitrary: admitted res)
  case (Cons x ps)
  obtain k p where x: "x = (k, p)" by (cases x)
  obtain k' p' admitted1 where a: "admit_r2 spec k p admitted = ((k', p'), admitted1)" by (metis surj_pair)
  with Cons.prems(1) x have 2: "cap_loop spec ps admitted1 (merge_r2_point k' p' res) = (res', admitted')" by simp
  from points_okD(2) [OF Cons.prems(2), of k p] x obtain d where
    p: "pt_name p = fst k" "rd_collector spec = ''r2.operations'' \<or> snd (snd k) = []" and
    d: "d \<in> set (rd_metrics spec)" "rm_name d = fst k" "rm_gauge d = pt_gauge p" by auto
  have k': "fst k' = fst k \<and> pt_value p' = pt_value p \<and> pt_name p' = pt_name p \<and> pt_gauge p' = pt_gauge p \<and>
      admitted_ok admitted1 \<and> set admitted \<subseteq> set admitted1 \<and> (k' \<in> set admitted1 \<or> remainder_key spec k') \<and>
      (rd_collector spec = ''r2.operations'' \<or> snd (snd k') = [])"
    using a Cons.prems(4)
  proof (cases rule: admit_r2_cases)
    case 1
    with to_remainder_ok [OF 1(1)] p(2) Cons.prems(4) show ?thesis
      by (cases "rd_collector spec = ''r2.operations''") (simp_all add: remainder_key_def)
  qed (use p Cons.prems(4) in auto)
  have mo: "points_ok spec (merge_r2_point k' p' res) \<and>
      (\<not> pt_gauge p' \<or> fst k' \<noteq> m \<longrightarrow>
         metric_sum m (merge_r2_point k' p' res) = metric_sum m res + (if fst k' = m then pt_value p' else 0))"
    by (rule merge_r2_point_ok [OF Cons.prems(3) _ d(1) _ _ _ names]) (use k' p d in simp_all)
  have "\<not> pt_gauge p' \<or> fst k' \<noteq> m" using counter [OF d(1)] d(2,3) k' by auto
  with mo have sum: "metric_sum m (merge_r2_point k' p' res) = metric_sum m res + (if fst k = m then pt_value p else 0)"
    using k' by simp
  have IH: "points_ok spec res' \<and> admitted_ok admitted' \<and> set admitted1 \<subseteq> set admitted' \<and>
      fst ` set res' \<subseteq> insert k' (fst ` set res) \<union> set admitted' \<union> {k. remainder_key spec k} \<and>
      metric_sum m res' = metric_sum m (merge_r2_point k' p' res) + metric_sum m ps"
    using Cons.IH [OF 2 points_ok_Cons [OF Cons.prems(2)]] mo k' by (simp add: merge_keys)
  with sum k' x show ?case by auto
qed auto

lemma cap_resources_ok:
  assumes "cap_resources spec ps admitted = (res, admitted')" "points_ok spec ps" "admitted_ok admitted"
    and names: "distinct (map rm_name (rd_metrics spec))"
  shows "points_ok spec res" "admitted_ok admitted'" "set admitted \<subseteq> set admitted'"
    "fst ` set res \<subseteq> set admitted' \<union> {k. remainder_key spec k}"
    "d \<in> set (rd_metrics spec) \<Longrightarrow> \<not> rm_gauge d \<Longrightarrow> metric_sum (rm_name d) res = metric_sum (rm_name d) ps"
proof -
  have n: "inj_on rm_name (set (rd_metrics spec))" using names by (simp add: distinct_map)
  have sorted: "points_ok spec (sort_key fst ps)" using points_ok_perm [OF _ assms(2)] by simp
  have empty: "points_ok spec []" by (simp add: points_ok_def)
  note c = cap_loop_ok [OF assms(1) [unfolded cap_resources_def] sorted empty assms(3) n]
  show "points_ok spec res" "admitted_ok admitted'" "set admitted \<subseteq> set admitted'"
    "fst ` set res \<subseteq> set admitted' \<union> {k. remainder_key spec k}"
  proof -
    obtain m where "m \<notin> rm_name ` set (rd_metrics spec)"
      using ex_new_if_finite [of "rm_name ` set (rd_metrics spec)"] by (auto simp: infinite_UNIV_listI)
    then have "\<And>d. d \<in> set (rd_metrics spec) \<Longrightarrow> rm_name d = m \<Longrightarrow> \<not> rm_gauge d" by blast
    from c [OF this] show "points_ok spec res" "admitted_ok admitted'" "set admitted \<subseteq> set admitted'"
      "fst ` set res \<subseteq> set admitted' \<union> {k. remainder_key spec k}" by simp_all
  qed
  assume d: "d \<in> set (rd_metrics spec)" "\<not> rm_gauge d"
  then have "\<And>d'. d' \<in> set (rd_metrics spec) \<Longrightarrow> rm_name d' = rm_name d \<Longrightarrow> \<not> rm_gauge d'"
    using n by (auto dest: inj_onD)
  from c [OF this] show "metric_sum (rm_name d) res = metric_sum (rm_name d) ps" by (simp add: metric_sum_sort)
qed

text \<open>An admitted series is reported on its own.\<close>

lemma admit_r2_other:
  assumes "admit_r2 spec k p admitted = ((k', p'), admitted')" "admitted_ok admitted" "\<not> r2_unnamed j" "k \<noteq> j"
  shows "k' \<noteq> j \<and> admitted_ok admitted' \<and> set admitted \<subseteq> set admitted'"
  using assms(1,2)
proof (cases rule: admit_r2_cases)
  case 1
  with to_remainder_ok [OF 1(1)] assms(2,3) show ?thesis by (auto simp: r2_unnamed_def)
qed (use assms in auto)

lemma merge_other: "k' \<noteq> j \<Longrightarrow> map_of (merge_r2_point k' p' res) j = map_of res j"
  by (simp add: merge_r2_point_def update_conv' split: option.split)

lemma cap_loop_other:
  "cap_loop spec ps admitted res = (res', admitted') \<Longrightarrow> admitted_ok admitted \<Longrightarrow> \<not> r2_unnamed j \<Longrightarrow>
   j \<notin> fst ` set ps \<Longrightarrow> map_of res' j = map_of res j"
proof (induction ps arbitrary: admitted res)
  case (Cons x ps)
  obtain k p where x: "x = (k, p)" by (cases x)
  obtain k' p' admitted1 where a: "admit_r2 spec k p admitted = ((k', p'), admitted1)" by (metis surj_pair)
  from Cons.prems(4) x have "k \<noteq> j" by auto
  from admit_r2_other [OF a Cons.prems(2,3) this] have o: "k' \<noteq> j" "admitted_ok admitted1" by blast+
  from Cons.prems(1) x a have "cap_loop spec ps admitted1 (merge_r2_point k' p' res) = (res', admitted')" by simp
  from Cons.IH [OF this o(2) Cons.prems(3)] Cons.prems(4) merge_other [OF o(1)] show ?case by simp
qed simp

lemma cap_loop_keeps:
  "cap_loop spec ps admitted res = (res', admitted') \<Longrightarrow> admitted_ok admitted \<Longrightarrow> k \<in> set admitted \<Longrightarrow>
   distinct (map fst ps) \<Longrightarrow> (k, p) \<in> set ps \<Longrightarrow> map_of res k = None \<Longrightarrow> map_of res' k = Some p"
proof (induction ps arbitrary: admitted res)
  case (Cons x ps)
  obtain k1 p1 where x: "x = (k1, p1)" by (cases x)
  have named: "\<not> r2_unnamed k" using Cons.prems(2,3) by (auto simp: admitted_ok_def)
  show ?case
  proof (cases "k1 = k")
    case True
    with Cons.prems(4,5) x have p1: "p1 = p" "k \<notin> fst ` set ps" by (force dest: image_eqI [of k fst])+
    have "admit_r2 spec k p admitted = ((k, p), admitted)"
      using named Cons.prems(3) by (simp add: admit_r2_def)
    with Cons.prems(1) True x p1 have "cap_loop spec ps admitted (merge_r2_point k p res) = (res', admitted')" by simp
    from cap_loop_other [OF this Cons.prems(2) named p1(2)] Cons.prems(6) show ?thesis
      by (simp add: merge_r2_point_def update_conv')
  next
    case False
    obtain k' p' admitted1 where a: "admit_r2 spec k1 p1 admitted = ((k', p'), admitted1)" by (metis surj_pair)
    note o = admit_r2_other [OF a Cons.prems(2) named False]
    from Cons.prems(1) x a have "cap_loop spec ps admitted1 (merge_r2_point k' p' res) = (res', admitted')" by simp
    from Cons.IH [OF this] o Cons.prems(3-6) False x show ?thesis by (auto simp: merge_other)
  qed
qed simp

fun cap_polls :: "r2_spec \<Rightarrow> r2_points list \<Rightarrow> r2_key list \<Rightarrow> r2_points list" where
  "cap_polls spec [] admitted = []"
| "cap_polls spec (ps # pss) admitted =
     (case cap_resources spec ps admitted of (res, admitted') \<Rightarrow> res # cap_polls spec pss admitted')"

lemma cap_polls_keys:
  assumes "\<forall>ps \<in> set pss. points_ok spec ps" "admitted_ok admitted" "distinct (map rm_name (rd_metrics spec))"
  shows "\<exists>final. admitted_ok final \<and> set admitted \<subseteq> set final \<and>
    fst ` set (concat (cap_polls spec pss admitted)) \<subseteq> set final \<union> {k. remainder_key spec k}"
  using assms(1,2)
proof (induction pss arbitrary: admitted)
  case (Cons ps pss)
  obtain res admitted' where c: "cap_resources spec ps admitted = (res, admitted')" by (metis surj_pair)
  have "points_ok spec ps" using Cons.prems(1) by simp
  note ok = cap_resources_ok [OF c this Cons.prems(2) assms(3)]
  have "\<forall>ps \<in> set pss. points_ok spec ps" using Cons.prems(1) by simp
  from Cons.IH [OF this ok(2)] obtain final where f: "admitted_ok final" "set admitted' \<subseteq> set final"
    "fst ` set (concat (cap_polls spec pss admitted')) \<subseteq> set final \<union> {k. remainder_key spec k}"
    by (elim exE conjE)
  have keys: "fst ` set (concat (cap_polls spec (ps # pss) admitted)) =
      fst ` set res \<union> fst ` set (concat (cap_polls spec pss admitted'))"
    by (simp only: cap_polls.simps c prod.case concat.simps set_append image_Un)
  have "fst ` set res \<subseteq> set final \<union> {k. remainder_key spec k}"
    using ok(4) f(2) by (meson Un_mono order_refl order_trans)
  then show ?case
    unfolding keys using f ok(3) by (intro exI [of _ final] conjI Un_least) (simp_all only: subset_trans)
qed auto

subsection \<open>Properties\<close>

lemma counter_total_points:
  assumes "points_ok spec ps" and counter: "\<And>d. d \<in> set (rd_metrics spec) \<Longrightarrow> rm_name d = m \<Longrightarrow> \<not> rm_gauge d"
  shows "counter_total m (map (\<lambda>(k, p). r2_emission p) ps) = metric_sum m ps"
  using assms(1)
proof (induction ps)
  case (Cons x ps)
  obtain k p where x: "x = (k, p)" by (cases x)
  from points_okD(2) [OF Cons.prems, of k p] x have "pt_name p = fst k" "fst k = m \<longrightarrow> \<not> pt_gauge p"
    using counter by auto
  with Cons.IH [OF points_ok_Cons [OF Cons.prems]] x show ?case
    by (simp add: counter_total_def r2_emission_def Let_def)
qed (simp add: counter_total_def)

lemma dataset_metrics:
  assumes "spec \<in> set r2_datasets"
  shows "distinct (map rm_name (rd_metrics spec))"
proof -
  have "list_all (\<lambda>spec. distinct (map rm_name (rd_metrics spec))) r2_datasets" by code_simp
  with assms show ?thesis by (simp add: list_all_iff)
qed

lemma plan_action: "build_r2_plan spec s = Inr plan \<Longrightarrow> rd_collector spec = ''r2.operations'' \<or> \<not> pl_action plan"
  by (auto simp: build_r2_plan_def Let_def split: if_splits option.splits)

lemma r2_query_rows_leaves:
  assumes "r2_query_rows k spec account plan fr to w = (w', Inr rows)"
  shows "\<exists>ls. leaves (r2_query k spec account plan) fr to w ls w' \<and> rows = leaf_rows ls"
proof -
  from assms have "bisect fr to r2_bucket r2_bucket (r2_query k spec account plan) w = (w', Inr rows)"
    by (auto simp: r2_query_rows_def split: prod.splits sum.splits)
  then show ?thesis by (rule bisect_leaves)
qed

lemma r2_read_success:
  assumes "r2_read k spec cfg fr to w = (w', Inr (ct, points))"
  shows "\<exists>settings plan w1 w2 rows. build_r2_plan spec settings = Inr plan \<and> ceil_r2_bucket fr < ct \<and>
    ct = time_trunc to r2_bucket \<and>
    r2_query_rows k spec (rc_account cfg) plan (ceil_r2_bucket fr) ct w1 = (w2, Inr rows) \<and>
    aggregate_r2_rows spec plan (ceil_r2_bucket fr) ct rows = Inr points"
proof -
  from assms obtain w1 settings plan where 1: "build_r2_plan spec settings = Inr plan"
    "r2_read_plan k spec cfg plan fr to w1 = (w', Inr (ct, points))"
    by (auto simp: r2_read_def split: if_splits prod.splits sum.splits)
  from 1(2) obtain w2 rows where "ceil_r2_bucket fr < ct" "ct = time_trunc to r2_bucket"
    "r2_query_rows k spec (rc_account cfg) plan (ceil_r2_bucket fr) ct w1 = (w2, Inr rows)"
    "aggregate_r2_rows spec plan (ceil_r2_bucket fr) ct rows = Inr points"
    by (auto simp: r2_read_plan_def Let_def split: if_splits prod.splits sum.splits option.splits)
  with 1 show ?thesis by blast
qed

text \<open>C13. A collected window conserves counts: the complete five-minute buckets of the window are queried without
  gap, overlap or saturation, and unless the limit on series was reached the emitted counters of each metric add
  up to its values in all rows, however many series the admission folded together.\<close>

theorem r2_counts_conserved:
  assumes "r2_collect k spec cfg emit fr to out (w, admitted) = (st, out', mark, None)"
    and "spec \<in> set r2_datasets" "admitted_ok admitted" "d \<in> set (rd_metrics spec)" "\<not> rm_gauge d"
  shows "\<exists>plan ls es. mark = time_trunc to r2_bucket \<and> fr < mark \<and>
    tiles (ceil_r2_bucket fr) mark ls \<and>
    (\<forall>(a, b, rows) \<in> set ls. \<exists>t t'. r2_query k spec (rc_account cfg) plan t a b = (t', rows, False, None)) \<and>
    emit_all emit out es = (out', None) \<and>
    (int (length es) < (if rc_series cfg \<le> 0 then 500 else rc_series cfg) \<longrightarrow>
       counter_total (rm_name d) es = sum_list (map (metric_value d) (leaf_rows ls)))"
proof -
  from assms(1) obtain w1 points capped admitted' where
    read: "r2_read k spec cfg fr to w = (w1, Inr (mark, points))" and
    cap: "cap_resources spec points admitted = (capped, admitted')" and
    em: "emit_all emit out (r2_emissions (rc_series cfg) capped) = (out', None)"
    by (auto simp: r2_collect_def split: prod.splits sum.splits option.splits)
  from r2_read_success [OF read] obtain settings plan w1 w2 rows where
    plan: "build_r2_plan spec settings = Inr plan" and
    bounds: "ceil_r2_bucket fr < mark" and mark: "mark = time_trunc to r2_bucket" and
    q: "r2_query_rows k spec (rc_account cfg) plan (ceil_r2_bucket fr) mark w1 = (w2, Inr rows)" and
    ag: "aggregate_r2_rows spec plan (ceil_r2_bucket fr) mark rows = Inr points" by blast
  note names = dataset_metrics [OF assms(2)]
  note a = aggregate_ok [OF ag names plan_action [OF plan]]
  then have points: "points_ok spec points" by blast
  note c = cap_resources_ok [OF cap points assms(3) names]
  from r2_query_rows_leaves [OF q] obtain ls where
    ls: "leaves (r2_query k spec (rc_account cfg) plan) (ceil_r2_bucket fr) mark w1 ls w2" "rows = leaf_rows ls"
    by blast
  let ?es = "r2_emissions (rc_series cfg) capped"
  have "counter_total (rm_name d) ?es = sum_list (map (metric_value d) (leaf_rows ls))"
    if len: "int (length ?es) < (if rc_series cfg \<le> 0 then 500 else rc_series cfg)"
  proof -
    have "?es = map (\<lambda>(k, p). r2_emission p) (sort_key fst capped)"
      using len by (simp add: r2_emissions_def Let_def split: if_splits)
    moreover have "points_ok spec (sort_key fst capped)" using points_ok_perm [OF _ c(1)] by simp
    moreover have "rm_name d' = rm_name d \<Longrightarrow> \<not> rm_gauge d'" if "d' \<in> set (rd_metrics spec)" for d'
      using names assms(4,5) that by (auto simp: distinct_map dest: inj_onD)
    ultimately have "counter_total (rm_name d) ?es = metric_sum (rm_name d) (sort_key fst capped)"
      by (simp add: counter_total_points)
    also have "\<dots> = metric_sum (rm_name d) points" using c(5) [OF assms(4,5)] by (simp add: metric_sum_sort)
    finally show ?thesis using a assms(4,5) ls(2) by simp
  qed
  moreover have "fr < mark"
    using bounds time_trunc_le [of fr r2_bucket] time_trunc_gt [of r2_bucket fr]
    by (simp add: ceil_r2_bucket_def split: if_splits)
  ultimately show ?thesis
    using leaves_tile [OF ls(1)] leaves_unsaturated [OF ls(1)] em mark
    by (intro exI [of _ plan] exI [of _ ls] exI [of _ ?es] conjI) (simp_all, blast)
qed

text \<open>Over any number of polls a metric has at most 50 series: 49 named ones and the remainder; and a series
  once admitted is reported with its own value in every later poll that has it.\<close>

theorem r2_series_bounded:
  assumes "spec \<in> set r2_datasets" "\<forall>ps \<in> set pss. points_ok spec ps"
  shows "card {k \<in> fst ` set (concat (cap_polls spec pss [])). fst k = m} \<le> 50 \<and>
    (\<forall>admitted ps k p. admitted_ok admitted \<longrightarrow> k \<in> set admitted \<longrightarrow> points_ok spec ps \<longrightarrow> (k, p) \<in> set ps \<longrightarrow>
       map_of (fst (cap_resources spec ps admitted)) k = Some p)"
proof
  have "admitted_ok []" by (simp add: admitted_ok_def admitted_count_def)
  from cap_polls_keys [OF assms(2) this dataset_metrics [OF assms(1)]] obtain final where
    f: "admitted_ok final" "fst ` set (concat (cap_polls spec pss [])) \<subseteq> set final \<union> {k. remainder_key spec k}" by blast
  let ?K = "{k \<in> fst ` set (concat (cap_polls spec pss [])). fst k = m}"
  let ?r = "(m, ''other'', if rd_collector spec = ''r2.operations'' then ''other'' else [])"
  have "?K \<subseteq> insert ?r (set (filter (\<lambda>k. fst k = m) final))"
  proof
    fix k assume k: "k \<in> ?K"
    then have "k \<in> set final \<or> remainder_key spec k" "fst k = m" using f(2) by blast+
    moreover have "k = ?r" if "remainder_key spec k" "fst k = m"
      using that by (cases k) (simp add: remainder_key_def)
    ultimately show "k \<in> insert ?r (set (filter (\<lambda>k. fst k = m) final))" by auto
  qed
  then have "card ?K \<le> card (insert ?r (set (filter (\<lambda>k. fst k = m) final)))" by (intro card_mono) simp_all
  also have "\<dots> \<le> Suc (length (filter (\<lambda>k. fst k = m) final))"
    using card_length [of "?r # filter (\<lambda>k. fst k = m) final"] by simp
  also have "\<dots> \<le> 50"
  proof -
    have "length (filter (\<lambda>k. fst k = m) final) \<le> 49"
      using f(1) by (simp add: admitted_ok_def admitted_count_def)
    then show ?thesis by simp
  qed
  finally show "card ?K \<le> 50" .
  show "\<forall>admitted ps k p. admitted_ok admitted \<longrightarrow> k \<in> set admitted \<longrightarrow> points_ok spec ps \<longrightarrow> (k, p) \<in> set ps \<longrightarrow>
       map_of (fst (cap_resources spec ps admitted)) k = Some p"
  proof (intro allI impI)
    fix admitted ps k p
    assume a: "admitted_ok admitted" "k \<in> set admitted" "points_ok spec ps" "(k, p) \<in> set ps"
    obtain res admitted' where c: "cap_resources spec ps admitted = (res, admitted')" by (metis surj_pair)
    have "distinct (map fst (sort_key fst ps))"
      using points_ok_perm [OF _ a(3), of "sort_key fst ps"] by (simp add: points_ok_def)
    from cap_loop_keeps [OF c [unfolded cap_resources_def] a(1,2) this] a(4)
    show "map_of (fst (cap_resources spec ps admitted)) k = Some p" by (simp add: c)
  qed
qed

text \<open>A window on a server with one row.\<close>

definition sample_row :: json where
  "sample_row = JObj [(''count'', JNum ''7''), (''dimensions'', JObj
     [(''datetimeFiveMinutes'', JStr ''1970-01-01T00:00:00Z''), (''bucket'', JStr ''logs'')])]"

definition sample_settings :: dataset_settings where
  "sample_settings = \<lparr>ds_enabled = True,
     ds_fields = Some [''count'', ''dimensions_datetimeFiveMinutes'', ''dimensions.bucket''],
     ds_max_fields = 10, ds_max_duration = 86400, ds_not_older = 86400, ds_page_size = 100\<rparr>"

definition sample_client :: "unit client" where
  "sample_client = \<lparr>
     cl_settings = (\<lambda>w scope ident ds. (w, Inr sample_settings)),
     cl_query = (\<lambda>w r. (w, Inr (JArr [sample_row]))),
     cl_ctx_err = (\<lambda>w. (w, None)), cl_page = None, cl_batch = None\<rparr>"

definition sql_spec :: r2_spec where
  "sql_spec = r2_datasets ! 5"

definition sample_config :: r2_config where
  "sample_config = \<lparr>rc_account = ''acc'', rc_series = 0\<rparr>"

abbreviation epoch :: time where
  "epoch \<equiv> unix_offset * second"

definition sample_plan :: r2_plan where
  "sample_plan = \<lparr>pl_fields = [''count'', ''dimensions.datetimeFiveMinutes'', ''dimensions.bucket''],
     pl_limit = 100, pl_resource = True, pl_action = False\<rparr>"

definition sample_key :: r2_key where
  "sample_key = (''cloudflare.r2sql.queries'', ''logs'', [])"

definition sample_point :: r2_point where
  "sample_point = \<lparr>pt_name = ''cloudflare.r2sql.queries'', pt_gauge = False, pt_value = 7, pt_time = 0,
     pt_resource_key = ''cloudflare.r2sql.bucket_name'', pt_resource = ''logs'', pt_action = []\<rparr>"

lemma sample_number: "json_float ''7'' = Some 7"
  by (simp add: json_float_def number_value_def Let_def trim_prefix_def has_prefix_def digits_value_def
      digit_val_def ten_power_def is_digit_def max_float64_def)

lemma sample_time: "r2_row_time sample_row = Inr epoch"
  by code_simp

lemma sample_fields:
  "r2_field_value sample_row ''count'' = Some (JNum ''7'')"
  "r2_field_value sample_row ''dimensions.bucket'' = Some (JStr ''logs'')" "bounded_r2_name ''logs'' = ''logs''"
  by code_simp+

lemma sample_decoded: "decode_any_rows (JArr [sample_row]) = Some [sample_row]"
  by (simp add: decode_any_rows_def sample_row_def is_map_def sample_number)

lemma sample_read:
  "r2_read sample_client sql_spec sample_config epoch (epoch + r2_bucket) () =
     ((), Inr (epoch + r2_bucket, [(sample_key, sample_point)]))"
proof -
  have plan: "build_r2_plan sql_spec sample_settings = Inr sample_plan" by code_simp
  have calls: "cl_settings sample_client () s i d = ((), Inr sample_settings)" "cl_ctx_err sample_client () = ((), None)" for s i d
    by (simp_all add: sample_client_def)
  have acc: "rc_account sample_config = ''acc''" by (simp add: sample_config_def)
  have ceil: "ceil_r2_bucket epoch = epoch" "time_trunc (epoch + r2_bucket) r2_bucket = epoch + r2_bucket" by code_simp+
  have dims: "rd_resource_field sql_spec = ''dimensions.bucket''" "rd_resource_key sql_spec = ''cloudflare.r2sql.bucket_name''"
    "rd_metrics sql_spec = [r2_counter ''count'' ''cloudflare.r2sql.queries'']"
    by (simp_all add: sql_spec_def r2_datasets_def)
  have q: "r2_query sample_client sql_spec ''acc'' sample_plan () epoch (epoch + r2_bucket) = ((), [sample_row], False, None)"
    by (simp add: r2_query_def sample_client_def sample_decoded check_r2_row_def sample_time sample_plan_def)
  then have rows: "r2_query_rows sample_client sql_spec ''acc'' sample_plan epoch (epoch + r2_bucket) () = ((), Inr [sample_row])"
    unfolding r2_query_rows_def by (subst bisect.simps) simp
  have agg: "aggregate_r2_rows sql_spec sample_plan epoch (epoch + r2_bucket) [sample_row] = Inr [(sample_key, sample_point)]"
    by (simp add: aggregate_r2_rows_def add_r2_row_def sample_time r2_resource_def r2_action_def sample_plan_def dims
        sample_fields any_string_def any_number_def sample_number add_r2_value_def r2_counter_def new_r2_point_def
        update_r2_point_def max_float64_def sample_key_def sample_point_def Let_def)
  show ?thesis
    by (simp add: r2_read_def r2_read_plan_def acc ceil rows agg calls plan Let_def)
qed

lemma sample_series: "rc_series sample_config = 0"
  by (simp add: sample_config_def)

lemma r2_sample_window:
  "r2_collect sample_client sql_spec sample_config buffer_emit epoch (epoch + r2_bucket) empty_buffer ((), []) =
     (((), [sample_key]),
      \<lparr>records = [], metrics = [\<lparr>bm_kind = ''counter'', bm_name = ''cloudflare.r2sql.queries'', bm_value = 7,
         bm_attrs = [\<lparr>key = ''cloudflare.r2sql.bucket_name'', val = ''logs''\<rparr>]\<rparr>]\<rparr>,
      epoch + r2_bucket, None)"
  by (simp add: r2_collect_def sample_read cap_resources_def admit_r2_def r2_unnamed_def admitted_count_def
      merge_r2_point_def r2_emissions_def r2_emission_def sample_key_def sample_point_def sample_series
      buffer_metric_def empty_buffer_def Let_def)

theorem r2_counts_conserved_witness:
  "\<exists>plan ls es. epoch < epoch + r2_bucket \<and> tiles epoch (epoch + r2_bucket) ls \<and>
     emit_all buffer_emit empty_buffer es =
       (\<lparr>records = [], metrics = [\<lparr>bm_kind = ''counter'', bm_name = ''cloudflare.r2sql.queries'', bm_value = 7,
          bm_attrs = [\<lparr>key = ''cloudflare.r2sql.bucket_name'', val = ''logs''\<rparr>]\<rparr>]\<rparr>, None) \<and>
     (\<forall>(a, b, rows) \<in> set ls. \<exists>t t'. r2_query sample_client sql_spec ''acc'' plan t a b = (t', rows, False, None))"
proof -
  have s: "sql_spec \<in> set r2_datasets" "admitted_ok []"
    "r2_counter ''count'' ''cloudflare.r2sql.queries'' \<in> set (rd_metrics sql_spec)"
    by (simp_all add: sql_spec_def r2_datasets_def admitted_ok_def admitted_count_def)
  have "\<not> rm_gauge (r2_counter ''count'' ''cloudflare.r2sql.queries'')" by (simp add: r2_counter_def)
  moreover have "ceil_r2_bucket epoch = epoch" by code_simp
  ultimately show ?thesis
    using r2_counts_conserved [OF r2_sample_window s] by (auto simp: sample_config_def)
qed

theorem r2_series_bounded_witness:
  "card {k \<in> fst ` set (concat (cap_polls sql_spec [[(sample_key, sample_point)]] [])). fst k = ''cloudflare.r2sql.queries''} \<le> 50"
proof -
  have "sql_spec \<in> set r2_datasets" by (simp add: sql_spec_def r2_datasets_def)
  moreover have "\<forall>ps \<in> set [[(sample_key, sample_point)]]. points_ok sql_spec ps"
    by (simp add: points_ok_def sample_key_def sample_point_def sql_spec_def r2_datasets_def r2_counter_def)
  ultimately show ?thesis by (rule conjunct1 [OF r2_series_bounded])
qed

end
