(* ===== verification/Sources.thy ===== *)
theory Sources
  imports GroupsDepth R2Props SchedulerProps
begin

text \<open>
  The contract between the scheduler and the collectors that read complete five-minute buckets, and what it gives:
  the guard of the scheduler on high-water marks never rejects such a window, and however its polls fail in
  between, the windows such a collector reads tile the time up to its checkpoint. The collectors of R2, D1 and KV
  are shown to keep the contract; each is given a fresh buffer, as the scheduler does.
\<close>

type_synonym 'w source = "'w \<Rightarrow> time \<Rightarrow> time \<Rightarrow> 'w \<times> buffer \<times> time \<times> gerr option"

text \<open>The windows a source reads while its cursor moves from one instant to another; failed polls are repeated.\<close>

inductive polls :: "'w source \<Rightarrow> time \<Rightarrow> 'w \<Rightarrow> (time \<times> time \<times> buffer) list \<Rightarrow> time \<Rightarrow> 'w \<Rightarrow> bool" for collect where
  idle: "polls collect fr w [] fr w"
| failed: "collect w fr to = (w1, b, m, Some e) \<Longrightarrow> polls collect m w1 ws fin w2 \<Longrightarrow> polls collect fr w ws fin w2"
| settled: "collect w fr to = (w1, b, m, None) \<Longrightarrow> polls collect m w1 ws fin w2 \<Longrightarrow>
     polls collect fr w ((ceil_bucket fr, m, b) # ws) fin w2"

inductive_cases polls_emptyE: "polls collect fr w [] fin w2"
inductive_cases polls_ConsE: "polls collect fr w (x # ws) fin w2"

lemma ceil_bucket_aligned: "t mod five_minutes = 0 \<Longrightarrow> ceil_bucket t = t"
  by (simp add: ceil_bucket_def floor_bucket_def time_trunc_id)

lemma ceil_bucket_ge: "t \<le> ceil_bucket t"
  using time_trunc_gt [of five_minutes t] by (simp add: ceil_bucket_def floor_bucket_def)

lemma floor_bucket_le: "floor_bucket t \<le> t"
  by (simp add: floor_bucket_def time_trunc_le)

lemma floor_bucket_mod: "floor_bucket t mod five_minutes = 0"
  by (simp add: floor_bucket_def)

locale bucketed_source =
  fixes collect :: "'w source"
  assumes collected: "collect w fr to = (w', b, m, None) \<Longrightarrow> ceil_bucket fr < m \<and> m = floor_bucket to"
    and not_collected: "collect w fr to = (w', b, m, Some e) \<Longrightarrow> m = fr"
begin

lemma collected_bounds: "collect w fr to = (w', b, m, None) \<Longrightarrow> fr < m \<and> m \<le> to \<and> m mod five_minutes = 0"
  using collected ceil_bucket_ge [of fr] floor_bucket_le [of to] floor_bucket_mod [of to] by fastforce

lemma polls_aligned: "polls collect fr w ws fin w2 \<Longrightarrow> fr mod five_minutes = 0 \<Longrightarrow> tiles fr fin ws"
proof (induction rule: polls.induct)
  case (failed w fr to w1 b m e ws fin w2)
  with not_collected [OF failed.hyps(1)] show ?case by simp
next
  case (settled w fr to w1 b m ws fin w2)
  then show ?case using collected_bounds [OF settled.hyps(1)] by (simp add: ceil_bucket_aligned)
qed simp

lemma polls_tile: "polls collect fr w ws fin w2 \<Longrightarrow> ws \<noteq> [] \<Longrightarrow> tiles (ceil_bucket fr) fin ws \<and> fr < fin"
proof (induction rule: polls.induct)
  case (failed w fr to w1 b m e ws fin w2)
  with not_collected [OF failed.hyps(1)] show ?case by simp
next
  case (settled w fr to w1 b m ws fin w2)
  note m = collected_bounds [OF settled.hyps(1)]
  have "tiles m fin ws" using polls_aligned [OF settled.hyps(2)] m by blast
  moreover have "fr < fin"
  proof (cases ws)
    case Nil
    with calculation m show ?thesis by simp
  next
    case (Cons x xs)
    with settled.IH m show ?thesis by simp
  qed
  ultimately show ?case by simp
qed simp

text \<open>For a collector that is not adaptive the scheduler accepts every mark of such a source.\<close>

lemma guard_accepts:
  assumes "wc_collect c = collect" "wc_adaptive c = None" "collect_buffer env c fr to s = (s', b, m, None)"
  shows "mark_error c fr to m = None"
proof -
  have "\<not> adaptive_window c" using assms(2) by (simp add: adaptive_window_def)
  with assms obtain w' where "collect (world s) fr to = (w', b, m, None)"
    by (auto simp: collect_buffer_def with_world_def split: prod.splits)
  from collected_bounds [OF this] \<open>\<not> adaptive_window c\<close> show ?thesis by (simp add: mark_error_def)
qed

text \<open>So a window that was collected fails for its commit or its context only, and settles at the last complete bucket.\<close>

lemma collected_window:
  assumes c: "wc_collect c = collect" "wc_adaptive c = None"
    and p: "pending_window (wc_name c) fr to s = (s1, to')"
    and col: "collect_buffer env c fr to' s1 = (s2, b, m, None)"
    and r: "commit_window env c e fr to s = (s', mark, err)"
  shows "(err = None \<longrightarrow> mark = floor_bucket to' \<and> fr < mark \<and> cursor s' (wc_name c) = Some mark) \<and>
    (\<forall>x. err = Some x \<longrightarrow> (\<exists>s3. with_world (ctx_err env) s2 = (s3, Some x)) \<or>
       (\<exists>s3 s4. with_world (ctx_err env) s2 = (s3, None) \<and>
          deliver_window env c (commit_budget env c s1) fr to' b m s3 = (s4, Some x)))"
proof -
  note g = guard_accepts [OF c col]
  have m: "m = floor_bucket to'"
  proof -
    have "\<not> adaptive_window c" using c(2) by (simp add: adaptive_window_def)
    with c col obtain w' where "collect (world s1) fr to' = (w', b, m, None)"
      by (auto simp: collect_buffer_def with_world_def split: prod.splits)
    then show ?thesis using collected by blast
  qed
  obtain s3 ce where x: "with_world (ctx_err env) s2 = (s3, ce)" by (metis surj_pair)
  show ?thesis
  proof (cases ce)
    case (Some y)
    with r p col x have "err = Some y" by (simp add: commit_window_def Let_def)
    with x Some show ?thesis by simp
  next
    case None
    obtain s4 de where d: "deliver_window env c (commit_budget env c s1) fr to' b m s3 = (s4, de)" by (metis surj_pair)
    with r p col x None g have "err = de" "de = None \<Longrightarrow> mark = m"
      by (auto simp: commit_window_def Let_def split: option.splits)
    moreover have "err = None \<Longrightarrow> fr < mark \<and> cursor s' (wc_name c) = Some mark"
      using commit_window_cursor [OF r] by auto
    ultimately show ?thesis using m x None d by auto
  qed
qed

end

subsection \<open>The collectors\<close>

definition d1_source ::
  "('w \<Rightarrow> 'w \<times> time) \<Rightarrow> 'w client \<Rightarrow> groups_spec \<Rightarrow> groups_config \<Rightarrow> 'w groups_state source" where
  "d1_source tick k spec cfg st fr to = d1_collect tick k spec cfg buffer_emit fr to empty_buffer st"

definition kv_source ::
  "('w \<Rightarrow> 'w \<times> time) \<Rightarrow> 'w client \<Rightarrow> groups_spec \<Rightarrow> groups_config \<Rightarrow> 'w groups_state source" where
  "kv_source tick k spec cfg st fr to = kv_collect tick k spec cfg buffer_emit fr to empty_buffer st"

definition r2_source :: "'w client \<Rightarrow> r2_spec \<Rightarrow> r2_config \<Rightarrow> ('w \<times> r2_key list) source" where
  "r2_source k spec cfg st fr to = r2_collect k spec cfg buffer_emit fr to empty_buffer st"

lemma groups_collected:
  assumes "groups_collect depth tick k fam spec cfg emit fr to out st = (st', out', m, None)"
  shows "ceil_bucket fr < m \<and> m = floor_bucket to"
proof -
  from assms obtain vs where "groups_read depth tick k fam spec cfg fr to st = (st', Inr (m, vs))"
    by (auto simp: groups_collect_def split: prod.splits sum.splits option.splits)
  from groups_read_success [OF this] show ?thesis by blast
qed

lemma groups_not_collected:
  "groups_collect depth tick k fam spec cfg emit fr to out st = (st', out', m, Some e) \<Longrightarrow> m = fr"
  by (auto simp: groups_collect_def split: prod.splits sum.splits option.splits)

interpretation d1: bucketed_source "d1_source tick k spec cfg" for tick k spec cfg
  by unfold_locales (auto simp: d1_source_def d1_collect_def dest: groups_collected groups_not_collected)

interpretation kv: bucketed_source "kv_source tick k spec cfg" for tick k spec cfg
  by unfold_locales (auto simp: kv_source_def kv_collect_def dest: groups_collected groups_not_collected)

lemma r2_collected:
  assumes "r2_collect k spec cfg emit fr to out st = (st', out', m, None)"
  shows "ceil_bucket fr < m \<and> m = floor_bucket to"
proof -
  obtain w a where st: "st = (w, a)" by (cases st)
  from assms obtain w1 ps where "r2_read k spec cfg fr to w = (w1, Inr (m, ps))"
    by (auto simp: r2_collect_def st split: prod.splits sum.splits option.splits)
  from r2_read_success [OF this] have "ceil_r2_bucket fr < m" "m = time_trunc to r2_bucket" by blast+
  then show ?thesis by (simp add: ceil_r2_bucket_def ceil_bucket_def floor_bucket_def split: if_splits)
qed

lemma r2_not_collected:
  "r2_collect k spec cfg emit fr to out st = (st', out', m, Some e) \<Longrightarrow> m = fr"
  by (cases st) (auto simp: r2_collect_def split: prod.splits sum.splits option.splits)

interpretation r2src: bucketed_source "r2_source k spec cfg" for k spec cfg
  by unfold_locales (auto simp: r2_source_def dest: r2_collected r2_not_collected)

subsection \<open>Properties\<close>



text \<open>A D1 window that was collected is never refused by the guard of the scheduler: it settles at the end of its
  last complete bucket, or it fails with the error of the context or of its commit.\<close>

theorem d1_window_settles:
  assumes "wc_collect c = d1_source tick k spec cfg" "wc_adaptive c = None"
    and "pending_window (wc_name c) fr to s = (s1, to')"
    and "collect_buffer env c fr to' s1 = (s2, b, m, None)"
    and "commit_window env c e fr to s = (s', mark, err)"
  shows "(err = None \<longrightarrow> mark = floor_bucket to' \<and> fr < mark \<and> cursor s' (wc_name c) = Some mark) \<and>
    (\<forall>x. err = Some x \<longrightarrow> (\<exists>s3. with_world (ctx_err env) s2 = (s3, Some x)) \<or>
       (\<exists>s3 s4. with_world (ctx_err env) s2 = (s3, None) \<and>
          deliver_window env c (commit_budget env c s1) fr to' b m s3 = (s4, Some x)))"
  by (rule d1.collected_window [OF assms])

text \<open>The collector of the sample window under an environment whose context is cancelled.\<close>

definition d1_window_collector :: "unit groups_state window_collector" where
  "d1_window_collector = \<lparr>wc_name = ''d1.queries'', wc_lag = 10 * minute, wc_lag_at = None, wc_adaptive = None,
     wc_collect = d1_source still_clock groups_client queries_spec groups_sample_config, wc_collect_budget = None\<rparr>"

definition d1_sched :: "unit groups_state sched" where
  "d1_sched = \<lparr>world = start_state, store = (\<lparr>cp_values = []\<rparr>, \<lparr>main_file = None, temp_file = None\<rparr>),
     failed400 = \<lambda>_. None, adaptive_windows = \<lambda>_. None, commit_budgets = \<lambda>_. None,
     summary = empty_summary, hooks = []\<rparr>"

theorem d1_window_settles_witness:
  "\<forall>(env :: unit groups_state env) e. \<exists>s1 s2 b. collect_buffer env d1_window_collector unix_epoch (unix_epoch + five_minutes) s1 =
       (s2, b, unix_epoch + five_minutes, None) \<and>
     (\<forall>s' mark. commit_window env d1_window_collector e unix_epoch (unix_epoch + five_minutes) d1_sched = (s', mark, None)
        \<longrightarrow> mark = unix_epoch + five_minutes)"
proof (intro allI)
  fix env :: "unit groups_state env" and e
  let ?c = d1_window_collector
  have c: "wc_collect ?c = d1_source still_clock groups_client queries_spec groups_sample_config" "wc_adaptive ?c = None"
    by (simp_all add: d1_window_collector_def)
  have p: "pending_window (wc_name ?c) unix_epoch (unix_epoch + five_minutes) d1_sched = (d1_sched, unix_epoch + five_minutes)"
    by (simp add: pending_window_def d1_sched_def)
  obtain st b where run: "wc_collect ?c start_state unix_epoch (unix_epoch + five_minutes) = (st, b, unix_epoch + five_minutes, None)"
    using queries_window unfolding c d1_source_def by (metis prod.collapse prod.inject)
  have "world d1_sched = start_state" by (simp add: d1_sched_def)
  with run have col: "collect_buffer env ?c unix_epoch (unix_epoch + five_minutes) d1_sched =
      (d1_sched\<lparr>world := st\<rparr>, b, unix_epoch + five_minutes, None)"
    by (simp add: collect_buffer_def adaptive_window_def c(2) with_world_def)
  have "floor_bucket (unix_epoch + five_minutes) = unix_epoch + five_minutes" by code_simp
  with col d1_window_settles [OF c p col] show "\<exists>s1 s2 b. collect_buffer env ?c unix_epoch (unix_epoch + five_minutes) s1 =
       (s2, b, unix_epoch + five_minutes, None) \<and>
     (\<forall>s' mark. commit_window env ?c e unix_epoch (unix_epoch + five_minutes) d1_sched = (s', mark, None)
        \<longrightarrow> mark = unix_epoch + five_minutes)" by metis
qed

end
