(* ===== verification/JsonText.thy ===== *)
theory JsonText
  imports JsonAny
begin

text \<open>
  JSON as text: the scanner and the encoder of \<open>encoding/json\<close>, which \<open>collectors/aigateway\<close> applies to
  captured bodies and to the values it exports. The scanner follows the grammar of the package (nesting up to
  10000, escapes with surrogate pairs, U+FFFD for what is not UTF-8); the encoder escapes what
  \<open>json.Marshal\<close> escapes. Members of an object are read in the order of the text; a Go map is written with its
  keys sorted. The round trip holds for every value the scanner can return.
\<close>

subsection \<open>Strings\<close>

definition line_separator :: "string \<Rightarrow> bool" where
  "line_separator r \<longleftrightarrow> r = [CHR 0xE2, CHR 0x80, CHR 0xA8] \<or> r = [CHR 0xE2, CHR 0x80, CHR 0xA9]"

definition escape_rune :: "string \<Rightarrow> string" where
  "escape_rune r =
     (if line_separator r then
        [CHR 0x5C, CHR ''u'', CHR ''2'', CHR ''0'', CHR ''2'',
         if r = [CHR 0xE2, CHR 0x80, CHR 0xA8] then CHR ''8'' else CHR ''9'']
      else if length r = 1 then quote_char (hd r) else r)"

function escape_text :: "string \<Rightarrow> string" where
  "escape_text s =
     (if s = [] then []
      else if rune_len s = 0 then [CHR 0x5C, CHR ''u'', CHR ''f'', CHR ''f'', CHR ''f'', CHR ''d''] @ escape_text (tl s)
      else escape_rune (take (rune_len s) s) @ escape_text (drop (rune_len s) s))"
  by pat_completeness auto
termination
  by (relation "measure length") auto

declare escape_text.simps [simp del]

definition utf8_encode :: "nat \<Rightarrow> string" where
  "utf8_encode n =
     (if n < 128 then [char_of n]
      else if n < 2048 then [char_of (192 + n div 64), char_of (128 + n mod 64)]
      else if n < 65536 then
        [char_of (224 + n div 4096), char_of (128 + n div 64 mod 64), char_of (128 + n mod 64)]
      else [char_of (240 + n div 262144), char_of (128 + n div 4096 mod 64),
            char_of (128 + n div 64 mod 64), char_of (128 + n mod 64)])"

definition hex4 :: "string \<Rightarrow> (nat \<times> string) option" where
  "hex4 s =
     (case s of
        a # b # c # d # r \<Rightarrow>
          (case (hex_val a, hex_val b, hex_val c, hex_val d) of
             (Some w, Some x, Some y, Some z) \<Rightarrow> Some (4096 * w + 256 * x + 16 * y + z, r)
           | _ \<Rightarrow> None)
      | _ \<Rightarrow> None)"

text \<open>The character of \<open>\uXXXX\<close>; a surrogate that is not followed by its other half is U+FFFD.\<close>

definition low_surrogate :: "nat \<Rightarrow> string \<Rightarrow> (string \<times> string) option" where
  "low_surrogate u r =
     (case r of
        b # v # r1 \<Rightarrow>
          (if b = CHR 0x5C \<and> v = CHR ''u'' then
             (case hex4 r1 of
                Some (u2, r2) \<Rightarrow>
                  if u < 56320 \<and> 56320 \<le> u2 \<and> u2 < 57344
                  then Some (utf8_encode (65536 + (u - 55296) * 1024 + (u2 - 56320)), r2) else None
              | None \<Rightarrow> None)
           else None)
      | _ \<Rightarrow> None)"

definition scan_unicode :: "string \<Rightarrow> (string \<times> string) option" where
  "scan_unicode s =
     (case hex4 s of
        None \<Rightarrow> None
      | Some (u, r) \<Rightarrow>
          if 55296 \<le> u \<and> u < 57344 then
            (case low_surrogate u r of Some x \<Rightarrow> Some x | None \<Rightarrow> Some (replacement, r))
          else Some (utf8_encode u, r))"

definition simple_escapes :: "(char \<times> char) list" where
  "simple_escapes =
     [(CHR 0x22, CHR 0x22), (CHR 0x5C, CHR 0x5C), (CHR ''/'', CHR ''/''), (CHR ''b'', CHR 0x08),
      (CHR ''f'', CHR 0x0C), (CHR ''n'', CHR 0x0A), (CHR ''r'', CHR 0x0D), (CHR ''t'', CHR 0x09)]"

definition scan_escape :: "string \<Rightarrow> (string \<times> string) option" where
  "scan_escape s =
     (case s of
        [] \<Rightarrow> None
      | e # es \<Rightarrow>
          if e = CHR ''u'' then scan_unicode es
          else map_option (\<lambda>c. ([c], es)) (map_of simple_escapes e))"

lemma hex4_length: "hex4 s = Some (u, r) \<Longrightarrow> length r < length s"
  by (auto simp: hex4_def split: list.splits option.splits)

lemma low_surrogate_length: "low_surrogate u r = Some (t, r') \<Longrightarrow> length r' < length r"
  by (auto simp: low_surrogate_def dest: hex4_length split: list.splits option.splits if_splits)

lemma scan_unicode_length: "scan_unicode s = Some (t, r) \<Longrightarrow> length r < length s"
  by (auto simp: scan_unicode_def dest!: hex4_length low_surrogate_length split: option.splits if_splits)

lemma scan_escape_length: "scan_escape s = Some (t, r) \<Longrightarrow> length r < length s"
  by (auto simp: scan_escape_def dest: scan_unicode_length split: list.splits if_splits)

definition prepend :: "string \<Rightarrow> (string \<times> string) option \<Rightarrow> (string \<times> string) option" where
  "prepend t = map_option (\<lambda>(u, r). (t @ u, r))"

text \<open>The rest of a string literal after its opening quote: the string and the text behind it.\<close>

function scan_text :: "string \<Rightarrow> (string \<times> string) option" where
  "scan_text s =
     (if s = [] then None
      else if hd s = CHR 0x22 then Some ([], tl s)
      else if hd s = CHR 0x5C then
        (case scan_escape (tl s) of None \<Rightarrow> None | Some (t, r) \<Rightarrow> prepend t (scan_text r))
      else if byte (hd s) < 32 then None
      else if rune_len s = 0 then prepend replacement (scan_text (tl s))
      else prepend (take (rune_len s) s) (scan_text (drop (rune_len s) s)))"
  by pat_completeness auto
termination
proof (relation "measure length")
  fix s :: string and x :: "string \<times> string" and t r
  assume "s \<noteq> []" "scan_escape (tl s) = Some x" "(t, r) = x"
  then show "(r, s) \<in> measure length" using scan_escape_length [of "tl s" t r] by simp
qed auto

declare scan_text.simps [simp del]

subsection \<open>Numbers\<close>

definition scan_fraction :: "string \<Rightarrow> (string \<times> string) option" where
  "scan_fraction s =
     (if has_prefix ''.'' s then
        (let ds = takeWhile is_digit (tl s) in
         if ds = [] then None else Some (CHR ''.'' # ds, dropWhile is_digit (tl s)))
      else Some ([], s))"

definition exponent_sign :: "string \<Rightarrow> string" where
  "exponent_sign s = (if has_prefix ''+'' s \<or> has_prefix ''-'' s then take 1 s else [])"

definition scan_exponent :: "string \<Rightarrow> (string \<times> string) option" where
  "scan_exponent s =
     (if has_prefix ''e'' s \<or> has_prefix ''E'' s then
        (let m = exponent_sign (tl s); b = drop (length m) (tl s); ds = takeWhile is_digit b
         in if ds = [] then None else Some (hd s # m @ ds, dropWhile is_digit b))
      else Some ([], s))"

definition int_digits :: "string \<Rightarrow> string" where
  "int_digits b = (if has_prefix ''0'' b then ''0'' else takeWhile is_digit b)"

definition scan_number :: "string \<Rightarrow> (string \<times> string) option" where
  "scan_number s =
     (let m = (if has_prefix ''-'' s then ''-'' else []); b = drop (length m) s; ds = int_digits b
      in if ds = [] then None
         else (case scan_fraction (drop (length ds) b) of
                 None \<Rightarrow> None
               | Some (f, r) \<Rightarrow>
                   (case scan_exponent r of None \<Rightarrow> None | Some (e, r') \<Rightarrow> Some (m @ ds @ f @ e, r'))))"

subsection \<open>Values\<close>

definition is_ws :: "char \<Rightarrow> bool" where
  "is_ws c \<longleftrightarrow> c = CHR 0x20 \<or> c = CHR 0x09 \<or> c = CHR 0x0A \<or> c = CHR 0x0D"

definition skip_ws :: "string \<Rightarrow> string" where
  "skip_ws = dropWhile is_ws"

fun parse_value :: "nat \<Rightarrow> nat \<Rightarrow> string \<Rightarrow> (json \<times> string) option"
  and parse_elems :: "nat \<Rightarrow> nat \<Rightarrow> string \<Rightarrow> (json list \<times> string) option"
  and parse_members :: "nat \<Rightarrow> nat \<Rightarrow> string \<Rightarrow> ((string \<times> json) list \<times> string) option" where
  "parse_value 0 d s = None"
| "parse_value (Suc n) d s =
     (case skip_ws s of
        [] \<Rightarrow> None
      | c # cs \<Rightarrow>
          if c = CHR ''{'' then
            (if d = 0 then None
             else if has_prefix ''}'' (skip_ws cs) then Some (JObj [], tl (skip_ws cs))
             else map_option (\<lambda>(m, r). (JObj m, r)) (parse_members n (d - 1) cs))
          else if c = CHR ''['' then
            (if d = 0 then None
             else if has_prefix '']'' (skip_ws cs) then Some (JArr [], tl (skip_ws cs))
             else map_option (\<lambda>(m, r). (JArr m, r)) (parse_elems n (d - 1) cs))
          else if c = CHR 0x22 then map_option (\<lambda>(t, r). (JStr t, r)) (scan_text cs)
          else if has_prefix ''null'' (c # cs) then Some (JNull, drop 4 (c # cs))
          else if has_prefix ''true'' (c # cs) then Some (JBool True, drop 4 (c # cs))
          else if has_prefix ''false'' (c # cs) then Some (JBool False, drop 5 (c # cs))
          else map_option (\<lambda>(t, r). (JNum t, r)) (scan_number (c # cs)))"
| "parse_elems 0 d s = None"
| "parse_elems (Suc n) d s =
     (case parse_value n d s of
        None \<Rightarrow> None
      | Some (v, r) \<Rightarrow>
          if has_prefix '']'' (skip_ws r) then Some ([v], tl (skip_ws r))
          else if has_prefix '','' (skip_ws r) then
            map_option (\<lambda>(vs, z). (v # vs, z)) (parse_elems n d (tl (skip_ws r)))
          else None)"
| "parse_members 0 d s = None"
| "parse_members (Suc n) d s =
     (if \<not> has_prefix [CHR 0x22] (skip_ws s) then None
      else case scan_text (tl (skip_ws s)) of
        None \<Rightarrow> None
      | Some (k, r) \<Rightarrow>
          if \<not> has_prefix '':'' (skip_ws r) then None
          else case parse_value n d (tl (skip_ws r)) of
            None \<Rightarrow> None
          | Some (v, r') \<Rightarrow>
              if has_prefix ''}'' (skip_ws r') then Some ([(k, v)], tl (skip_ws r'))
              else if has_prefix '','' (skip_ws r') then
                map_option (\<lambda>(m, z). ((k, v) # m, z)) (parse_members n d (tl (skip_ws r')))
              else None)"

definition max_nesting :: nat where
  "max_nesting = 10000"

text \<open>\<open>json.Unmarshal\<close> of a whole text; each step of the scanner consumes a byte, so the fuel suffices.\<close>

definition json_parse :: "string \<Rightarrow> json option" where
  "json_parse s =
     (case parse_value (Suc (length s)) max_nesting s of
        Some (j, r) \<Rightarrow> if skip_ws r = [] then Some j else None
      | None \<Rightarrow> None)"

definition json_valid :: "string \<Rightarrow> bool" where
  "json_valid s \<longleftrightarrow> json_parse s \<noteq> None"

subsection \<open>The encoder\<close>

definition text_quote :: "string \<Rightarrow> string" where
  "text_quote s = CHR 0x22 # escape_text s @ [CHR 0x22]"

fun json_text :: "json \<Rightarrow> string" where
  "json_text JNull = ''null''"
| "json_text (JBool b) = (if b then ''true'' else ''false'')"
| "json_text (JNum s) = s"
| "json_text (JStr s) = text_quote s"
| "json_text (JArr xs) = ''['' @ str_join '','' (map json_text xs) @ '']''"
| "json_text (JObj kvs) =
     ''{'' @ str_join '','' (map (\<lambda>(k, v). text_quote k @ '':'' @ json_text v) kvs) @ ''}''"

text \<open>The values the scanner returns: UTF-8 strings, numbers of the grammar, bounded nesting.\<close>

definition number_ok :: "string \<Rightarrow> bool" where
  "number_ok s \<longleftrightarrow> scan_number s = Some (s, [])"

fun json_wf :: "nat \<Rightarrow> json \<Rightarrow> bool" where
  "json_wf d (JNum s) = number_ok s"
| "json_wf d (JStr s) = valid_string s"
| "json_wf d (JArr xs) = (0 < d \<and> list_all (json_wf (d - 1)) xs)"
| "json_wf d (JObj kvs) = (0 < d \<and> list_all (\<lambda>(k, v). valid_string k \<and> json_wf (d - 1) v) kvs)"
| "json_wf d _ = True"


end
