(* ===== verification/JsonRoundtrip.thy ===== *)
theory JsonRoundtrip
  imports JsonText
begin

text \<open>
  The scanner and the encoder of \<open>JsonText\<close> fit together: every value the scanner returns is well formed, and
  the text of a well-formed value is read back as that value.
\<close>

lemma prepend_simps [simp]:
  "prepend t None = None" "prepend t (Some (u, r)) = Some (t @ u, r)"
  "prepend t x = None \<longleftrightarrow> x = None" "prepend t x = Some (v, r) \<longleftrightarrow> (\<exists>u. x = Some (u, r) \<and> v = t @ u)"
  by (auto simp: prepend_def)

subsection \<open>Reading back a string\<close>

lemma rune_len_one: "rune_len [c] = 1 \<longleftrightarrow> byte c < 128"
  by (auto simp: rune_len_def rune_ranges_def split: option.splits)

lemma scan_text_quote_char:
  assumes "byte c < 128"
  shows "scan_text (quote_char c @ rest) = prepend [c] (scan_text rest)"
proof -
  let ?n = "byte c"
  have c: "c = char_of ?n" by simp
  have hex: "hex_val (hex_digit (?n div 16)) = Some (?n div 16)" "hex_val (hex_digit (?n mod 16)) = Some (?n mod 16)"
    using assms by (auto intro!: hex_val_digit simp: less_mult_imp_div_less)
  have zero: "hex_val (CHR ''0'') = Some 0" by (simp add: hex_val_def)
  have eqc: "c = char_of k" if "?n = k" for k using c that by simp
  consider "?n = 34 \<or> ?n = 92" | "?n \<in> {8, 9, 10, 12, 13}"
    | "?n < 32 \<or> ?n = 60 \<or> ?n = 62 \<or> ?n = 38" "?n \<notin> {8, 9, 10, 12, 13}"
    | "\<not> (?n < 32 \<or> ?n = 60 \<or> ?n = 62 \<or> ?n = 38 \<or> ?n = 34 \<or> ?n = 92)" by auto
  then show ?thesis
  proof cases
    case 1
    moreover have "char_of (34::nat) = CHR 0x22" "char_of (92::nat) = CHR 0x5C"
      by (simp_all add: char_of_def bit_0)
    ultimately have "c = CHR 0x22 \<or> c = CHR 0x5C" using eqc [of 34] eqc [of 92] by metis
    then show ?thesis
      by (auto simp: quote_char_def scan_text.simps [of "CHR 0x5C # _"] scan_escape_def simple_escapes_def)
  next
    case 2
    then consider "c = char_of (8::nat)" | "c = char_of (9::nat)" | "c = char_of (10::nat)"
      | "c = char_of (12::nat)" | "c = char_of (13::nat)"
      using eqc [of 8] eqc [of 9] eqc [of 10] eqc [of 12] eqc [of 13]
      unfolding insert_iff empty_iff by blast
    then show ?thesis
      by cases (simp_all add: quote_char_def scan_text.simps [of "CHR 0x5C # _"] scan_escape_def simple_escapes_def
          char_of_def bit_0)
  next
    case 3
    then have q: "quote_char c = [CHR 0x5C, CHR ''u'', CHR ''0'', CHR ''0'', hex_digit (?n div 16), hex_digit (?n mod 16)]"
      by (auto simp: quote_char_def Let_def)
    have "scan_escape (tl (quote_char c @ rest)) = Some ([c], rest)"
      using assms by (simp add: q scan_escape_def scan_unicode_def hex4_def hex zero utf8_encode_def)
    then show ?thesis by (simp add: q scan_text.simps [of "CHR 0x5C # _"])
  next
    case 4
    then have q: "quote_char c = [c]" "c \<noteq> CHR 0x22" "c \<noteq> CHR 0x5C" by (auto simp: quote_char_def)
    with 4 rune_len_ascii [OF assms, of rest] show ?thesis by (simp add: scan_text.simps [of "c # rest"])
  qed
qed

lemma rune_first: "rune_len s \<noteq> 0 \<Longrightarrow> rune_len s \<noteq> 1 \<Longrightarrow> s \<noteq> [] \<and> 194 \<le> byte (hd s)"
  by (cases s) (auto simp: rune_len_def rune_ranges_def split: if_splits)

lemma scan_escape_rune:
  assumes n: "rune_len s \<noteq> 0" and r: "r = take (rune_len s) s"
  shows "scan_text (escape_rune r @ rest) = prepend r (scan_text rest)"
proof -
  have len: "length r = rune_len s" using rune_len_le [of s] r by simp
  have one: "rune_len (r @ t) = rune_len s" for t using rune_len_take [OF n] r by simp
  consider "line_separator r" | "length r = 1" "\<not> line_separator r" | "length r \<noteq> 1" "\<not> line_separator r" by blast
  then show ?thesis
  proof cases
    case 1
    then show ?thesis
      by (auto simp: line_separator_def escape_rune_def scan_text.simps [of "CHR 0x5C # _"] scan_escape_def
          scan_unicode_def hex4_def hex_val_def utf8_encode_def char_of_def bit_0 split: if_splits)
  next
    case 2
    then obtain c where c: "r = [c]" by (cases r) auto
    with one [of "[]"] len have "byte c < 128" by (simp add: rune_len_one [symmetric])
    with 2 c show ?thesis by (simp add: escape_rune_def scan_text_quote_char)
  next
    case 3
    with len n have "rune_len (r @ rest) \<noteq> 0" "rune_len (r @ rest) \<noteq> 1" by (simp_all add: one)
    from rune_first [OF this] have "r @ rest \<noteq> []" "194 \<le> byte (hd (r @ rest))" by blast+
    moreover from this(2) have "hd (r @ rest) \<noteq> CHR 0x22" "hd (r @ rest) \<noteq> CHR 0x5C" by auto
    moreover have "r \<noteq> []" using len n by auto
    ultimately show ?thesis
      using 3 n one [of rest] len by (simp add: escape_rune_def scan_text.simps [of "r @ rest"])
  qed
qed

lemma scan_text_escape:
  "valid_string s \<Longrightarrow> scan_text (escape_text s @ CHR 0x22 # rest) = Some (s, rest)"
proof (induction s rule: escape_text.induct)
  case (1 s)
  show ?case
  proof (cases "s = []")
    case True
    then show ?thesis by (simp add: escape_text.simps [of "[]"] scan_text.simps [of "_ # _"])
  next
    case False
    with 1 have n: "rune_len s \<noteq> 0" "valid_string (drop (rune_len s) s)" by (simp_all add: valid_string_rest)
    from scan_escape_rune [OF n(1) refl] 1(2) [OF False n] False n(1) show ?thesis
      by (simp add: escape_text.simps [of s])
  qed
qed

subsection \<open>What the scanner returns\<close>

lemma rune_len_2: "2 \<le> (a::nat) \<Longrightarrow> a < 32 \<Longrightarrow> (b::nat) < 64 \<Longrightarrow> rune_len [char_of (192 + a), char_of (128 + b)] = 2"
  by (simp add: rune_len_def rune_ranges_def)

lemma rune_len_3:
  "(a::nat) < 16 \<Longrightarrow> (b::nat) < 64 \<Longrightarrow> (c::nat) < 64 \<Longrightarrow> a = 0 \<longrightarrow> 32 \<le> b \<Longrightarrow> a = 13 \<longrightarrow> b < 32 \<Longrightarrow>
   rune_len [char_of (224 + a), char_of (128 + b), char_of (128 + c)] = 3"
  by (cases "a = 0"; cases "a = 13") (simp_all add: rune_len_def rune_ranges_def)

lemma rune_len_4:
  "(a::nat) < 5 \<Longrightarrow> (b::nat) < 64 \<Longrightarrow> (c::nat) < 64 \<Longrightarrow> (d::nat) < 64 \<Longrightarrow> a = 0 \<longrightarrow> 16 \<le> b \<Longrightarrow> a = 4 \<longrightarrow> b < 16 \<Longrightarrow>
   rune_len [char_of (240 + a), char_of (128 + b), char_of (128 + c), char_of (128 + d)] = 4"
  by (cases "a = 0"; cases "a = 4") (simp_all add: rune_len_def rune_ranges_def)

lemma utf8_encode_valid:
  assumes "n < 1114112" "\<not> (55296 \<le> n \<and> n < 57344)"
  shows "valid_string (utf8_encode n)"
proof -
  have one: "rune_len s = length s \<Longrightarrow> s \<noteq> [] \<Longrightarrow> valid_string s" for s
    by (subst valid_string.simps) simp
  have m: "n mod 64 < 64" "n div 64 mod 64 < 64" "n div 4096 mod 64 < 64" by simp_all
  consider "n < 128" | "128 \<le> n" "n < 2048" | "2048 \<le> n" "n < 65536" | "65536 \<le> n" by linarith
  then show ?thesis
  proof cases
    case 1
    then show ?thesis by (intro one) (simp_all add: utf8_encode_def rune_len_def rune_ranges_def)
  next
    case 2
    then have "2 \<le> n div 64" "n div 64 < 32" by linarith+
    from rune_len_2 [OF this m(1)] 2 show ?thesis by (intro one) (simp_all add: utf8_encode_def)
  next
    case 3
    have a: "n div 4096 < 16" using 3 by (simp add: less_mult_imp_div_less)
    have "n div 4096 = n div 64 div 64" by (simp add: div_mult2_eq [symmetric])
    then have e: "n div 64 = 64 * (n div 4096) + n div 64 mod 64" by simp
    have "n div 4096 = 0 \<longrightarrow> 32 \<le> n div 64 mod 64" using e 3 by linarith
    moreover have "n div 4096 = 13 \<longrightarrow> n div 64 mod 64 < 32" using e assms(2) by linarith
    ultimately show ?thesis using rune_len_3 [OF a m(2,1)] 3 by (intro one) (simp_all add: utf8_encode_def)
  next
    case 4
    have a: "n div 262144 < 5" using assms(1) by (simp add: less_mult_imp_div_less)
    have "n div 262144 = n div 4096 div 64" by (simp add: div_mult2_eq [symmetric])
    then have e: "n div 4096 = 64 * (n div 262144) + n div 4096 mod 64" by simp
    have "n div 262144 = 0 \<longrightarrow> 16 \<le> n div 4096 mod 64" using e 4 by linarith
    moreover have "n div 262144 = 4 \<longrightarrow> n div 4096 mod 64 < 16" using e assms(1) by linarith
    ultimately show ?thesis using rune_len_4 [OF a m(3,2,1)] 4 by (intro one) (simp_all add: utf8_encode_def)
  qed
qed

lemma hex_val_less: "hex_val c = Some n \<Longrightarrow> n < 16"
  by (auto simp: hex_val_def Let_def split: if_splits)

lemma hex4_less: "hex4 s = Some (u, r) \<Longrightarrow> u < 65536"
proof -
  assume "hex4 s = Some (u, r)"
  then obtain a b c d w x y z where "u = 4096 * w + 256 * x + 16 * y + z"
    "hex_val a = Some w" "hex_val b = Some x" "hex_val c = Some y" "hex_val d = Some z"
    by (auto simp: hex4_def split: list.splits option.splits)
  then show ?thesis using hex_val_less [of a w] hex_val_less [of b x] hex_val_less [of c y] hex_val_less [of d z] by simp
qed

lemma low_surrogate_valid: "low_surrogate u r = Some (t, r') \<Longrightarrow> 55296 \<le> u \<Longrightarrow> valid_string t"
  by (auto simp: low_surrogate_def split: list.splits option.splits if_splits intro!: utf8_encode_valid)

lemma scan_unicode_valid: "scan_unicode s = Some (t, r) \<Longrightarrow> valid_string t"
proof -
  assume a: "scan_unicode s = Some (t, r)"
  then obtain u q where u: "hex4 s = Some (u, q)" by (auto simp: scan_unicode_def split: option.splits)
  show ?thesis
  proof (cases "55296 \<le> u \<and> u < 57344")
    case True
    with a u low_surrogate_valid [of u q t r] show ?thesis
      by (cases "low_surrogate u q") (auto simp: scan_unicode_def valid_replacement)
  next
    case False
    with a u utf8_encode_valid [of u] hex4_less [OF u] show ?thesis by (auto simp: scan_unicode_def)
  qed
qed

lemma scan_escape_valid: "scan_escape s = Some (t, r) \<Longrightarrow> valid_string t"
  by (cases s) (auto simp: scan_escape_def simple_escapes_def scan_unicode_valid split: if_splits
      intro: valid_ascii dest: scan_unicode_valid)

lemma scan_text_valid: "scan_text s = Some (t, r) \<Longrightarrow> valid_string t"
proof (induction s arbitrary: t r rule: scan_text.induct)
  case (1 s)
  from "1.prems" have ne: "s \<noteq> []" by (auto simp: scan_text.simps [of s])
  consider "hd s = CHR 0x22" | "hd s = CHR 0x5C" | "hd s \<noteq> CHR 0x22" "hd s \<noteq> CHR 0x5C" by blast
  then show ?case
  proof cases
    case 1
    with "1.prems" ne show ?thesis by (simp add: scan_text.simps [of s])
  next
    case 2
    with "1.prems" ne obtain x q u where x: "scan_escape (tl s) = Some (x, q)" "scan_text q = Some (u, r)" "t = x @ u"
      by (auto simp: scan_text.simps [of s] split: option.splits)
    with 2 "1.IH"(1) [OF ne] scan_escape_valid [OF x(1)] show ?thesis by (auto intro: valid_string_append)
  next
    case 3
    with "1.prems" ne have b: "\<not> byte (hd s) < 32" by (auto simp: scan_text.simps [of s])
    show ?thesis
    proof (cases "rune_len s = 0")
      case True
      with "1.prems" ne 3 b obtain u where "scan_text (tl s) = Some (u, r)" "t = replacement @ u"
        by (auto simp: scan_text.simps [of s])
      with "1.IH"(2) [OF ne 3 b True] show ?thesis by (auto intro: valid_string_append valid_replacement)
    next
      case False
      with "1.prems" ne 3 b obtain u where "scan_text (drop (rune_len s) s) = Some (u, r)" "t = take (rune_len s) s @ u"
        by (auto simp: scan_text.simps [of s])
      with "1.IH"(3) [OF ne 3 b False] valid_string_rune [OF False] show ?thesis by (auto intro: valid_string_append)
    qed
  qed
qed

text \<open>A text that does not continue a number.\<close>

definition number_stop :: "string \<Rightarrow> bool" where
  "number_stop q \<longleftrightarrow> q = [] \<or> \<not> (is_digit (hd q) \<or> hd q \<in> {CHR ''.'', CHR ''e'', CHR ''E''})"

lemma span_stop:
  assumes "q = [] \<or> \<not> P (hd q)"
  shows "takeWhile P (takeWhile P s @ q) = takeWhile P s" "dropWhile P (takeWhile P s @ q) = q"
proof -
  have "takeWhile P q = []" "dropWhile P q = q" using assms by (cases q; simp)+
  moreover have "\<forall>x \<in> set (takeWhile P s). P x" by (auto dest: set_takeWhileD)
  ultimately show "takeWhile P (takeWhile P s @ q) = takeWhile P s" "dropWhile P (takeWhile P s @ q) = q"
    by (simp_all add: takeWhile_append dropWhile_append)
qed

lemma has_prefix_single: "has_prefix [c] s \<longleftrightarrow> s \<noteq> [] \<and> hd s = c"
  by (cases s) (auto simp: has_prefix_def)

lemma fraction_stop:
  assumes "scan_fraction s = Some (f, r)"
  shows "s = f @ r" "f = [] \<or> hd f = CHR ''.''"
    "q = [] \<or> \<not> is_digit (hd q) \<and> hd q \<noteq> CHR ''.'' \<Longrightarrow> scan_fraction (f @ q) = Some (f, q)"
proof -
  let ?ds = "takeWhile is_digit (tl s)"
  show "s = f @ r" "f = [] \<or> hd f = CHR ''.''"
    using assms by (auto simp: scan_fraction_def Let_def has_prefix_single takeWhile_dropWhile_id split: if_splits)
      (metis takeWhile_dropWhile_id list.collapse)
  assume q: "q = [] \<or> \<not> is_digit (hd q) \<and> hd q \<noteq> CHR ''.''"
  show "scan_fraction (f @ q) = Some (f, q)"
  proof (cases "has_prefix ''.'' s")
    case True
    with assms have "f = CHR ''.'' # ?ds" "?ds \<noteq> []" by (auto simp: scan_fraction_def Let_def split: if_splits)
    moreover from q have "q = [] \<or> \<not> is_digit (hd q)" by blast
    ultimately show ?thesis
      by (simp add: scan_fraction_def has_prefix_single span_stop)
  next
    case False
    with assms have "f = []" by (simp add: scan_fraction_def)
    with q show ?thesis by (auto simp: scan_fraction_def has_prefix_single)
  qed
qed

lemma exponent_sign_split: "exponent_sign s @ drop (length (exponent_sign s)) s = s"
  by (cases s) (auto simp: exponent_sign_def)

lemma exponent_sign_stop:
  assumes "q \<noteq> []" "is_digit (hd q)"
  shows "exponent_sign (exponent_sign s @ q) = exponent_sign s"
proof -
  have "hd q \<noteq> CHR ''+''" "hd q \<noteq> CHR ''-''" using assms(2) by (auto simp: is_digit_def)
  with assms(1) show ?thesis by (cases s; cases q) (auto simp: exponent_sign_def has_prefix_Cons)
qed

lemma span_first: "takeWhile P s \<noteq> [] \<Longrightarrow> P (hd (takeWhile P s @ q))"
  by (cases s) (auto split: if_splits)

lemma exponent_some:
  assumes "has_prefix ''e'' s \<or> has_prefix ''E'' s" "scan_exponent s = Some (e, r)"
  obtains m b where "m = exponent_sign (tl s)" "b = drop (length m) (tl s)" "takeWhile is_digit b \<noteq> []"
    "e = hd s # m @ takeWhile is_digit b" "r = dropWhile is_digit b" "tl s = m @ b" "s \<noteq> []"
    "hd s \<in> {CHR ''e'', CHR ''E''}"
proof (rule that [OF refl refl])
  let ?m = "exponent_sign (tl s)"
  let ?b = "drop (length ?m) (tl s)"
  from assms(1) show h: "s \<noteq> []" "hd s \<in> {CHR ''e'', CHR ''E''}" by (auto simp: has_prefix_single)
  from assms show "takeWhile is_digit ?b \<noteq> []" "e = hd s # ?m @ takeWhile is_digit ?b" "r = dropWhile is_digit ?b"
    by (simp_all add: scan_exponent_def Let_def split: if_splits)
  show "tl s = ?m @ ?b" by (rule exponent_sign_split [symmetric])
qed

lemma exponent_read:
  assumes "takeWhile is_digit b \<noteq> []" "m = exponent_sign m'" "h \<in> {CHR ''e'', CHR ''E''}" "number_stop q"
  shows "scan_exponent (h # (m @ takeWhile is_digit b) @ q) = Some (h # m @ takeWhile is_digit b, q)"
proof -
  let ?ds = "takeWhile is_digit b"
  have "exponent_sign (m @ ?ds @ q) = m"
    unfolding assms(2) by (rule exponent_sign_stop) (use assms(1) span_first [OF assms(1), of q] in simp_all)
  moreover have "q = [] \<or> \<not> is_digit (hd q)" using assms(4) by (auto simp: number_stop_def)
  ultimately show ?thesis using assms(1,3)
    by (auto simp: scan_exponent_def has_prefix_Cons span_stop)
qed

lemma exponent_stop:
  assumes "scan_exponent s = Some (e, r)"
  shows "s = e @ r" "e = [] \<or> hd e \<in> {CHR ''e'', CHR ''E''}"
    "number_stop q \<Longrightarrow> scan_exponent (e @ q) = Some (e, q)"
proof -
  have "(s = e @ r \<and> (e = [] \<or> hd e \<in> {CHR ''e'', CHR ''E''})) \<and>
    (number_stop q \<longrightarrow> scan_exponent (e @ q) = Some (e, q))"
  proof (cases "has_prefix ''e'' s \<or> has_prefix ''E'' s")
    case True
    from True assms obtain m b where p: "m = exponent_sign (tl s)" "takeWhile is_digit b \<noteq> []"
      "e = hd s # m @ takeWhile is_digit b" "r = dropWhile is_digit b" "tl s = m @ b" "s \<noteq> []"
      "hd s \<in> {CHR ''e'', CHR ''E''}" by (rule exponent_some)
    from p(5,6) have "s = hd s # m @ b" by (metis list.collapse)
    then have "s = e @ r" by (simp add: p(3,4))
    then show ?thesis using exponent_read [OF p(2,1,7)] p(3,7) by simp
  next
    case False
    with assms have "e = []" "r = s" by (simp_all add: scan_exponent_def)
    then show ?thesis by (auto simp: scan_exponent_def has_prefix_single number_stop_def)
  qed
  then show "s = e @ r" "e = [] \<or> hd e \<in> {CHR ''e'', CHR ''E''}"
    "number_stop q \<Longrightarrow> scan_exponent (e @ q) = Some (e, q)" by simp_all
qed

lemma int_digits_stop:
  assumes "int_digits b \<noteq> []" "q = [] \<or> \<not> is_digit (hd q)"
  shows "int_digits (int_digits b @ q) = int_digits b"
proof (cases "has_prefix ''0'' b")
  case False
  then have "takeWhile is_digit b \<noteq> [] \<Longrightarrow> hd (takeWhile is_digit b) \<noteq> CHR ''0''"
    by (cases b) (auto simp: has_prefix_Cons)
  with False assms show ?thesis by (auto simp: int_digits_def has_prefix_single span_stop)
qed (simp add: int_digits_def has_prefix_single)

lemma int_digits_prefix: "b = int_digits b @ drop (length (int_digits b)) b"
proof (cases "has_prefix ''0'' b")
  case True
  then show ?thesis by (cases b) (auto simp: int_digits_def has_prefix_Cons)
qed (simp add: int_digits_def dropWhile_eq_drop [symmetric])

lemma int_digits_first: "int_digits b \<noteq> [] \<Longrightarrow> is_digit (hd (int_digits b))"
  using span_first [of is_digit b "[]"] by (auto simp: int_digits_def is_digit_def split: if_splits)

lemma scan_number_parts:
  "scan_number s = Some (t, r) \<longleftrightarrow>
   (\<exists>m b f r1 e. m = (if has_prefix ''-'' s then ''-'' else []) \<and> b = drop (length m) s \<and> int_digits b \<noteq> [] \<and>
      scan_fraction (drop (length (int_digits b)) b) = Some (f, r1) \<and> scan_exponent r1 = Some (e, r) \<and>
      t = m @ int_digits b @ f @ e)"
  by (auto simp: scan_number_def Let_def split: option.splits)

lemma scan_number_stop:
  assumes "scan_number s = Some (t, r)"
  shows "s = t @ r" "number_stop q \<Longrightarrow> scan_number (t @ q) = Some (t, q)"
    "t \<noteq> [] \<and> (is_digit (hd t) \<or> hd t = CHR ''-'')"
proof -
  obtain m b f r1 e where p: "m = (if has_prefix ''-'' s then ''-'' else [])" "b = drop (length m) s"
    "int_digits b \<noteq> []" "scan_fraction (drop (length (int_digits b)) b) = Some (f, r1)"
    "scan_exponent r1 = Some (e, r)" "t = m @ int_digits b @ f @ e"
    using assms unfolding scan_number_parts by blast
  have s: "s = m @ b" using p(1,2) by (cases s) (auto simp: has_prefix_single)
  note f = fraction_stop [OF p(4)] and e = exponent_stop [OF p(5)]
  show "s = t @ r"
    by (subst s, subst int_digits_prefix [of b], subst f(1), subst e(1)) (simp add: p(6))
  note d = int_digits_first [OF p(3)]
  then have nm: "hd (int_digits b) \<noteq> CHR ''-''" by (auto simp: is_digit_def)
  show "t \<noteq> [] \<and> (is_digit (hd t) \<or> hd t = CHR ''-'')" using p(1,3,6) d by (auto split: if_splits)
  assume q: "number_stop q"
  have eq: "scan_exponent (e @ q) = Some (e, q)" by (rule e(3) [OF q])
  have "e @ q = [] \<or> \<not> is_digit (hd (e @ q)) \<and> hd (e @ q) \<noteq> CHR ''.''"
    using q e(2) by (cases e) (auto simp: number_stop_def is_digit_def)
  note feq = f(3) [OF this]
  have "f @ e @ q = [] \<or> \<not> is_digit (hd (f @ e @ q))"
    using q e(2) f(2) by (cases f; cases e) (auto simp: number_stop_def is_digit_def)
  note ds = int_digits_stop [OF p(3) this]
  have m': "(if has_prefix ''-'' (t @ q) then ''-'' else []) = m"
    using p(1,3,6) nm by (auto simp: has_prefix_single)
  show "scan_number (t @ q) = Some (t, q)"
    unfolding scan_number_parts m' using p(3,6) ds feq eq
    by (intro exI [of _ m] exI [of _ "int_digits b @ f @ e @ q"] exI [of _ f] exI [of _ "e @ q"] exI [of _ e]) simp
qed

lemma number_ok_scanned: "scan_number s = Some (t, r) \<Longrightarrow> number_ok t"
  using scan_number_stop(2) [of s t r "[]"] by (simp add: number_ok_def number_stop_def)

lemma parse_wf:
  "parse_value n d s = Some (j, r) \<Longrightarrow> json_wf d j"
  "parse_elems n d s = Some (js, r) \<Longrightarrow> list_all (json_wf d) js"
  "parse_members n d s = Some (kvs, r) \<Longrightarrow> list_all (\<lambda>(k, v). valid_string k \<and> json_wf d v) kvs"
proof (induction n d s and n d s and n d s arbitrary: j r and js r and kvs r
    rule: parse_value_parse_elems_parse_members.induct)
  case (2 n d s)
  then show ?case
    by (auto split: list.splits if_splits simp: scan_text_valid number_ok_scanned)
next
  case (4 n d s)
  then show ?case by (auto split: option.splits prod.splits if_splits)
next
  case (6 n d s)
  from "6.prems" obtain k r1 v r2 where p: "scan_text (tl (skip_ws s)) = Some (k, r1)"
    "parse_value n d (tl (skip_ws r1)) = Some (v, r2)" "has_prefix [CHR 0x22] (skip_ws s)" "has_prefix '':'' (skip_ws r1)"
    by (auto split: option.splits if_splits)
  with "6.IH"(1) [of "(k, r1)"] have v: "valid_string k \<and> json_wf d v" by (auto simp: scan_text_valid)
  show ?case
  proof (cases "has_prefix ''}'' (skip_ws r2)")
    case True
    with "6.prems" p v show ?thesis by auto
  next
    case False
    with "6.prems" p obtain m where m: "parse_members n d (tl (skip_ws r2)) = Some (m, r)" "kvs = (k, v) # m"
      "has_prefix '','' (skip_ws r2)" by (auto split: if_splits)
    have "list_all (\<lambda>(k, v). valid_string k \<and> json_wf d v) m"
      using "6.IH"(2) [of "(k, r1)" k r1 "(v, r2)" v r2 m r] p m False by simp
    with v m show ?thesis by simp
  qed
qed simp_all

subsection \<open>Reading back a value\<close>

definition value_stop :: "string \<Rightarrow> bool" where
  "value_stop q \<longleftrightarrow> q = [] \<or> hd q \<in> {CHR '','', CHR '']'', CHR ''}''}"

definition value_start :: "string \<Rightarrow> bool" where
  "value_start s \<longleftrightarrow> s \<noteq> [] \<and> (is_digit (hd s) \<or> hd s \<in> {CHR ''-'', CHR 0x22, CHR ''['', CHR ''{'', CHR ''n'', CHR ''t'', CHR ''f''})"

lemma value_stop_number: "value_stop q \<Longrightarrow> number_stop q"
  by (auto simp: value_stop_def number_stop_def is_digit_def)

lemma skip_stop [simp]: "value_stop q \<Longrightarrow> skip_ws q = q"
  by (cases q) (auto simp: value_stop_def skip_ws_def is_ws_def)

lemma value_start_skip:
  assumes "value_start s"
  shows "skip_ws s = s" "\<not> has_prefix '']'' s" "\<not> has_prefix ''}'' s"
  using assms by (cases s; auto simp: value_start_def skip_ws_def is_ws_def has_prefix_Cons is_digit_def)+

lemma value_start_append: "value_start s \<Longrightarrow> value_start (s @ t)"
  by (cases s) (auto simp: value_start_def)

lemma json_text_start: "json_wf d j \<Longrightarrow> value_start (json_text j)"
proof (cases j)
  case (JNum s)
  assume "json_wf d j"
  with JNum have "scan_number s = Some (s, [])" by (simp add: number_ok_def)
  from scan_number_stop(3) [OF this] JNum show ?thesis by (auto simp: value_start_def)
qed (auto simp: value_start_def text_quote_def)

lemma parse_number:
  assumes "number_ok s" "value_stop q"
  shows "parse_value (Suc n) d (s @ q) = Some (JNum s, q)"
proof -
  have s: "scan_number s = Some (s, [])" using assms(1) by (simp add: number_ok_def)
  note eq = scan_number_stop(2) [OF s value_stop_number [OF assms(2)]]
  from scan_number_stop(3) [OF s] obtain c cs where c: "s = c # cs" "is_digit c \<or> c = CHR ''-''" by (cases s) auto
  then have "\<not> is_ws c" "c \<noteq> CHR ''{''" "c \<noteq> CHR ''[''" "c \<noteq> CHR 0x22" "c \<noteq> CHR ''n''" "c \<noteq> CHR ''t''"
    "c \<noteq> CHR ''f''" by (auto simp: is_ws_def is_digit_def)
  with eq c(1) show ?thesis by (simp add: skip_ws_def has_prefix_Cons)
qed

lemma parse_quoted: "valid_string s \<Longrightarrow> parse_value (Suc n) d (text_quote s @ q) = Some (JStr s, q)"
  by (simp add: text_quote_def skip_ws_def is_ws_def scan_text_escape)

text \<open>The induction step for lists of values and of members.\<close>

definition reads_back :: "nat \<Rightarrow> json \<Rightarrow> bool" where
  "reads_back d j \<longleftrightarrow> (\<forall>n q. length (json_text j) \<le> n \<longrightarrow> value_stop q \<longrightarrow> parse_value n d (json_text j @ q) = Some (j, q))"

lemma parse_elems_text:
  assumes "list_all (reads_back d) xs" "xs \<noteq> []" "length (str_join '','' (map json_text xs)) < n"
  shows "parse_elems n d (str_join '','' (map json_text xs) @ CHR '']'' # q) = Some (xs, q)"
  using assms
proof (induction xs arbitrary: n)
  case (Cons x xs)
  then obtain n' where n: "n = Suc n'" by (cases n) auto
  have x: "parse_value n' d (json_text x @ r) = Some (x, r)" if "value_stop r" for r
    using Cons.prems that unfolding n reads_back_def by (cases xs) (simp_all add: reads_back_def)
  have sep: "value_stop (CHR '']'' # r)" "value_stop (CHR '','' # r)" for r by (simp_all add: value_stop_def)
  show ?case
  proof (cases xs)
    case Nil
    with x [OF sep(1)] sep show ?thesis by (simp add: n has_prefix_Cons)
  next
    case (Cons y ys)
    have "parse_elems n' d (str_join '','' (map json_text xs) @ CHR '']'' # q) = Some (xs, q)"
      using Cons.IH [of n'] Cons.prems unfolding n by (simp add: Cons)
    with x [OF sep(2)] sep show ?thesis by (simp add: n Cons has_prefix_Cons)
  qed
qed simp

definition member_text :: "string \<times> json \<Rightarrow> string" where
  "member_text kv = text_quote (fst kv) @ '':'' @ json_text (snd kv)"

lemma parse_members_text:
  assumes "list_all (\<lambda>kv. valid_string (fst kv) \<and> value_start (json_text (snd kv)) \<and> reads_back d (snd kv)) m"
    "m \<noteq> []" "length (str_join '','' (map member_text m)) < n"
  shows "parse_members n d (str_join '','' (map member_text m) @ CHR ''}'' # q) = Some (m, q)"
  using assms
proof (induction m arbitrary: n)
  case (Cons x m)
  then obtain n' where n: "n = Suc n'" by (cases n) auto
  obtain k v where kv: "x = (k, v)" by (cases x)
  have k: "valid_string k" using Cons.prems(1) by (simp add: kv)
  have v: "parse_value n' d (json_text v @ r) = Some (v, r)" if "value_stop r" for r
    using Cons.prems that unfolding n reads_back_def by (cases m) (simp_all add: reads_back_def kv member_text_def)
  have mt: "member_text (k, v) = CHR 0x22 # escape_text k @ CHR 0x22 # CHR '':'' # json_text v"
    by (simp add: member_text_def text_quote_def)
  have colon: "skip_ws (CHR '':'' # r) = CHR '':'' # r" "skip_ws (CHR 0x22 # r) = CHR 0x22 # r" for r
    by (simp_all add: skip_ws_def is_ws_def)
  have sep: "value_stop (CHR ''}'' # r)" "value_stop (CHR '','' # r)" for r by (simp_all add: value_stop_def)
  show ?case
  proof (cases m)
    case Nil
    with v [OF sep(1)] sep show ?thesis
      by (simp add: n kv mt colon has_prefix_Cons scan_text_escape [OF k])
  next
    case (Cons y ys)
    have "parse_members n' d (str_join '','' (map member_text m) @ CHR ''}'' # q) = Some (m, q)"
      using Cons.IH [of n'] Cons.prems unfolding n by (simp add: Cons)
    with v [OF sep(2)] sep show ?thesis
      by (simp add: n Cons kv mt colon has_prefix_Cons scan_text_escape [OF k])
  qed
qed simp

lemma json_text_obj: "json_text (JObj m) = ''{'' @ str_join '','' (map member_text m) @ ''}''"
  by (simp add: member_text_def [abs_def] case_prod_unfold)

lemma json_reads_back: "json_wf d j \<Longrightarrow> reads_back d j"
proof (induction j arbitrary: d)
  case JNull
  then show ?case unfolding reads_back_def
    by (intro allI impI; case_tac n) (simp_all add: skip_ws_def is_ws_def has_prefix_Cons)
next
  case (JBool b)
  then show ?case unfolding reads_back_def
    by (intro allI impI; case_tac n; cases b) (simp_all add: skip_ws_def is_ws_def has_prefix_Cons)
next
  case (JNum s)
  then have "s \<noteq> []" using json_text_start [of d "JNum s"] by (auto simp: value_start_def)
  with JNum show ?case unfolding reads_back_def by (intro allI impI; case_tac n) (simp_all add: parse_number del: parse_value.simps(2))
next
  case (JStr s)
  then show ?case unfolding reads_back_def
    by (intro allI impI; case_tac n) (simp_all add: parse_quoted text_quote_def [symmetric] del: parse_value.simps(2), simp add: text_quote_def)
next
  case (JArr xs)
  then have d: "0 < d" and rb: "list_all (reads_back (d - 1)) xs" and wf: "list_all (json_wf (d - 1)) xs"
    by (auto simp: list_all_iff)
  show ?case unfolding reads_back_def
  proof (intro allI impI)
    fix n q assume n: "length (json_text (JArr xs)) \<le> n" and q: "value_stop q"
    then obtain n' where n': "n = Suc n'" by (cases n) auto
    have open_br: "skip_ws (CHR ''['' # s) = CHR ''['' # s" "skip_ws (CHR '']'' # s) = CHR '']'' # s" for s
      by (simp_all add: skip_ws_def is_ws_def)
    show "parse_value n d (json_text (JArr xs) @ q) = Some (JArr xs, q)"
    proof (cases xs)
      case Nil
      with d open_br show ?thesis by (simp add: n' has_prefix_Cons)
    next
      case (Cons y ys)
      let ?t = "str_join '','' (map json_text xs) @ CHR '']'' # q"
      have "value_start (json_text y)" using wf json_text_start [of "d - 1" y] by (simp add: Cons)
      then have "value_start ?t" by (cases ys) (simp_all add: Cons value_start_append)
      note st = value_start_skip [OF this]
      have "parse_elems n' (d - 1) ?t = Some (xs, q)"
        by (rule parse_elems_text [OF rb]) (use n Cons in \<open>simp_all add: n'\<close>)
      with st d open_br show ?thesis by (simp add: n')
    qed
  qed
next
  case (JObj m)
  then have d: "0 < d" and wf: "list_all (\<lambda>kv. valid_string (fst kv) \<and> json_wf (d - 1) (snd kv)) m"
    by (auto simp: list_all_iff)
  have rb: "list_all (\<lambda>kv. valid_string (fst kv) \<and> value_start (json_text (snd kv)) \<and> reads_back (d - 1) (snd kv)) m"
    using wf JObj.IH by (fastforce simp: list_all_iff json_text_start)
  show ?case unfolding reads_back_def
  proof (intro allI impI)
    fix n q assume n: "length (json_text (JObj m)) \<le> n" and q: "value_stop q"
    then obtain n' where n': "n = Suc n'" by (cases n) auto
    have open_br: "skip_ws (CHR ''{'' # s) = CHR ''{'' # s" "skip_ws (CHR ''}'' # s) = CHR ''}'' # s" for s
      by (simp_all add: skip_ws_def is_ws_def)
    show "parse_value n d (json_text (JObj m) @ q) = Some (JObj m, q)"
    proof (cases m)
      case Nil
      with d open_br show ?thesis by (simp add: n' has_prefix_Cons)
    next
      case (Cons y ys)
      let ?t = "str_join '','' (map member_text m) @ CHR ''}'' # q"
      have "value_start (member_text y)" by (simp add: member_text_def text_quote_def value_start_def)
      then have "value_start ?t" by (cases ys) (simp_all add: Cons value_start_append)
      note st = value_start_skip [OF this]
      have "parse_members n' (d - 1) ?t = Some (m, q)"
        by (rule parse_members_text [OF rb]) (use n Cons in \<open>simp_all add: n' json_text_obj del: json_text.simps(6)\<close>)
      with st d open_br show ?thesis by (simp add: n' json_text_obj del: json_text.simps(6))
    qed
  qed
qed

text \<open>Whatever the scanner can return is written as a text that it reads back.\<close>

lemma json_text_roundtrip: "json_wf max_nesting j \<Longrightarrow> json_parse (json_text j) = Some j"
  using json_reads_back [of max_nesting j]
  by (auto simp: reads_back_def json_parse_def value_stop_def skip_ws_def
      dest!: spec [where x = "Suc (length (json_text j))"] spec [where x = "[]"] simp del: parse_value.simps)

lemma json_parse_wf: "json_parse s = Some j \<Longrightarrow> json_wf max_nesting j"
  by (auto simp: json_parse_def split: option.splits prod.splits if_splits dest: parse_wf simp del: parse_value.simps)

end
