(* ===== verification/LogContent.thy ===== *)
theory LogContent
  imports JsonRoundtrip
begin

text \<open>
  What \<open>collectors/aigateway\<close> makes of the content of a gateway log: the redaction of opaque metadata, the
  headers it may export, the cut of a body, data loss prevention findings, chat messages, token usage, models and
  providers (\<open>logs_content.go\<close>, \<open>logs_usage.go\<close>, \<open>logs_model.go\<close>). A \<open>json.RawMessage\<close> field of a decoded
  row is an optional JSON value (None when the field is absent); a body is the bytes that were read. Go's maps are
  visited in the order of their keys, one of the orders a run may choose.
\<close>

subsection \<open>Numbers as text\<close>

text \<open>\<open>strconv.FormatFloat(v, 'f', -1, 64)\<close>: the decimals of the exact value, at most 400 of them.\<close>

fun frac_digits :: "nat \<Rightarrow> f64 \<Rightarrow> nat" where
  "frac_digits 0 v = 0"
| "frac_digits (Suc n) v = (if of_int \<lfloor>v\<rfloor> = v then 0 else Suc (frac_digits n (10 * v)))"

definition max_decimals :: nat where
  "max_decimals = 400"

definition format_float :: "f64 \<Rightarrow> string" where
  "format_float v =
     (let k = frac_digits max_decimals \<bar>v\<bar>; ds = zero_pad (Suc k) \<lfloor>\<bar>v\<bar> * 10 ^ k\<rfloor>; w = length ds - k
      in (if v < 0 then ''-'' else []) @ take w ds @ (if k = 0 then [] else ''.'' @ drop w ds))"

text \<open>The encoding of a float64 by \<open>encoding/json\<close>.\<close>

definition json_float_text :: "f64 \<Rightarrow> string" where
  "json_float_text v =
     (if v = 0 \<or> (1 / 10 ^ 6 \<le> \<bar>v\<bar> \<and> \<bar>v\<bar> < 10 ^ 21) then format_float v
      else (let k = frac_digits max_decimals \<bar>v\<bar>; n = dec_digits \<lfloor>\<bar>v\<bar> * 10 ^ k\<rfloor>;
                ex = int (length n) - 1 - int k; ds = strip_zeros n
            in (if v < 0 then ''-'' else []) @ take 1 n @ (if tl ds = [] then [] else ''.'' @ tl ds) @ ''e''
               @ (if ex < 0 then ''-'' else ''+'') @ dec_digits \<bar>ex\<bar>))"

subsection \<open>Values of type any\<close>

definition any_number_text :: "string \<Rightarrow> string" where
  "any_number_text s =
     (let v = number_value s in if v = 0 \<and> has_prefix ''-'' s then ''-0'' else json_float_text v)"

fun any_norm :: "json \<Rightarrow> json" where
  "any_norm (JNum s) = JNum (any_number_text s)"
| "any_norm (JArr xs) = JArr (map any_norm xs)"
| "any_norm (JObj kvs) = JObj (json_map (map (\<lambda>(k, v). (k, any_norm v)) kvs))"
| "any_norm j = j"

text \<open>\<open>json.Unmarshal\<close> into an \<open>any\<close>: float64 numbers, maps without order.\<close>

definition any_value :: "json \<Rightarrow> json option" where
  "any_value j = (if floats_ok j then Some (any_norm j) else None)"

subsection \<open>Redaction\<close>

definition sensitive_words :: "string list" where
  "sensitive_words = [''authorization'', ''token'', ''secret'', ''password'', ''api_key'', ''cookie'', ''credential'']"

definition sensitive_key :: "string \<Rightarrow> bool" where
  "sensitive_key k \<longleftrightarrow>
     64 < length k \<or> str_contains ''@'' k \<or> list_ex (\<lambda>w. str_contains w (to_lower k)) sensitive_words"

fun redact :: "nat \<Rightarrow> json \<Rightarrow> json option" where
  "redact depth (JObj kvs) =
     (if 8 < depth then None
      else Some (JObj (concat (map (\<lambda>(k, v). if sensitive_key k then []
             else case redact (Suc depth) v of None \<Rightarrow> [] | Some c \<Rightarrow> [(k, c)]) kvs))))"
| "redact depth (JArr xs) =
     (if 8 < depth \<or> 64 < length xs then None
      else Some (JArr (concat (map (\<lambda>v. case redact (Suc depth) v of None \<Rightarrow> [] | Some c \<Rightarrow> [c]) xs))))"
| "redact depth (JStr s) = (if 8 < depth then None else Some (JStr ''[REDACTED]''))"
| "redact depth v = (if 8 < depth then None else Some v)"

definition present :: "json option \<Rightarrow> json option" where
  "present raw = (if raw = Some JNull then None else raw)"

definition redacted_json :: "json option \<Rightarrow> int \<Rightarrow> string" where
  "redacted_json raw limit =
     (case present raw of
        None \<Rightarrow> []
      | Some j \<Rightarrow>
          if limit \<le> 0 then []
          else (case any_value j of
            None \<Rightarrow> []
          | Some v \<Rightarrow>
              (case redact 0 v of
                 None \<Rightarrow> []
               | Some c \<Rightarrow> if limit < int (length (json_text c)) then [] else json_text c)))"

definition safe_scalar :: "json option \<Rightarrow> string" where
  "safe_scalar raw =
     (case present raw of
        Some (JBool b) \<Rightarrow> if b then ''true'' else ''false''
      | Some (JNum s) \<Rightarrow> (case json_float s of Some v \<Rightarrow> format_float v | None \<Rightarrow> [])
      | _ \<Rightarrow> [])"

definition safe_boolean :: "json option \<Rightarrow> string" where
  "safe_boolean raw = (case raw of Some (JBool b) \<Rightarrow> if b then ''true'' else ''false'' | _ \<Rightarrow> [])"

subsection \<open>Headers\<close>

definition trimmed_line :: "string \<Rightarrow> (string \<times> json) list" where
  "trimmed_line line =
     (case str_cut '':'' (trim_space line) of
        (k, v, True) \<Rightarrow> [(trim_space k, JStr (trim_space v))]
      | (k, v, False) \<Rightarrow> [])"

definition header_pairs :: "json \<Rightarrow> (string \<times> json) list option" where
  "header_pairs raw =
     (case raw of
        JObj kvs \<Rightarrow> if floats_ok raw then Some (json_map kvs) else None
      | JStr s \<Rightarrow> Some (json_map (concat (map trimmed_line (split_char (CHR 0x0A) s))))
      | _ \<Rightarrow> None)"

definition allowed_headers :: "string list" where
  "allowed_headers = [''content-type'', ''traceparent'', ''tracestate'', ''accept'']"

definition allow_header :: "string \<times> json \<Rightarrow> (string \<times> json) list \<Rightarrow> (string \<times> json) list" where
  "allow_header kv m =
     (let k = to_lower (trim_space (fst kv)) in
      case snd kv of
        JStr s \<Rightarrow> if k \<in> set allowed_headers \<and> length s \<le> 512 then map_set k (JStr s) m else m
      | _ \<Rightarrow> m)"

definition safe_headers :: "json option \<Rightarrow> string" where
  "safe_headers raw =
     (case present raw of
        None \<Rightarrow> []
      | Some j \<Rightarrow>
          (case header_pairs j of
             None \<Rightarrow> []
           | Some hs \<Rightarrow> (let m = fold allow_header hs [] in if m = [] then [] else json_text (JObj m))))"

text \<open>
  The caller's trace from \<open>traceparent\<close>. The OpenTelemetry API decides which identifiers are valid: \<open>context\<close>
  builds a remote span context, or gives none.
\<close>

definition trace_links :: "(string \<Rightarrow> string \<Rightarrow> bool \<Rightarrow> string option) \<Rightarrow> json option \<Rightarrow> link list" where
  "trace_links context raw =
     (case json_parse (safe_headers raw) of
        Some (JObj kvs) \<Rightarrow>
          (case split_char (CHR ''-'') (case map_of (json_map kvs) ''traceparent'' of Some (JStr t) \<Rightarrow> t | _ \<Rightarrow> []) of
             [version, trace_id, span_id, flags] \<Rightarrow>
               if version = ''00'' \<and> (flags = ''01'' \<or> flags = ''00'') then
                 (case context trace_id span_id (flags = ''01'') of
                    Some sc \<Rightarrow> [\<lparr>link_context = sc, link_attributes = []\<rparr>]
                  | None \<Rightarrow> [])
               else []
           | _ \<Rightarrow> [])
      | _ \<Rightarrow> [])"

subsection \<open>Cutting a body\<close>

definition rune_start :: "char \<Rightarrow> bool" where
  "rune_start c \<longleftrightarrow> byte c < 128 \<or> 192 \<le> byte c"

fun boundary_back :: "nat \<Rightarrow> string \<Rightarrow> nat \<Rightarrow> nat option" where
  "boundary_back 0 s i = None"
| "boundary_back (Suc n) s i =
     (if i = 0 then None else if rune_start (s ! i) then Some i else boundary_back n s (i - 1))"

definition rune_boundary :: "string \<Rightarrow> nat \<Rightarrow> nat" where
  "rune_boundary s n =
     (if length s \<le> n then length s else case boundary_back 4 s n of Some i \<Rightarrow> i | None \<Rightarrow> n)"

definition cap_body :: "string \<Rightarrow> int \<Rightarrow> string \<times> bool" where
  "cap_body body limit =
     (if limit \<le> 0 then ([], body \<noteq> [])
      else if limit < int (length body) then (take (rune_boundary body (nat limit)) body, True)
      else (body, False))"

definition cap_string :: "string \<Rightarrow> nat \<Rightarrow> string" where
  "cap_string s n = (if n < length s then take (rune_boundary s n) s else s)"

subsection \<open>Data loss prevention\<close>

record dlp_finding =
  df_profile :: string
  df_policies :: "string list"
  df_check :: string

text \<open>A member of a decoded struct; an absent one decodes like null, which leaves the field as it is.\<close>

definition field_of :: "(string \<times> json) list \<Rightarrow> string \<Rightarrow> json" where
  "field_of m k = (case map_of m k of Some v \<Rightarrow> v | None \<Rightarrow> JNull)"

fun decode_all :: "('a \<Rightarrow> 'b option) \<Rightarrow> 'a list \<Rightarrow> 'b list option" where
  "decode_all f [] = Some []"
| "decode_all f (x # xs) =
     (case f x of None \<Rightarrow> None | Some y \<Rightarrow> map_option (\<lambda>ys. y # ys) (decode_all f xs))"

definition decode_finding :: "json \<Rightarrow> dlp_finding option option" where
  "decode_finding j =
     (if j = JNull then Some None
      else case decode_obj j of
        None \<Rightarrow> None
      | Some m \<Rightarrow>
          (case (decode_obj (field_of m ''profile''), decode_list (field_of m ''policy_ids''),
                 decode_str (field_of m ''check'')) of
             (Some p, Some ids, Some c) \<Rightarrow>
               (case (decode_str (field_of p ''profile_id''), decode_all decode_str ids) of
                  (Some pid, Some pols) \<Rightarrow> Some (Some \<lparr>df_profile = pid, df_policies = pols, df_check = c\<rparr>)
                | _ \<Rightarrow> None)
           | _ \<Rightarrow> None))"

definition parse_dlp_findings :: "json option \<Rightarrow> dlp_finding list" where
  "parse_dlp_findings raw =
     (case present raw of
        None \<Rightarrow> []
      | Some j \<Rightarrow>
          (case decode_list j of
             None \<Rightarrow> []
           | Some xs \<Rightarrow>
               (case decode_all decode_finding xs of
                  None \<Rightarrow> []
                | Some fs \<Rightarrow> concat (map (\<lambda>f. case f of None \<Rightarrow> [] | Some x \<Rightarrow> [x]) fs))))"

definition dlp_action :: "string \<Rightarrow> string" where
  "dlp_action a =
     (if equal_fold a ''FLAG'' then ''flagged'' else if equal_fold a ''BLOCK'' then ''blocked'' else ''other'')"

definition dlp_direction :: "string \<Rightarrow> string" where
  "dlp_direction c =
     (let d = to_lower (trim_space c) in if d = ''request'' \<or> d = ''response'' then d else ''other'')"

record dlp_outcome =
  do_action :: string
  do_directions :: "string list"
  do_policies :: "string list"
  do_profiles :: "string list"

definition sorted_set :: "string list \<Rightarrow> string list" where
  "sorted_set xs = sort (remdups xs)"

definition parse_dlp_outcome :: "string \<Rightarrow> json option \<Rightarrow> dlp_outcome option" where
  "parse_dlp_outcome action profiles =
     (let a = trim_space action; fs = parse_dlp_findings profiles in
      if a = [] then None
      else Some \<lparr>do_action = dlp_action a,
        do_directions = sorted_set (map (\<lambda>f. dlp_direction (df_check f)) fs),
        do_policies = sorted_set (filter (\<lambda>i. i \<noteq> []) (concat (map df_policies fs))),
        do_profiles = sorted_set (filter (\<lambda>i. i \<noteq> []) (map df_profile fs))\<rparr>)"

definition json_string_array :: "string list \<Rightarrow> string" where
  "json_string_array xs = (if xs = [] then [] else json_text (JArr (map JStr xs)))"

subsection \<open>Messages\<close>

definition chat_roles :: "string list" where
  "chat_roles = [''system'', ''developer'', ''user'', ''assistant'', ''tool'']"

definition decode_message :: "json \<Rightarrow> (string \<times> json option) option" where
  "decode_message j =
     (case decode_obj j of
        None \<Rightarrow> None
      | Some m \<Rightarrow> map_option (\<lambda>r. (r, map_of m ''content'')) (decode_str (field_of m ''role'')))"

definition message_part :: "string \<times> json option \<Rightarrow> json option" where
  "message_part m =
     (case m of (role, content) \<Rightarrow>
        if role \<notin> set chat_roles then None
        else (case content of
          None \<Rightarrow> None
        | Some c \<Rightarrow> map_option (\<lambda>t. JObj [(''parts'', JArr [JObj [(''content'', JStr t), (''type'', JStr ''text'')]]),
                                         (''role'', JStr role)]) (decode_str c)))"

definition body_root :: "string \<Rightarrow> (string \<times> json) list option" where
  "body_root raw =
     (case json_parse raw of
        None \<Rightarrow> None
      | Some j \<Rightarrow>
          (case decode_obj j of
             Some m \<Rightarrow> Some m
           | None \<Rightarrow>
               (case j of
                  JStr s \<Rightarrow> (case json_parse s of None \<Rightarrow> None | Some j' \<Rightarrow> decode_obj j')
                | _ \<Rightarrow> None)))"

text \<open>The messages of a request, or the message of the first choice of a response.\<close>

definition message_source :: "(string \<times> json) list \<Rightarrow> string \<Rightarrow> json option" where
  "message_source m side =
     (if side = ''request'' then map_of m ''messages''
      else (case map_of m ''choices'' of
        None \<Rightarrow> None
      | Some cs \<Rightarrow>
          (case decode_list cs of
             None \<Rightarrow> None
           | Some xs \<Rightarrow>
               (case decode_all decode_obj xs of
                  Some (c # rest) \<Rightarrow> map_option (\<lambda>x. JArr [x]) (map_of c ''message'')
                | _ \<Rightarrow> None))))"

definition parse_messages :: "string \<Rightarrow> string \<Rightarrow> string option" where
  "parse_messages raw side =
     (case body_root raw of
        None \<Rightarrow> None
      | Some m \<Rightarrow>
          (case message_source m side of
             None \<Rightarrow> None
           | Some src \<Rightarrow>
               (case decode_list src of
                  None \<Rightarrow> None
                | Some xs \<Rightarrow>
                    (case decode_all decode_message xs of
                       None \<Rightarrow> None
                     | Some ms \<Rightarrow>
                         if ms = [] then None
                         else map_option (\<lambda>parts. json_text (JArr parts)) (decode_all message_part ms)))))"

subsection \<open>Token usage\<close>

definition decode_count :: "json \<Rightarrow> int option option" where
  "decode_count j =
     (case j of JNull \<Rightarrow> Some None | JNum s \<Rightarrow> map_option Some (parse_int64 s) | _ \<Rightarrow> None)"

definition usage_counts :: "json \<Rightarrow> int option \<times> int option" where
  "usage_counts raw =
     (case decode_obj raw of
        None \<Rightarrow> (None, None)
      | Some m \<Rightarrow>
          (case (decode_count (field_of m ''input_tokens''), decode_count (field_of m ''output_tokens''),
                 decode_count (field_of m ''prompt_tokens''), decode_count (field_of m ''completion_tokens'')) of
             (Some i, Some u, Some p, Some c) \<Rightarrow>
               if list_ex (\<lambda>n. case n of Some k \<Rightarrow> k < 0 | None \<Rightarrow> False) [i, u, p, c] then (None, None)
               else (if i = None then p else i, if u = None then c else u)
           | _ \<Rightarrow> (None, None)))"

definition response_token_usage :: "string \<Rightarrow> int option \<times> int option" where
  "response_token_usage body =
     (case json_parse body of
        None \<Rightarrow> (None, None)
      | Some j \<Rightarrow>
          (case decode_obj j of
             None \<Rightarrow> (None, None)
           | Some m \<Rightarrow>
               (case decode_obj (field_of m ''result'') of
                  None \<Rightarrow> (None, None)
                | Some res \<Rightarrow>
                    (case (if present (map_of m ''usage'') = None \<and> field_of m ''result'' \<noteq> JNull
                           then map_of res ''usage'' else map_of m ''usage'') of
                       None \<Rightarrow> (None, None)
                     | Some raw \<Rightarrow> usage_counts raw))))"

definition missing_count :: "int option \<Rightarrow> bool" where
  "missing_count n \<longleftrightarrow> n = None \<or> n = Some 0"

definition fill_count :: "int option \<Rightarrow> int option \<Rightarrow> int option" where
  "fill_count current body = (if missing_count current \<and> body \<noteq> None then body else current)"

text \<open>The sum is formed only when it fits an \<open>int64\<close>.\<close>

definition resolve_response_usage ::
  "int option \<Rightarrow> int option \<Rightarrow> int option \<Rightarrow> string \<Rightarrow> (int option \<times> int option \<times> int option) \<times> bool" where
  "resolve_response_usage input output total_count body =
     (case response_token_usage body of (bi, bo) \<Rightarrow>
        (let derived = (missing_count input \<and> bi \<noteq> None) \<or> (missing_count output \<and> bo \<noteq> None);
             i = fill_count input bi; u = fill_count output bo;
             t = (case (i, u) of
                    (Some a, Some b) \<Rightarrow>
                      if derived \<and> missing_count total_count \<and> 0 \<le> a \<and> 0 \<le> b \<and> a \<le> max_int64 - b
                      then Some (a + b) else total_count
                  | _ \<Rightarrow> total_count)
         in ((i, u, t), derived)))"

subsection \<open>Models, providers, operations\<close>

definition model_char :: "char \<Rightarrow> bool" where
  "model_char c \<longleftrightarrow> is_alpha c \<or> is_digit c \<or> c \<in> set ''-_.:@''"

definition valid_model_identifier :: "string \<Rightarrow> bool" where
  "valid_model_identifier model \<longleftrightarrow>
     list_all (\<lambda>seg. seg \<noteq> [] \<and> seg \<noteq> ''.'' \<and> seg \<noteq> ''..'' \<and> list_all model_char seg \<and>
       list_ex (\<lambda>c. is_alpha c \<or> is_digit c) seg) (split_char (CHR ''/'') model)"

definition normalize_model :: "string \<Rightarrow> string" where
  "normalize_model raw =
     (if \<not> valid_model_identifier raw then ''unknown''
      else (let m = (if has_prefix ''@'' raw then raw
                     else case str_cut ''/'' raw of (b, a, True) \<Rightarrow> a | _ \<Rightarrow> raw)
            in if to_lower m \<in> {''null'', ''none'', ''undefined'', ''unknown''} then ''unknown'' else m))"

definition trim_slashes :: "string \<Rightarrow> string" where
  "trim_slashes s = rev (dropWhile (\<lambda>c. c = CHR ''/'') (rev (dropWhile (\<lambda>c. c = CHR ''/'') s)))"

definition operation_name :: "string \<Rightarrow> string" where
  "operation_name path =
     (let p = ''/'' @ trim_slashes (to_lower path) in
      if has_suffix ''/chat/completions'' p then ''chat''
      else if has_suffix ''/completions'' p then ''text_completion''
      else if has_suffix ''/embeddings'' p then ''embeddings'' else ''other'')"

definition provider_name :: "string \<Rightarrow> string" where
  "provider_name slug =
     (case map_of [(''google-ai-studio'', ''gcp.gemini''), (''google-vertex-ai'', ''gcp.vertex_ai''),
                   (''azure-openai'', ''azure.ai.openai''), (''aws-bedrock'', ''aws.bedrock''),
                   (''mistral'', ''mistral_ai''), (''xai'', ''x_ai'')] (to_lower slug) of
        Some n \<Rightarrow> n | None \<Rightarrow> to_lower slug)"

end
