(* ===== verification/LogRows.thy ===== *)
theory LogRows
  imports LogContent
begin

text \<open>
  One AI Gateway log: the decoded row (\<open>logRow\<close> of \<open>collectors/aigateway/logs.go\<close>) and everything \<open>emitWith\<close>
  sends for it: the log event, the client span with its content, and the counters and histograms. \<open>emitWith\<close>
  computes nothing between two calls of the emitter, so it is the list of these calls. Timestamps are printed
  in UTC, as Cloudflare sends them.
\<close>

subsection \<open>The row\<close>

record usage_meta =
  um_input :: "int option"
  um_output :: "int option"
  um_total :: "int option"
  um_reasoning :: "int option"
  um_cached :: "int option"

record log_row =
  lg_id :: string
  lg_created :: time
  lg_event_id :: string
  lg_provider :: string
  lg_model :: string
  lg_model_type :: string
  lg_path :: string
  lg_duration :: "f64 option"
  lg_request_type :: string
  lg_status :: "int option"
  lg_success :: "bool option"
  lg_cached :: "bool option"
  lg_tokens_in :: "int option"
  lg_tokens_out :: "int option"
  lg_usage :: "usage_meta option"
  lg_timings :: "(f64 option \<times> f64 option) option"
  lg_location :: "(string \<times> string) option"
  lg_cost :: "f64 option"
  lg_custom_cost :: "json option"
  lg_metadata :: "json option"
  lg_step :: "int option"
  lg_feedback :: "json option"
  lg_score :: "json option"
  lg_prompts :: "json option"
  lg_guardrails :: "json option"
  lg_authentication :: "json option"
  lg_wholesale :: "bool option"
  lg_byok :: "json option"
  lg_user_agent :: string
  lg_dlp_action :: string
  lg_dlp_profiles :: "json option"
  lg_collect_payload :: "bool option"
  lg_request_head :: "json option"
  lg_response_head :: "json option"
  lg_request_complete :: "bool option"
  lg_response_complete :: "bool option"
  lg_request_size :: "int option"
  lg_response_size :: "int option"
  lg_content_type :: string

text \<open>Pointer fields: null and an absent member leave them nil.\<close>

definition decode_flag :: "json \<Rightarrow> bool option option" where
  "decode_flag j = (case j of JNull \<Rightarrow> Some None | JBool b \<Rightarrow> Some (Some b) | _ \<Rightarrow> None)"

definition decode_real :: "json \<Rightarrow> f64 option option" where
  "decode_real j = (case j of JNull \<Rightarrow> Some None | JNum s \<Rightarrow> map_option Some (json_float s) | _ \<Rightarrow> None)"

definition decode_time :: "json \<Rightarrow> time option" where
  "decode_time j = (case j of JNull \<Rightarrow> Some 0 | JStr s \<Rightarrow> parse_rfc3339 s | _ \<Rightarrow> None)"

definition row_strings :: "string list" where
  "row_strings = [''id'', ''event_id'', ''provider'', ''model'', ''model_type'', ''path'', ''request_type'',
     ''user_agent'', ''dlp_action'', ''request_content_type'']"

definition row_counts :: "string list" where
  "row_counts = [''status_code'', ''tokens_in'', ''tokens_out'', ''step'', ''request_size'', ''response_size'']"

definition row_flags :: "string list" where
  "row_flags = [''success'', ''cached'', ''wholesale'', ''collect_log_payload'', ''request_head_complete'',
     ''response_head_complete'']"

definition usage_names :: "string list" where
  "usage_names = [''input_tokens'', ''output_tokens'', ''total_tokens'', ''output_reasoning_tokens'',
     ''input_cached_tokens'']"

definition struct_ok :: "(string \<times> json) list \<Rightarrow> string \<Rightarrow> ((string \<times> json) list \<Rightarrow> bool) \<Rightarrow> bool" where
  "struct_ok m k p = (case decode_obj (field_of m k) of None \<Rightarrow> False | Some x \<Rightarrow> p x)"

text \<open>No member of the row has a value of the wrong kind.\<close>

definition row_ok :: "(string \<times> json) list \<Rightarrow> bool" where
  "row_ok m \<longleftrightarrow>
     list_all (\<lambda>k. decode_str (field_of m k) \<noteq> None) row_strings \<and>
     list_all (\<lambda>k. decode_count (field_of m k) \<noteq> None) row_counts \<and>
     list_all (\<lambda>k. decode_flag (field_of m k) \<noteq> None) row_flags \<and>
     list_all (\<lambda>k. decode_real (field_of m k) \<noteq> None) [''duration'', ''cost''] \<and>
     decode_time (field_of m ''created_at'') \<noteq> None \<and>
     struct_ok m ''usage_metadata'' (\<lambda>x. list_all (\<lambda>k. decode_count (field_of x k) \<noteq> None) usage_names) \<and>
     struct_ok m ''timings'' (\<lambda>x. list_all (\<lambda>k. decode_real (field_of x k) \<noteq> None) [''total'', ''latency'']) \<and>
     struct_ok m ''location'' (\<lambda>x. list_all (\<lambda>k. decode_str (field_of x k) \<noteq> None) [''region'', ''colo''])"

definition str_at :: "(string \<times> json) list \<Rightarrow> string \<Rightarrow> string" where
  "str_at m k = (case decode_str (field_of m k) of Some s \<Rightarrow> s | None \<Rightarrow> [])"

definition count_at :: "(string \<times> json) list \<Rightarrow> string \<Rightarrow> int option" where
  "count_at m k = (case decode_count (field_of m k) of Some n \<Rightarrow> n | None \<Rightarrow> None)"

definition flag_at :: "(string \<times> json) list \<Rightarrow> string \<Rightarrow> bool option" where
  "flag_at m k = (case decode_flag (field_of m k) of Some b \<Rightarrow> b | None \<Rightarrow> None)"

definition real_at :: "(string \<times> json) list \<Rightarrow> string \<Rightarrow> f64 option" where
  "real_at m k = (case decode_real (field_of m k) of Some v \<Rightarrow> v | None \<Rightarrow> None)"

definition struct_at :: "(string \<times> json) list \<Rightarrow> string \<Rightarrow> ((string \<times> json) list \<Rightarrow> 'a) \<Rightarrow> 'a option" where
  "struct_at m k f = (case field_of m k of JObj kvs \<Rightarrow> Some (f (json_map kvs)) | _ \<Rightarrow> None)"

definition usage_of :: "(string \<times> json) list \<Rightarrow> usage_meta" where
  "usage_of x = \<lparr>um_input = count_at x ''input_tokens'', um_output = count_at x ''output_tokens'',
     um_total = count_at x ''total_tokens'', um_reasoning = count_at x ''output_reasoning_tokens'',
     um_cached = count_at x ''input_cached_tokens''\<rparr>"

definition row_of :: "(string \<times> json) list \<Rightarrow> log_row" where
  "row_of m = \<lparr>lg_id = str_at m ''id'',
     lg_created = (case decode_time (field_of m ''created_at'') of Some t \<Rightarrow> t | None \<Rightarrow> 0),
     lg_event_id = str_at m ''event_id'', lg_provider = str_at m ''provider'', lg_model = str_at m ''model'',
     lg_model_type = str_at m ''model_type'', lg_path = str_at m ''path'', lg_duration = real_at m ''duration'',
     lg_request_type = str_at m ''request_type'', lg_status = count_at m ''status_code'',
     lg_success = flag_at m ''success'', lg_cached = flag_at m ''cached'',
     lg_tokens_in = count_at m ''tokens_in'', lg_tokens_out = count_at m ''tokens_out'',
     lg_usage = struct_at m ''usage_metadata'' usage_of,
     lg_timings = struct_at m ''timings'' (\<lambda>x. (real_at x ''total'', real_at x ''latency'')),
     lg_location = struct_at m ''location'' (\<lambda>x. (str_at x ''region'', str_at x ''colo'')),
     lg_cost = real_at m ''cost'', lg_custom_cost = map_of m ''custom_cost'', lg_metadata = map_of m ''metadata'',
     lg_step = count_at m ''step'', lg_feedback = map_of m ''feedback'', lg_score = map_of m ''score'',
     lg_prompts = map_of m ''prompts'', lg_guardrails = map_of m ''guardrails'',
     lg_authentication = map_of m ''authentication'', lg_wholesale = flag_at m ''wholesale'',
     lg_byok = map_of m ''byok'', lg_user_agent = str_at m ''user_agent'', lg_dlp_action = str_at m ''dlp_action'',
     lg_dlp_profiles = map_of m ''dlp_profiles'', lg_collect_payload = flag_at m ''collect_log_payload'',
     lg_request_head = map_of m ''request_head'', lg_response_head = map_of m ''response_head'',
     lg_request_complete = flag_at m ''request_head_complete'',
     lg_response_complete = flag_at m ''response_head_complete'',
     lg_request_size = count_at m ''request_size'', lg_response_size = count_at m ''response_size'',
     lg_content_type = str_at m ''request_content_type''\<rparr>"

definition decode_row :: "json \<Rightarrow> log_row option" where
  "decode_row j =
     (case decode_obj j of None \<Rightarrow> None | Some m \<Rightarrow> if row_ok m then Some (row_of m) else None)"

definition decode_rows :: "json \<Rightarrow> log_row list option" where
  "decode_rows j = (case decode_list j of None \<Rightarrow> None | Some xs \<Rightarrow> decode_all decode_row xs)"

text \<open>What the detail read of a log adds: bodies and whether they are unavailable, request first.\<close>

record captured_log =
  cp_detail :: log_row
  cp_bodies :: "string \<times> string"
  cp_unavailable :: "bool \<times> bool"

record ai_config =
  ai_account :: string
  ai_gateways :: "string list"
  ai_capture :: bool
  ai_link :: bool
  ai_max_body :: int

subsection \<open>Attributes\<close>

abbreviation gw :: "string \<Rightarrow> string" where "gw s \<equiv> ''cloudflare.ai_gateway.'' @ s"

definition str_attr :: "string \<Rightarrow> string \<Rightarrow> attr list" where
  "str_attr k v = (if v = [] then [] else [\<lparr>key = k, val = v\<rparr>])"

definition int_attr :: "string \<Rightarrow> int option \<Rightarrow> attr list" where
  "int_attr k n = (case n of None \<Rightarrow> [] | Some i \<Rightarrow> [\<lparr>key = k, val = itoa i\<rparr>])"

definition float_attr :: "string \<Rightarrow> f64 option \<Rightarrow> attr list" where
  "float_attr k n = (case n of None \<Rightarrow> [] | Some v \<Rightarrow> [\<lparr>key = k, val = format_float v\<rparr>])"

definition bool_text :: "bool \<Rightarrow> string" where
  "bool_text b = (if b then ''true'' else ''false'')"

definition flag_attr :: "string \<Rightarrow> bool option \<Rightarrow> attr list" where
  "flag_attr k b = (case b of None \<Rightarrow> [] | Some x \<Rightarrow> [\<lparr>key = k, val = bool_text x\<rparr>])"

definition identity_attrs :: "string \<Rightarrow> log_row \<Rightarrow> attr list" where
  "identity_attrs gateway row =
     [\<lparr>key = gw ''gateway.name'', val = gateway\<rparr>, \<lparr>key = gw ''log.id'', val = lg_id row\<rparr>,
      \<lparr>key = ''gen_ai.operation.name'', val = operation_name (lg_path row)\<rparr>]"

definition request_attrs :: "log_row \<Rightarrow> attr list" where
  "request_attrs row =
     str_attr (gw ''event.id'') (lg_event_id row) @ str_attr (gw ''provider'') (lg_provider row)
     @ str_attr ''gen_ai.provider.name'' (provider_name (lg_provider row))
     @ str_attr ''gen_ai.request.model'' (normalize_model (lg_model row))
     @ str_attr (gw ''model.type'') (lg_model_type row) @ str_attr (gw ''path'') (lg_path row)
     @ float_attr (gw ''duration_ms'') (lg_duration row) @ str_attr (gw ''request.type'') (lg_request_type row)
     @ (if operation_name (lg_path row) = ''other'' then str_attr (gw ''operation'') ''other'' else [])
     @ int_attr (gw ''status_code'') (lg_status row) @ flag_attr (gw ''success'') (lg_success row)
     @ flag_attr (gw ''cached'') (lg_cached row)"

definition usage_attrs :: "log_row \<Rightarrow> attr list" where
  "usage_attrs row =
     (case lg_usage row of
        None \<Rightarrow> []
      | Some u \<Rightarrow> int_attr ''gen_ai.usage.cache_read.input_tokens'' (um_cached u)
               @ int_attr ''gen_ai.usage.reasoning.output_tokens'' (um_reasoning u))"

definition timing_attrs :: "log_row \<Rightarrow> attr list" where
  "timing_attrs row =
     (case lg_timings row of
        None \<Rightarrow> []
      | Some (t, l) \<Rightarrow> float_attr (gw ''timings.total_ms'') t @ float_attr (gw ''timings.latency_ms'') l)
     @ (case lg_location row of
          None \<Rightarrow> []
        | Some (r, c) \<Rightarrow> str_attr (gw ''location.region'') r @ str_attr (gw ''location.colo'') c)
     @ float_attr (gw ''cost'') (lg_cost row) @ float_attr ''gen_ai.usage.cost'' (lg_cost row)"

definition misc_attrs :: "log_row \<Rightarrow> attr list" where
  "misc_attrs row =
     str_attr (gw ''custom_cost'') (safe_scalar (lg_custom_cost row)) @ int_attr (gw ''step'') (lg_step row)
     @ str_attr (gw ''feedback'') (safe_scalar (lg_feedback row)) @ str_attr (gw ''score'') (safe_scalar (lg_score row))
     @ (if present (lg_authentication row) \<noteq> None then str_attr (gw ''authentication.present'') ''true'' else [])
     @ flag_attr (gw ''wholesale'') (lg_wholesale row) @ str_attr (gw ''byok'') (safe_boolean (lg_byok row))
     @ str_attr (gw ''user_agent'') (cap_string (lg_user_agent row) 512)"

definition row_dlp :: "log_row \<Rightarrow> dlp_outcome option" where
  "row_dlp row = parse_dlp_outcome (lg_dlp_action row) (lg_dlp_profiles row)"

definition dlp_attrs :: "log_row \<Rightarrow> attr list" where
  "dlp_attrs row =
     (case row_dlp row of
        None \<Rightarrow> []
      | Some d \<Rightarrow> str_attr (gw ''dlp.action'') (do_action d)
          @ str_attr (gw ''dlp.direction'') (json_string_array (do_directions d))
          @ str_attr (gw ''dlp.policy.id'') (json_string_array (do_policies d))
          @ str_attr (gw ''dlp.profile.id'') (json_string_array (do_profiles d)))"

definition opaque_attrs :: "ai_config \<Rightarrow> log_row \<Rightarrow> attr list" where
  "opaque_attrs cfg row =
     str_attr (gw ''metadata'') (redacted_json (lg_metadata row) 4096)
     @ str_attr (gw ''guardrails'') (redacted_json (lg_guardrails row) 4096)
     @ str_attr (gw ''dlp.profiles'') (redacted_json (lg_dlp_profiles row) 4096)
     @ (if ai_capture cfg then str_attr (gw ''prompts'') (redacted_json (lg_prompts row) (ai_max_body cfg)) else [])"

definition row_attrs :: "ai_config \<Rightarrow> string \<Rightarrow> log_row \<Rightarrow> attr list" where
  "row_attrs cfg gateway row =
     identity_attrs gateway row @ request_attrs row @ usage_attrs row @ timing_attrs row @ misc_attrs row
     @ dlp_attrs row @ opaque_attrs cfg row"

text \<open>The counts of the usage metadata take the place of the listed ones, zeros only where nothing positive is listed.\<close>

definition pick_usage :: "int option \<Rightarrow> int option \<Rightarrow> int option" where
  "pick_usage listed u =
     (case u of
        None \<Rightarrow> listed
      | Some n \<Rightarrow> if n \<noteq> 0 \<or> (case listed of None \<Rightarrow> True | Some l \<Rightarrow> l \<le> 0) then Some n else listed)"

type_synonym token_counts = "int option \<times> int option \<times> int option"

definition listed_counts :: "log_row \<Rightarrow> token_counts" where
  "listed_counts row =
     (case lg_usage row of
        None \<Rightarrow> (lg_tokens_in row, lg_tokens_out row, None)
      | Some u \<Rightarrow> (pick_usage (lg_tokens_in row) (um_input u), pick_usage (lg_tokens_out row) (um_output u), um_total u))"

subsection \<open>Captured bodies\<close>

text \<open>What one side of the exchange contributes: attributes of the span and of its content event, content logs,
  the metric of bodies that are not JSON, and the token counts.\<close>

record side_result =
  sd_attrs :: "attr list"
  sd_content :: "attr list"
  sd_logs :: "log_record list"
  sd_non_json :: bool
  sd_counts :: token_counts
  sd_derived :: bool

definition severity_info :: int where "severity_info = 9"
definition span_kind_client :: int where "span_kind_client = 3"

definition message_key :: "string \<Rightarrow> string" where
  "message_key side = (if side = ''request'' then ''gen_ai.input.messages'' else ''gen_ai.output.messages'')"

definition content_log :: "string \<Rightarrow> log_row \<Rightarrow> string \<Rightarrow> bool \<Rightarrow> string \<Rightarrow> log_record" where
  "content_log gateway row side truncated body =
     \<lparr>lr_name = ''gen_ai.client.inference.operation.details'', lr_body = body, lr_at = lg_created row,
      lr_severity = severity_info,
      lr_attrs = identity_attrs gateway row
        @ [\<lparr>key = ''gen_ai.request.model'', val = normalize_model (lg_model row)\<rparr>]
        @ str_attr ''gen_ai.provider.name'' (provider_name (lg_provider row))
        @ [\<lparr>key = gw ''content.side'', val = side\<rparr>,
           \<lparr>key = gw ''content.length'', val = itoa (int (length body))\<rparr>,
           \<lparr>key = gw (side @ ''.body_truncated''), val = bool_text truncated\<rparr>]\<rparr>"

text \<open>The body of the content log: the recognised messages while they fit, else the capped source.\<close>

definition side_messages :: "string \<Rightarrow> string \<Rightarrow> bool \<Rightarrow> string option" where
  "side_messages side capped truncated = (if truncated then None else parse_messages capped side)"

definition content_body :: "ai_config \<Rightarrow> string \<Rightarrow> string option \<Rightarrow> string" where
  "content_body cfg capped messages =
     (case messages of
        Some m \<Rightarrow> if int (length m) \<le> ai_max_body cfg then m else capped
      | None \<Rightarrow> capped)"

definition json_side :: "ai_config \<Rightarrow> string \<Rightarrow> log_row \<Rightarrow> string \<Rightarrow> string \<Rightarrow> token_counts \<Rightarrow> side_result" where
  "json_side cfg gateway row side body counts =
     (case cap_body body (ai_max_body cfg) of (capped, truncated) \<Rightarrow>
        (let messages = side_messages side capped truncated;
             text_body = content_body cfg capped messages;
             usage = (if side = ''response'' \<and> \<not> truncated
                      then (case counts of (i, u, t) \<Rightarrow> resolve_response_usage i u t capped) else (counts, False));
             parsed = (case messages of Some m \<Rightarrow> [\<lparr>key = message_key side, val = m\<rparr>] | None \<Rightarrow> []);
             raw = (if messages = None then str_attr (gw (side @ ''.body'')) capped else [])
         in \<lparr>sd_attrs = parsed,
             sd_content = \<lparr>key = gw (side @ ''.body_truncated''), val = bool_text truncated\<rparr> # parsed @ raw,
             sd_logs = (if text_body = [] then [] else [content_log gateway row side truncated text_body]),
             sd_non_json = False, sd_counts = fst usage, sd_derived = snd usage\<rparr>))"

definition flag_side :: "string \<Rightarrow> bool \<Rightarrow> bool \<Rightarrow> token_counts \<Rightarrow> side_result" where
  "flag_side k in_content non_json counts =
     (let a = [\<lparr>key = k, val = ''true''\<rparr>] in
      \<lparr>sd_attrs = a, sd_content = (if in_content then a else []), sd_logs = [], sd_non_json = non_json,
       sd_counts = counts, sd_derived = False\<rparr>)"

text \<open>A body that is not JSON is only counted; none of its bytes are exported.\<close>

definition body_side ::
  "ai_config \<Rightarrow> string \<Rightarrow> log_row \<Rightarrow> string \<Rightarrow> string \<Rightarrow> bool \<Rightarrow> token_counts \<Rightarrow> side_result" where
  "body_side cfg gateway row side body unavailable counts =
     (if unavailable then flag_side (gw (side @ ''.body_unavailable'')) True False counts
      else if \<not> json_valid body then flag_side (gw (side @ ''.body_non_json'')) False True counts
      else json_side cfg gateway row side body counts)"

definition detail_attrs :: "ai_config \<Rightarrow> log_row \<Rightarrow> attr list" where
  "detail_attrs cfg d =
     int_attr (gw ''request.size'') (lg_request_size d) @ int_attr (gw ''response.size'') (lg_response_size d)
     @ flag_attr (gw ''request.head_complete'') (lg_request_complete d)
     @ flag_attr (gw ''response.head_complete'') (lg_response_complete d)
     @ str_attr (gw ''request.content_type'') (lg_content_type d)
     @ (if ai_capture cfg then str_attr (gw ''request.head'') (safe_headers (lg_request_head d))
                             @ str_attr (gw ''response.head'') (safe_headers (lg_response_head d))
        else [])"

text \<open>What the captured detail adds to a row.\<close>

record capture_result =
  ct_attrs :: "attr list"
  ct_links :: "link list"
  ct_events :: "span_event list"
  ct_logs :: "log_record list"
  ct_non_json :: "string list"
  ct_counts :: token_counts
  ct_derived :: bool

definition no_capture :: "token_counts \<Rightarrow> capture_result" where
  "no_capture counts = \<lparr>ct_attrs = [], ct_links = [], ct_events = [], ct_logs = [], ct_non_json = [],
     ct_counts = counts, ct_derived = False\<rparr>"

definition capture_result_of ::
  "ai_config \<Rightarrow> (string \<Rightarrow> string \<Rightarrow> bool \<Rightarrow> string option) \<Rightarrow> string \<Rightarrow> log_row \<Rightarrow> captured_log \<Rightarrow> token_counts
     \<Rightarrow> capture_result" where
  "capture_result_of cfg context gateway row cap counts =
     (let d = cp_detail cap;
          links = (if ai_link cfg then trace_links context (lg_request_head d) else [])
      in if ai_capture cfg then
           (let rq = body_side cfg gateway row ''request'' (fst (cp_bodies cap)) (fst (cp_unavailable cap)) counts;
                rs = body_side cfg gateway row ''response'' (snd (cp_bodies cap)) (snd (cp_unavailable cap)) (sd_counts rq)
            in \<lparr>ct_attrs = detail_attrs cfg d @ sd_attrs rq @ sd_attrs rs, ct_links = links,
                ct_events = [\<lparr>ev_name = ''gen_ai.client.inference.operation.details'', ev_at = lg_created row,
                              ev_attrs = sd_content rq @ sd_content rs\<rparr>],
                ct_logs = sd_logs rq @ sd_logs rs,
                ct_non_json = (if sd_non_json rq then [''request''] else []) @ (if sd_non_json rs then [''response''] else []),
                ct_counts = sd_counts rs, ct_derived = sd_derived rs\<rparr>)
         else (no_capture counts)\<lparr>ct_attrs := detail_attrs cfg d, ct_links := links\<rparr>)"

subsection \<open>The emissions of a row\<close>

definition row_failed :: "log_row \<Rightarrow> bool" where
  "row_failed row \<longleftrightarrow> (case lg_status row of Some s \<Rightarrow> 400 \<le> s | None \<Rightarrow> False) \<or> lg_success row = Some False"

definition row_dims :: "string \<Rightarrow> log_row \<Rightarrow> attr list" where
  "row_dims gateway row =
     [\<lparr>key = gw ''gateway.name'', val = gateway\<rparr>, \<lparr>key = ''gen_ai.operation.name'', val = operation_name (lg_path row)\<rparr>]
     @ str_attr ''gen_ai.provider.name'' (provider_name (lg_provider row))
     @ [\<lparr>key = ''gen_ai.request.model'', val = normalize_model (lg_model row)\<rparr>,
        \<lparr>key = ''cf2otel.status_class'',
         val = (case lg_status row of None \<Rightarrow> ''unknown'' | Some s \<Rightarrow> itoa (go_quot s 100) @ ''xx'')\<rparr>]"

definition error_type :: "log_row \<Rightarrow> string" where
  "error_type row = (case lg_status row of None \<Rightarrow> ''request_failed'' | Some s \<Rightarrow> itoa s)"

definition token_metric :: "string \<Rightarrow> int option \<Rightarrow> attr list \<Rightarrow> emission list" where
  "token_metric m n dims = (case n of Some k \<Rightarrow> if 0 \<le> k then [ECounter m (of_int k) dims] else [] | None \<Rightarrow> [])"

definition token_emissions :: "string \<Rightarrow> string \<Rightarrow> int option \<Rightarrow> attr list \<Rightarrow> emission list" where
  "token_emissions m h n dims =
     (case n of Some k \<Rightarrow> if 0 \<le> k then [ECounter m (of_int k) dims, EHistogram h (of_int k) dims] else [] | None \<Rightarrow> [])"

definition dlp_emissions :: "string \<Rightarrow> log_row \<Rightarrow> emission list" where
  "dlp_emissions gateway row =
     (case row_dlp row of
        None \<Rightarrow> []
      | Some d \<Rightarrow> map (\<lambda>dir. ECounter (gw ''dlp.requests'') 1
            [\<lparr>key = gw ''gateway.name'', val = gateway\<rparr>, \<lparr>key = gw ''dlp.action'', val = do_action d\<rparr>,
             \<lparr>key = gw ''dlp.direction'', val = dir\<rparr>])
          (if do_directions d = [] then [''other''] else do_directions d))"

definition rfc3339_nano :: "time \<Rightarrow> string" where
  "rfc3339_nano t = trim_suffix ''Z'' (rfc3339 t) @ fmt_frac (t mod second) 9 @ ''Z''"

definition span_attrs :: "ai_config \<Rightarrow> string \<Rightarrow> log_row \<Rightarrow> capture_result \<Rightarrow> attr list" where
  "span_attrs cfg gateway row ct =
     row_attrs cfg gateway row @ ct_attrs ct
     @ (case ct_counts ct of (i, u, t) \<Rightarrow>
          int_attr ''gen_ai.usage.input_tokens'' i @ int_attr ''gen_ai.usage.output_tokens'' u
          @ int_attr (gw ''usage.total_tokens'') t)
     @ (if ct_derived ct then str_attr (gw ''usage_source'') ''response_body'' else [])"

definition log_event :: "log_row \<Rightarrow> attr list \<Rightarrow> emission" where
  "log_event row as =
     ELogEvent ''cloudflare.ai_gateway.request'' ''AI Gateway request'' (lg_created row) severity_info
       (filter (\<lambda>a. key a \<noteq> ''gen_ai.input.messages'' \<and> key a \<noteq> ''gen_ai.output.messages'') as
        @ [\<lparr>key = gw ''created_at'', val = rfc3339_nano (lg_created row)\<rparr>])"

definition log_span :: "log_row \<Rightarrow> f64 \<Rightarrow> attr list \<Rightarrow> capture_result \<Rightarrow> emission" where
  "log_span row d as ct =
     ESpan \<lparr>sp_name = operation_name (lg_path row) @ '' '' @ normalize_model (lg_model row),
       sp_start = lg_created row - \<lfloor>d * of_int millisecond\<rfloor>, sp_end = lg_created row, sp_kind = span_kind_client,
       sp_links = ct_links ct, sp_events = ct_events ct, sp_logs = ct_logs ct, sp_attrs = as,
       sp_error = (if row_failed row then Some (ErrNew ''AI Gateway request failed'') else None)\<rparr>"

definition row_metrics :: "string \<Rightarrow> log_row \<Rightarrow> f64 \<Rightarrow> token_counts \<Rightarrow> emission list" where
  "row_metrics gateway row d counts =
     (let dims = row_dims gateway row in
      [ECounter (gw ''requests'') 1 dims] @ (if row_failed row then [ECounter (gw ''errors'') 1 dims] else [])
      @ [EHistogram ''gen_ai.client.operation.duration'' (d / 1000)
           (dims @ (if row_failed row then [\<lparr>key = ''error.type'', val = error_type row\<rparr>] else []))]
      @ (if lg_cached row = Some True then [ECounter (gw ''cache_hits'') 1 dims] else [])
      @ (case counts of (i, u, t) \<Rightarrow>
           token_emissions ''gen_ai.client.inference.usage.input_tokens'' ''gen_ai.client.inference.operation.input_tokens'' i dims
           @ token_emissions ''gen_ai.client.inference.usage.output_tokens'' ''gen_ai.client.inference.operation.output_tokens'' u dims)
      @ (case lg_usage row of None \<Rightarrow> []
         | Some u \<Rightarrow> token_metric ''gen_ai.client.inference.usage.cache_read.input_tokens'' (um_cached u) dims
                  @ token_metric ''gen_ai.client.inference.usage.reasoning.output_tokens'' (um_reasoning u) dims)
      @ (case lg_cost row of Some c \<Rightarrow> if 0 \<le> c then [ECounter (gw ''cost'') c dims] else [] | None \<Rightarrow> [])
      @ dlp_emissions gateway row)"

text \<open>A duration is at most a day; then the row has all its emissions.\<close>

definition row_duration :: "log_row \<Rightarrow> f64 option" where
  "row_duration row =
     (case lg_duration row of
        Some d \<Rightarrow> if 0 \<le> d \<and> d \<le> 86400000 then Some d else None
      | None \<Rightarrow> None)"

definition log_emissions :: "ai_config \<Rightarrow> string \<Rightarrow> log_row \<Rightarrow> f64 \<Rightarrow> capture_result \<Rightarrow> emission list" where
  "log_emissions cfg gateway row d ct =
     (let as = span_attrs cfg gateway row ct in
      [log_event row as, log_span row d as ct]
      @ map (\<lambda>side. ECounter (gw ''body_non_json'') 1 [\<lparr>key = gw ''body.side'', val = side\<rparr>]) (ct_non_json ct)
      @ row_metrics gateway row d (ct_counts ct))"

definition needs_detail :: "ai_config \<Rightarrow> bool" where
  "needs_detail cfg \<longleftrightarrow> ai_capture cfg \<or> ai_link cfg"

definition row_emissions ::
  "ai_config \<Rightarrow> (string \<Rightarrow> string \<Rightarrow> bool \<Rightarrow> string option) \<Rightarrow> string \<Rightarrow> log_row \<Rightarrow> f64 \<Rightarrow> captured_log \<Rightarrow> emission list" where
  "row_emissions cfg context gateway row d cap =
     log_emissions cfg gateway row d
       (if needs_detail cfg then capture_result_of cfg context gateway row cap (listed_counts row)
        else no_capture (listed_counts row))"

end
