(* ===== verification/LogContentProps.thy ===== *)
theory LogContentProps
  imports LogContent
begin

text \<open>
  The promises of \<open>LogContent\<close>: what leaves the process of opaque metadata is redacted and bounded, the headers are
  those of the allow list, a cut body stays valid UTF-8, and derived token counts never overflow.
\<close>

subsection \<open>The text of numbers\<close>

lemma number_ok_parts:
  assumes m: "m = [] \<or> m = ''-''"
    and w: "w = ''0'' \<or> (w \<noteq> [] \<and> list_all is_digit w \<and> hd w \<noteq> CHR ''0'')"
    and f: "f = [] \<or> (\<exists>ds. f = CHR ''.'' # ds \<and> ds \<noteq> [] \<and> list_all is_digit ds)"
    and e: "e = [] \<or> (\<exists>s ds. e = CHR ''e'' # s # ds \<and> (s = CHR ''+'' \<or> s = CHR ''-'') \<and> ds \<noteq> [] \<and> list_all is_digit ds)"
  shows "number_ok (m @ w @ f @ e)"
proof -
  have whole: "takeWhile is_digit ds = ds \<and> dropWhile is_digit ds = []" if "list_all is_digit ds" for ds
    using that by (simp add: list_all_iff takeWhile_eq_all_conv)
  have all: "takeWhile is_digit (ds @ q) = ds" "dropWhile is_digit (ds @ q) = q"
    if "list_all is_digit ds" "q = [] \<or> \<not> is_digit (hd q)" for ds q
    using span_stop [where P = is_digit, OF that(2), of ds] whole [OF that(1)] by simp_all
  have e': "e = [] \<or> \<not> is_digit (hd e) \<and> hd e \<noteq> CHR ''.''" using e by (auto simp: is_digit_def)
  have ex: "scan_exponent e = Some (e, [])"
    using e by (auto simp: whole list_all_iff scan_exponent_def has_prefix_Cons exponent_sign_def Let_def)
  have fr: "scan_fraction (f @ e) = Some (f, e)"
  proof (cases "f = []")
    case True
    with e' show ?thesis by (auto simp: scan_fraction_def has_prefix_single)
  next
    case False
    with f obtain ds where ds: "f = CHR ''.'' # ds" "ds \<noteq> []" "list_all is_digit ds" by blast
    from e' have "e = [] \<or> \<not> is_digit (hd e)" by blast
    from all [OF ds(3) this] ds show ?thesis by (simp add: scan_fraction_def has_prefix_Cons Let_def)
  qed
  have q: "f @ e = [] \<or> \<not> is_digit (hd (f @ e))" using f e' by (auto simp: is_digit_def)
  have wd: "w \<noteq> []" "is_digit (hd w)" using w by (auto simp: is_digit_def list_all_iff)
  then have "hd w \<noteq> CHR ''-''" by (auto simp: is_digit_def)
  then have m': "(if has_prefix ''-'' (m @ w @ f @ e) then ''-'' else []) = m"
    using m wd by (auto simp: has_prefix_single)
  have i: "int_digits (w @ f @ e) = w"
    using w all [OF _ q, of w] wd by (auto simp: int_digits_def has_prefix_single)
  show ?thesis unfolding number_ok_def scan_number_parts m'
    using i wd fr ex by (intro exI [of _ m] exI [of _ "w @ f @ e"] exI [of _ f] exI [of _ e]) simp
qed

lemma dec_digits_first: "0 < n \<Longrightarrow> hd (dec_digits n) \<noteq> CHR ''0''"
proof (induction n rule: dec_digits.induct)
  case (1 n)
  show ?case
  proof (cases "n < 10")
    case True
    with "1.prems" digit_cases [of n] show ?thesis by (auto simp: dec_digits.simps [of n] digit_char_def)
  next
    case False
    then have "0 < n div 10" by (simp add: pos_imp_zdiv_pos_iff)
    from "1.IH" [OF False this] False show ?thesis by (simp add: dec_digits.simps [of n])
  qed
qed

lemma dec_digits_zero [simp]: "dec_digits 0 = ''0''"
  by (simp add: dec_digits.simps digit_char_def)

lemma padded_whole:
  assumes "0 \<le> n" "ds = zero_pad (Suc k) n" "w = take (length ds - k) ds"
  shows "w = ''0'' \<or> (w \<noteq> [] \<and> list_all is_digit w \<and> hd w \<noteq> CHR ''0'')"
    "list_all is_digit ds" "k < length ds"
proof -
  let ?d = "dec_digits n"
  have dd: "list_all is_digit ?d" "?d \<noteq> []" using dec_digits_digits [OF assms(1)] by simp_all
  have ds: "ds = replicate (Suc k - length ?d) CHR ''0'' @ ?d" by (simp add: assms(2) zero_pad_def Let_def)
  show all: "list_all is_digit ds" using dd(1) by (auto simp: ds list_all_iff is_digit_def)
  show "k < length ds" by (simp add: ds)
  show "w = ''0'' \<or> (w \<noteq> [] \<and> list_all is_digit w \<and> hd w \<noteq> CHR ''0'')"
  proof (cases "length ?d \<le> k")
    case True
    then have "length ds - k = 1" "Suc k - length ?d = Suc (k - length ?d)" by (simp_all add: ds)
    then show ?thesis by (simp add: assms(3) ds)
  next
    case False
    then have d: "ds = ?d" by (simp add: ds)
    have ne: "length ds - k \<noteq> 0" using False by (simp add: d)
    show ?thesis
    proof (cases "n = 0")
      case True
      with d False show ?thesis by (simp add: assms(3))
    next
      case nz: False
      then have "hd ?d \<noteq> CHR ''0''" using assms(1) by (simp add: dec_digits_first)
      moreover have "list_all is_digit w" using all by (auto simp: assms(3) list_all_iff dest: in_set_takeD)
      ultimately show ?thesis using ne d dd(2) by (simp add: assms(3))
    qed
  qed
qed

lemma format_float_ok: "number_ok (format_float v)"
proof -
  let ?k = "frac_digits max_decimals \<bar>v\<bar>"
  let ?ds = "zero_pad (Suc ?k) \<lfloor>\<bar>v\<bar> * 10 ^ ?k\<rfloor>"
  have n: "0 \<le> \<lfloor>\<bar>v\<bar> * 10 ^ ?k\<rfloor>" by simp
  note p = padded_whole [OF n refl refl, of ?k]
  have "list_all is_digit (drop (length ?ds - ?k) ?ds)" using p(2) by (auto simp: list_all_iff dest: in_set_dropD)
  moreover have "?k \<noteq> 0 \<Longrightarrow> drop (length ?ds - ?k) ?ds \<noteq> []" using p(3) unfolding drop_eq_Nil by linarith
  ultimately show ?thesis
    using number_ok_parts [of "if v < 0 then ''-'' else []" "take (length ?ds - ?k) ?ds"
        "if ?k = 0 then [] else ''.'' @ drop (length ?ds - ?k) ?ds" "[]"] p(1)
    by (simp add: format_float_def Let_def)
qed

lemma strip_zeros_set: "set (strip_zeros s) \<subseteq> set s"
  by (auto simp: strip_zeros_def dest: set_dropWhileD)

lemma json_float_text_ok: "number_ok (json_float_text v)"
proof (cases "v = 0 \<or> (1 / 10 ^ 6 \<le> \<bar>v\<bar> \<and> \<bar>v\<bar> < 10 ^ 21)")
  case True
  then show ?thesis by (auto simp: json_float_text_def format_float_ok)
next
  case False
  let ?k = "frac_digits max_decimals \<bar>v\<bar>"
  let ?n = "dec_digits \<lfloor>\<bar>v\<bar> * 10 ^ ?k\<rfloor>"
  let ?x = "int (length ?n) - 1 - int ?k"
  have d: "list_all is_digit ?n" by (simp add: dec_digits_digits)
  then have t: "list_all is_digit (tl (strip_zeros ?n))"
    using strip_zeros_set [of ?n] by (cases "strip_zeros ?n") (auto simp: list_all_iff)
  obtain c cs where c: "?n = c # cs" by (cases ?n) auto
  have w: "take 1 ?n = ''0'' \<or> (take 1 ?n \<noteq> [] \<and> list_all is_digit (take 1 ?n) \<and> hd (take 1 ?n) \<noteq> CHR ''0'')"
    using d by (auto simp: c)
  have x: "list_all is_digit (dec_digits \<bar>?x\<bar>)" by (simp add: dec_digits_digits)
  have "number_ok ((if v < 0 then ''-'' else []) @ take 1 ?n @ (if tl (strip_zeros ?n) = [] then [] else ''.'' @ tl (strip_zeros ?n))
     @ ''e'' @ (if ?x < 0 then ''-'' else ''+'') @ dec_digits \<bar>?x\<bar>)"
    by (rule number_ok_parts) (use w t x in auto)
  moreover have "json_float_text v = (if v < 0 then ''-'' else []) @ take 1 ?n
     @ (if tl (strip_zeros ?n) = [] then [] else ''.'' @ tl (strip_zeros ?n))
     @ ''e'' @ (if ?x < 0 then ''-'' else ''+'') @ dec_digits \<bar>?x\<bar>"
    by (simp only: json_float_text_def False if_False Let_def)
  ultimately show ?thesis by simp
qed

lemma any_number_ok: "number_ok (any_number_text s)"
proof -
  have "number_ok (''-'' @ ''0'' @ [] @ [])" by (rule number_ok_parts) simp_all
  then show ?thesis by (simp add: any_number_text_def Let_def json_float_text_ok)
qed

lemma any_norm_wf: "json_wf d j \<Longrightarrow> json_wf d (any_norm j)"
proof (induction j arbitrary: d)
  case (JArr xs)
  then show ?case by (auto simp: list_all_iff)
next
  case (JObj kvs)
  then show ?case by (fastforce simp: list_all_iff dest!: json_map_set)
qed (simp_all add: any_number_ok)

subsection \<open>What redaction keeps\<close>

text \<open>A redacted value: no string but the mark, no sensitive key, bounded depth and width.\<close>

fun redacted :: "nat \<Rightarrow> json \<Rightarrow> bool" where
  "redacted depth (JStr s) = (depth \<le> 8 \<and> s = ''[REDACTED]'')"
| "redacted depth (JArr xs) = (depth \<le> 8 \<and> length xs \<le> 64 \<and> list_all (redacted (Suc depth)) xs)"
| "redacted depth (JObj kvs) =
     (depth \<le> 8 \<and> list_all (\<lambda>(k, v). \<not> sensitive_key k \<and> redacted (Suc depth) v) kvs)"
| "redacted depth v = (depth \<le> 8)"

lemma length_keep: "length (concat (map (\<lambda>v. case f v of None \<Rightarrow> [] | Some c \<Rightarrow> [c]) xs)) \<le> length xs"
  by (induction xs) (auto split: option.splits)

lemma redact_sound: "redact depth j = Some c \<Longrightarrow> json_wf d j \<Longrightarrow> json_wf d c \<and> redacted depth c"
proof (induction depth j arbitrary: c d rule: redact.induct)
  case (1 depth kvs)
  then show ?case by (fastforce simp: list_all_iff split: if_splits option.splits)
next
  case (2 depth xs)
  have len: "length (concat (map (\<lambda>v. case redact (Suc depth) v of None \<Rightarrow> [] | Some c \<Rightarrow> [c]) xs)) \<le> length xs"
    by (rule length_keep)
  from 2 show ?case using len by (fastforce simp: list_all_iff split: if_splits option.splits)
next
  case (3 depth s)
  have "valid_string ''[REDACTED]''" by (rule valid_ascii) simp
  with 3 show ?case by (auto split: if_splits)
qed (auto split: if_splits)

text \<open>C37. 
  C41. Redaction is sound: whatever JSON a gateway log carries as metadata, the text that is exported for it is
  no longer than the limit and is the encoding of a value without any string of the input (each is the redaction mark), without
  keys that look like credentials or addresses, and at most eight levels deep and 64 elements wide.
\<close>

theorem redacted_json_safe:
  assumes "json_parse text = Some raw" "out = redacted_json (Some raw) limit" "out \<noteq> []"
  shows "int (length out) \<le> limit \<and> (\<exists>c. json_parse out = Some c \<and> redacted 0 c)"
proof -
  from assms(2,3) obtain v c where v: "any_value raw = Some v" "redact 0 v = Some c" "out = json_text c"
    "int (length (json_text c)) \<le> limit"
    by (auto simp: redacted_json_def present_def split: option.splits if_splits)
  from v(1) have "v = any_norm raw" by (simp add: any_value_def split: if_splits)
  then have "json_wf max_nesting v" using json_parse_wf [OF assms(1)] by (simp add: any_norm_wf)
  from redact_sound [OF v(2) this] have "json_wf max_nesting c" "redacted 0 c" by simp_all
  with v(3,4) json_text_roundtrip show ?thesis by blast
qed

lemma redaction_sample:
  "redacted_json (Some (JObj [(''a'', JStr ''b''), (''token'', JStr ''c'')])) 100 = json_text (JObj [(''a'', JStr ''[REDACTED]'')])"
  by code_simp

theorem redacted_json_safe_witness:
  "let out = redacted_json (Some (JObj [(''a'', JStr ''b''), (''token'', JStr ''c'')])) 100 in
   out \<noteq> [] \<and> length out \<le> 100 \<and> (\<exists>c. json_parse out = Some c \<and> redacted 0 c)"
proof -
  let ?j = "JObj [(''a'', JStr ''b''), (''token'', JStr ''c'')]"
  have parsed: "json_parse (json_text ?j) = Some ?j" by (rule json_text_roundtrip) code_simp
  have "redacted_json (Some ?j) 100 \<noteq> []" unfolding redaction_sample by code_simp
  with redacted_json_safe [OF parsed refl, of 100] show ?thesis by (simp add: Let_def)
qed

subsection \<open>Cutting at a character\<close>

lemma rune_ranges_cont: "rune_ranges b = Some rs \<Longrightarrow> (lo, hi) \<in> set rs \<Longrightarrow> 128 \<le> lo \<and> hi \<le> 191"
  by (auto simp: rune_ranges_def split: if_splits)

lemma accept_ranges_nth:
  "accept_ranges rs cs \<Longrightarrow> i < length rs \<Longrightarrow> fst (rs ! i) \<le> byte (cs ! i) \<and> byte (cs ! i) \<le> snd (rs ! i)"
proof (induction rs cs arbitrary: i rule: accept_ranges.induct)
  case (3 lo hi rs c cs)
  then show ?case by (cases i) auto
qed auto

lemma rune_inside:
  assumes "0 < i" "i < rune_len s"
  shows "\<not> rune_start (s ! i)"
proof -
  from assms obtain c cs rs where s: "s = c # cs" "rune_ranges (byte c) = Some rs" "accept_ranges rs cs"
    "rune_len s = Suc (length rs)"
    by (auto simp: rune_len_def split: list.splits option.splits if_splits)
  then have i: "i - 1 < length rs" using assms by simp
  from accept_ranges_nth [OF s(3) i] rune_ranges_cont [OF s(2), of "fst (rs ! (i - 1))" "snd (rs ! (i - 1))"] i
  have "128 \<le> byte (cs ! (i - 1))" "byte (cs ! (i - 1)) \<le> 191" by auto
  with assms(1) s(1) show ?thesis by (simp add: rune_start_def)
qed

lemma rune_len_first: "rune_len s \<noteq> 0 \<Longrightarrow> s \<noteq> [] \<and> rune_start (hd s) \<and> rune_len s \<le> 4"
  by (cases s) (auto simp: rune_len_def rune_ranges_def rune_start_def split: if_splits)

lemma valid_take_start:
  "valid_string s \<Longrightarrow> i < length s \<Longrightarrow> rune_start (s ! i) \<Longrightarrow> valid_string (take i s)"
proof (induction s arbitrary: i rule: valid_string.induct)
  case (1 s)
  from "1.prems" have ne: "s \<noteq> []" by auto
  note r = valid_string_rest [OF "1.prems"(1) ne]
  let ?n = "rune_len s"
  consider "i = 0" | "0 < i" "i < ?n" | "?n \<le> i" by linarith
  then show ?case
  proof cases
    case 1
    then show ?thesis by simp
  next
    case 2
    with rune_inside "1.prems"(3) show ?thesis by blast
  next
    case 3
    have "valid_string (take (i - ?n) (drop ?n s))"
      by (rule "1.IH" [OF ne r]) (use 3 "1.prems" in simp_all)
    moreover have "take i s = take ?n s @ take (i - ?n) (drop ?n s)"
      using 3 by (metis le_add_diff_inverse take_add)
    ultimately show ?thesis using valid_string_rune [OF r(1)] by (simp add: valid_string_append)
  qed
qed

lemma rune_around:
  "valid_string s \<Longrightarrow> n < length s \<Longrightarrow> \<exists>i \<le> n. n < i + rune_len (drop i s) \<and> rune_len (drop i s) \<le> 4 \<and> rune_start (s ! i)"
proof (induction s arbitrary: n rule: valid_string.induct)
  case (1 s)
  from "1.prems" have ne: "s \<noteq> []" by auto
  note r = valid_string_rest [OF "1.prems"(1) ne]
  let ?m = "rune_len s"
  show ?case
  proof (cases "n < ?m")
    case True
    with rune_len_first [OF r(1)] ne show ?thesis by (intro exI [of _ 0]) (simp add: hd_conv_nth)
  next
    case False
    have "n - ?m < length (drop ?m s)" using False "1.prems" by simp
    from "1.IH" [OF ne r this] obtain i where "i \<le> n - ?m" "n - ?m < i + rune_len (drop i (drop ?m s))"
      "rune_len (drop i (drop ?m s)) \<le> 4" "rune_start (drop ?m s ! i)" by blast
    with False "1.prems" show ?thesis by (intro exI [of _ "?m + i"]) (auto simp: add.commute)
  qed
qed

lemma boundary_back_sound: "boundary_back k s n = Some i \<Longrightarrow> 0 < i \<and> i \<le> n \<and> rune_start (s ! i)"
  by (induction k s n rule: boundary_back.induct) (auto split: if_splits)

lemma boundary_back_found:
  "0 < i \<Longrightarrow> i \<le> n \<Longrightarrow> n < i + k \<Longrightarrow> rune_start (s ! i) \<Longrightarrow> boundary_back k s n \<noteq> None"
proof (induction k s n rule: boundary_back.induct)
  case (2 k s n)
  then show ?case by (cases "i = n") auto
qed simp

lemma rune_boundary_valid:
  assumes "valid_string s" "0 < n" "4 \<le> n \<or> s \<noteq> [] \<and> byte (hd s) < 128"
  shows "valid_string (take (rune_boundary s n) s)" "rune_boundary s n \<le> n" "0 < rune_boundary s n \<or> s = []"
proof -
  have "valid_string (take (rune_boundary s n) s) \<and> rune_boundary s n \<le> n \<and> (0 < rune_boundary s n \<or> s = [])"
  proof (cases "length s \<le> n")
    case True
    with assms(1) show ?thesis by (simp add: rune_boundary_def)
  next
    case False
    then obtain i where i: "i \<le> n" "n < i + rune_len (drop i s)" "rune_len (drop i s) \<le> 4" "rune_start (s ! i)"
      using rune_around [OF assms(1), of n] by auto
    have "0 < i"
    proof (rule ccontr)
      assume "\<not> 0 < i"
      with i have l: "n < rune_len s" "rune_len s \<le> 4" by simp_all
      with assms(3) have "s \<noteq> []" "byte (hd s) < 128" by auto
      then have "rune_len s = 1" by (cases s) (auto simp: rune_len_ascii)
      with l assms(2) show False by simp
    qed
    then obtain j where j: "boundary_back 4 s n = Some j"
      using boundary_back_found [of i n 4 s] i by fastforce
    with boundary_back_sound [OF j] valid_take_start [OF assms(1), of j] False show ?thesis
      by (simp add: rune_boundary_def)
  qed
  then show "valid_string (take (rune_boundary s n) s)" "rune_boundary s n \<le> n" "0 < rune_boundary s n \<or> s = []" by simp_all
qed

lemma parse_value_ascii: "parse_value n d s = Some (j, r) \<Longrightarrow> s \<noteq> [] \<and> byte (hd s) < 128"
proof (cases n)
  case (Suc m)
  assume p: "parse_value n d s = Some (j, r)"
  then obtain c cs where c: "skip_ws s = c # cs" by (auto simp: Suc split: list.splits)
  have "byte c < 128"
  proof (rule ccontr)
    assume b: "\<not> byte c < 128"
    then have "c \<noteq> CHR ''{''" "c \<noteq> CHR ''[''" "c \<noteq> CHR 0x22" "c \<noteq> CHR ''n''" "c \<noteq> CHR ''t''" "c \<noteq> CHR ''f''" by auto
    with p c Suc obtain t where "scan_number (c # cs) = Some (t, r)" by (auto simp: has_prefix_Cons)
    from scan_number_stop(1) [OF this] scan_number_stop(3) [OF this] have "is_digit c \<or> c = CHR ''-''" by (cases t) auto
    with b show False by (auto simp: is_digit_def)
  qed
  then show ?thesis using c by (cases s) (auto simp: skip_ws_def is_ws_def split: if_splits)
qed simp

lemma json_valid_ascii: "json_valid s \<Longrightarrow> s \<noteq> [] \<and> byte (hd s) < 128"
  by (auto simp: json_valid_def json_parse_def split: option.splits prod.splits simp del: parse_value.simps
      dest: parse_value_ascii)

text \<open>
  A body that is JSON is cut at a character: what is exported of it is a prefix within the limit, still valid
  UTF-8, and the flag says exactly whether something is missing.
\<close>

lemma cap_body_valid:
  assumes "json_valid body" "valid_string body" "0 < limit" "cap_body body limit = (capped, truncated)"
  shows "valid_string capped \<and> prefix capped body \<and> int (length capped) \<le> limit \<and> capped \<noteq> [] \<and>
    truncated = (limit < int (length body)) \<and> (truncated \<longleftrightarrow> capped \<noteq> body)"
proof -
  note a = json_valid_ascii [OF assms(1)]
  show ?thesis
  proof (cases "limit < int (length body)")
    case True
    then have c: "capped = take (rune_boundary body (nat limit)) body" "truncated" using assms(3,4) by (auto simp: cap_body_def)
    note r = rune_boundary_valid [OF assms(2), of "nat limit"]
    have n: "rune_boundary body (nat limit) < length body" using r a True assms(3) by auto
    with r a c True assms(3) show ?thesis by (auto simp: take_is_prefix)
  next
    case False
    with assms a show ?thesis by (auto simp: cap_body_def)
  qed
qed

text \<open>A short limit can cut a character that starts the string, whatever \<open>runeBoundary\<close> promises.\<close>

lemma rune_boundary_splits:
  "valid_string [CHR 0xC3, CHR 0xA9, CHR ''a''] \<and>
   \<not> valid_string (take (rune_boundary [CHR 0xC3, CHR 0xA9, CHR ''a''] 1) [CHR 0xC3, CHR 0xA9, CHR ''a''])"
  by code_simp

subsection \<open>Headers\<close>

lemma allow_header_inv:
  assumes "list_all (\<lambda>(k, v). k \<in> set allowed_headers \<and> (\<exists>s. v = JStr s \<and> length s \<le> 512)) m"
  shows "list_all (\<lambda>(k, v). k \<in> set allowed_headers \<and> (\<exists>s. v = JStr s \<and> length s \<le> 512)) (allow_header kv m)"
  using assms by (auto simp: allow_header_def map_set_def list_all_iff set_insort_key Let_def split: json.splits)

lemma safe_headers_allowed:
  assumes "safe_headers raw \<noteq> []"
  obtains m where "safe_headers raw = json_text (JObj m)"
    "list_all (\<lambda>(k, v). k \<in> set allowed_headers \<and> (\<exists>s. v = JStr s \<and> length s \<le> 512)) m"
proof -
  let ?I = "list_all (\<lambda>(k, v). k \<in> set allowed_headers \<and> (\<exists>s. v = JStr s \<and> length s \<le> 512))"
  have inv: "?I (fold allow_header hs m)" if "?I m" for hs m
    using that by (induction hs arbitrary: m) (simp_all add: allow_header_inv)
  from assms obtain hs where "safe_headers raw = json_text (JObj (fold allow_header hs []))"
    by (auto simp: safe_headers_def Let_def split: option.splits if_splits)
  with inv [of "[]" hs] show ?thesis using that by simp
qed

subsection \<open>Token counts\<close>

text \<open>A positive count of the gateway is kept, and a total that is formed here is the sum and fits an \<open>int64\<close>.\<close>

lemma resolve_usage_sound:
  assumes "resolve_response_usage i u t body = ((i', u', t'), derived)"
  shows "\<not> missing_count i \<Longrightarrow> i' = i" "\<not> missing_count u \<Longrightarrow> u' = u" "\<not> derived \<Longrightarrow> i' = i \<and> u' = u \<and> t' = t"
    "t' \<noteq> t \<Longrightarrow> missing_count t \<and> (\<exists>a b. i' = Some a \<and> u' = Some b \<and> t' = Some (a + b) \<and> 0 \<le> a + b \<and> a + b \<le> max_int64)"
  using assms by (auto simp: resolve_response_usage_def fill_count_def Let_def split: prod.splits option.splits if_splits)

end
