(* ===== verification/LogRowsProps.thy ===== *)
theory LogRowsProps
  imports LogRows LogContentProps
begin

text \<open>
  What a gateway log may reveal. With the capture of bodies off, nothing that is sent depends on prompts, bodies or
  response heads; with it on, content is bounded, and bodies that are not JSON are only counted.
\<close>

subsection \<open>Without capture\<close>

definition same_but_content :: "log_row \<Rightarrow> log_row \<Rightarrow> bool" where
  "same_but_content r r' \<longleftrightarrow>
     r' = r\<lparr>lg_prompts := lg_prompts r', lg_request_head := lg_request_head r', lg_response_head := lg_response_head r'\<rparr>"

lemma same_but_contentE:
  assumes "same_but_content r r'"
  obtains p q s where "r' = r\<lparr>lg_prompts := p, lg_request_head := q, lg_response_head := s\<rparr>"
  using assms unfolding same_but_content_def by blast

lemmas row_parts = identity_attrs_def request_attrs_def usage_attrs_def timing_attrs_def misc_attrs_def dlp_attrs_def
  row_dlp_def

lemma row_attrs_content:
  assumes "\<not> ai_capture cfg" "same_but_content r r'"
  shows "row_attrs cfg g r' = row_attrs cfg g r"
  using assms(2) by (rule same_but_contentE) (simp add: row_attrs_def opaque_attrs_def assms(1) row_parts)

lemma row_metrics_content:
  assumes "same_but_content r r'"
  shows "row_metrics g r' d c = row_metrics g r d c"
  using assms by (rule same_but_contentE)
    (simp add: row_metrics_def row_dims_def row_failed_def error_type_def dlp_emissions_def row_dlp_def)

lemma log_emissions_content:
  assumes "\<not> ai_capture cfg" "same_but_content r r'"
  shows "log_emissions cfg g r' d ct = log_emissions cfg g r d ct"
proof -
  have a: "span_attrs cfg g r' ct = span_attrs cfg g r ct"
    by (simp add: span_attrs_def row_attrs_content [OF assms])
  have "log_event r' as = log_event r as" "log_span r' d as ct = log_span r d as ct" for as
    using assms(2) by (rule same_but_contentE, simp add: log_event_def log_span_def row_failed_def)+
  with a show ?thesis by (simp add: log_emissions_def row_metrics_content [OF assms(2)])
qed

text \<open>C38. 
  C42. Without body capture nothing a log carries as content can be observed: two logs that differ only in
  prompts, captured bodies, their availability and the heads of request and response are emitted alike (when callers'
  traces are linked, the request head counts through the trace it names and nothing else).
\<close>

theorem capture_off_hides_content:
  assumes "\<not> ai_capture cfg" "same_but_content row row'" "same_but_content (cp_detail cap) (cp_detail cap')"
    and "ai_link cfg \<Longrightarrow> trace_links context (lg_request_head (cp_detail cap')) = trace_links context (lg_request_head (cp_detail cap))"
  shows "row_emissions cfg context g row' d cap' = row_emissions cfg context g row d cap"
proof -
  have counts: "listed_counts row' = listed_counts row"
    using assms(2) by (rule same_but_contentE) (simp add: listed_counts_def split: option.splits)
  have "detail_attrs cfg (cp_detail cap') = detail_attrs cfg (cp_detail cap)"
    using assms(3) by (rule same_but_contentE) (simp add: detail_attrs_def assms(1))
  then have "capture_result_of cfg context g row' cap' c = capture_result_of cfg context g row cap c" for c
    using assms(1,4) by (simp add: capture_result_of_def Let_def)
  then show ?thesis by (simp add: row_emissions_def counts log_emissions_content [OF assms(1,2)])
qed

subsection \<open>With capture\<close>

lemma rune_boundary_le: "rune_boundary s n \<le> n"
  using boundary_back_sound [of 4 s n] by (auto simp: rune_boundary_def split: option.splits)

lemma capped_length:
  assumes "0 < limit"
  shows "int (length (fst (cap_body body limit))) \<le> limit"
proof -
  have "int (rune_boundary body (nat limit)) \<le> limit" using rune_boundary_le [of body "nat limit"] assms by linarith
  with assms show ?thesis by (auto simp: cap_body_def)
qed

lemma capped_empty: "limit \<le> 0 \<Longrightarrow> fst (cap_body body limit) = []"
  by (simp add: cap_body_def)

lemma body_side_logs:
  assumes "l \<in> set (sd_logs (body_side cfg g row side body unavailable counts))"
  shows "\<lparr>key = gw ''content.side'', val = side\<rparr> \<in> set (lr_attrs l) \<and> \<not> unavailable \<and> json_valid body \<and>
    0 < length (lr_body l) \<and> int (length (lr_body l)) \<le> ai_max_body cfg"
proof -
  from assms have v: "\<not> unavailable" "json_valid body"
    by (auto simp: body_side_def flag_side_def Let_def split: if_splits)
  obtain capped truncated where c: "cap_body body (ai_max_body cfg) = (capped, truncated)" by fastforce
  let ?t = "content_body cfg capped (side_messages side capped truncated)"
  from assms v c have t: "?t \<noteq> []" "lr_body l = ?t" "\<lparr>key = gw ''content.side'', val = side\<rparr> \<in> set (lr_attrs l)"
    by (auto simp: body_side_def json_side_def content_log_def Let_def split: if_splits)
  show ?thesis
  proof (cases "0 < ai_max_body cfg")
    case True
    with capped_length [OF True, of body] c have "int (length capped) \<le> ai_max_body cfg" by simp
    then have "int (length ?t) \<le> ai_max_body cfg" by (auto simp: content_body_def split: option.splits)
    with v t show ?thesis by simp
  next
    case False
    with capped_empty [of "ai_max_body cfg" body] c have "capped = []" "truncated = (body \<noteq> [])"
      by (auto simp: cap_body_def)
    moreover have "body \<noteq> []" using json_valid_ascii [OF v(2)] by blast
    ultimately have "?t = []" by (simp add: content_body_def side_messages_def)
    with t show ?thesis by blast
  qed
qed

text \<open>C39. 
  C43. Content that leaves the process is bounded and is JSON: every content log of a span names the side it was read from,
  whose body was available and is a JSON document, it is only there with capture on, and its text is not longer than the
  configured limit; and a body that is not JSON has no influence beyond the mark that it was not JSON.
\<close>

theorem captured_content_bounded:
  assumes "ct = capture_result_of cfg context g row cap counts"
  shows "(\<forall>l \<in> set (ct_logs ct). ai_capture cfg \<and> 0 < length (lr_body l) \<and> int (length (lr_body l)) \<le> ai_max_body cfg \<and>
      (\<lparr>key = gw ''content.side'', val = ''request''\<rparr> \<in> set (lr_attrs l) \<and>
         \<not> fst (cp_unavailable cap) \<and> json_valid (fst (cp_bodies cap)) \<or>
       \<lparr>key = gw ''content.side'', val = ''response''\<rparr> \<in> set (lr_attrs l) \<and>
         \<not> snd (cp_unavailable cap) \<and> json_valid (snd (cp_bodies cap)))) \<and>
    (\<not> json_valid (fst (cp_bodies cap)) \<longrightarrow> \<not> json_valid b \<longrightarrow>
       capture_result_of cfg context g row (cap\<lparr>cp_bodies := (b, snd (cp_bodies cap))\<rparr>) counts = ct) \<and>
    (\<not> json_valid (snd (cp_bodies cap)) \<longrightarrow> \<not> json_valid b \<longrightarrow>
       capture_result_of cfg context g row (cap\<lparr>cp_bodies := (fst (cp_bodies cap), b)\<rparr>) counts = ct)"
proof (rule conjI, rule ballI, goal_cases)
  case (1 l)
  then have on: "ai_capture cfg" unfolding assms by (auto simp: capture_result_of_def no_capture_def Let_def split: if_splits)
  let ?rq = "body_side cfg g row ''request'' (fst (cp_bodies cap)) (fst (cp_unavailable cap)) counts"
  from 1 on have "l \<in> set (sd_logs ?rq) \<or>
      l \<in> set (sd_logs (body_side cfg g row ''response'' (snd (cp_bodies cap)) (snd (cp_unavailable cap)) (sd_counts ?rq)))"
    unfolding assms by (simp add: capture_result_of_def Let_def)
  then show ?case using on by (auto dest!: body_side_logs)
next
  case 2
  have same: "body_side cfg g row side b1 u c = body_side cfg g row side b2 u c"
    if "\<not> json_valid b1" "\<not> json_valid b2" for side b1 b2 u c
    using that by (simp add: body_side_def)
  show ?case
    unfolding assms by (auto simp: capture_result_of_def Let_def same [of b "fst (cp_bodies cap)"]
        same [of b "snd (cp_bodies cap)"])
qed

theorem capture_off_hides_content_witness:
  "row_emissions \<lparr>ai_account = ''acc'', ai_gateways = [''gw''], ai_capture = False, ai_link = False, ai_max_body = 100\<rparr>
      (\<lambda>_ _ _. None) ''gw'' (row_of [(''prompts'', JStr ''hello'')]) 5
      \<lparr>cp_detail = row_of [(''request_head'', JStr ''x-key: 1'')], cp_bodies = (''{}'', ''{}''), cp_unavailable = (False, False)\<rparr> =
   row_emissions \<lparr>ai_account = ''acc'', ai_gateways = [''gw''], ai_capture = False, ai_link = False, ai_max_body = 100\<rparr>
      (\<lambda>_ _ _. None) ''gw'' (row_of []) 5
      \<lparr>cp_detail = row_of [], cp_bodies = ([], []), cp_unavailable = (True, True)\<rparr>"
  by (rule capture_off_hides_content) (simp_all add: same_but_content_def row_of_def field_of_def str_at_def count_at_def
      flag_at_def real_at_def struct_at_def)

definition capture_sample :: captured_log where
  "capture_sample = \<lparr>cp_detail = row_of [], cp_bodies = (''{}'', ''<html>''), cp_unavailable = (False, True)\<rparr>"

definition capture_sample_config :: ai_config where
  "capture_sample_config =
     \<lparr>ai_account = ''acc'', ai_gateways = [''gw''], ai_capture = True, ai_link = False, ai_max_body = 100\<rparr>"

lemma capture_sample_logs:
  "map lr_body (ct_logs (capture_result_of capture_sample_config (\<lambda>_ _ _. None) ''gw'' (row_of []) capture_sample (None, None, None)))
     = [''{}'']"
proof -
  have p: "json_parse ''{}'' = Some (JObj [])"
    using json_text_roundtrip [of "JObj []"] by (simp add: max_nesting_def json_text.simps)
  have m: "parse_messages ''{}'' ''request'' = None"
    by (simp add: parse_messages_def body_root_def p json_map_def message_source_def)
  have "body_side capture_sample_config ''gw'' (row_of []) ''request'' ''{}'' False (None, None, None)
      = json_side capture_sample_config ''gw'' (row_of []) ''request'' ''{}'' (None, None, None)"
    by (simp add: body_side_def json_valid_def p)
  then show ?thesis
    by (simp add: capture_result_of_def capture_sample_def Let_def json_side_def cap_body_def capture_sample_config_def
        side_messages_def m content_body_def content_log_def body_side_def flag_side_def)
qed

theorem captured_content_bounded_witness:
  "\<exists>l. ct_logs (capture_result_of capture_sample_config (\<lambda>_ _ _. None) ''gw'' (row_of []) capture_sample (None, None, None)) = [l] \<and>
     lr_body l = ''{}'' \<and> json_valid (fst (cp_bodies capture_sample)) \<and>
     int (length (lr_body l)) \<le> ai_max_body capture_sample_config"
proof -
  let ?ct = "capture_result_of capture_sample_config (\<lambda>_ _ _. None) ''gw'' (row_of []) capture_sample (None, None, None)"
  obtain l where l: "ct_logs ?ct = [l]" "lr_body l = ''{}''" using capture_sample_logs by (auto simp: map_eq_Cons_conv)
  with captured_content_bounded [OF refl, of capture_sample_config "\<lambda>_ _ _. None" "''gw''" "row_of []" capture_sample "(None, None, None)"]
  show ?thesis by (auto simp: capture_sample_def)
qed

end
