(* ===== verification/LogFetch.thy ===== *)
theory LogFetch
  imports LogRows ResourceNames
begin

text \<open>
  Details of AI Gateway logs (\<open>collectors/aigateway/logs_fetch.go\<close> and \<open>logs_cache.go\<close>): one detail read with
  its bodies, the cache of completed details that survives a budget cut, and the prefetch. The reads of a
  prefetch overlap in the code; here a read that is started completes at once, in the order of the starts, which is one
  of the schedules the code allows and the one that fills the cache most. The fetch slots only delay reads.
  The clock is read once per call of the cache.
\<close>

type_synonym 'w list_api = "'w \<Rightarrow> string \<Rightarrow> (string \<times> string) list \<Rightarrow> 'w \<times> (gerr + json)"

text \<open>\<open>rc_size\<close> is the memory a detail retains, from the sizes and capacities of the Go runtime; None when it
  cannot be encoded.\<close>

record 'w rest_client =
  rc_get :: "'w list_api"
  rc_raw :: "('w \<Rightarrow> string \<Rightarrow> 'w \<times> (gerr + string)) option"
  rc_ctx_err :: "'w \<Rightarrow> 'w \<times> gerr option"
  rc_now :: "'w \<Rightarrow> 'w \<times> time"
  rc_size :: "string \<Rightarrow> captured_log \<Rightarrow> nat option"
  rc_context :: "string \<Rightarrow> string \<Rightarrow> bool \<Rightarrow> string option"

type_synonym named_row = "string \<times> log_row"

subsection \<open>One detail\<close>

definition complete_head :: "json option \<Rightarrow> bool option \<Rightarrow> string option" where
  "complete_head head whole =
     (case (whole, head) of
        (Some True, Some (JStr s)) \<Rightarrow> if s = [] then None else Some s
      | _ \<Rightarrow> None)"

text \<open>A read with a slot: the context is checked after the slot is taken.\<close>

definition with_fetch_slot :: "'w rest_client \<Rightarrow> ('w \<Rightarrow> 'w \<times> (gerr + 'a)) \<Rightarrow> 'w \<Rightarrow> 'w \<times> (gerr + 'a)" where
  "with_fetch_slot rc read w =
     (case rc_ctx_err rc w of (w1, Some e) \<Rightarrow> (w1, Inl e) | (w1, None) \<Rightarrow> read w1)"

definition http_gone :: "gerr \<Rightarrow> bool option" where
  "http_gone e = (case e of HTTPError status code \<Rightarrow> Some (status = 404 \<and> code = 7002) | _ \<Rightarrow> None)"

definition too_large :: "gerr \<Rightarrow> bool option" where
  "too_large e = (case e of ResponseTooLargeError c \<Rightarrow> Some True | _ \<Rightarrow> None)"

text \<open>A body that is gone or larger than the cap of the client can never be read.\<close>

definition body_unreadable :: "gerr \<Rightarrow> bool" where
  "body_unreadable e \<longleftrightarrow> errors_as http_gone e = Some True \<or> errors_as too_large e \<noteq> None"

definition fetch_side ::
  "'w rest_client \<Rightarrow> ('w \<Rightarrow> string \<Rightarrow> 'w \<times> (gerr + string)) \<Rightarrow> string \<Rightarrow> string \<Rightarrow> bool option \<Rightarrow> json option
     \<Rightarrow> bool option \<Rightarrow> 'w \<Rightarrow> 'w \<times> (gerr + string \<times> bool)" where
  "fetch_side rc raw path side collect head whole w =
     (case complete_head head whole of
        Some body \<Rightarrow> (w, Inr (body, False))
      | None \<Rightarrow>
          if collect = Some False then (w, Inr ([], True))
          else (case with_fetch_slot rc (\<lambda>w. raw w (path @ ''/'' @ side)) w of
                  (w1, Inr body) \<Rightarrow> (w1, Inr (body, False))
                | (w1, Inl e) \<Rightarrow>
                    if body_unreadable e then (w1, Inr ([], True))
                    else (w1, Inl (ErrWrap (''aigateway '' @ side @ '' body: '') e))))"

definition fetch_bodies ::
  "'w rest_client \<Rightarrow> ('w \<Rightarrow> string \<Rightarrow> 'w \<times> (gerr + string)) \<Rightarrow> string \<Rightarrow> log_row \<Rightarrow> bool option \<Rightarrow> 'w
     \<Rightarrow> 'w \<times> (gerr + captured_log)" where
  "fetch_bodies rc raw path d listed w =
     (let collect = (if lg_collect_payload d \<noteq> None then lg_collect_payload d else listed) in
      case fetch_side rc raw path ''request'' collect (lg_request_head d) (lg_request_complete d) w of
        (w1, Inl e) \<Rightarrow> (w1, Inl e)
      | (w1, Inr (b1, u1)) \<Rightarrow>
          (case fetch_side rc raw path ''response'' collect (lg_response_head d) (lg_response_complete d) w1 of
             (w2, Inl e) \<Rightarrow> (w2, Inl e)
           | (w2, Inr (b2, u2)) \<Rightarrow>
               (w2, Inr \<lparr>cp_detail = d, cp_bodies = (b1, b2), cp_unavailable = (u1, u2)\<rparr>)))"

definition fetch_detail :: "'w rest_client \<Rightarrow> string \<Rightarrow> 'w \<Rightarrow> 'w \<times> (gerr + log_row)" where
  "fetch_detail rc path w =
     (case with_fetch_slot rc (\<lambda>w. rc_get rc w path []) w of
        (w1, Inl e) \<Rightarrow> (w1, Inl (ErrWrap ''aigateway log detail: '' e))
      | (w1, Inr j) \<Rightarrow>
          (case decode_row j of
             None \<Rightarrow> (w1, Inl (ErrWrap ''aigateway log detail: '' json_error))
           | Some d \<Rightarrow> (w1, Inr d)))"

definition fetch_log ::
  "'w rest_client \<Rightarrow> ai_config \<Rightarrow> string \<Rightarrow> bool option \<Rightarrow> 'w \<Rightarrow> 'w \<times> (gerr + captured_log)" where
  "fetch_log rc cfg path listed w =
     (if ai_capture cfg \<and> rc_raw rc = None then (w, Inl (ErrNew ''aigateway API does not support raw body reads''))
      else (case fetch_detail rc path w of
        (w1, Inl e) \<Rightarrow> (w1, Inl e)
      | (w1, Inr d) \<Rightarrow>
          (case (if ai_capture cfg then rc_raw rc else None) of
             None \<Rightarrow> (w1, Inr \<lparr>cp_detail = d, cp_bodies = ([], []), cp_unavailable = (False, False)\<rparr>)
           | Some raw \<Rightarrow> fetch_bodies rc raw path d listed w1)))"

definition logs_path :: "ai_config \<Rightarrow> string \<Rightarrow> string" where
  "logs_path cfg gateway =
     ''/accounts/'' @ path_escape (ai_account cfg) @ ''/ai-gateway/gateways/'' @ path_escape gateway @ ''/logs''"

definition detail_path :: "ai_config \<Rightarrow> string \<Rightarrow> string \<Rightarrow> string" where
  "detail_path cfg gateway i = logs_path cfg gateway @ ''/'' @ path_escape i"

subsection \<open>The cache\<close>

record fetched_log =
  ft_log :: "gerr + captured_log"
  ft_at :: time
  ft_bytes :: nat

type_synonym detail_key = "string \<times> string \<times> time"

definition detail_key :: "named_row \<Rightarrow> detail_key" where
  "detail_key r = (fst r, lg_id (snd r), lg_created (snd r))"

record cache_entry =
  ce_key :: detail_key
  ce_result :: fetched_log
  ce_bytes :: nat

record detail_cache =
  dc_entries :: "cache_entry list"
  dc_bytes :: int

definition empty_cache :: detail_cache where
  "empty_cache = \<lparr>dc_entries = [], dc_bytes = 0\<rparr>"

definition cache_max_entries :: nat where "cache_max_entries = 6"
definition cache_max_bytes :: nat where "cache_max_bytes = 16777216"
definition cache_ttl :: duration where "cache_ttl = 5 * minute"

definition expired :: "time \<Rightarrow> fetched_log \<Rightarrow> bool" where
  "expired now f \<longleftrightarrow> cache_ttl \<le> time_sub now (ft_at f)"

text \<open>The loops over the entries, with the bytes counted down at each removal.\<close>

fun take_entry :: "time \<Rightarrow> detail_key \<Rightarrow> cache_entry list \<Rightarrow> int \<Rightarrow> cache_entry list \<times> int \<times> fetched_log option" where
  "take_entry now k [] b = ([], b, None)"
| "take_entry now k (e # es) b =
     (if expired now (ce_result e) then take_entry now k es (b - int (ce_bytes e))
      else if ce_key e = k then (es, b - int (ce_bytes e), Some (ce_result e))
      else (case take_entry now k es b of (es', b', r) \<Rightarrow> (e # es', b', r)))"

definition cache_take :: "time \<Rightarrow> named_row \<Rightarrow> detail_cache \<Rightarrow> detail_cache \<times> fetched_log option" where
  "cache_take now row c =
     (case take_entry now (detail_key row) (dc_entries c) (dc_bytes c) of
        (es, b, r) \<Rightarrow> (\<lparr>dc_entries = es, dc_bytes = b\<rparr>, r))"

fun drop_entries :: "(cache_entry \<Rightarrow> bool) \<Rightarrow> cache_entry list \<Rightarrow> int \<Rightarrow> cache_entry list \<times> int" where
  "drop_entries p [] b = ([], b)"
| "drop_entries p (e # es) b =
     (if p e then drop_entries p es (b - int (ce_bytes e))
      else (case drop_entries p es b of (es', b') \<Rightarrow> (e # es', b')))"

text \<open>The oldest entries make room.\<close>

fun evict_entries :: "nat \<Rightarrow> cache_entry list \<Rightarrow> int \<Rightarrow> cache_entry list \<times> int" where
  "evict_entries new [] b = ([], b)"
| "evict_entries new (e # es) b =
     (if cache_max_entries \<le> length (e # es) \<or> int cache_max_bytes < b + int new
      then evict_entries new es (b - int (ce_bytes e)) else (e # es, b))"

text \<open>An incomplete detail is kept only when its payload was not to be collected at all.\<close>

definition retainable :: "named_row \<Rightarrow> captured_log \<Rightarrow> bool" where
  "retainable row cap \<longleftrightarrow>
     (let disabled = (if lg_collect_payload (cp_detail cap) \<noteq> None then lg_collect_payload (cp_detail cap)
                      else lg_collect_payload (snd row))
      in \<not> ((fst (cp_unavailable cap) \<or> snd (cp_unavailable cap)) \<and> (disabled = None \<or> disabled = Some True)))"

definition detail_bytes :: "(string \<Rightarrow> captured_log \<Rightarrow> nat option) \<Rightarrow> named_row \<Rightarrow> captured_log \<Rightarrow> nat \<Rightarrow> nat option" where
  "detail_bytes size_of row cap known =
     (if known = 0 then map_option (\<lambda>n. n + 2048) (size_of (fst row) cap) else Some known)"

definition cache_put ::
  "(string \<Rightarrow> captured_log \<Rightarrow> nat option) \<Rightarrow> time \<Rightarrow> named_row \<Rightarrow> fetched_log \<Rightarrow> detail_cache \<Rightarrow> detail_cache" where
  "cache_put size_of now row f c =
     (case ft_log f of
        Inl e \<Rightarrow> c
      | Inr cap \<Rightarrow>
          if expired now f \<or> \<not> retainable row cap then c
          else (case detail_bytes size_of row cap (ft_bytes f) of
            None \<Rightarrow> c
          | Some n \<Rightarrow>
              if cache_max_bytes < n then c
              else (case drop_entries (\<lambda>e. ce_key e = detail_key row \<or> expired now (ce_result e))
                           (dc_entries c) (dc_bytes c) of
                (es, b) \<Rightarrow>
                  (case evict_entries n es b of
                     (es', b') \<Rightarrow>
                       \<lparr>dc_entries = es' @ [\<lparr>ce_key = detail_key row, ce_result = f\<lparr>ft_bytes := n\<rparr>, ce_bytes = n\<rparr>],
                        dc_bytes = b' + int n\<rparr>))))"

definition cache_prune :: "time \<Rightarrow> detail_cache \<Rightarrow> detail_cache" where
  "cache_prune mark c =
     (case drop_entries (\<lambda>e. snd (snd (ce_key e)) < mark) (dc_entries c) (dc_bytes c) of
        (es, b) \<Rightarrow> \<lparr>dc_entries = es, dc_bytes = b\<rparr>)"

subsection \<open>The prefetch\<close>

text \<open>A result that has been started and not yet read is \<open>Some\<close>.\<close>

record prefetch =
  pf_rows :: "named_row list"
  pf_results :: "fetched_log option list"
  pf_retained :: detail_cache
  pf_retain :: bool

definition detail_concurrency :: nat where "detail_concurrency = 3"

definition fetch_now :: "'w rest_client \<Rightarrow> ai_config \<Rightarrow> named_row \<Rightarrow> 'w \<Rightarrow> 'w \<times> fetched_log" where
  "fetch_now rc cfg row w =
     (case fetch_log rc cfg (detail_path cfg (fst row) (lg_id (snd row))) (lg_collect_payload (snd row)) w of
        (w1, r) \<Rightarrow> (case rc_now rc w1 of (w2, t) \<Rightarrow> (w2, \<lparr>ft_log = r, ft_at = t, ft_bytes = 0\<rparr>)))"

definition prefetch_start :: "'w rest_client \<Rightarrow> ai_config \<Rightarrow> nat \<Rightarrow> 'w \<times> prefetch \<Rightarrow> 'w \<times> prefetch" where
  "prefetch_start rc cfg i s =
     (case s of (w, p) \<Rightarrow>
        (case rc_now rc w of
           (w1, now) \<Rightarrow>
             (case cache_take now (pf_rows p ! i) (pf_retained p) of
                (c, Some f) \<Rightarrow> (w1, p\<lparr>pf_results := (pf_results p)[i := Some f], pf_retained := c\<rparr>)
              | (c, None) \<Rightarrow>
                  (case fetch_now rc cfg (pf_rows p ! i) w1 of
                     (w2, f) \<Rightarrow> (w2, p\<lparr>pf_results := (pf_results p)[i := Some f], pf_retained := c\<rparr>)))))"

definition prefetch_details ::
  "'w rest_client \<Rightarrow> ai_config \<Rightarrow> named_row list \<Rightarrow> bool \<Rightarrow> detail_cache \<Rightarrow> 'w \<Rightarrow> 'w \<times> prefetch option \<times> detail_cache" where
  "prefetch_details rc cfg rows retain cache w =
     (if \<not> needs_detail cfg then (w, None, cache)
      else (case fold (prefetch_start rc cfg) [0..<min detail_concurrency (length rows)]
                   (w, \<lparr>pf_rows = rows, pf_results = replicate (length rows) None, pf_retained = cache,
                        pf_retain = retain\<rparr>) of
              (w1, p) \<Rightarrow> (w1, Some p, empty_cache)))"

definition retain_result :: "'w rest_client \<Rightarrow> nat \<Rightarrow> fetched_log \<Rightarrow> 'w \<times> prefetch \<Rightarrow> 'w \<times> prefetch" where
  "retain_result rc i f s =
     (case s of (w, p) \<Rightarrow>
        if pf_retain p then
          (case rc_now rc w of
             (w1, now) \<Rightarrow> (w1, p\<lparr>pf_retained := cache_put (rc_size rc) now (pf_rows p ! i) f (pf_retained p)\<rparr>))
        else (w, p))"

text \<open>Row \<open>i\<close>'s detail; the result is None only for a row that was never started.\<close>

definition prefetch_get :: "'w rest_client \<Rightarrow> ai_config \<Rightarrow> nat \<Rightarrow> 'w \<times> prefetch \<Rightarrow> ('w \<times> prefetch) \<times> fetched_log option" where
  "prefetch_get rc cfg i s =
     (case s of (w, p) \<Rightarrow>
        (case pf_results p ! i of
           None \<Rightarrow> ((w, p), None)
         | Some f \<Rightarrow>
             (let s1 = retain_result rc i f (w, p\<lparr>pf_results := (pf_results p)[i := None]\<rparr>);
                  n = i + detail_concurrency
              in (if n < length (pf_rows p) then prefetch_start rc cfg n s1 else s1, Some f))))"

definition prefetch_stop :: "'w rest_client \<Rightarrow> 'w \<times> prefetch \<Rightarrow> 'w \<times> prefetch" where
  "prefetch_stop rc s =
     fold (\<lambda>i s. case pf_results (snd s) ! i of
                   None \<Rightarrow> s
                 | Some f \<Rightarrow> retain_result rc i f (fst s, (snd s)\<lparr>pf_results := (pf_results (snd s))[i := None]\<rparr>))
       [0..<length (pf_results (snd s))] s"

subsection \<open>The cache stays within its bounds\<close>

definition entries_bytes :: "cache_entry list \<Rightarrow> int" where
  "entries_bytes es = sum_list (map (\<lambda>e. int (ce_bytes e)) es)"

definition cache_ok :: "detail_cache \<Rightarrow> bool" where
  "cache_ok c \<longleftrightarrow> dc_bytes c = entries_bytes (dc_entries c) \<and> length (dc_entries c) \<le> cache_max_entries \<and>
     dc_bytes c \<le> int cache_max_bytes \<and> distinct (map ce_key (dc_entries c))"

lemma entries_bytes_simps [simp]:
  "entries_bytes [] = 0" "entries_bytes (e # es) = int (ce_bytes e) + entries_bytes es"
  "entries_bytes (es @ fs) = entries_bytes es + entries_bytes fs"
  by (simp_all add: entries_bytes_def)

lemma entries_bytes_nonneg [simp]: "0 \<le> entries_bytes es"
  by (induction es) simp_all

lemma subseq_bytes: "subseq es fs \<Longrightarrow> entries_bytes es \<le> entries_bytes fs"
  by (induction rule: list_emb.induct) auto

lemma take_entry_subseq:
  "take_entry now k es b = (es', b', r) \<Longrightarrow> subseq es' es \<and> b' - entries_bytes es' = b - entries_bytes es"
proof (induction now k es b arbitrary: es' b' r rule: take_entry.induct)
  case (2 now k e es b)
  show ?case
  proof (cases "expired now (ce_result e) \<or> ce_key e = k")
    case True
    with 2 show ?thesis by (fastforce split: if_splits)
  next
    case False
    with "2.prems" obtain es1 where "take_entry now k es b = (es1, b', r)" "es' = e # es1"
      by (auto split: prod.splits)
    with 2 False show ?thesis by auto
  qed
qed simp

lemma take_entry_found:
  "take_entry now k es b = (es', b', Some f) \<Longrightarrow>
   \<exists>e \<in> set es. ce_key e = k \<and> ce_result e = f \<and> \<not> expired now f"
  by (induction now k es b arbitrary: es' b' rule: take_entry.induct) (fastforce split: if_splits prod.splits)+

lemma drop_entries_filter:
  "drop_entries p es b = (es', b') \<Longrightarrow> es' = filter (\<lambda>e. \<not> p e) es \<and> b' - entries_bytes es' = b - entries_bytes es"
  by (induction p es b arbitrary: es' b' rule: drop_entries.induct) (fastforce split: if_splits prod.splits)+

lemma evict_entries_suffix:
  "evict_entries new es b = (es', b') \<Longrightarrow>
   suffix es' es \<and> b' - entries_bytes es' = b - entries_bytes es \<and>
   (es' = [] \<or> length es' < cache_max_entries \<and> b' + int new \<le> int cache_max_bytes)"
  by (induction new es b rule: evict_entries.induct) (auto simp: suffix_Cons split: if_splits)

lemma set_subseq: "subseq xs ys \<Longrightarrow> set xs \<subseteq> set ys"
  by (induction rule: list_emb.induct) auto

lemma distinct_subseq: "subseq xs ys \<Longrightarrow> distinct (map f ys) \<Longrightarrow> distinct (map f xs)"
proof (induction rule: list_emb.induct)
  case (list_emb_Cons2 x y xs ys)
  then show ?case using set_subseq [of xs ys] by auto
qed auto

lemma cache_sub:
  assumes "cache_ok c" "subseq es (dc_entries c)" "b - entries_bytes es = dc_bytes c - entries_bytes (dc_entries c)"
  shows "cache_ok \<lparr>dc_entries = es, dc_bytes = b\<rparr>"
  using assms list_emb_length [OF assms(2)] subseq_bytes [OF assms(2)] distinct_subseq [OF assms(2), of ce_key]
  by (simp add: cache_ok_def)

lemma cache_take_ok: "cache_ok c \<Longrightarrow> cache_take now row c = (c', r) \<Longrightarrow> cache_ok c'"
  by (auto simp: cache_take_def split: prod.splits dest!: take_entry_subseq intro: cache_sub)

lemma cache_prune_ok: "cache_ok c \<Longrightarrow> cache_ok (cache_prune mark c)"
  by (auto simp: cache_prune_def split: prod.splits dest!: drop_entries_filter intro!: cache_sub)

lemma cache_put_ok:
  assumes ok: "cache_ok c"
  shows "cache_ok (cache_put size_of now row f c)"
proof (cases "cache_put size_of now row f c = c")
  case False
  let ?p = "\<lambda>e. ce_key e = detail_key row \<or> expired now (ce_result e)"
  obtain es b where d: "drop_entries ?p (dc_entries c) (dc_bytes c) = (es, b)" by fastforce
  let ?new = "\<lambda>n. case evict_entries n es b of (es', b') \<Rightarrow>
       \<lparr>dc_entries = es' @ [\<lparr>ce_key = detail_key row, ce_result = f\<lparr>ft_bytes := n\<rparr>, ce_bytes = n\<rparr>], dc_bytes = b' + int n\<rparr>"
  obtain cap where cap: "ft_log f = Inr cap" using False by (cases "ft_log f") (auto simp: cache_put_def)
  then obtain n where "detail_bytes size_of row cap (ft_bytes f) = Some n"
    using False by (cases "detail_bytes size_of row cap (ft_bytes f)") (auto simp: cache_put_def)
  with cap False d have n: "n \<le> cache_max_bytes" "cache_put size_of now row f c = ?new n"
    by (simp_all add: cache_put_def split: if_splits)
  obtain es' b' where e: "evict_entries n es b = (es', b')" by fastforce
  note de = drop_entries_filter [OF d] and ev = evict_entries_suffix [OF e]
  have "subseq es' (dc_entries c)"
    using ev de by (metis subseq_filter_left suffix_imp_subseq subseq_order.order_trans)
  moreover have "b' - entries_bytes es' = dc_bytes c - entries_bytes (dc_entries c)" using ev de by linarith
  ultimately have sub: "cache_ok \<lparr>dc_entries = es', dc_bytes = b'\<rparr>" by (rule cache_sub [OF ok])
  have "detail_key row \<notin> ce_key ` set es'" using ev de by (auto dest!: set_mono_suffix)
  moreover have "length es' < cache_max_entries" using ev by (auto simp: cache_max_entries_def)
  moreover have "b' + int n \<le> int cache_max_bytes" using ev sub n(1) by (auto simp: cache_ok_def)
  ultimately show ?thesis using sub n(2) e by (simp add: cache_ok_def)
qed (simp add: ok)

text \<open>The operations of a cache, as a window performs them.\<close>

datatype cache_step = CTake time named_row | CPut time named_row fetched_log | CPrune time

fun cache_run :: "(string \<Rightarrow> captured_log \<Rightarrow> nat option) \<Rightarrow> cache_step list \<Rightarrow> detail_cache \<Rightarrow> detail_cache" where
  "cache_run size_of [] c = c"
| "cache_run size_of (CTake now row # xs) c = cache_run size_of xs (fst (cache_take now row c))"
| "cache_run size_of (CPut now row f # xs) c = cache_run size_of xs (cache_put size_of now row f c)"
| "cache_run size_of (CPrune mark # xs) c = cache_run size_of xs (cache_prune mark c)"

lemma cache_run_ok: "cache_ok c \<Longrightarrow> cache_ok (cache_run size_of xs c)"
proof (induction size_of xs c rule: cache_run.induct)
  case (2 size_of now row xs c)
  have "cache_ok (fst (cache_take now row c))"
    using cache_take_ok [OF "2.prems"] by (cases "cache_take now row c") auto
  with 2 show ?case by simp
qed (simp_all add: cache_put_ok cache_prune_ok)

text \<open>C40. 
  C44. Whatever sequence of reads, stores and prunes a budget cut leaves behind, the cache of log details stays
  within six entries and 16 MiB, its count of bytes is exact, it holds one entry per log, and a hit is a detail that was stored for
  that very log less than five minutes before.
\<close>

theorem detail_cache_bounded:
  assumes "c = cache_run size_of xs empty_cache"
  shows "cache_ok c \<and> (\<forall>now row c' f. cache_take now row c = (c', Some f) \<longrightarrow>
     cache_ok c' \<and> \<not> expired now f \<and> (\<exists>e \<in> set (dc_entries c). ce_key e = detail_key row \<and> ce_result e = f))"
proof -
  have "cache_ok empty_cache" by (simp add: cache_ok_def empty_cache_def)
  then have ok: "cache_ok c" unfolding assms by (rule cache_run_ok)
  have "\<not> expired now f \<and> (\<exists>e \<in> set (dc_entries c). ce_key e = detail_key row \<and> ce_result e = f)"
    if "cache_take now row c = (c', Some f)" for now row c' f
    using that by (auto simp: cache_take_def split: prod.splits dest!: take_entry_found)
  with ok cache_take_ok [OF ok] show ?thesis by blast
qed

definition cached_row :: named_row where
  "cached_row = (''gw'', row_of [(''id'', JStr ''a'')])"

definition cached_detail :: fetched_log where
  "cached_detail = \<lparr>ft_log = Inr \<lparr>cp_detail = row_of [], cp_bodies = (''{}'', ''{}''), cp_unavailable = (False, False)\<rparr>,
     ft_at = 10, ft_bytes = 100\<rparr>"

theorem detail_cache_bounded_witness:
  "snd (cache_take (10 + minute) cached_row (cache_run (\<lambda>_ _. None) [CPut 10 cached_row cached_detail] empty_cache)) = Some cached_detail \<and>
   \<not> expired (10 + minute) cached_detail \<and>
   cache_ok (fst (cache_take (10 + minute) cached_row (cache_run (\<lambda>_ _. None) [CPut 10 cached_row cached_detail] empty_cache)))"
proof -
  let ?c = "cache_run (\<lambda>_ _. None) [CPut 10 cached_row cached_detail] empty_cache"
  have c: "?c = \<lparr>dc_entries = [\<lparr>ce_key = detail_key cached_row, ce_result = cached_detail, ce_bytes = 100\<rparr>], dc_bytes = 100\<rparr>"
    by (simp add: cache_put_def cached_detail_def expired_def time_sub_def cache_ttl_def retainable_def detail_bytes_def
        cache_max_bytes_def empty_cache_def)
  have t: "cache_take (10 + minute) cached_row ?c = (empty_cache, Some cached_detail)"
    unfolding c by (simp add: cache_take_def cached_detail_def expired_def time_sub_def cache_ttl_def empty_cache_def)
  have "cache_ok empty_cache \<and> \<not> expired (10 + minute) cached_detail"
    using conjunct2 [OF detail_cache_bounded [OF refl, of "\<lambda>_ _. None" "[CPut 10 cached_row cached_detail]"]] t by blast
  with t show ?thesis by simp
qed

end
