(* ===== verification/Logs.thy ===== *)
theory Logs
  imports LogFetch
begin

text \<open>
  The AI Gateway log collector, \<open>collectors/aigateway/logs.go\<close>: the pager that lists the logs of one gateway in ascending order, the
  horizon up to which the listing is complete, and \<open>CollectWindowBudget\<close>, which emits whole source seconds in order
  until the budget is reached. One call at a time enters the collector (\<open>collectGuard\<close>). \<open>sort.Slice\<close> leaves the order of
  rows with one instant and one identifier open (they belong to different gateways); here they keep the order of the gateways.
\<close>

definition log_page_size :: int where "log_page_size = 50"
definition list_row_cap :: nat where "list_row_cap = 500"
definition max_log_pages :: nat where "max_log_pages = 10000"

subsection \<open>The pager\<close>

record log_pager =
  pg_gateway :: string
  pg_path :: string
  pg_page :: nat
  pg_seen :: "string set"
  pg_pending :: "named_row list"
  pg_last :: time
  pg_done :: bool

definition new_pager :: "ai_config \<Rightarrow> string \<Rightarrow> log_pager" where
  "new_pager cfg gateway = \<lparr>pg_gateway = gateway, pg_path = logs_path cfg gateway, pg_page = 0, pg_seen = {},
     pg_pending = [], pg_last = 0, pg_done = False\<rparr>"

definition pager_horizon :: "time \<Rightarrow> time \<Rightarrow> log_pager \<Rightarrow> time" where
  "pager_horizon fr to p =
     (if pg_done p then to
      else (let h = time_trunc (pg_last p) second in if h < fr then fr else if to < h then to else h))"

definition page_query_of :: "time \<Rightarrow> time \<Rightarrow> nat \<Rightarrow> (string \<times> string) list" where
  "page_query_of fr to n =
     [(''end_date'', rfc3339_nano to), (''order_by'', ''created_at''), (''order_by_direction'', ''asc''),
      (''page'', itoa (int n)), (''per_page'', itoa log_page_size), (''start_date'', rfc3339_nano fr)]"

definition page_error :: "nat \<Rightarrow> string \<Rightarrow> gerr" where
  "page_error n what = ErrNew (''aigateway logs page '' @ itoa (int n) @ '': '' @ what)"

text \<open>The rows of a page: the pager and whether a row at or past the end of the window was seen.\<close>

definition list_row :: "time \<Rightarrow> time \<Rightarrow> time \<Rightarrow> log_row \<Rightarrow> log_pager \<times> bool \<Rightarrow> gerr + log_pager \<times> bool" where
  "list_row fr to h row s =
     (case s of (p, past) \<Rightarrow>
        if lg_id row = [] \<or> lg_created row = 0 then Inl (page_error (pg_page p) ''missing id or created_at'')
        else if to \<le> lg_created row then Inr (p, True)
        else if lg_created row < fr \<or> lg_id row \<in> pg_seen p then Inr (p, past)
        else if lg_created row < h then Inl (page_error (pg_page p) ''list order went backwards'')
        else Inr (p\<lparr>pg_seen := insert (lg_id row) (pg_seen p), pg_pending := pg_pending p @ [(pg_gateway p, row)]\<rparr>, past))"

definition list_page :: "time \<Rightarrow> time \<Rightarrow> log_row list \<Rightarrow> log_pager \<Rightarrow> gerr + log_pager" where
  "list_page fr to rows p =
     (case fold_err (list_row fr to (pager_horizon fr to p)) rows (p, False) of
        Inl e \<Rightarrow> Inl e
      | Inr (p1, past) \<Rightarrow>
          (let p2 = (if rows \<noteq> [] \<and> pg_last p1 < lg_created (last rows) then p1\<lparr>pg_last := lg_created (last rows)\<rparr> else p1)
           in if past \<or> rows = [] then Inr (p2\<lparr>pg_done := True\<rparr>)
              else if pg_page p2 = max_log_pages then Inl (ErrNew ''aigateway logs: page limit reached'')
              else Inr p2))"

definition pager_next :: "'w rest_client \<Rightarrow> time \<Rightarrow> time \<Rightarrow> log_pager \<Rightarrow> 'w \<Rightarrow> 'w \<times> (gerr + log_pager)" where
  "pager_next rc fr to p w =
     (case rc_ctx_err rc w of
        (w1, Some e) \<Rightarrow> (w1, Inl e)
      | (w1, None) \<Rightarrow>
          (let p1 = p\<lparr>pg_page := Suc (pg_page p)\<rparr> in
           case rc_get rc w1 (pg_path p) (page_query_of fr to (pg_page p1)) of
             (w2, Inl e) \<Rightarrow> (w2, Inl (ErrWrap (''aigateway logs page '' @ itoa (int (pg_page p1)) @ '': '') e))
           | (w2, Inr j) \<Rightarrow>
               (case decode_rows j of
                  None \<Rightarrow> (w2, Inl (ErrWrap (''aigateway logs page '' @ itoa (int (pg_page p1)) @ '': '') json_error))
                | Some rows \<Rightarrow> (w2, list_page fr to rows p1))))"

subsection \<open>Listing\<close>

definition common_horizon :: "time \<Rightarrow> time \<Rightarrow> log_pager list \<Rightarrow> time" where
  "common_horizon fr to ps = fold (\<lambda>p h. if pager_horizon fr to p < h then pager_horizon fr to p else h) ps to"

text \<open>One round: the pagers that hold the horizon back list their next page.\<close>

fun list_round :: "'w rest_client \<Rightarrow> time \<Rightarrow> time \<Rightarrow> time \<Rightarrow> log_pager list \<Rightarrow> 'w \<Rightarrow> 'w \<times> (gerr + log_pager list \<times> nat)" where
  "list_round rc fr to h [] w = (w, Inr ([], 0))"
| "list_round rc fr to h (p # ps) w =
     (if \<not> pg_done p \<and> pager_horizon fr to p \<le> h then
        (case pager_next rc fr to p w of
           (w1, Inl e) \<Rightarrow> (w1, Inl e)
         | (w1, Inr p1) \<Rightarrow>
             (case list_round rc fr to h ps w1 of
                (w2, Inl e) \<Rightarrow> (w2, Inl e)
              | (w2, Inr (ps', n)) \<Rightarrow> (w2, Inr (p1 # ps', length (pg_pending p1) - length (pg_pending p) + n))))
      else (case list_round rc fr to h ps w of
              (w2, Inl e) \<Rightarrow> (w2, Inl e)
            | (w2, Inr (ps', n)) \<Rightarrow> (w2, Inr (p # ps', n))))"

text \<open>Every page of one pager, for a window without budget.\<close>

fun list_all_pages :: "nat \<Rightarrow> 'w rest_client \<Rightarrow> time \<Rightarrow> time \<Rightarrow> log_pager \<Rightarrow> 'w \<Rightarrow> ('w \<times> (gerr + log_pager)) option" where
  "list_all_pages 0 rc fr to p w = None"
| "list_all_pages (Suc n) rc fr to p w =
     (if pg_done p then Some (w, Inr p)
      else (case pager_next rc fr to p w of
              (w1, Inl e) \<Rightarrow> Some (w1, Inl e)
            | (w1, Inr p1) \<Rightarrow> list_all_pages n rc fr to p1 w1))"

fun list_all_gateways :: "'w rest_client \<Rightarrow> time \<Rightarrow> time \<Rightarrow> log_pager list \<Rightarrow> 'w \<Rightarrow> ('w \<times> (gerr + log_pager list)) option" where
  "list_all_gateways rc fr to [] w = Some (w, Inr [])"
| "list_all_gateways rc fr to (p # ps) w =
     (case list_all_pages (Suc max_log_pages) rc fr to p w of
        None \<Rightarrow> None
      | Some (w1, Inl e) \<Rightarrow> Some (w1, Inl e)
      | Some (w1, Inr p1) \<Rightarrow>
          (case list_all_gateways rc fr to ps w1 of
             None \<Rightarrow> None
           | Some (w2, Inl e) \<Rightarrow> Some (w2, Inl e)
           | Some (w2, Inr ps') \<Rightarrow> Some (w2, Inr (p1 # ps'))))"

definition log_order :: "named_row list \<Rightarrow> named_row list" where
  "log_order rows = sort_key (\<lambda>r. lg_created (snd r)) (sort_key (\<lambda>r. lg_id (snd r)) rows)"

definition before :: "time \<Rightarrow> named_row \<Rightarrow> bool" where
  "before limit r \<longleftrightarrow> lg_created (snd r) < limit"

definition take_before :: "log_pager list \<Rightarrow> time \<Rightarrow> log_pager list \<times> named_row list" where
  "take_before ps limit =
     (map (\<lambda>p. p\<lparr>pg_pending := filter (\<lambda>r. \<not> before limit r) (pg_pending p)\<rparr>) ps,
      log_order (concat (map (\<lambda>p. filter (before limit) (pg_pending p)) ps)))"

subsection \<open>Emission\<close>

text \<open>One row; a prefetched detail replaces the inline fetch.\<close>

definition row_detail ::
  "'w rest_client \<Rightarrow> ai_config \<Rightarrow> named_row \<Rightarrow> fetched_log option \<Rightarrow> 'w \<Rightarrow> 'w \<times> (gerr + captured_log)" where
  "row_detail rc cfg row prefetched w =
     (if \<not> needs_detail cfg then (w, Inr \<lparr>cp_detail = snd row, cp_bodies = ([], []), cp_unavailable = (False, False)\<rparr>)
      else (case prefetched of
              Some f \<Rightarrow> (w, ft_log f)
            | None \<Rightarrow> fetch_log rc cfg (detail_path cfg (fst row) (lg_id (snd row))) (lg_collect_payload (snd row)) w))"

definition emit_with ::
  "'w rest_client \<Rightarrow> ai_config \<Rightarrow> 's emit \<Rightarrow> named_row \<Rightarrow> fetched_log option \<Rightarrow> 's \<Rightarrow> 'w \<Rightarrow> 'w \<times> 's \<times> gerr option" where
  "emit_with rc cfg emit row prefetched out w =
     (case row_duration (snd row) of
        None \<Rightarrow> (w, out, Some (ErrNew ''aigateway logs: invalid duration''))
      | Some d \<Rightarrow>
          (case row_detail rc cfg row prefetched w of
             (w1, Inl e) \<Rightarrow> (w1, out, Some e)
           | (w1, Inr cap) \<Rightarrow>
               (case emit_all emit out (row_emissions cfg (rc_context rc) (fst row) (snd row) d cap) of
                  (out1, err) \<Rightarrow> (w1, out1, err))))"

text \<open>The next detail of a prefetch, when details are needed at all.\<close>

definition next_detail ::
  "'w rest_client \<Rightarrow> ai_config \<Rightarrow> nat \<Rightarrow> 'w \<times> prefetch option \<Rightarrow> ('w \<times> prefetch option) \<times> fetched_log option" where
  "next_detail rc cfg i s =
     (case s of
        (w, None) \<Rightarrow> ((w, None), None)
      | (w, Some p) \<Rightarrow> (case prefetch_get rc cfg i (w, p) of ((w1, p1), f) \<Rightarrow> ((w1, Some p1), f)))"

text \<open>Rows in order, \<open>i\<close> the index of the first one, stopping at the first error.\<close>

fun emit_rows ::
  "'w rest_client \<Rightarrow> ai_config \<Rightarrow> 's emit \<Rightarrow> nat \<Rightarrow> named_row list \<Rightarrow> 's \<Rightarrow> 'w \<times> prefetch option
     \<Rightarrow> ('w \<times> prefetch option) \<times> 's \<times> gerr option" where
  "emit_rows rc cfg emit i [] out s = (s, out, None)"
| "emit_rows rc cfg emit i (row # rows) out s =
     (case next_detail rc cfg i s of
        ((w1, p1), f) \<Rightarrow>
          (case emit_with rc cfg emit row f out w1 of
             (w2, out1, Some e) \<Rightarrow> ((w2, p1), out1, Some e)
           | (w2, out1, None) \<Rightarrow> emit_rows rc cfg emit (Suc i) rows out1 (w2, p1)))"

definition stop_details :: "'w rest_client \<Rightarrow> 'w \<times> prefetch option \<Rightarrow> 'w \<times> prefetch option" where
  "stop_details rc s =
     (case s of (w, None) \<Rightarrow> (w, None)
      | (w, Some p) \<Rightarrow> (case prefetch_stop rc (w, p) of (w1, p1) \<Rightarrow> (w1, Some p1)))"

definition prune_details :: "time \<Rightarrow> prefetch option \<Rightarrow> prefetch option" where
  "prune_details t = map_option (\<lambda>p. p\<lparr>pf_retained := cache_prune t (pf_retained p)\<rparr>)"

definition source_second :: "named_row \<Rightarrow> time" where
  "source_second r = time_trunc (lg_created (snd r)) second"

text \<open>How the loop over the seconds ends: with an error, at the second that would overflow the budget with the details to
  retain, or with all rows emitted.\<close>

datatype seconds_end = SecondsError gerr | SecondsStopped time "prefetch option" | SecondsDone

function emit_seconds ::
  "'w rest_client \<Rightarrow> ai_config \<Rightarrow> 's emit \<Rightarrow> int \<Rightarrow> nat \<Rightarrow> named_row list \<Rightarrow> int \<Rightarrow> bool \<Rightarrow> 's \<Rightarrow> 'w \<times> prefetch option
     \<Rightarrow> 'w \<times> 's \<times> int \<times> bool \<times> seconds_end" where
  "emit_seconds rc cfg emit budget i rows buffered emitted out s =
     (if rows = [] then (fst (stop_details rc s), out, buffered, emitted, SecondsDone)
      else (let sec = source_second (hd rows);
                group = takeWhile (\<lambda>r. source_second r = sec) rows;
                rest = dropWhile (\<lambda>r. source_second r = sec) rows
            in case emit_rows rc cfg buffer_emit i group empty_buffer s of
                 (s1, b, Some e) \<Rightarrow> (fst (stop_details rc s1), out, buffered, emitted, SecondsError e)
               | (s1, b, None) \<Rightarrow>
                   if emitted \<and> budget < buffered + buffer_bytes b then
                     (case stop_details rc s1 of
                        (w2, p2) \<Rightarrow> (w2, out, buffered, emitted, SecondsStopped sec (prune_details sec p2)))
                   else (case replay_into emit out b of
                     (out1, Some e) \<Rightarrow> (fst (stop_details rc s1), out1, buffered, emitted, SecondsError e)
                   | (out1, None) \<Rightarrow>
                       emit_seconds rc cfg emit budget (i + length group) rest (buffered + buffer_bytes b) True out1
                         (fst s1, prune_details (sec + second) (snd s1)))))"
  by pat_completeness auto
termination
proof (relation "measure (\<lambda>(rc, cfg, emit, budget, i, rows, buffered, emitted, out, s). length rows)")
  fix rows :: "named_row list" and sec
  assume "rows \<noteq> []" "sec = source_second (hd rows)"
  then have "length (dropWhile (\<lambda>r. source_second r = sec) rows) < length rows"
    by (cases rows) (auto simp: less_Suc_eq_le length_dropWhile_le)
  moreover fix rc :: "'w rest_client" and cfg :: ai_config and emit :: "'s emit" and budget :: int and i :: nat
    and buffered :: int and emitted :: bool and out :: 's and s :: "'w \<times> prefetch option"
    and group rest x s1 y b z out1 e
  assume "rest = dropWhile (\<lambda>r. source_second r = sec) rows"
  ultimately show "((rc, cfg, emit, budget, i + length group, rest, buffered + buffer_bytes b, True, out1,
      fst s1, prune_details (sec + second) (snd s1)), rc, cfg, emit, budget, i, rows, buffered, emitted, out, s)
    \<in> measure (\<lambda>(rc, cfg, emit, budget, i, rows, buffered, emitted, out, s). length rows)" by simp
qed simp

declare emit_seconds.simps [simp del]

subsection \<open>A window\<close>

text \<open>The details retained from the last call and the instant they are retained from.\<close>

record logs_state =
  ls_retained :: detail_cache
  ls_from :: time

definition first_pagers :: "ai_config \<Rightarrow> gerr + log_pager list" where
  "first_pagers cfg =
     (if [] \<in> set (ai_gateways cfg) then Inl (ErrNew ''aigateway logs: empty gateway'')
      else Inr (map (new_pager cfg) (ai_gateways cfg)))"

text \<open>The loop of a budgeted call; \<open>fuel\<close> bounds the rounds, of which there are at most one for each page of each gateway and one more.\<close>

fun budget_loop ::
  "nat \<Rightarrow> 'w rest_client \<Rightarrow> ai_config \<Rightarrow> 's emit \<Rightarrow> int \<Rightarrow> time \<Rightarrow> time \<Rightarrow> time \<Rightarrow> int \<Rightarrow> nat \<Rightarrow> bool \<Rightarrow> log_pager list \<Rightarrow> 's
     \<Rightarrow> 'w \<times> logs_state \<Rightarrow> (('w \<times> logs_state) \<times> 's \<times> (gerr + time)) option" where
  "budget_loop 0 rc cfg emit budget fr to pos buffered listed emitted ps out s = None"
| "budget_loop (Suc n) rc cfg emit budget fr to pos buffered listed emitted ps out s =
     (let h = common_horizon fr to ps in
      if h \<le> pos \<or> (h < to \<and> listed < list_row_cap) then
        (case list_round rc fr to h ps (fst s) of
           (w1, Inl e) \<Rightarrow> Some ((w1, snd s), out, Inl e)
         | (w1, Inr (ps1, k)) \<Rightarrow>
             budget_loop n rc cfg emit budget fr to pos buffered (listed + k) emitted ps1 out (w1, snd s))
      else
        (case take_before ps h of
           (ps1, rows) \<Rightarrow>
             (case prefetch_details rc cfg rows True (ls_retained (snd s)) (fst s) of
                (w1, pf, cache1) \<Rightarrow>
                  (case emit_seconds rc cfg emit budget 0 rows buffered emitted out (w1, pf) of
                     (w2, out1, buffered1, emitted1, fin) \<Rightarrow>
                       (let st1 = (snd s)\<lparr>ls_retained := cache1\<rparr> in
                        case fin of
                          SecondsError e \<Rightarrow> Some ((w2, st1), out1, Inl e)
                        | SecondsStopped mark p \<Rightarrow>
                            Some ((w2, case p of None \<Rightarrow> st1 | Some q \<Rightarrow> \<lparr>ls_retained = pf_retained q, ls_from = mark\<rparr>),
                                  out1, Inr mark)
                        | SecondsDone \<Rightarrow>
                            if to \<le> h \<or> list_row_cap \<le> listed then Some ((w2, st1), out1, Inr h)
                            else budget_loop n rc cfg emit budget fr to h buffered1 listed emitted1 ps1 out1 (w2, st1))))))"

definition whole_window ::
  "'w rest_client \<Rightarrow> ai_config \<Rightarrow> 's emit \<Rightarrow> time \<Rightarrow> time \<Rightarrow> log_pager list \<Rightarrow> 's \<Rightarrow> 'w \<times> logs_state
     \<Rightarrow> (('w \<times> logs_state) \<times> 's \<times> (gerr + time)) option" where
  "whole_window rc cfg emit fr to ps out s =
     (case list_all_gateways rc fr to ps (fst s) of
        None \<Rightarrow> None
      | Some (w1, Inl e) \<Rightarrow> Some ((w1, snd s), out, Inl e)
      | Some (w1, Inr ps1) \<Rightarrow>
          (case prefetch_details rc cfg (snd (take_before ps1 to)) False (ls_retained (snd s)) w1 of
             (w2, pf, cache1) \<Rightarrow>
               (case emit_rows rc cfg emit 0 (snd (take_before ps1 to)) out (w2, pf) of
                  (s1, out1, err) \<Rightarrow>
                    Some ((fst (stop_details rc s1), (snd s)\<lparr>ls_retained := cache1\<rparr>), out1,
                      case err of Some e \<Rightarrow> Inl e | None \<Rightarrow> Inr to))))"

definition window_rounds :: "ai_config \<Rightarrow> nat" where
  "window_rounds cfg = Suc (max_log_pages * length (ai_gateways cfg))"

text \<open>What the deferred function does to the retained details.\<close>

definition settle_retained :: "time \<Rightarrow> gerr + time \<Rightarrow> logs_state \<Rightarrow> logs_state" where
  "settle_retained to r st = (case r of
     Inr mark \<Rightarrow> if mark < to then st else st\<lparr>ls_retained := empty_cache\<rparr>
   | Inl e \<Rightarrow> st\<lparr>ls_retained := empty_cache\<rparr>)"

definition window_body ::
  "'w rest_client \<Rightarrow> ai_config \<Rightarrow> 's emit \<Rightarrow> time \<Rightarrow> time \<Rightarrow> int \<Rightarrow> log_pager list \<Rightarrow> 's \<Rightarrow> 'w \<times> logs_state
     \<Rightarrow> (('w \<times> logs_state) \<times> 's \<times> (gerr + time)) option" where
  "window_body rc cfg emit fr to budget ps out s =
     (if budget \<le> 0 then whole_window rc cfg emit fr to ps out s
      else budget_loop (window_rounds cfg) rc cfg emit budget fr to fr 0 0 False ps out s)"

definition collect_logs ::
  "'w rest_client \<Rightarrow> ai_config \<Rightarrow> 's emit \<Rightarrow> time \<Rightarrow> time \<Rightarrow> int \<Rightarrow> 's \<Rightarrow> 'w \<times> logs_state
     \<Rightarrow> (('w \<times> logs_state) \<times> 's \<times> (gerr + time)) option" where
  "collect_logs rc cfg emit fr to budget out s =
     (if \<not> fr < to then Some (s, out, Inl (ErrNew ''aigateway logs: invalid window or dependencies''))
      else (case rc_ctx_err rc (fst s) of
        (w1, Some e) \<Rightarrow> Some ((w1, settle_retained to (Inl e) (snd s)), out, Inl e)
      | (w1, None) \<Rightarrow>
          (let st = (if budget \<le> 0 \<or> fr \<noteq> ls_from (snd s) then (snd s)\<lparr>ls_retained := empty_cache\<rparr> else snd s) in
           case first_pagers cfg of
             Inl e \<Rightarrow> Some ((w1, settle_retained to (Inl e) st), out, Inl e)
           | Inr ps \<Rightarrow>
               (case window_body rc cfg emit fr to budget ps out (w1, st) of
                  None \<Rightarrow> None
                | Some ((w2, st2), out2, r) \<Rightarrow> Some ((w2, settle_retained to r st2), out2, r)))))"

end
