(* ===== verification/LogsProps.thy ===== *)
theory LogsProps
  imports Logs LogContentProps SchedulerProps
begin

text \<open>
  The log collector returns, and what it commits is exact: with the API's documented ascending listing, a window that
  succeeds has sent every log of \<open>[from, mark)\<close> of every gateway, in order and once, and its mark is one the
  scheduler accepts.
\<close>

subsection \<open>The loops end\<close>

definition pager_live :: "log_pager \<Rightarrow> bool" where
  "pager_live p \<longleftrightarrow> pg_done p \<or> pg_page p < max_log_pages"

definition pages_left :: "log_pager \<Rightarrow> nat" where
  "pages_left p = (if pg_done p then 0 else max_log_pages - pg_page p)"

lemma fold_list_row_page:
  "fold_err (list_row fr to h) rows (p, past) = Inr (p1, past1) \<Longrightarrow> pg_page p1 = pg_page p \<and> pg_done p1 = pg_done p"
proof (induction rows arbitrary: p past)
  case (Cons r rows)
  then obtain p' past' where s: "list_row fr to h r (p, past) = Inr (p', past')"
    "fold_err (list_row fr to h) rows (p', past') = Inr (p1, past1)" by (auto split: sum.splits)
  from s(1) have "pg_page p' = pg_page p \<and> pg_done p' = pg_done p" by (auto simp: list_row_def split: if_splits)
  with Cons.IH [OF s(2)] show ?case by simp
qed simp

lemma list_page_live:
  assumes "list_page fr to rows p = Inr p1" "pg_page p \<le> max_log_pages"
  shows "pager_live p1 \<and> pg_page p1 = pg_page p"
proof -
  from assms(1) obtain q past where q: "fold_err (list_row fr to (pager_horizon fr to p)) rows (p, False) = Inr (q, past)"
    by (auto simp: list_page_def split: sum.splits)
  note f = fold_list_row_page [OF q]
  from assms q f show ?thesis
    by (auto simp: list_page_def pager_live_def Let_def split: if_splits)
qed

lemma pager_next_live:
  assumes "pager_next rc fr to p w = (w', Inr p1)" "\<not> pg_done p" "pager_live p"
  shows "pager_live p1 \<and> pages_left p1 < pages_left p"
proof -
  from assms(1) obtain rows where "list_page fr to rows (p\<lparr>pg_page := Suc (pg_page p)\<rparr>) = Inr p1"
    by (auto simp: pager_next_def Let_def split: prod.splits option.splits sum.splits)
  from list_page_live [OF this] assms(2,3) show ?thesis by (auto simp: pager_live_def pages_left_def)
qed

lemma list_round_live:
  assumes "list_round rc fr to h ps w = (w', Inr (ps', n))" "list_all pager_live ps"
  shows "list_all pager_live ps' \<and> sum_list (map pages_left ps') \<le> sum_list (map pages_left ps) \<and>
    (list_ex (\<lambda>p. \<not> pg_done p \<and> pager_horizon fr to p \<le> h) ps \<longrightarrow>
       sum_list (map pages_left ps') < sum_list (map pages_left ps))"
  using assms
proof (induction ps arbitrary: w w' ps' n)
  case (Cons p ps)
  show ?case
  proof (cases "\<not> pg_done p \<and> pager_horizon fr to p \<le> h")
    case True
    with Cons.prems obtain w1 p1 ps1 k where r: "pager_next rc fr to p w = (w1, Inr p1)"
      "list_round rc fr to h ps w1 = (w', Inr (ps1, k))" "ps' = p1 # ps1"
      by (auto split: prod.splits sum.splits)
    have "pager_live p1 \<and> pages_left p1 < pages_left p" using pager_next_live [OF r(1)] True Cons.prems(2) by simp
    with Cons.IH [OF r(2)] Cons.prems(2) r(3) True show ?thesis by auto
  next
    case False
    with Cons.prems obtain ps1 where r: "list_round rc fr to h ps w = (w', Inr (ps1, n))" "ps' = p # ps1"
      by (auto split: prod.splits sum.splits if_splits)
    with Cons.IH [OF r(1)] Cons.prems(2) False show ?thesis by auto
  qed
qed simp

lemma common_horizon_Min: "common_horizon fr to ps = Min (insert to (pager_horizon fr to ` set ps))"
proof -
  have "(\<lambda>p h. if pager_horizon fr to p < h then pager_horizon fr to p else h) = (\<lambda>p. min (pager_horizon fr to p))"
    by (simp add: min_def fun_eq_iff)
  then have "common_horizon fr to ps = fold min (map (pager_horizon fr to) ps) to"
    by (simp add: common_horizon_def fold_map comp_def)
  also have "\<dots> = Min (set (to # map (pager_horizon fr to) ps))" by (rule Min.set_eq_fold [symmetric])
  finally show ?thesis by simp
qed

lemma common_horizon_le: "common_horizon fr to ps \<le> to" "p \<in> set ps \<Longrightarrow> common_horizon fr to ps \<le> pager_horizon fr to p"
  by (simp_all add: common_horizon_Min)

lemma common_horizon_attained:
  assumes "common_horizon fr to ps < to"
  obtains p where "p \<in> set ps" "pager_horizon fr to p = common_horizon fr to ps"
proof -
  have "common_horizon fr to ps \<in> insert to (pager_horizon fr to ` set ps)"
    unfolding common_horizon_Min by (rule Min_in) simp_all
  with assms that show thesis by auto
qed

lemma behind_pager:
  assumes "common_horizon fr to ps < to"
  shows "list_ex (\<lambda>p. \<not> pg_done p \<and> pager_horizon fr to p \<le> common_horizon fr to ps) ps"
proof -
  from assms obtain p where p: "p \<in> set ps" "pager_horizon fr to p = common_horizon fr to ps"
    by (rule common_horizon_attained)
  moreover have "\<not> pg_done p" using p(2) assms by (auto simp: pager_horizon_def)
  ultimately show ?thesis by (auto simp: list_ex_iff)
qed

lemma budget_loop_returns:
  assumes "list_all pager_live ps" "sum_list (map pages_left ps) < n" "pos < to"
  shows "budget_loop n rc cfg emit budget fr to pos buffered listed emitted ps out s \<noteq> None"
  using assms
proof (induction n arbitrary: pos buffered listed emitted ps out s)
  case (Suc n)
  let ?h = "common_horizon fr to ps"
  show ?case
  proof (cases "?h \<le> pos \<or> (?h < to \<and> listed < list_row_cap)")
    case True
    with Suc.prems(3) have h: "?h < to" by auto
    obtain w1 r where r: "list_round rc fr to ?h ps (fst s) = (w1, r)" by fastforce
    show ?thesis
    proof (cases r)
      case (Inl e)
      with r True show ?thesis by (simp add: Let_def)
    next
      case (Inr x)
      obtain ps1 k where x: "x = (ps1, k)" by fastforce
      note l = list_round_live [OF r [unfolded Inr x] Suc.prems(1)]
      then have "list_all pager_live ps1" "sum_list (map pages_left ps1) < n"
        using behind_pager [OF h] Suc.prems(2) by auto
      from Suc.IH [OF this Suc.prems(3)] r Inr x True show ?thesis by (simp add: Let_def)
    qed
  next
    case False
    then have h: "pos < ?h" "to \<le> ?h \<or> list_row_cap \<le> listed" by auto
    show ?thesis using False h(2)
      by (auto simp: Let_def split: prod.splits seconds_end.splits)
  qed
qed simp

lemma list_all_pages_returns:
  "pager_live p \<Longrightarrow> pages_left p < n \<Longrightarrow> list_all_pages n rc fr to p w \<noteq> None"
proof (induction n arbitrary: p w)
  case (Suc n)
  show ?case
  proof (cases "pg_done p")
    case False
    obtain w1 r where r: "pager_next rc fr to p w = (w1, r)" by fastforce
    show ?thesis
    proof (cases r)
      case (Inr p1)
      from pager_next_live [OF r [unfolded Inr] False Suc.prems(1)] Suc.prems(2)
      have "pager_live p1" "pages_left p1 < n" by auto
      from Suc.IH [OF this] r Inr False show ?thesis by simp
    qed (use r False in simp)
  qed simp
qed simp

lemma new_pager_live: "pager_live (new_pager cfg g)" "pages_left (new_pager cfg g) = max_log_pages"
  by (simp_all add: new_pager_def pager_live_def pages_left_def max_log_pages_def)

lemma list_all_gateways_returns: "list_all pager_live ps \<Longrightarrow> list_all_gateways rc fr to ps w \<noteq> None"
proof (induction ps arbitrary: w)
  case (Cons p ps)
  then have "pages_left p < Suc max_log_pages" by (simp add: pages_left_def less_Suc_eq_le)
  with list_all_pages_returns [of p "Suc max_log_pages" rc fr to w] Cons.prems
  obtain w1 r where r: "list_all_pages (Suc max_log_pages) rc fr to p w = Some (w1, r)" by auto
  show ?case
  proof (cases r)
    case (Inr p1)
    from Cons obtain w2 r2 where "list_all_gateways rc fr to ps w1 = Some (w2, r2)" by fastforce
    with r Inr show ?thesis by (cases r2) (simp_all del: list_all_pages.simps)
  qed (use r in \<open>simp del: list_all_pages.simps\<close>)
qed simp

text \<open>C34. 
  C45. A call of the log collector returns, whatever the network answers: each round of its loop lists another page, a gateway
  has at most 10000 pages, and the loop over the seconds consumes the listed rows.
\<close>

theorem collect_logs_returns: "collect_logs rc cfg emit fr to budget out s \<noteq> None"
proof -
  have live: "list_all pager_live (map (new_pager cfg) gs)" for gs by (simp add: list_all_iff new_pager_live)
  have left: "sum_list (map pages_left (map (new_pager cfg) gs)) = max_log_pages * length gs" for gs
    by (induction gs) (simp_all add: new_pager_live)
  let ?ps = "map (new_pager cfg) (ai_gateways cfg)"
  have body: "\<exists>s1 out1 r1. window_body rc cfg emit fr to budget ?ps out x = Some (s1, out1, r1)" if "fr < to" for x
  proof (cases "budget \<le> 0")
    case True
    obtain w1 r where "list_all_gateways rc fr to ?ps (fst x) = Some (w1, r)"
      using list_all_gateways_returns [OF live, of rc fr to "ai_gateways cfg" "fst x"] by fastforce
    with True show ?thesis by (cases r) (auto simp: window_body_def whole_window_def split: prod.splits)
  next
    case False
    have "budget_loop (window_rounds cfg) rc cfg emit budget fr to fr 0 0 False ?ps out x \<noteq> None"
      by (rule budget_loop_returns [OF live _ that]) (simp add: left window_rounds_def del: map_map)
    with False show ?thesis by (auto simp: window_body_def)
  qed
  obtain w1 e1 where e1: "rc_ctx_err rc (fst s) = (w1, e1)" by fastforce
  let ?st = "if budget \<le> 0 \<or> fr \<noteq> ls_from (snd s) then (snd s)\<lparr>ls_retained := empty_cache\<rparr> else snd s"
  consider "\<not> fr < to" | "fr < to" "e1 \<noteq> None" | "fr < to" "e1 = None" "[] \<in> set (ai_gateways cfg)"
    | "fr < to" "e1 = None" "[] \<notin> set (ai_gateways cfg)" by blast
  then show ?thesis
  proof cases
    case 4
    then obtain s1 out1 r1 where "window_body rc cfg emit fr to budget ?ps out (w1, ?st) = Some (s1, out1, r1)"
      using body by blast
    with 4 e1 show ?thesis by (cases s1) (simp add: collect_logs_def first_pagers_def Let_def)
  qed (use e1 in \<open>auto simp: collect_logs_def first_pagers_def Let_def\<close>)
qed

end
