(* ===== verification/LogsExact.thy ===== *)
theory LogsExact
  imports LogsProps
begin

text \<open>
  What one window of the log collector delivers, given the documented behaviour of the listing: ascending, complete,
  pages in order, an empty page only after the last row.
\<close>

subsection \<open>The listing of a gateway\<close>

definition in_window :: "time \<Rightarrow> time \<Rightarrow> log_row \<Rightarrow> bool" where
  "in_window fr to r \<longleftrightarrow> fr \<le> lg_created r \<and> lg_created r < to"

definition listed :: "(nat \<Rightarrow> log_row list) \<Rightarrow> nat \<Rightarrow> log_row list" where
  "listed pages n = concat (map pages [1..<Suc n])"

definition paged :: "log_row list \<Rightarrow> (nat \<Rightarrow> log_row list) \<Rightarrow> bool" where
  "paged src pages \<longleftrightarrow> sorted (map lg_created src) \<and> distinct (map lg_id src) \<and>
     (\<forall>n. prefix (listed pages n) src) \<and> (\<forall>n. pages (Suc n) = [] \<longrightarrow> listed pages n = src)"

definition served ::
  "'w rest_client \<Rightarrow> ai_config \<Rightarrow> time \<Rightarrow> time \<Rightarrow> string \<Rightarrow> (nat \<Rightarrow> log_row list) \<Rightarrow> log_row list \<Rightarrow> bool" where
  "served rc cfg fr to g pages src \<longleftrightarrow> paged src pages \<and>
     (\<forall>w w' n j. rc_get rc w (logs_path cfg g) (page_query_of fr to (Suc n)) = (w', Inr j) \<longrightarrow>
        decode_rows j = Some (pages (Suc n)))"

lemma listed_Suc: "listed pages (Suc n) = listed pages n @ pages (Suc n)"
  by (simp add: listed_def)

lemma listed_0 [simp]: "listed pages 0 = []"
  by (simp add: listed_def)

text \<open>A pager between two rounds: it holds every row of the window that was listed.\<close>

definition pager_holds :: "ai_config \<Rightarrow> time \<Rightarrow> time \<Rightarrow> (nat \<Rightarrow> log_row list) \<Rightarrow> log_row list \<Rightarrow> log_pager \<Rightarrow> bool" where
  "pager_holds cfg fr to pages src p \<longleftrightarrow>
     pg_path p = logs_path cfg (pg_gateway p) \<and>
     pg_seen p = lg_id ` set (filter (in_window fr to) (listed pages (pg_page p))) \<and>
     pg_pending p = map (Pair (pg_gateway p)) (filter (in_window fr to) (listed pages (pg_page p))) \<and>
     (pg_last p = 0 \<or> listed pages (pg_page p) \<noteq> [] \<and> pg_last p = lg_created (last (listed pages (pg_page p)))) \<and>
     (pg_done p \<longrightarrow> filter (in_window fr to) src = filter (in_window fr to) (listed pages (pg_page p)))"

lemma sorted_append_last:
  assumes "sorted (map f (xs @ ys))" "xs \<noteq> []" "y \<in> set ys"
  shows "f (last xs) \<le> f y"
  using assms by (auto simp: sorted_append)

lemma pager_complete:
  assumes "pager_holds cfg fr to pages src p" "paged src pages" "h \<le> pager_horizon fr to p" "h \<le> to" "0 \<le> fr" "fr < to"
  shows "filter (in_window fr h) (listed pages (pg_page p)) = filter (in_window fr h) src"
proof -
  let ?L = "listed pages (pg_page p)"
  have narrow: "filter (in_window fr h) xs = filter (in_window fr h) (filter (in_window fr to) xs)" for xs
    using assms(4) by (auto simp: in_window_def intro!: filter_cong)
  show ?thesis
  proof (cases "pg_done p")
    case True
    with assms(1) narrow [of src] narrow [of ?L] show ?thesis by (simp add: pager_holds_def)
  next
    case False
    from assms(2) obtain rest where src: "src = ?L @ rest" by (auto simp: paged_def prefix_def)
    have "\<not> in_window fr h r" if r: "r \<in> set rest" for r
    proof
      assume w: "in_window fr h r"
      then have "fr < pager_horizon fr to p" using assms(3) by (simp add: in_window_def)
      then have hz: "pager_horizon fr to p \<le> time_trunc (pg_last p) second" "fr < time_trunc (pg_last p) second"
        using False by (auto simp: pager_horizon_def Let_def split: if_splits)
      then have "pg_last p \<noteq> 0" using assms(5) by (auto simp: time_trunc_def)
      with assms(1) have "?L \<noteq> []" "pg_last p = lg_created (last ?L)" by (auto simp: pager_holds_def)
      with sorted_append_last [of lg_created ?L rest r] r assms(2) src have "pg_last p \<le> lg_created r"
        by (simp add: paged_def)
      with hz(1) assms(3) time_trunc_le [of "pg_last p" second] w show False by (simp add: in_window_def)
    qed
    then have "filter (in_window fr h) rest = []" by (simp add: filter_empty_conv)
    with arg_cong [OF src, of "filter (in_window fr h)"] show ?thesis by simp
  qed
qed

lemma fold_list_row:
  assumes "fold_err (list_row fr to h) rows (p, past) = Inr (p1, past1)"
    and "distinct (map lg_id rows)" "lg_id ` set rows \<inter> pg_seen p = {}"
  shows "p1 = p\<lparr>pg_seen := pg_seen p \<union> lg_id ` set (filter (in_window fr to) rows),
      pg_pending := pg_pending p @ map (Pair (pg_gateway p)) (filter (in_window fr to) rows)\<rparr> \<and>
    (past1 \<longleftrightarrow> past \<or> (\<exists>r \<in> set rows. to \<le> lg_created r))"
  using assms
proof (induction rows arbitrary: p past)
  case (Cons r rows)
  then obtain p' past' where s: "list_row fr to h r (p, past) = Inr (p', past')"
    "fold_err (list_row fr to h) rows (p', past') = Inr (p1, past1)" by (auto split: sum.splits)
  have d: "distinct (map lg_id rows)" "lg_id r \<notin> lg_id ` set rows" "lg_id r \<notin> pg_seen p"
    "lg_id ` set rows \<inter> pg_seen p = {}" using Cons.prems(2,3) by auto
  show ?case
  proof (cases "in_window fr to r")
    case True
    with s(1) d(3) have p': "p' = p\<lparr>pg_seen := insert (lg_id r) (pg_seen p), pg_pending := pg_pending p @ [(pg_gateway p, r)]\<rparr>"
      "past' = past" by (auto simp: list_row_def in_window_def split: if_splits)
    have "lg_id ` set rows \<inter> pg_seen p' = {}" using d by (auto simp: p')
    from Cons.IH [OF s(2) d(1) this] True show ?thesis by (auto simp: p' in_window_def)
  next
    case False
    with s(1) d(3) have p': "p' = p" "past' \<longleftrightarrow> past \<or> to \<le> lg_created r"
      by (auto simp: list_row_def in_window_def split: if_splits)
    from Cons.IH [OF s(2) d(1)] d(4) False show ?thesis by (auto simp: p')
  qed
qed simp

lemma list_page_shape:
  assumes "list_page fr to rows q = Inr p1" "fold_err (list_row fr to (pager_horizon fr to q)) rows (q, False) = Inr (p2, past)"
  shows "p1 = p2\<lparr>pg_last := (if rows \<noteq> [] \<and> pg_last p2 < lg_created (last rows) then lg_created (last rows) else pg_last p2),
     pg_done := past \<or> rows = [] \<or> pg_done p2\<rparr>"
  using assms(1) unfolding list_page_def assms(2) by (auto simp: Let_def split: if_splits)

lemma listing_ends:
  assumes "paged src pages" "pages (Suc n) = [] \<or> (\<exists>r \<in> set (pages (Suc n)). to \<le> lg_created r)"
  shows "filter (in_window fr to) src = filter (in_window fr to) (listed pages (Suc n))"
proof -
  from assms(1) obtain rest where src: "src = (listed pages n @ pages (Suc n)) @ rest" by (metis listed_Suc paged_def prefix_def)
  show ?thesis
  proof (cases "pages (Suc n) = []")
    case False
    then obtain r where r: "r \<in> set (pages (Suc n))" "to \<le> lg_created r" using assms(2) by blast
    have "\<not> in_window fr to x" if "x \<in> set rest" for x
    proof -
      from assms(1) have "sorted (map lg_created ((listed pages n @ pages (Suc n)) @ rest))" by (simp add: paged_def src)
      with r(1) that have "lg_created r \<le> lg_created x" by (auto simp: sorted_append)
      with r(2) show ?thesis by (simp add: in_window_def)
    qed
    then show ?thesis unfolding src by (simp add: filter_empty_conv listed_Suc)
  qed (use assms(1) in \<open>simp add: paged_def listed_Suc\<close>)
qed

lemma list_page_holds:
  assumes h: "pager_holds cfg fr to pages src p" and pg: "paged src pages"
    and r: "list_page fr to (pages (Suc (pg_page p))) (p\<lparr>pg_page := Suc (pg_page p)\<rparr>) = Inr p1"
  shows "pager_holds cfg fr to pages src p1 \<and> pg_gateway p1 = pg_gateway p"
proof -
  let ?n = "pg_page p" and ?q = "p\<lparr>pg_page := Suc (pg_page p)\<rparr>"
  let ?rows = "pages (Suc ?n)" and ?L = "listed pages ?n"
  from pg obtain rest where src: "src = (?L @ ?rows) @ rest" by (metis listed_Suc paged_def prefix_def)
  have dist: "distinct (map lg_id ?rows)" "lg_id ` set ?rows \<inter> lg_id ` set ?L = {}"
    using pg by (auto simp: paged_def src)
  obtain p2 past where f: "fold_err (list_row fr to (pager_horizon fr to ?q)) ?rows (?q, False) = Inr (p2, past)"
    using r by (auto simp: list_page_def split: sum.splits)
  have seen: "pg_seen p \<subseteq> lg_id ` set ?L" using h by (auto simp: pager_holds_def)
  have "p2 = ?q\<lparr>pg_seen := pg_seen p \<union> lg_id ` set (filter (in_window fr to) ?rows),
      pg_pending := pg_pending p @ map (Pair (pg_gateway p)) (filter (in_window fr to) ?rows)\<rparr> \<and>
    (past \<longleftrightarrow> (\<exists>r \<in> set ?rows. to \<le> lg_created r))"
  proof -
    have "lg_id ` set ?rows \<inter> pg_seen ?q = {}" using dist(2) seen by (simp, blast)
    from fold_list_row [OF f dist(1) this] show ?thesis by simp
  qed
  then have p2: "pg_seen p2 = lg_id ` set (filter (in_window fr to) (?L @ ?rows))" "pg_page p2 = Suc ?n"
    "pg_pending p2 = map (Pair (pg_gateway p)) (filter (in_window fr to) (?L @ ?rows))" "pg_last p2 = pg_last p"
    "pg_gateway p2 = pg_gateway p" "pg_path p2 = pg_path p" "pg_done p2 = pg_done p"
    "past \<longleftrightarrow> (\<exists>r \<in> set ?rows. to \<le> lg_created r)"
    using h by (auto simp: pager_holds_def image_Un)
  let ?last = "if ?rows \<noteq> [] \<and> pg_last p < lg_created (last ?rows) then lg_created (last ?rows) else pg_last p"
  have p1: "pg_seen p1 = pg_seen p2" "pg_page p1 = Suc ?n" "pg_pending p1 = pg_pending p2" "pg_last p1 = ?last"
    "pg_gateway p1 = pg_gateway p" "pg_path p1 = pg_path p" "pg_done p1 = (past \<or> ?rows = [] \<or> pg_done p)"
    using list_page_shape [OF r f] p2(2,4-7) by simp_all
  have last_ok: "?last = 0 \<or> ?L @ ?rows \<noteq> [] \<and> ?last = lg_created (last (?L @ ?rows))"
  proof (cases "?rows = []")
    case True
    with h show ?thesis by (auto simp: pager_holds_def)
  next
    case False
    have "pg_last p \<le> lg_created (last ?rows)" if "pg_last p \<noteq> 0"
    proof -
      from h that have l: "?L \<noteq> []" "pg_last p = lg_created (last ?L)" by (auto simp: pager_holds_def)
      from pg have "sorted (map lg_created (?L @ ?rows))" by (simp add: paged_def src sorted_append)
      with l False sorted_append_last [of lg_created ?L ?rows "last ?rows"] show ?thesis by simp
    qed
    with False show ?thesis by (cases "pg_last p = 0") auto
  qed
  have done_ok: "filter (in_window fr to) src = filter (in_window fr to) (?L @ ?rows)" if d: "pg_done p1"
  proof -
    show ?thesis
    proof (cases "pg_done p")
      case True
      with h have "filter (in_window fr to) src = filter (in_window fr to) ?L" by (simp add: pager_holds_def)
      then have "filter (in_window fr to) ?rows = []" unfolding src by simp
      with True h show ?thesis by (simp add: pager_holds_def)
    next
      case False
      with d p1(7) p2(8) have "?rows = [] \<or> (\<exists>r \<in> set ?rows. to \<le> lg_created r)" by blast
      from listing_ends [OF pg this] show ?thesis by (simp add: listed_Suc)
    qed
  qed
  show ?thesis using h p1 p2 last_ok done_ok unfolding pager_holds_def by (simp add: listed_Suc)
qed

lemma pager_next_holds:
  assumes "pager_next rc fr to p w = (w', Inr p1)" "pager_holds cfg fr to pages src p"
    "served rc cfg fr to (pg_gateway p) pages src"
  shows "pager_holds cfg fr to pages src p1 \<and> pg_gateway p1 = pg_gateway p"
proof -
  have path: "pg_path p = logs_path cfg (pg_gateway p)" using assms(2) by (simp add: pager_holds_def)
  let ?q = "p\<lparr>pg_page := Suc (pg_page p)\<rparr>"
  obtain w1 e where c: "rc_ctx_err rc w = (w1, e)" by fastforce
  with assms(1) have e: "e = None" by (cases e) (simp_all add: pager_next_def)
  obtain w2 r where g: "rc_get rc w1 (pg_path p) (page_query_of fr to (Suc (pg_page p))) = (w2, r)" by fastforce
  with assms(1) c e obtain j where j: "r = Inr j" by (cases r) (simp_all add: pager_next_def)
  have d: "decode_rows j = Some (pages (Suc (pg_page p)))"
    using assms(3) g [unfolded j path] by (simp add: served_def)
  have "list_page fr to (pages (Suc (pg_page p))) ?q = Inr p1"
    using assms(1) c e g j d by (simp add: pager_next_def)
  from list_page_holds [OF assms(2) _ this] assms(3) show ?thesis by (simp add: served_def)
qed

definition all_hold :: "ai_config \<Rightarrow> time \<Rightarrow> time \<Rightarrow> (string \<Rightarrow> nat \<Rightarrow> log_row list) \<Rightarrow> (string \<Rightarrow> log_row list) \<Rightarrow> log_pager list \<Rightarrow> bool" where
  "all_hold cfg fr to pages src ps \<longleftrightarrow> list_all (\<lambda>p. pager_holds cfg fr to (pages (pg_gateway p)) (src (pg_gateway p)) p) ps"

lemma list_round_holds:
  assumes "list_round rc fr to h ps w = (w', Inr (ps', n))" "all_hold cfg fr to pages src ps"
    "\<forall>g \<in> pg_gateway ` set ps. served rc cfg fr to g (pages g) (src g)"
  shows "all_hold cfg fr to pages src ps' \<and> map pg_gateway ps' = map pg_gateway ps"
  using assms
proof (induction ps arbitrary: w w' ps' n)
  case (Cons p ps)
  show ?case
  proof (cases "\<not> pg_done p \<and> pager_horizon fr to p \<le> h")
    case True
    with Cons.prems(1) obtain w1 p1 ps1 k where r: "pager_next rc fr to p w = (w1, Inr p1)"
      "list_round rc fr to h ps w1 = (w', Inr (ps1, k))" "ps' = p1 # ps1"
      by (auto split: prod.splits sum.splits)
    from pager_next_holds [OF r(1)] Cons.IH [OF r(2)] Cons.prems(2,3) r(3) show ?thesis
      by (auto simp: all_hold_def)
  next
    case False
    with Cons.prems(1) obtain ps1 where r: "list_round rc fr to h ps w = (w', Inr (ps1, n))" "ps' = p # ps1"
      by (auto split: prod.splits sum.splits if_splits)
    from Cons.IH [OF r(1)] Cons.prems(2,3) r(2) show ?thesis by (auto simp: all_hold_def)
  qed
qed (simp add: all_hold_def)

subsection \<open>The rows of a window\<close>

definition window_rows :: "(string \<Rightarrow> log_row list) \<Rightarrow> string list \<Rightarrow> time \<Rightarrow> time \<Rightarrow> named_row list" where
  "window_rows src gs fr to = concat (map (\<lambda>g. map (Pair g) (filter (in_window fr to) (src g))) gs)"

lemma take_before_rows:
  assumes "all_hold cfg fr to pages src ps" "\<forall>g \<in> pg_gateway ` set ps. paged (src g) (pages g)"
    "h \<le> to" "\<forall>p \<in> set ps. h \<le> pager_horizon fr to p" "0 \<le> fr" "fr < to"
  shows "snd (take_before ps h) = log_order (window_rows src (map pg_gateway ps) fr h)"
proof -
  have "filter (before h) (pg_pending p) = map (Pair (pg_gateway p)) (filter (in_window fr h) (src (pg_gateway p)))"
    if p: "p \<in> set ps" for p
  proof -
    let ?L = "listed (pages (pg_gateway p)) (pg_page p)"
    have ph: "pager_holds cfg fr to (pages (pg_gateway p)) (src (pg_gateway p)) p"
      using assms(1) p by (simp add: all_hold_def list_all_iff)
    then have "filter (before h) (pg_pending p) = map (Pair (pg_gateway p)) (filter (\<lambda>r. lg_created r < h) (filter (in_window fr to) ?L))"
      by (simp add: pager_holds_def before_def filter_map comp_def)
    also have "filter (\<lambda>r. lg_created r < h) (filter (in_window fr to) ?L) = filter (in_window fr h) ?L"
      using assms(3) by (auto simp: in_window_def intro!: filter_cong)
    also have "\<dots> = filter (in_window fr h) (src (pg_gateway p))"
      using pager_complete [OF ph] assms p by simp
    finally show ?thesis .
  qed
  then show ?thesis by (simp add: take_before_def window_rows_def comp_def cong: map_cong)
qed

lemma filter_log_order: "filter P (log_order rows) = log_order (filter P rows)"
  by (simp add: log_order_def filter_sort)

lemma log_order_sorted: "sorted (map (\<lambda>r. lg_created (snd r)) (log_order rows))"
  by (simp add: log_order_def)

lemma window_rows_before: "m \<le> h \<Longrightarrow> filter (before m) (window_rows src gs fr h) = window_rows src gs fr m"
proof -
  assume "m \<le> h"
  then have "filter (\<lambda>r. before m (g, r)) (filter (in_window fr h) xs) = filter (in_window fr m) xs" for g xs
    by (auto simp: before_def in_window_def intro!: filter_cong)
  then show ?thesis by (simp add: window_rows_def filter_concat comp_def filter_map)
qed

subsection \<open>Emission\<close>

text \<open>The emissions of a row are those of \<open>emitWith\<close>, with some captured detail.\<close>

definition row_sent :: "'w rest_client \<Rightarrow> ai_config \<Rightarrow> named_row \<Rightarrow> emission list \<Rightarrow> bool" where
  "row_sent rc cfg row es \<longleftrightarrow> (\<exists>d cap. row_duration (snd row) = Some d \<and>
     es = row_emissions cfg (rc_context rc) (fst row) (snd row) d cap)"

definition rows_sent :: "'w rest_client \<Rightarrow> ai_config \<Rightarrow> named_row list \<Rightarrow> emission list \<Rightarrow> bool" where
  "rows_sent rc cfg rows es \<longleftrightarrow> (\<exists>ess. list_all2 (row_sent rc cfg) rows ess \<and> es = concat ess)"

definition buffer_adds :: "buffer \<Rightarrow> buffer \<Rightarrow> emission list \<Rightarrow> bool" where
  "buffer_adds b b' es \<longleftrightarrow> buffer_recs b' = buffer_recs b @ filter is_record es \<and>
     buffer_mets b' = buffer_mets b @ filter (\<lambda>e. is_metric e) es"

lemma rows_sent_Nil [simp]: "rows_sent rc cfg [] es \<longleftrightarrow> es = []"
  by (simp add: rows_sent_def)

lemma rows_sent_append:
  assumes "rows_sent rc cfg rows es" "rows_sent rc cfg rows' es'"
  shows "rows_sent rc cfg (rows @ rows') (es @ es')"
proof -
  from assms obtain ess ess' where "list_all2 (row_sent rc cfg) rows ess" "es = concat ess"
    "list_all2 (row_sent rc cfg) rows' ess'" "es' = concat ess'" unfolding rows_sent_def by blast
  then show ?thesis unfolding rows_sent_def by (intro exI [of _ "ess @ ess'"]) (simp add: list_all2_appendI)
qed

lemma rows_sent_Cons: "row_sent rc cfg row es \<Longrightarrow> rows_sent rc cfg rows es' \<Longrightarrow> rows_sent rc cfg (row # rows) (es @ es')"
  using rows_sent_append [of rc cfg "[row]" es rows es'] unfolding rows_sent_def by fastforce

lemma buffer_adds_refl [simp]: "buffer_adds b b []"
  by (simp add: buffer_adds_def)

lemma buffer_adds_trans: "buffer_adds a b es \<Longrightarrow> buffer_adds b c es' \<Longrightarrow> buffer_adds a c (es @ es')"
  by (simp add: buffer_adds_def)

lemma buffer_adds_all: "emit_all buffer_emit b es = (b', None) \<Longrightarrow> buffer_adds b b' es"
  using buf.emit_all_recs [of b es b'] buf.emit_all_mets [of b es b'] by (simp add: buffer_adds_def)

lemma buffer_adds_replay:
  assumes "replay_into buffer_emit out b = (out', None)" "buffer_adds empty_buffer b es"
  shows "buffer_adds out out' es"
proof -
  have e: "buffer_emissions b = filter is_record es @ filter (\<lambda>e. is_metric e) es"
    using assms(2) by (simp add: buffer_adds_def buffer_emissions_def buffer_recs_def buffer_mets_def empty_buffer_def)
  have f: "filter is_record (filter is_record es @ filter (\<lambda>e. is_metric e) es) = filter is_record es"
    "filter (\<lambda>e. is_metric e) (filter is_record es @ filter (\<lambda>e. is_metric e) es) = filter (\<lambda>e. is_metric e) es"
    by (simp_all add: filter_empty_conv)
  from assms(1) have "buffer_adds out out' (buffer_emissions b)"
    by (intro buffer_adds_all) (simp add: replay_into_all)
  then show ?thesis unfolding buffer_adds_def e f .
qed

lemma emit_with_sent:
  assumes "emit_with rc cfg emit row f out w = (w', out', None)"
  shows "\<exists>es. row_sent rc cfg row es \<and> emit_all emit out es = (out', None)"
proof -
  obtain d where d: "row_duration (snd row) = Some d"
    using assms by (cases "row_duration (snd row)") (auto simp: emit_with_def)
  obtain w1 r where r: "row_detail rc cfg row f w = (w1, r)" by fastforce
  obtain cap where cap: "r = Inr cap" using assms d r by (cases r) (auto simp: emit_with_def)
  with assms d r have "emit_all emit out (row_emissions cfg (rc_context rc) (fst row) (snd row) d cap) = (out', None)"
    by (simp add: emit_with_def split: prod.splits)
  with d show ?thesis unfolding row_sent_def by blast
qed

lemma emit_rows_sent:
  "emit_rows rc cfg emit i rows out s = (s', out', None) \<Longrightarrow>
   \<exists>es. rows_sent rc cfg rows es \<and> emit_all emit out es = (out', None)"
proof (induction rows arbitrary: i out s)
  case (Cons row rows)
  obtain w1 p1 f where n: "next_detail rc cfg i s = ((w1, p1), f)" by (metis prod.collapse)
  obtain w2 out1 err where e: "emit_with rc cfg emit row f out w1 = (w2, out1, err)" by (metis prod.collapse)
  have err: "err = None" using Cons.prems n e by (cases err) simp_all
  from Cons.prems n e err have "emit_rows rc cfg emit (Suc i) rows out1 (w2, p1) = (s', out', None)" by simp
  from Cons.IH [OF this] obtain es where es: "rows_sent rc cfg rows es" "emit_all emit out1 es = (out', None)" by blast
  from emit_with_sent [OF e [unfolded err]] obtain es0 where es0: "row_sent rc cfg row es0" "emit_all emit out es0 = (out1, None)" by blast
  from rows_sent_Cons [OF es0(1) es(1)] es0(2) es(2) show ?case by (intro exI [of _ "es0 @ es"]) (simp add: emit_all_append)
qed simp

text \<open>What a run over the seconds has sent when it ends at a budget cut or at the last row.\<close>

definition sent_until :: "'w rest_client \<Rightarrow> ai_config \<Rightarrow> named_row list \<Rightarrow> bool \<Rightarrow> buffer \<Rightarrow> buffer \<Rightarrow> seconds_end \<Rightarrow> bool" where
  "sent_until rc cfg rows emitted out out' fin =
     (case fin of
        SecondsError e \<Rightarrow> True
      | SecondsDone \<Rightarrow> (\<exists>es. rows_sent rc cfg rows es \<and> buffer_adds out out' es)
      | SecondsStopped m p \<Rightarrow>
          (\<exists>pre post es. rows = pre @ post \<and> rows_sent rc cfg pre es \<and> buffer_adds out out' es \<and> post \<noteq> [] \<and>
             m = source_second (hd post) \<and> (emitted \<or> pre \<noteq> []) \<and> (\<forall>r \<in> set pre. source_second r < m)))"

lemma sent_until_extend:
  assumes "sent_until rc cfg rest True out1 out' fin" "rows_sent rc cfg grp es" "buffer_adds out out1 es" "grp \<noteq> []"
    and "\<And>r x. r \<in> set grp \<Longrightarrow> x \<in> set rest \<Longrightarrow> source_second r < source_second x"
  shows "sent_until rc cfg (grp @ rest) emitted out out' fin"
proof (cases fin)
  case SecondsDone
  with assms show ?thesis
    by (auto simp: sent_until_def intro: rows_sent_append buffer_adds_trans)
next
  case (SecondsStopped m p)
  with assms(1) obtain pre post es' where x: "rest = pre @ post" "rows_sent rc cfg pre es'" "buffer_adds out1 out' es'"
    "post \<noteq> []" "m = source_second (hd post)" "\<forall>r \<in> set pre. source_second r < m" by (auto simp: sent_until_def)
  have "\<forall>r \<in> set (grp @ pre). source_second r < m"
    using x(5,6) assms(5) [of _ "hd post"] x(1,4) by auto
  moreover have "grp @ rest = (grp @ pre) @ post" by (simp add: x(1))
  moreover note rows_sent_append [OF assms(2) x(2)] buffer_adds_trans [OF assms(3) x(3)] x(4,5) assms(4)
  ultimately have "\<exists>pre post es. grp @ rest = pre @ post \<and> rows_sent rc cfg pre es \<and> buffer_adds out out' es \<and> post \<noteq> [] \<and>
      m = source_second (hd post) \<and> (emitted \<or> pre \<noteq> []) \<and> (\<forall>r \<in> set pre. source_second r < m)"
    by (metis append_is_Nil_conv)
  with SecondsStopped show ?thesis by (simp add: sent_until_def)
qed (simp add: sent_until_def)

lemma second_mono: "lg_created (snd r) \<le> lg_created (snd x) \<Longrightarrow> source_second r \<le> source_second x"
  by (simp add: source_second_def time_trunc_mono)

lemma sorted_across: "sorted (map f zs) \<Longrightarrow> zs = xs @ ys \<Longrightarrow> x \<in> set xs \<Longrightarrow> y \<in> set ys \<Longrightarrow> f x \<le> f y"
  by (auto simp: sorted_append)

lemma emit_seconds_sent:
  assumes "emit_seconds rc cfg buffer_emit budget i rows buffered emitted out s = (w', out', b', e', fin)"
    and "sorted (map (\<lambda>r. lg_created (snd r)) rows)"
  shows "sent_until rc cfg rows emitted out out' fin"
  using assms
proof (induction "length rows" arbitrary: i rows buffered emitted out s rule: less_induct)
  case less
  show ?case
  proof (cases rows)
    case Nil
    with less.prems(1) show ?thesis by (auto simp: emit_seconds.simps [of rc cfg buffer_emit budget i "[]"] sent_until_def)
  next
    case (Cons r0 rs)
    let ?sec = "source_second (hd rows)"
    let ?grp = "takeWhile (\<lambda>r. source_second r = ?sec) rows"
    let ?rest = "dropWhile (\<lambda>r. source_second r = ?sec) rows"
    have split: "?grp @ ?rest = rows" by simp
    have ne: "?grp \<noteq> []" by (simp add: Cons)
    have shorter: "length ?rest < length rows" by (simp add: Cons less_Suc_eq_le length_dropWhile_le)
    have sorted_rest: "sorted (map (\<lambda>r. lg_created (snd r)) ?rest)"
      using less.prems(2) by (metis map_append split sorted_append)
    have in_grp: "source_second r = ?sec" if "r \<in> set ?grp" for r using that by (auto dest: set_takeWhileD)
    have later: "source_second r < source_second x" if "r \<in> set ?grp" "x \<in> set ?rest" for r x
    proof -
      from that(2) have h1: "?rest \<noteq> []" by (metis empty_iff empty_set)
      note h = h1 hd_dropWhile [OF h1]
      have "source_second r \<le> source_second (hd ?rest)"
        by (rule second_mono, rule sorted_across [OF less.prems(2) split [symmetric] that(1) hd_in_set [OF h1]])
      moreover have "source_second (hd ?rest) \<le> source_second x"
        using sorted_rest that(2) by (cases ?rest) (auto intro!: second_mono)
      ultimately show ?thesis using h(2) in_grp [OF that(1)] by linarith
    qed
    obtain s1 b err where g: "emit_rows rc cfg buffer_emit i ?grp empty_buffer s = (s1, b, err)" by (metis prod.collapse)
    have rn: "rows \<noteq> []" by (simp add: Cons)
    note unf = emit_seconds.simps [of rc cfg buffer_emit budget i rows buffered emitted out s, unfolded Let_def g]
    note run = less.prems(1) [unfolded unf]
    show ?thesis
    proof (cases err)
      case (Some e)
      with run rn have "fin = SecondsError e" by auto
      then show ?thesis by (simp add: sent_until_def)
    next
      case None
      from emit_rows_sent [OF g [unfolded None]] obtain es where es: "rows_sent rc cfg ?grp es" "buffer_adds empty_buffer b es"
        by (auto dest: buffer_adds_all)
      show ?thesis
      proof (cases "emitted \<and> budget < buffered + buffer_bytes b")
        case True
        with run rn None obtain p where "fin = SecondsStopped ?sec p" "out' = out"
          by (auto split: prod.splits)
        with True rn show ?thesis unfolding sent_until_def
          by (simp only: seconds_end.case) (rule exI [of _ "[]"], rule exI [of _ rows], rule exI [of _ "[]"], simp)
      next
        case False
        obtain out1 re where ri: "replay_into buffer_emit out b = (out1, re)" by fastforce
        show ?thesis
        proof (cases re)
          case (Some e)
          with run rn None False ri have "fin = SecondsError e" by auto
          then show ?thesis by (simp add: sent_until_def)
        next
          case re: None
          have "emit_seconds rc cfg buffer_emit budget (i + length ?grp) ?rest (buffered + buffer_bytes b) True out1
              (fst s1, prune_details (?sec + second) (snd s1)) = (w', out', b', e', fin)"
            using run rn None False ri re by auto
          from less.hyps [OF shorter this sorted_rest] buffer_adds_replay [OF ri [unfolded re] es(2)]
          show ?thesis using sent_until_extend [OF _ es(1) _ ne later] split by metis
        qed
      qed
    qed
  qed
qed

subsection \<open>One window\<close>

lemma stopped_rows:
  assumes "log_order (window_rows src gs fr h) = pre @ post" "\<forall>r \<in> set pre. source_second r < m"
    "post \<noteq> []" "m = source_second (hd post)" "pre \<noteq> []" "m mod second = 0"
  shows "pre = log_order (window_rows src gs fr m) \<and> fr < m \<and> m < h"
proof -
  let ?rows = "log_order (window_rows src gs fr h)"
  have sorted: "sorted (map (\<lambda>r. lg_created (snd r)) ?rows)" by (rule log_order_sorted)
  have set_rows: "set ?rows = set (window_rows src gs fr h)" by (simp add: log_order_def)
  have inw: "fr \<le> lg_created (snd r) \<and> lg_created (snd r) < h" if "r \<in> set ?rows" for r
    using that unfolding set_rows by (auto simp: window_rows_def in_window_def)
  have early: "lg_created (snd r) < m" if r: "r \<in> set pre" for r
  proof (rule ccontr)
    assume "\<not> lg_created (snd r) < m"
    then have "m \<le> source_second r" unfolding source_second_def
      by (intro time_trunc_greatest) (simp_all add: assms(6))
    with assms(2) r show False by force
  qed
  have first: "m \<le> lg_created (snd (hd post))" unfolding assms(4) source_second_def by (rule time_trunc_le)
  have late: "m \<le> lg_created (snd r)" if r: "r \<in> set post" for r
  proof (cases post)
    case (Cons p ps)
    have "sorted (map (\<lambda>r. lg_created (snd r)) post)" using sorted assms(1) by (simp add: sorted_append)
    with r first Cons show ?thesis by auto
  qed (use r in simp)
  have "filter (before m) pre = pre" using early by (simp add: before_def filter_id_conv)
  moreover have "filter (before m) post = []" using late by (fastforce simp: before_def filter_empty_conv)
  ultimately have pre: "pre = filter (before m) ?rows" by (simp add: assms(1))
  obtain r where r: "r \<in> set pre" using assms(5) by (cases pre) auto
  then have "fr < m" using early [OF r] inw [of r] assms(1) by auto
  have "hd post \<in> set ?rows" using assms(1,3) by simp
  from inw [OF this] first have mh: "m < h" by linarith
  with pre filter_log_order [of "before m"] window_rows_before [of m h] \<open>fr < m\<close> show ?thesis by simp
qed

definition window_sent ::
  "'w rest_client \<Rightarrow> ai_config \<Rightarrow> (string \<Rightarrow> log_row list) \<Rightarrow> time \<Rightarrow> time \<Rightarrow> buffer \<Rightarrow> buffer \<Rightarrow> bool" where
  "window_sent rc cfg src fr mark out out' \<longleftrightarrow>
     (\<exists>es. rows_sent rc cfg (log_order (window_rows src (ai_gateways cfg) fr mark)) es \<and> buffer_adds out out' es)"

lemma budget_loop_exact:
  assumes "budget_loop n rc cfg buffer_emit budget fr to fr 0 k False ps out s = Some (s', out', Inr mark)"
    and "all_hold cfg fr to pages src ps" "map pg_gateway ps = ai_gateways cfg"
    and "\<forall>g \<in> set (ai_gateways cfg). served rc cfg fr to g (pages g) (src g)" "0 \<le> fr" "fr < to"
  shows "fr < mark \<and> mark \<le> to \<and> (mark = to \<or> mark mod second = 0) \<and> window_sent rc cfg src fr mark out out'"
  using assms
proof (induction n arbitrary: k ps s)
  case (Suc n)
  let ?h = "common_horizon fr to ps"
  have gs: "pg_gateway ` set ps = set (ai_gateways cfg)" using Suc.prems(3) by (metis set_map)
  show ?case
  proof (cases "?h \<le> fr \<or> (?h < to \<and> k < list_row_cap)")
    case True
    obtain w1 r where r: "list_round rc fr to ?h ps (fst s) = (w1, r)" by fastforce
    obtain ps1 j where j: "r = Inr (ps1, j)" using Suc.prems(1) True r by (cases r) (auto simp: Let_def)
    have loop: "budget_loop n rc cfg buffer_emit budget fr to fr 0 (k + j) False ps1 out (w1, snd s) = Some (s', out', Inr mark)"
      using Suc.prems(1) True r j by (simp add: Let_def)
    have hold: "all_hold cfg fr to pages src ps1 \<and> map pg_gateway ps1 = map pg_gateway ps"
      by (rule list_round_holds [OF r [unfolded j] Suc.prems(2)]) (use Suc.prems(4) gs in simp)
    note ih = Suc.IH [OF loop]
    show ?thesis by (rule ih) (use hold Suc.prems(3-) in simp_all)
  next
    case False
    then have h: "fr < ?h" "to \<le> ?h \<or> list_row_cap \<le> k" by auto
    note hle = common_horizon_le [where fr = fr and to = to and ps = ps]
    obtain ps1 rows where tb: "take_before ps ?h = (ps1, rows)" by fastforce
    have rows: "rows = log_order (window_rows src (ai_gateways cfg) fr ?h)"
      using take_before_rows [OF Suc.prems(2) _ hle(1) _ Suc.prems(5,6)] hle(2) Suc.prems(3,4) gs tb
      by (simp add: served_def)
    obtain w1 pf c1 where pd: "prefetch_details rc cfg rows True (ls_retained (snd s)) (fst s) = (w1, pf, c1)"
      by (metis prod.collapse)
    obtain w2 out1 b1 e1 fin where es: "emit_seconds rc cfg buffer_emit budget 0 rows 0 False out (w1, pf) = (w2, out1, b1, e1, fin)"
      by (metis prod.collapse)
    have "sorted (map (\<lambda>r. lg_created (snd r)) rows)" unfolding rows by (rule log_order_sorted)
    note sent = emit_seconds_sent [OF es this]
    note run = Suc.prems(1) [simplified, unfolded Let_def tb prod.case pd es]
    show ?thesis
    proof (cases fin)
      case (SecondsError e)
      with run False show ?thesis by simp
    next
      case SecondsDone
      with run False h(2) have "mark = ?h" "out' = out1" by auto
      moreover have "?h = to \<or> ?h mod second = 0"
      proof (cases "?h < to")
        case True
        then obtain p where "p \<in> set ps" "pager_horizon fr to p = ?h" by (rule common_horizon_attained)
        with True h(1) have "?h = time_trunc (pg_last p) second"
          by (auto simp: pager_horizon_def Let_def split: if_splits)
        then show ?thesis by simp
      qed (use hle(1) in simp)
      ultimately show ?thesis using h(1) hle(1) sent SecondsDone rows by (simp add: sent_until_def window_sent_def)
    next
      case (SecondsStopped m p)
      with run False have mk: "mark = m" "out' = out1" by auto
      from sent SecondsStopped obtain pre post es where x: "rows = pre @ post" "rows_sent rc cfg pre es"
        "buffer_adds out out1 es" "post \<noteq> []" "m = source_second (hd post)" "pre \<noteq> []" "\<forall>r \<in> set pre. source_second r < m"
        by (auto simp: sent_until_def)
      have m: "m mod second = 0" by (simp add: x(5) source_second_def)
      from stopped_rows [OF x(1) [unfolded rows] x(7,4,5,6) m] x(2,3) mk m hle(1) show ?thesis
        by (auto simp: window_sent_def)
    qed
  qed
qed simp

lemma list_all_pages_holds:
  assumes "list_all_pages n rc fr to p w = Some (w', Inr p1)" "pager_holds cfg fr to pages src p"
    "served rc cfg fr to (pg_gateway p) pages src"
  shows "pager_holds cfg fr to pages src p1 \<and> pg_gateway p1 = pg_gateway p \<and> pg_done p1"
  using assms
proof (induction n arbitrary: p w)
  case (Suc n)
  show ?case
  proof (cases "pg_done p")
    case False
    obtain w1 r where r: "pager_next rc fr to p w = (w1, r)" by fastforce
    obtain p2 where p2: "r = Inr p2" using Suc.prems(1) False r by (cases r) simp_all
    from pager_next_holds [OF r [unfolded p2] Suc.prems(2,3)] have "pager_holds cfg fr to pages src p2" "pg_gateway p2 = pg_gateway p"
      by simp_all
    with Suc.IH [of p2 w1] Suc.prems(1,3) False r p2 show ?thesis by simp
  qed (use Suc.prems in simp)
qed simp

lemma list_all_gateways_holds:
  assumes "list_all_gateways rc fr to ps w = Some (w', Inr ps1)" "all_hold cfg fr to pages src ps"
    "\<forall>g \<in> pg_gateway ` set ps. served rc cfg fr to g (pages g) (src g)"
  shows "all_hold cfg fr to pages src ps1 \<and> map pg_gateway ps1 = map pg_gateway ps \<and> list_all pg_done ps1"
  using assms
proof (induction ps arbitrary: w w' ps1)
  case (Cons p ps)
  obtain w1 r where r: "list_all_pages (Suc max_log_pages) rc fr to p w = Some (w1, r)"
    using Cons.prems(1) by (cases "list_all_pages (Suc max_log_pages) rc fr to p w") (auto simp del: list_all_pages.simps)
  obtain p1 where p1: "r = Inr p1" using Cons.prems(1) r by (cases r) (simp_all del: list_all_pages.simps)
  obtain w2 r2 where r2: "list_all_gateways rc fr to ps w1 = Some (w2, r2)"
    using Cons.prems(1) r p1 by (cases "list_all_gateways rc fr to ps w1") (auto simp del: list_all_pages.simps)
  obtain ps2 where ps2: "r2 = Inr ps2" "ps1 = p1 # ps2"
    using Cons.prems(1) r p1 r2 by (cases r2) (simp_all del: list_all_pages.simps)
  from list_all_pages_holds [OF r [unfolded p1]] Cons.IH [OF r2 [unfolded ps2(1)]] Cons.prems(2,3) ps2(2)
  show ?case by (auto simp: all_hold_def)
qed (simp add: all_hold_def)

lemma new_pager_holds: "pager_holds cfg fr to pages src (new_pager cfg g)"
  by (simp add: pager_holds_def new_pager_def)

lemma whole_window_exact:
  assumes "whole_window rc cfg buffer_emit fr to ps out s = Some (s', out', Inr mark)"
    and "all_hold cfg fr to pages src ps" "map pg_gateway ps = ai_gateways cfg"
    and "\<forall>g \<in> set (ai_gateways cfg). served rc cfg fr to g (pages g) (src g)" "0 \<le> fr" "fr < to"
  shows "mark = to \<and> window_sent rc cfg src fr to out out'"
proof -
  have gs: "pg_gateway ` set ps = set (ai_gateways cfg)" using assms(3) by (metis set_map)
  obtain w1 r where r: "list_all_gateways rc fr to ps (fst s) = Some (w1, r)"
    using assms(1) by (cases "list_all_gateways rc fr to ps (fst s)") (auto simp: whole_window_def)
  obtain ps1 where ps1: "r = Inr ps1" using assms(1) r by (cases r) (auto simp: whole_window_def)
  have hold: "all_hold cfg fr to pages src ps1" "map pg_gateway ps1 = ai_gateways cfg" "list_all pg_done ps1"
    using list_all_gateways_holds [OF r [unfolded ps1] assms(2)] assms(3,4) gs by simp_all
  have gs1: "pg_gateway ` set ps1 = set (ai_gateways cfg)" using hold(2) by (metis set_map)
  have "\<forall>p \<in> set ps1. to \<le> pager_horizon fr to p" using hold(3) by (auto simp: list_all_iff pager_horizon_def)
  then have rows: "snd (take_before ps1 to) = log_order (window_rows src (ai_gateways cfg) fr to)"
    using take_before_rows [OF hold(1) _ order_refl _ assms(5,6)] assms(4) gs1 hold(2) by (simp add: served_def)
  obtain w2 pf c where pd: "prefetch_details rc cfg (snd (take_before ps1 to)) False (ls_retained (snd s)) w1 = (w2, pf, c)"
    by (metis prod.collapse)
  obtain s1 out1 err where er: "emit_rows rc cfg buffer_emit 0 (snd (take_before ps1 to)) out (w2, pf) = (s1, out1, err)"
    by (metis prod.collapse)
  from assms(1) r ps1 pd er have x: "err = None" "out' = out1" "mark = to"
    by (auto simp: whole_window_def split: option.splits)
  from emit_rows_sent [OF er [unfolded x(1)]] buffer_adds_all x rows show ?thesis
    unfolding window_sent_def by metis
qed

text \<open>C33. 
  C46. A window of gateway logs that succeeds is exact: if the API lists the logs of each gateway completely and in
  ascending order, the collector has emitted every log of every gateway in \<open>[from, mark)\<close>, once each and in order,
  whether it stopped at its byte budget, at its row cap or at the end of the window; and it always makes progress.
\<close>

theorem logs_window_exact:
  assumes "collect_logs rc cfg buffer_emit fr to budget out s = Some (s', out', Inr mark)"
    and "\<forall>g \<in> set (ai_gateways cfg). served rc cfg fr to g (pages g) (src g)" "0 \<le> fr"
  shows "fr < mark \<and> mark \<le> to \<and> (mark = to \<or> mark mod second = 0) \<and> window_sent rc cfg src fr mark out out'"
proof -
  have lt: "fr < to" using assms(1) by (auto simp: collect_logs_def split: if_splits)
  obtain w1 e where e: "rc_ctx_err rc (fst s) = (w1, e)" by fastforce
  have e0: "e = None" using assms(1) lt e by (cases e) (auto simp: collect_logs_def)
  let ?ps = "map (new_pager cfg) (ai_gateways cfg)"
  let ?st = "if budget \<le> 0 \<or> fr \<noteq> ls_from (snd s) then (snd s)\<lparr>ls_retained := empty_cache\<rparr> else snd s"
  have ne: "[] \<notin> set (ai_gateways cfg)" using assms(1) lt e e0 by (auto simp: collect_logs_def first_pagers_def Let_def)
  obtain x where x: "window_body rc cfg buffer_emit fr to budget ?ps out (w1, ?st) = Some x"
    using assms(1) lt e e0 ne
    by (cases "window_body rc cfg buffer_emit fr to budget ?ps out (w1, ?st)") (simp_all add: collect_logs_def first_pagers_def Let_def)
  obtain s1 out1 r where x': "x = (s1, out1, r)" by (metis prod.collapse)
  have "r = Inr mark \<and> out1 = out'"
    using assms(1) lt e e0 ne x x' by (cases s1) (simp add: collect_logs_def first_pagers_def Let_def)
  with x x' have body: "window_body rc cfg buffer_emit fr to budget ?ps out (w1, ?st) = Some (s1, out', Inr mark)" by simp
  have hold: "all_hold cfg fr to pages src ?ps" by (simp add: all_hold_def list_all_iff new_pager_holds)
  have gs: "map pg_gateway ?ps = ai_gateways cfg" by (simp add: new_pager_def comp_def)
  show ?thesis
  proof (cases "budget \<le> 0")
    case True
    with body have "whole_window rc cfg buffer_emit fr to ?ps out (w1, ?st) = Some (s1, out', Inr mark)"
      by (simp add: window_body_def)
    from whole_window_exact [OF this hold gs assms(2,3) lt] lt show ?thesis by blast
  next
    case False
    with body have "budget_loop (window_rounds cfg) rc cfg buffer_emit budget fr to fr 0 0 False ?ps out (w1, ?st)
        = Some (s1, out', Inr mark)"
      by (simp add: window_body_def)
    from budget_loop_exact [OF this hold gs assms(2,3) lt] show ?thesis .
  qed
qed

subsection \<open>A sample gateway\<close>

text \<open>A gateway with one log, on the first page of its listing.\<close>

abbreviation logs_from :: time where "logs_from \<equiv> unix_offset * second"

definition logged_row_json :: json where
  "logged_row_json = JObj [(''id'', JStr ''a''), (''created_at'', JStr ''1970-01-01T00:00:01Z''), (''duration'', JNum ''12'')]"

definition logged_client :: "unit rest_client" where
  "logged_client = \<lparr>rc_get = (\<lambda>w path q. (w, Inr (JArr (if map_of q ''page'' = Some ''1'' then [logged_row_json] else [])))),
     rc_raw = None, rc_ctx_err = (\<lambda>w. (w, None)), rc_now = (\<lambda>w. (w, logs_from)), rc_size = (\<lambda>_ _. None),
     rc_context = (\<lambda>_ _ _. None)\<rparr>"

definition logged_ai :: ai_config where
  "logged_ai = \<lparr>ai_account = ''acc'', ai_gateways = [''gw''], ai_capture = False, ai_link = False, ai_max_body = 100\<rparr>"

definition logged_row :: log_row where
  "logged_row = row_of (json_map [(''id'', JStr ''a''), (''created_at'', JStr ''1970-01-01T00:00:01Z''), (''duration'', JNum ''12'')])"

definition logged_rows :: "nat \<Rightarrow> log_row list" where
  "logged_rows n = (if n = 1 then [logged_row] else [])"

lemma logged_duration: "json_float ''12'' = Some 12"
  by (simp add: json_float_def number_value_def Let_def trim_prefix_def has_prefix_def digits_value_def
      digit_val_def ten_power_def is_digit_def max_float64_def)

lemma logged_instant: "parse_rfc3339 ''1970-01-01T00:00:01Z'' = Some (logs_from + second)"
  by code_simp

lemmas logged_decode = row_ok_def usage_names_def row_of_def row_strings_def row_counts_def row_flags_def struct_ok_def struct_at_def
  str_at_def count_at_def flag_at_def real_at_def decode_time_def decode_real_def decode_count_def decode_flag_def
  field_of_def json_map_lookup logged_duration logged_instant

lemma logged_row_facts:
  "lg_id logged_row = ''a''" "lg_created logged_row = logs_from + second" "lg_duration logged_row = Some 12"
  by (simp_all add: logged_row_def logged_decode)

lemma logged_page: "decode_rows (JArr [logged_row_json]) = Some [logged_row]" "decode_rows (JArr []) = Some []"
  by (simp_all add: decode_rows_def decode_row_def logged_row_json_def logged_row_def logged_decode)

lemma itoa_one: "itoa (int n) = ''1'' \<longleftrightarrow> n = 1"
proof
  assume "itoa (int n) = ''1''"
  then have "dec_digits (int n) = dec_digits 1" by (simp add: itoa_def dec_digits.simps [of 1] digit_char_def)
  then have "parse_digits (dec_digits (int n)) = parse_digits (dec_digits 1)" by simp
  then show "n = 1" by simp
next
  assume "n = 1"
  then show "itoa (int n) = ''1''" by (simp add: itoa_def dec_digits.simps [of 1] digit_char_def)
qed

lemma logged_get: "rc_get logged_client w path (page_query_of fr to n) =
  (w, Inr (JArr (if n = 1 then [logged_row_json] else [])))"
  by (simp add: logged_client_def page_query_of_def itoa_one)

lemma logged_listed: "listed logged_rows n = (if n = 0 then [] else [logged_row])"
  by (induction n) (simp_all add: listed_Suc logged_rows_def)

lemma logged_served: "served logged_client logged_ai fr to g logged_rows [logged_row]"
  by (auto simp: served_def paged_def logged_listed logged_rows_def logged_get logged_page)

definition logged_pager :: "nat \<Rightarrow> log_pager" where
  "logged_pager n = \<lparr>pg_gateway = ''gw'', pg_path = logs_path logged_ai ''gw'', pg_page = n, pg_seen = {''a''},
     pg_pending = [(''gw'', logged_row)], pg_last = logs_from + second, pg_done = 1 < n\<rparr>"

lemma logged_second: "unix_offset * second \<noteq> 0 \<and> 0 < unix_offset \<and> unix_offset * second mod second = 0"
  by (simp add: unix_offset_def)

lemma logged_next:
  assumes "to = logs_from + minute"
  shows "pager_next logged_client logs_from to (new_pager logged_ai ''gw'') () = ((), Inr (logged_pager 1))"
    "pager_next logged_client logs_from to (logged_pager 1) () = ((), Inr (logged_pager 2))"
proof -
  have c: "rc_ctx_err logged_client () = ((), None)" by (simp add: logged_client_def)
  show "pager_next logged_client logs_from to (new_pager logged_ai ''gw'') () = ((), Inr (logged_pager 1))"
    by (simp add: pager_next_def c logged_get logged_page list_page_def list_row_def new_pager_def logged_pager_def Let_def
        pager_horizon_def logged_row_facts assms max_log_pages_def unix_offset_def time_trunc_def)
  show "pager_next logged_client logs_from to (logged_pager 1) () = ((), Inr (logged_pager 2))"
    by (simp add: pager_next_def c logged_get logged_page list_page_def logged_pager_def Let_def)
qed

lemma logged_pages:
  "list_all_pages (Suc (Suc (Suc n))) logged_client logs_from (logs_from + minute) (new_pager logged_ai ''gw'') ()
     = Some ((), Inr (logged_pager 2))"
proof -
  have "\<not> pg_done (new_pager logged_ai ''gw'')" "\<not> pg_done (logged_pager 1)" "pg_done (logged_pager 2)"
    by (simp_all add: new_pager_def logged_pager_def)
  with logged_next [OF refl] show ?thesis by (simp only: list_all_pages.simps if_True if_False prod.case sum.case)
qed

lemma logged_listing:
  "list_all_gateways logged_client logs_from (logs_from + minute) [new_pager logged_ai ''gw''] () = Some ((), Inr [logged_pager 2])"
proof -
  have "Suc max_log_pages = Suc (Suc (Suc 9998))" by (simp add: max_log_pages_def)
  then have "list_all_pages (Suc max_log_pages) logged_client logs_from (logs_from + minute) (new_pager logged_ai ''gw'') ()
     = Some ((), Inr (logged_pager 2))" by (simp only: logged_pages)
  then show ?thesis by (simp del: list_all_pages.simps)
qed

lemma row_metrics_metric: "e \<in> set (row_metrics g row d counts) \<Longrightarrow> is_metric e"
  by (auto simp: row_metrics_def token_emissions_def token_metric_def dlp_emissions_def Let_def split: if_splits option.splits prod.splits)

lemma metrics_accepted: "(\<And>e. e \<in> set es \<Longrightarrow> is_metric e) \<Longrightarrow> snd (emit_all buffer_emit b es) = None"
proof (induction es arbitrary: b)
  case (Cons e es)
  then have "is_metric e" by simp
  then have "snd (buffer_emit b e) = None" by (cases e) simp_all
  then obtain b1 where "buffer_emit b e = (b1, None)" by (metis prod.collapse)
  with Cons show ?case by simp
qed simp

lemma logged_emissions: "snd (emit_all buffer_emit out (row_emissions logged_ai context g logged_row 12 cap)) = None"
proof -
  let ?c = "no_capture (listed_counts logged_row)"
  let ?as = "span_attrs logged_ai g logged_row ?c"
  have e: "row_emissions logged_ai context g logged_row 12 cap
      = [log_event logged_row ?as, log_span logged_row 12 ?as ?c] @ row_metrics g logged_row 12 (ct_counts ?c)"
    by (simp add: row_emissions_def needs_detail_def logged_ai_def log_emissions_def Let_def no_capture_def)
  have "snd (emit_all buffer_emit b (row_metrics g logged_row 12 (ct_counts ?c))) = None" for b
    by (rule metrics_accepted) (rule row_metrics_metric)
  moreover have "snd (emit_all buffer_emit out [log_event logged_row ?as, log_span logged_row 12 ?as ?c]) = None"
    by (simp add: log_event_def log_span_def buffer_log_event_def buffer_span_def logged_row_facts no_capture_def unix_offset_def)
  then obtain b where "emit_all buffer_emit out [log_event logged_row ?as, log_span logged_row 12 ?as ?c] = (b, None)"
    by (metis prod.collapse)
  ultimately show ?thesis by (simp only: e emit_all_append prod.case option.case)
qed

lemma logged_window:
  "\<exists>s' out'. collect_logs logged_client logged_ai buffer_emit logs_from (logs_from + minute) 0 empty_buffer
     ((), \<lparr>ls_retained = empty_cache, ls_from = 0\<rparr>) = Some (s', out', Inr (logs_from + minute))"
proof -
  let ?to = "logs_from + minute"
  have rows: "snd (take_before [logged_pager 2] ?to) = [(''gw'', logged_row)]"
    by (simp add: take_before_def logged_pager_def before_def logged_row_facts log_order_def)
  have need: "\<not> needs_detail logged_ai" by (simp add: needs_detail_def logged_ai_def)
  have ctx: "rc_ctx_err logged_client () = ((), None)" by (simp add: logged_client_def)
  have gs: "ai_gateways logged_ai = [''gw'']" by (simp add: logged_ai_def)
  have dur: "row_duration logged_row = Some 12" by (simp add: row_duration_def logged_row_facts)
  obtain b where b: "emit_all buffer_emit empty_buffer
      (row_emissions logged_ai (rc_context logged_client) ''gw'' logged_row 12
         \<lparr>cp_detail = logged_row, cp_bodies = ([], []), cp_unavailable = (False, False)\<rparr>) = (b, None)"
    using logged_emissions by (metis prod.collapse)
  have "emit_rows logged_client logged_ai buffer_emit 0 [(''gw'', logged_row)] empty_buffer ((), None) = (((), None), b, None)"
    unfolding emit_rows.simps by (simp add: next_detail_def emit_with_def dur row_detail_def need b)
  then have "whole_window logged_client logged_ai buffer_emit logs_from ?to [new_pager logged_ai ''gw''] empty_buffer
      ((), \<lparr>ls_retained = empty_cache, ls_from = 0\<rparr>)
      = Some (((), \<lparr>ls_retained = empty_cache, ls_from = 0\<rparr>), b, Inr ?to)"
    by (simp add: whole_window_def logged_listing prefetch_details_def need rows stop_details_def
        del: list_all_gateways.simps)
  then show ?thesis
    by (simp add: collect_logs_def ctx first_pagers_def gs window_body_def)
qed

theorem logs_window_exact_witness:
  "\<exists>s' out'. collect_logs logged_client logged_ai buffer_emit logs_from (logs_from + minute) 0 empty_buffer
     ((), \<lparr>ls_retained = empty_cache, ls_from = 0\<rparr>) = Some (s', out', Inr (logs_from + minute)) \<and>
   window_sent logged_client logged_ai (\<lambda>g. [logged_row]) logs_from (logs_from + minute) empty_buffer out'"
proof -
  obtain s' out' where w: "collect_logs logged_client logged_ai buffer_emit logs_from (logs_from + minute) 0 empty_buffer
     ((), \<lparr>ls_retained = empty_cache, ls_from = 0\<rparr>) = Some (s', out', Inr (logs_from + minute))"
    using logged_window by blast
  have "\<forall>g \<in> set (ai_gateways logged_ai). served logged_client logged_ai logs_from (logs_from + minute) g
     ((\<lambda>g. logged_rows) g) ((\<lambda>g. [logged_row]) g)"
    by (simp add: logged_served)
  from logs_window_exact [OF w this] have "window_sent logged_client logged_ai (\<lambda>g. [logged_row]) logs_from
      (logs_from + minute) empty_buffer out'" by (simp add: unix_offset_def)
  with w show ?thesis by blast
qed

end
