(* ===== verification/Coverage.thy ===== *)
theory Coverage
  imports LogsExact GroupMetrics
begin

text \<open>
  The completeness check on the gateway logs, \<open>collectors/aigateway/coverage_gap.go\<close>: for one closed five-minute
  window, the number of requests that the Groups API counts for each configured gateway, less the number of logs the
  REST listing has. Groups and listing are the two halves of the client, \<open>k\<close> and \<open>rc\<close>.
\<close>

definition coverage_dataset :: string where "coverage_dataset = ''aiGatewayRequestsAdaptiveGroups''"
definition coverage_window :: duration where "coverage_window = 5 * minute"
definition coverage_lag :: duration where "coverage_lag = 10 * minute"
definition coverage_limit :: int where "coverage_limit = 10000"
definition coverage_fields :: "string list" where "coverage_fields = [''count'', ''dimensions.gateway'']"

definition coverage_error :: "string \<Rightarrow> gerr" where
  "coverage_error s = ErrNew (''aigateway coverage: '' @ s)"

definition lag_at :: "time \<Rightarrow> duration" where
  "lag_at now = (let held = now - coverage_lag in coverage_lag + (held - time_trunc held coverage_window))"

subsection \<open>Groups\<close>

definition replace_dot :: "string \<Rightarrow> string" where
  "replace_dot s = (case str_cut ''.'' s of (p, t, found) \<Rightarrow> if found then p @ ''_'' @ t else s)"

definition coverage_field_available :: "string list \<Rightarrow> string \<Rightarrow> bool" where
  "coverage_field_available available wanted =
     list_ex (\<lambda>f. equal_fold f wanted \<or> equal_fold f (replace_dot wanted)) available"

definition coverage_count :: "json option \<Rightarrow> f64 option" where
  "coverage_count v =
     (case Option.bind v any_number of
        Some n \<Rightarrow> if 0 \<le> n \<and> n = of_int \<lfloor>n\<rfloor> then Some n else None
      | None \<Rightarrow> None)"

text \<open>The checks on the settings, before the clock is read.\<close>

definition coverage_settings_error :: "dataset_settings \<Rightarrow> gerr option" where
  "coverage_settings_error s =
     (if \<not> ds_enabled s then Some (ErrNew ''AI Gateway Groups dataset is disabled'')
      else (case find (\<lambda>f. \<not> coverage_field_available (available_fields s) f) coverage_fields of
        Some f \<Rightarrow> Some (ErrNew (''AI Gateway Groups dataset is missing required field '' @ f))
      | None \<Rightarrow>
          if ds_max_fields s < int (length coverage_fields)
          then Some (ErrNew ''AI Gateway Groups field limit is below the required field count'')
          else if ds_page_size s \<le> 0 then Some (ErrNew ''AI Gateway Groups dataset is missing its page-size limit'')
          else if ds_max_duration s < coverage_window div second
          then Some (ErrNew ''AI Gateway Groups duration limit cannot contain a five-minute window'')
          else if ds_not_older s \<le> 0 then Some (ErrNew ''AI Gateway Groups dataset is missing its retention limit'')
          else None))"

definition coverage_request :: "ai_config \<Rightarrow> dataset_settings \<Rightarrow> time \<Rightarrow> time \<Rightarrow> graphql_request" where
  "coverage_request cfg s start fin =
     \<lparr>gr_scope = account_scope, gr_scope_id = ai_account cfg, gr_dataset = coverage_dataset, gr_wanted = coverage_fields,
      gr_join = [], gr_filter = [], gr_from = start, gr_to = fin, gr_limit = min coverage_limit (ds_page_size s)\<rparr>"

definition row_gateway :: "json \<Rightarrow> string" where
  "row_gateway row =
     (case Option.bind (Option.bind (any_map row ''dimensions'') (\<lambda>d. any_member d ''gateway'')) any_string of
        Some g \<Rightarrow> g | None \<Rightarrow> [])"

definition count_row :: "json \<Rightarrow> (string \<Rightarrow> f64) \<Rightarrow> gerr + (string \<Rightarrow> f64)" where
  "count_row row counts =
     (if row_gateway row = [] then Inl (ErrNew ''AI Gateway Groups row has no gateway'')
      else (case coverage_count (any_member row ''count'') of
              None \<Rightarrow> Inl (ErrNew ''AI Gateway Groups row has an invalid count'')
            | Some n \<Rightarrow> Inr (counts(row_gateway row := counts (row_gateway row) + n))))"

definition counted_rows :: "int \<Rightarrow> json list \<Rightarrow> gerr + (string \<Rightarrow> f64)" where
  "counted_rows limit rows =
     (if limit \<le> int (length rows)
      then Inl (ErrNew (''AI Gateway Groups window reached the requested limit '' @ itoa limit))
      else fold_err count_row rows (\<lambda>_. 0))"

text \<open>A gateway without rows counts as zero, as a missing key of a Go map does.\<close>

definition groups_counts ::
  "'w client \<Rightarrow> 'w rest_client \<Rightarrow> ai_config \<Rightarrow> time \<Rightarrow> time \<Rightarrow> 'w \<Rightarrow> 'w \<times> (gerr + (string \<Rightarrow> f64))" where
  "groups_counts k rc cfg start fin w =
     (case cl_settings k w account_scope (ai_account cfg) coverage_dataset of
        (w1, Inl e) \<Rightarrow> (w1, Inl (ErrWrap ''read AI Gateway Groups settings: '' e))
      | (w1, Inr s) \<Rightarrow>
          (case coverage_settings_error s of
             Some e \<Rightarrow> (w1, Inl e)
           | None \<Rightarrow>
               (case rc_now rc w1 of
                  (w2, now) \<Rightarrow>
                    (let floor = now + wrap_int64 (wrap_int64 (- ds_not_older s) * second) in
                     if start < floor then (w2, Inl (RetentionGapError coverage_dataset floor))
                     else (let r = coverage_request cfg s start fin in
                           case cl_query k w2 r of
                             (w3, Inl e) \<Rightarrow> (w3, Inl (ErrWrap ''query AI Gateway Groups: '' e))
                           | (w3, Inr j) \<Rightarrow>
                               (w3, (case decode_any_rows j of
                                       None \<Rightarrow> Inl (ErrWrap ''query AI Gateway Groups: '' json_error)
                                     | Some rows \<Rightarrow> counted_rows (gr_limit r) rows)))))))"

subsection \<open>The listing\<close>

definition decode_listed :: "json \<Rightarrow> (string \<times> time) option" where
  "decode_listed j =
     (case decode_obj j of
        None \<Rightarrow> None
      | Some m \<Rightarrow>
          (case (decode_str (field_of m ''id''), decode_time (field_of m ''created_at'')) of
             (Some i, Some t) \<Rightarrow> Some (i, t)
           | _ \<Rightarrow> None))"

definition decode_listing :: "json \<Rightarrow> (string \<times> time) list option" where
  "decode_listing j = (case decode_list j of None \<Rightarrow> None | Some xs \<Rightarrow> decode_all decode_listed xs)"

definition coverage_page_error :: "nat \<Rightarrow> string \<Rightarrow> string" where
  "coverage_page_error n s = ''aigateway coverage logs page '' @ itoa (int n) @ '': '' @ s"

definition count_listed :: "nat \<Rightarrow> time \<Rightarrow> time \<Rightarrow> string \<times> time \<Rightarrow> string set \<times> bool \<Rightarrow> gerr + string set \<times> bool" where
  "count_listed n start fin row st =
     (case (row, st) of ((i, t), (seen, past)) \<Rightarrow>
        if i = [] \<or> t = 0 then Inl (ErrNew (coverage_page_error n ''missing id or created_at''))
        else if fin \<le> t then Inr (seen, True)
        else if t < start then Inr (seen, past)
        else Inr (insert i seen, past))"

text \<open>The pages from number \<open>n\<close> on; \<open>fuel\<close> is the number of pages that may still be read.\<close>

fun rest_count ::
  "nat \<Rightarrow> 'w rest_client \<Rightarrow> ai_config \<Rightarrow> string \<Rightarrow> time \<Rightarrow> time \<Rightarrow> nat \<Rightarrow> string set \<Rightarrow> 'w \<Rightarrow> 'w \<times> (gerr + nat)" where
  "rest_count 0 rc cfg g start fin n seen w = (w, Inl (ErrNew ''aigateway coverage logs: page limit reached''))"
| "rest_count (Suc fuel) rc cfg g start fin n seen w =
     (case rc_ctx_err rc w of
        (w1, Some e) \<Rightarrow> (w1, Inl e)
      | (w1, None) \<Rightarrow>
          (case rc_get rc w1 (logs_path cfg g) (page_query_of start fin n) of
             (w2, Inl e) \<Rightarrow> (w2, Inl (ErrWrap (coverage_page_error n []) e))
           | (w2, Inr j) \<Rightarrow>
               (case decode_listing j of
                  None \<Rightarrow> (w2, Inl (ErrWrap (coverage_page_error n []) json_error))
                | Some rows \<Rightarrow>
                    (case fold_err (count_listed n start fin) rows (seen, False) of
                       Inl e \<Rightarrow> (w2, Inl e)
                     | Inr (seen1, past) \<Rightarrow>
                         if past \<or> rows = [] then (w2, Inr (card seen1))
                         else rest_count fuel rc cfg g start fin (Suc n) seen1 w2))))"

text \<open>Every gateway is read before anything is emitted.\<close>

fun coverage_gaps ::
  "'w rest_client \<Rightarrow> ai_config \<Rightarrow> (string \<Rightarrow> f64) \<Rightarrow> time \<Rightarrow> time \<Rightarrow> string list \<Rightarrow> 'w \<Rightarrow> 'w \<times> (gerr + (string \<times> f64) list)" where
  "coverage_gaps rc cfg groups start fin [] w = (w, Inr [])"
| "coverage_gaps rc cfg groups start fin (g # gs) w =
     (case rest_count max_log_pages rc cfg g start fin 1 {} w of
        (w1, Inl e) \<Rightarrow> (w1, Inl e)
      | (w1, Inr n) \<Rightarrow>
          (case coverage_gaps rc cfg groups start fin gs w1 of
             (w2, Inl e) \<Rightarrow> (w2, Inl e)
           | (w2, Inr gaps) \<Rightarrow> (w2, Inr ((g, groups g - of_nat n) # gaps))))"

subsection \<open>A window\<close>

definition gap_emission :: "string \<times> f64 \<Rightarrow> emission" where
  "gap_emission gap = (case gap of (g, v) \<Rightarrow>
     EGauge ''cloudflare.ai_gateway.log_coverage.gap'' v [\<lparr>key = gw ''gateway.name'', val = g\<rparr>])"

definition coverage_start :: "time \<Rightarrow> time" where
  "coverage_start fr =
     (let t = time_trunc fr coverage_window in if t < fr then t + coverage_window else t)"

text \<open>The window \<open>[start, fin)\<close> that is compared, or the result that needs no comparison.\<close>

definition coverage_span :: "time \<Rightarrow> time \<Rightarrow> (gerr + time) + time \<times> time" where
  "coverage_span fr to =
     (let start = coverage_start fr; fin = start + coverage_window in
      if to < fin then
        (if fr < start \<and> start \<le> to then Inl (Inr start)
         else Inl (Inl (coverage_error ''window contains no closed five-minute window'')))
      else if fin + coverage_window \<le> to then
        Inl (Inl (coverage_error (''range '' @ rfc3339 fr @ '' to '' @ rfc3339 to @ '' spans more than one closed ''
          @ duration_string coverage_window @ '' window; request one window per call'')))
      else Inr (start, fin))"

definition coverage_gateways :: "ai_config \<Rightarrow> string list" where
  "coverage_gateways cfg = sort (remdups (ai_gateways cfg))"

definition compare_window ::
  "'w client \<Rightarrow> 'w rest_client \<Rightarrow> ai_config \<Rightarrow> time \<Rightarrow> time \<Rightarrow> 'w \<Rightarrow> 'w \<times> (gerr + (string \<times> f64) list)" where
  "compare_window k rc cfg start fin w =
     (case groups_counts k rc cfg start fin w of
        (w1, Inl e) \<Rightarrow> (w1, Inl e)
      | (w1, Inr groups) \<Rightarrow> coverage_gaps rc cfg groups start fin (coverage_gateways cfg) w1)"

definition collect_coverage ::
  "'w client \<Rightarrow> 'w rest_client \<Rightarrow> ai_config \<Rightarrow> 's emit \<Rightarrow> time \<Rightarrow> time \<Rightarrow> 's \<Rightarrow> 'w \<Rightarrow> 'w \<times> 's \<times> time \<times> gerr option" where
  "collect_coverage k rc cfg emit fr to out w =
     (if \<not> fr < to then (w, out, fr, Some (coverage_error ''invalid window''))
      else if ai_account cfg = [] then
        (w, out, fr, Some (ErrNew ''aigateway coverage requires a configured Cloudflare account and API''))
      else (case coverage_span fr to of
        Inl (Inr mark) \<Rightarrow> (w, out, mark, None)
      | Inl (Inl e) \<Rightarrow> (w, out, fr, Some e)
      | Inr (start, fin) \<Rightarrow>
          (case rc_now rc w of
             (w1, now) \<Rightarrow>
               if now - coverage_lag < fin then
                 (w1, out, fr, Some (coverage_error (''window ending '' @ rfc3339 fin @ '' is inside the ''
                    @ duration_string coverage_lag @ '' holdback'')))
               else if [] \<in> set (ai_gateways cfg) then (w1, out, fr, Some (coverage_error ''empty gateway''))
               else if ai_gateways cfg = [] then (w1, out, fin, None)
               else (case compare_window k rc cfg start fin w1 of
                       (w2, Inl e) \<Rightarrow> (w2, out, fr, Some e)
                     | (w2, Inr gaps) \<Rightarrow>
                         (case emit_all emit out (map gap_emission gaps) of
                            (out1, Some e) \<Rightarrow> (w2, out1, fr, Some e)
                          | (out1, None) \<Rightarrow> (w2, out1, fin, None))))))"

end
