(* ===== verification/CoverageProps.thy ===== *)
theory CoverageProps
  imports Coverage
begin

text \<open>
  What the completeness check reports: with the listing behaving as documented (\<open>served\<close>), the gap of a gateway is the
  count of its Groups rows less the number of its logs in the window; and when it reports.
\<close>

subsection \<open>The listing is counted exactly\<close>

lemma decode_listed_row:
  assumes "decode_row j = Some r"
  shows "decode_listed j = Some (lg_id r, lg_created r)"
proof -
  from assms obtain m where m: "decode_obj j = Some m" "row_ok m" "r = row_of m"
    by (auto simp: decode_row_def split: option.splits if_splits)
  then obtain i t where "decode_str (field_of m ''id'') = Some i" "decode_time (field_of m ''created_at'') = Some t"
    by (auto simp: row_ok_def row_strings_def)
  with m show ?thesis by (simp add: decode_listed_def row_of_def str_at_def)
qed

lemma decode_listing_rows:
  assumes "decode_rows j = Some rs"
  shows "decode_listing j = Some (map (\<lambda>r. (lg_id r, lg_created r)) rs)"
proof -
  from assms obtain xs where xs: "decode_list j = Some xs" "decode_all decode_row xs = Some rs"
    by (auto simp: decode_rows_def split: option.splits)
  from xs(2) have "decode_all decode_listed xs = Some (map (\<lambda>r. (lg_id r, lg_created r)) rs)"
    by (induction xs arbitrary: rs) (auto simp: decode_listed_row split: option.splits)
  with xs(1) show ?thesis by (simp add: decode_listing_def)
qed

lemma fold_count_listed:
  "fold_err (count_listed n start fin) (map (\<lambda>r. (lg_id r, lg_created r)) rs) (seen, past) = Inr (seen1, past1) \<Longrightarrow>
   seen1 = seen \<union> lg_id ` set (filter (in_window start fin) rs) \<and> (past1 \<longleftrightarrow> past \<or> (\<exists>r \<in> set rs. fin \<le> lg_created r))"
proof (induction rs arbitrary: seen past)
  case (Cons r rs)
  then obtain seen2 past2 where s: "count_listed n start fin (lg_id r, lg_created r) (seen, past) = Inr (seen2, past2)"
    "fold_err (count_listed n start fin) (map (\<lambda>r. (lg_id r, lg_created r)) rs) (seen2, past2) = Inr (seen1, past1)"
    by (auto split: sum.splits)
  from s(1) have "seen2 = seen \<union> lg_id ` set (filter (in_window start fin) [r]) \<and> (past2 \<longleftrightarrow> past \<or> fin \<le> lg_created r)"
    by (auto simp: count_listed_def in_window_def split: if_splits)
  with Cons.IH [OF s(2)] show ?case by auto
qed simp

definition listed_ids :: "time \<Rightarrow> time \<Rightarrow> log_row list \<Rightarrow> string set" where
  "listed_ids start fin rs = lg_id ` set (filter (in_window start fin) rs)"

lemma card_listed_ids:
  assumes "distinct (map lg_id rs)"
  shows "card (listed_ids start fin rs) = length (filter (in_window start fin) rs)"
proof -
  have "distinct (map lg_id (filter (in_window start fin) rs))" using assms by (rule distinct_map_filter)
  from distinct_card [OF this] show ?thesis by (simp add: listed_ids_def)
qed

lemma rest_count_exact:
  "rest_count fuel rc cfg g start fin (Suc n) (listed_ids start fin (listed pages n)) w = (w', Inr c) \<Longrightarrow>
   served rc cfg start fin g pages src \<Longrightarrow> c = length (filter (in_window start fin) src)"
proof (induction fuel arbitrary: n w)
  case (Suc fuel)
  have pg: "paged src pages" using Suc.prems(2) by (simp add: served_def)
  obtain w1 e where ctx: "rc_ctx_err rc w = (w1, e)" by fastforce
  with Suc.prems(1) have e: "e = None" by (cases e) simp_all
  obtain w2 r where get: "rc_get rc w1 (logs_path cfg g) (page_query_of start fin (Suc n)) = (w2, r)" by fastforce
  with Suc.prems(1) ctx e obtain j where j: "r = Inr j" by (cases r) simp_all
  let ?rs = "pages (Suc n)" and ?ids = "listed_ids start fin (listed pages n)"
  have "decode_rows j = Some ?rs" using Suc.prems(2) get j by (simp add: served_def)
  note dec = decode_listing_rows [OF this]
  obtain st where f: "fold_err (count_listed (Suc n) start fin) (map (\<lambda>r. (lg_id r, lg_created r)) ?rs) (?ids, False) = Inr st"
    using Suc.prems(1) ctx e get j dec
    by (cases "fold_err (count_listed (Suc n) start fin) (map (\<lambda>r. (lg_id r, lg_created r)) ?rs) (?ids, False)") simp_all
  obtain seen1 past where st: "st = (seen1, past)" by fastforce
  from fold_count_listed [OF f [unfolded st]]
  have seen: "seen1 = listed_ids start fin (listed pages (Suc n))" and past: "past \<longleftrightarrow> (\<exists>r \<in> set ?rs. fin \<le> lg_created r)"
    by (auto simp: listed_ids_def listed_Suc)
  show ?case
  proof (cases "past \<or> ?rs = []")
    case True
    then have "c = card seen1" using Suc.prems(1) ctx e get j dec f st by simp
    moreover have "filter (in_window start fin) src = filter (in_window start fin) (listed pages (Suc n))"
      using listing_ends [OF pg] True past by blast
    moreover have "distinct (map lg_id (listed pages (Suc n)))"
      using pg by (auto simp: paged_def prefix_def dest!: spec [of _ "Suc n"])
    ultimately show ?thesis by (simp add: seen card_listed_ids)
  next
    case False
    then have "rest_count fuel rc cfg g start fin (Suc (Suc n)) seen1 w2 = (w', Inr c)"
      using Suc.prems(1) ctx e get j dec f st by simp
    with Suc.IH [of "Suc n" w2] seen Suc.prems(2) show ?thesis by simp
  qed
qed simp

definition logged :: "(string \<Rightarrow> log_row list) \<Rightarrow> string \<Rightarrow> time \<Rightarrow> time \<Rightarrow> nat" where
  "logged src g start fin = length (filter (in_window start fin) (src g))"

lemma coverage_gaps_exact:
  "coverage_gaps rc cfg groups start fin gs w = (w', Inr gaps) \<Longrightarrow>
   \<forall>g \<in> set gs. served rc cfg start fin g (pages g) (src g) \<Longrightarrow>
   gaps = map (\<lambda>g. (g, groups g - of_nat (logged src g start fin))) gs"
proof (induction gs arbitrary: w gaps)
  case (Cons g gs)
  obtain w1 r where c: "rest_count max_log_pages rc cfg g start fin 1 {} w = (w1, r)" by fastforce
  with Cons.prems(1) obtain n where n: "r = Inr n" by (cases r) simp_all
  obtain w2 r2 where d: "coverage_gaps rc cfg groups start fin gs w1 = (w2, r2)" by fastforce
  with Cons.prems(1) c n obtain gaps2 where g2: "r2 = Inr gaps2" "gaps = (g, groups g - of_nat n) # gaps2" "w2 = w'"
    by (cases r2) simp_all
  have "n = logged src g start fin"
    using rest_count_exact [of max_log_pages rc cfg g start fin 0 "pages g" w w1 n "src g"] c n Cons.prems(2)
    by (simp add: listed_ids_def logged_def)
  with Cons.IH [OF d [unfolded g2]] Cons.prems(2) g2(2) show ?case by simp
qed simp

subsection \<open>Groups are counted exactly\<close>

definition requests_of :: "string \<Rightarrow> json list \<Rightarrow> f64" where
  "requests_of g rows =
     sum_list (map (\<lambda>r. or_zero (coverage_count (any_member r ''count''))) (filter (\<lambda>r. row_gateway r = g) rows))"

lemma count_rows_exact:
  "fold_err count_row rows counts = Inr counts' \<Longrightarrow>
   counts' g = counts g + requests_of g rows \<and>
   list_all (\<lambda>r. row_gateway r \<noteq> [] \<and> coverage_count (any_member r ''count'') \<noteq> None) rows"
proof (induction rows arbitrary: counts)
  case (Cons r rows)
  then obtain c1 where c: "count_row r counts = Inr c1" "fold_err count_row rows c1 = Inr counts'"
    by (auto split: sum.splits)
  from c(1) obtain n where n: "row_gateway r \<noteq> []" "coverage_count (any_member r ''count'') = Some n"
    "c1 = counts(row_gateway r := counts (row_gateway r) + n)"
    by (auto simp: count_row_def split: if_splits option.splits)
  with Cons.IH [OF c(2)] show ?case by (auto simp: requests_of_def or_zero_def)
qed (simp add: requests_of_def)

text \<open>A response of the Groups query for a window, complete and with valid rows.\<close>

definition groups_response :: "'w client \<Rightarrow> ai_config \<Rightarrow> time \<Rightarrow> time \<Rightarrow> json list \<Rightarrow> bool" where
  "groups_response k cfg start fin rows \<longleftrightarrow>
     (\<exists>w w' s j. cl_query k w (coverage_request cfg s start fin) = (w', Inr j) \<and> decode_any_rows j = Some rows \<and>
        int (length rows) < min coverage_limit (ds_page_size s) \<and> coverage_settings_error s = None) \<and>
     list_all (\<lambda>r. row_gateway r \<noteq> [] \<and> coverage_count (any_member r ''count'') \<noteq> None) rows"

lemma groups_counts_exact:
  assumes "groups_counts k rc cfg start fin w = (w', Inr groups)"
  shows "\<exists>rows. groups_response k cfg start fin rows \<and> (\<forall>g. groups g = requests_of g rows)"
proof -
  obtain w1 r1 where s: "cl_settings k w account_scope (ai_account cfg) coverage_dataset = (w1, r1)" by fastforce
  with assms obtain s0 where s0: "r1 = Inr s0" by (cases r1) (simp_all add: groups_counts_def)
  have ok: "coverage_settings_error s0 = None"
    using assms s s0 by (cases "coverage_settings_error s0") (simp_all add: groups_counts_def)
  obtain w2 now where now: "rc_now rc w1 = (w2, now)" by fastforce
  let ?r = "coverage_request cfg s0 start fin"
  obtain w3 r3 where q: "cl_query k w2 ?r = (w3, r3)" by fastforce
  have res: "(case r3 of Inl e \<Rightarrow> Inl (ErrWrap ''query AI Gateway Groups: '' e)
     | Inr j \<Rightarrow> (case decode_any_rows j of None \<Rightarrow> Inl (ErrWrap ''query AI Gateway Groups: '' json_error)
                 | Some rows \<Rightarrow> counted_rows (gr_limit ?r) rows)) = Inr groups"
    using assms s s0 ok now q by (auto simp: groups_counts_def Let_def split: if_splits sum.splits)
  then obtain j rows where j: "r3 = Inr j" "decode_any_rows j = Some rows" "counted_rows (gr_limit ?r) rows = Inr groups"
    by (auto split: sum.splits option.splits)
  from j(3) have len: "int (length rows) < gr_limit ?r" and f: "fold_err count_row rows (\<lambda>_. 0) = Inr groups"
    by (auto simp: counted_rows_def split: if_splits)
  have lim: "gr_limit ?r = min coverage_limit (ds_page_size s0)" by (simp add: coverage_request_def)
  have "groups_response k cfg start fin rows"
    unfolding groups_response_def using q j(1,2) len ok count_rows_exact [OF f] by (auto simp: lim)
  with count_rows_exact [OF f] show ?thesis by (intro exI [of _ rows]) simp
qed

subsection \<open>Windows\<close>

lemma coverage_start_ge: "fr \<le> coverage_start fr" "coverage_start fr mod coverage_window = 0"
proof -
  have w: "0 < coverage_window" by (simp add: coverage_window_def)
  then show "fr \<le> coverage_start fr" using time_trunc_gt [of coverage_window fr] by (simp add: coverage_start_def Let_def)
  from w have "time_trunc fr coverage_window mod coverage_window = 0" by simp
  then show "coverage_start fr mod coverage_window = 0" by (simp add: coverage_start_def Let_def)
qed

lemma coverage_span_compared:
  assumes "coverage_span fr to = Inr (start, fin)"
  shows "start = coverage_start fr \<and> fin = start + coverage_window \<and> fin \<le> to \<and> to < fin + coverage_window"
  using assms by (auto simp: coverage_span_def Let_def split: if_splits)

lemma coverage_span_moved:
  assumes "coverage_span fr to = Inl (Inr mark)"
  shows "mark = coverage_start fr \<and> fr < mark \<and> mark \<le> to"
  using assms by (auto simp: coverage_span_def Let_def split: if_splits)

text \<open>A call that compares a window passes all its guards.\<close>

lemma collect_coverage_compared:
  assumes "collect_coverage k rc cfg emit fr to out w = (w', out', mark, None)"
    and "mark = coverage_start fr + coverage_window" "ai_gateways cfg \<noteq> []"
  shows "mark \<le> to \<and> (\<exists>w1 w2 gaps. compare_window k rc cfg (coverage_start fr) mark w1 = (w2, Inr gaps) \<and>
     emit_all emit out (map gap_emission gaps) = (out', None))"
proof -
  have lt: "fr < to" "ai_account cfg \<noteq> []" using assms(1) by (auto simp: collect_coverage_def split: if_splits)
  show ?thesis
  proof (cases "coverage_span fr to")
    case (Inl r)
    with assms(1) lt have "r = Inr mark" by (cases r) (auto simp: collect_coverage_def)
    with coverage_span_moved [of fr to mark] Inl assms(2) show ?thesis by (simp add: coverage_window_def)
  next
    case (Inr sf)
    obtain start fin where sf: "sf = (start, fin)" by fastforce
    obtain w1 now where now: "rc_now rc w = (w1, now)" by fastforce
    note run = assms(1) [unfolded collect_coverage_def Inr sf sum.case prod.case now]
    have ok: "\<not> now - coverage_lag < fin" "[] \<notin> set (ai_gateways cfg)" using run lt by (auto split: if_splits)
    obtain w2 r where c: "compare_window k rc cfg start fin w1 = (w2, r)" by fastforce
    obtain gaps where r: "r = Inr gaps" using run lt ok assms(3) c by (cases r) simp_all
    obtain out1 e where em: "emit_all emit out (map gap_emission gaps) = (out1, e)" by fastforce
    have "e = None" using run lt ok assms(3) c r em by (cases e) simp_all
    moreover from this have "out1 = out'" using run lt ok assms(3) c r em by simp
    ultimately show ?thesis using coverage_span_compared [of fr to start fin] Inr sf assms(2) c r em by auto
  qed
qed

text \<open>C35. 
  C47. The coverage gap of every configured gateway is exact: for the closed window \<open>[mark - 5m, mark)\<close> it is the number of
  requests in a complete response of the Groups API less the number of logs of that window in the listing, with one gauge
  for each gateway, in order.
\<close>

theorem coverage_gap_exact:
  assumes "collect_coverage k rc cfg emit fr to out w = (w', out', mark, None)"
    and "mark = coverage_start fr + coverage_window" "ai_gateways cfg \<noteq> []"
    and "\<forall>g \<in> set (ai_gateways cfg). served rc cfg (mark - coverage_window) mark g (pages g) (src g)"
  shows "\<exists>rows. groups_response k cfg (mark - coverage_window) mark rows \<and>
     emit_all emit out (map (\<lambda>g. gap_emission (g, requests_of g rows - of_nat (logged src g (mark - coverage_window) mark)))
       (coverage_gateways cfg)) = (out', None)"
proof -
  let ?start = "mark - coverage_window"
  have start: "coverage_start fr = ?start" using assms(2) by simp
  from collect_coverage_compared [OF assms(1-3)] obtain w1 w2 gaps
    where c: "compare_window k rc cfg ?start mark w1 = (w2, Inr gaps)"
      and em: "emit_all emit out (map gap_emission gaps) = (out', None)" unfolding start by blast
  obtain w3 r where g: "groups_counts k rc cfg ?start mark w1 = (w3, r)" by fastforce
  obtain groups where r: "r = Inr groups" using c g by (cases r) (simp_all add: compare_window_def)
  from groups_counts_exact [OF g [unfolded r]] obtain rows
    where rows: "groups_response k cfg ?start mark rows" "\<And>h. groups h = requests_of h rows" by blast
  have "coverage_gaps rc cfg groups ?start mark (coverage_gateways cfg) w3 = (w2, Inr gaps)"
    using c g r by (simp add: compare_window_def)
  from coverage_gaps_exact [OF this, of pages src] assms(4)
  have "gaps = map (\<lambda>g. (g, groups g - of_nat (logged src g ?start mark))) (coverage_gateways cfg)"
    by (simp add: coverage_gateways_def)
  with em rows show ?thesis by (intro exI [of _ rows]) (simp add: comp_def)
qed

lemma gap_accepted: "snd (emit_all buffer_emit b (map gap_emission gaps)) = None"
  by (rule metrics_accepted) (auto simp: gap_emission_def)

text \<open>C36. 
  C48. A call of the completeness check settles or can be repeated: without error the mark has advanced to a boundary
  inside the window asked for; with an error the cursor stays and nothing was emitted.
\<close>

theorem coverage_settles_or_repeats:
  "case collect_coverage k rc cfg buffer_emit fr to out w of
     (w', out', mark, None) \<Rightarrow> fr < mark \<and> mark \<le> to \<and> mark mod coverage_window = 0
   | (w', out', mark, Some e) \<Rightarrow> mark = fr \<and> out' = out"
proof (cases "fr < to \<and> ai_account cfg \<noteq> []")
  case True
  show ?thesis
  proof (cases "coverage_span fr to")
    case (Inl r)
    show ?thesis
    proof (cases r)
      case (Inr mark)
      with coverage_span_moved [of fr to mark] Inl True coverage_start_ge(2) [of fr] show ?thesis
        by (simp add: collect_coverage_def)
    qed (use True Inl in \<open>simp add: collect_coverage_def\<close>)
  next
    case (Inr sf)
    obtain start fin where sf: "sf = (start, fin)" by fastforce
    obtain w1 now where now: "rc_now rc w = (w1, now)" by fastforce
    from coverage_span_compared [of fr to start fin] Inr sf coverage_start_ge [of fr]
    have fin: "fr < fin \<and> fin \<le> to \<and> fin mod coverage_window = 0" by (auto simp: coverage_window_def)
    obtain w2 c where c: "compare_window k rc cfg start fin w1 = (w2, c)" by fastforce
    have "snd (emit_all buffer_emit out (map gap_emission gaps)) = None" for gaps by (rule gap_accepted)
    then have em: "\<exists>out1. emit_all buffer_emit out (map gap_emission gaps) = (out1, None)" for gaps
      by (metis prod.collapse)
    show ?thesis
    proof (cases c)
      case r: (Inr gaps)
      obtain out1 where "emit_all buffer_emit out (map gap_emission gaps) = (out1, None)" using em by blast
      with True Inr sf now fin c r show ?thesis by (simp add: collect_coverage_def)
    qed (use True Inr sf now fin c in \<open>simp add: collect_coverage_def\<close>)
  qed
qed (auto simp: collect_coverage_def)

text \<open>The scheduler holds the end of a window back by \<open>lag_at\<close> and limits its length to \<open>coverage_window\<close>. Such a window,
  from an aligned cursor, is compared: it is one closed window, and the guard on the holdback admits it at every later instant.\<close>

lemma lag_aligned: "(now - lag_at now) mod coverage_window = 0" "now - lag_at now \<le> now - coverage_lag"
  using time_trunc_le [of "now - coverage_lag" coverage_window]
  by (simp_all add: lag_at_def Let_def coverage_window_def)

lemma scheduled_window_admitted:
  assumes "fr mod coverage_window = 0" "fr < now - lag_at now" "now \<le> later"
  shows "coverage_span fr (min (now - lag_at now) (fr + coverage_window)) = Inr (fr, fr + coverage_window) \<and>
    fr + coverage_window \<le> later - coverage_lag"
proof -
  have "fr + coverage_window \<le> now - lag_at now"
  proof -
    have "(now - lag_at now - fr) mod coverage_window = 0" using assms(1) lag_aligned(1) [of now] by (metis mod_diff_eq diff_zero mod_0)
    then obtain q where q: "now - lag_at now - fr = coverage_window * q" by (auto simp: mod_eq_0_iff_dvd dvd_def)
    with assms(2) have "0 < coverage_window * q" by linarith
    then have "0 < q" by (simp add: coverage_window_def)
    then have "coverage_window * 1 \<le> coverage_window * q" by (intro mult_left_mono) (simp_all add: coverage_window_def)
    with q show ?thesis by linarith
  qed
  moreover have "coverage_start fr = fr" using assms(1) by (simp add: coverage_start_def time_trunc_id)
  ultimately show ?thesis using lag_aligned(2) [of now] assms(3)
    by (simp add: coverage_span_def Let_def coverage_window_def min_def)
qed

subsection \<open>A sample window\<close>

text \<open>Groups count three requests of the gateway whose listing has one log.\<close>

definition coverage_row :: json where
  "coverage_row = JObj [(''count'', JNum ''3''), (''dimensions'', JObj [(''gateway'', JStr ''gw'')])]"

definition coverage_rest :: "unit rest_client" where
  "coverage_rest = logged_client\<lparr>rc_now := (\<lambda>w. (w, logs_from + hour))\<rparr>"

definition coverage_client :: "unit client" where
  "coverage_client = \<lparr>cl_settings = (\<lambda>w _ _ _. (w, Inr \<lparr>ds_enabled = True, ds_fields = Some coverage_fields, ds_max_fields = 10,
       ds_max_duration = 86400, ds_not_older = 86400, ds_page_size = 100\<rparr>)),
     cl_query = (\<lambda>w r. (w, Inr (JArr [coverage_row]))), cl_ctx_err = (\<lambda>w. (w, None)), cl_page = None, cl_batch = None\<rparr>"

lemma three_requests: "json_float ''3'' = Some 3"
  by (simp add: json_float_def number_value_def Let_def trim_prefix_def has_prefix_def digits_value_def
      digit_val_def ten_power_def is_digit_def max_float64_def)

lemma coverage_row_facts:
  "decode_any_rows (JArr [coverage_row]) = Some [coverage_row]" "row_gateway coverage_row = ''gw''"
  "coverage_count (any_member coverage_row ''count'') = Some 3"
proof -
  show "decode_any_rows (JArr [coverage_row]) = Some [coverage_row]"
    by (simp add: decode_any_rows_def coverage_row_def is_map_def three_requests)
  show "row_gateway coverage_row = ''gw''"
    by (simp add: row_gateway_def coverage_row_def any_map_def any_member_def json_map_lookup any_string_def)
  have "any_member coverage_row ''count'' = Some (JNum ''3'')"
    by (simp add: coverage_row_def any_member_def json_map_lookup)
  then show "coverage_count (any_member coverage_row ''count'') = Some 3"
    by (simp add: coverage_count_def any_number_def three_requests)
qed

lemma coverage_rest_get: "rc_get coverage_rest w path (page_query_of fr to n) =
  (w, Inr (JArr (if n = 1 then [logged_row_json] else [])))" "rc_ctx_err coverage_rest w = (w, None)"
  using logged_get [of w path fr to n] by (simp_all add: coverage_rest_def logged_client_def)

lemma coverage_served: "served coverage_rest logged_ai fr to g logged_rows [logged_row]"
  using logged_served [of fr to g] by (simp add: served_def coverage_rest_get logged_get)

lemma coverage_counted:
  "rest_count (Suc (Suc n)) coverage_rest logged_ai g logs_from (logs_from + five_minutes) 1 {} () = ((), Inr 1)"
proof -
  have "decode_listing (JArr [logged_row_json]) = Some [(''a'', logs_from + second)]" "decode_listing (JArr []) = Some []"
    using decode_listing_rows [OF logged_page(1)] decode_listing_rows [OF logged_page(2)] by (simp_all add: logged_row_facts)
  then show ?thesis by (simp add: coverage_rest_get count_listed_def unix_offset_def)
qed

lemma coverage_settings_sample: "coverage_settings_error
  \<lparr>ds_enabled = True, ds_fields = Some coverage_fields, ds_max_fields = 10, ds_max_duration = 86400, ds_not_older = 86400,
   ds_page_size = 100\<rparr> = None"
  by code_simp

lemma coverage_sample:
  "\<exists>out'. collect_coverage coverage_client coverage_rest logged_ai buffer_emit logs_from (logs_from + five_minutes) empty_buffer ()
     = ((), out', logs_from + five_minutes, None)"
proof -
  let ?fin = "logs_from + five_minutes"
  have fuel: "max_log_pages = Suc (Suc 9998)" by (simp add: max_log_pages_def)
  have span: "coverage_span logs_from ?fin = Inr (logs_from, ?fin)"
    by (simp add: coverage_span_def coverage_start_def Let_def time_trunc_def coverage_window_def unix_offset_def)
  have now: "rc_now coverage_rest () = ((), logs_from + hour)" by (simp add: coverage_rest_def)
  have "groups_counts coverage_client coverage_rest logged_ai logs_from ?fin ()
      = ((), counted_rows 100 [coverage_row])"
    by (simp add: groups_counts_def coverage_client_def coverage_settings_sample now Let_def coverage_request_def
        coverage_limit_def coverage_row_facts unix_offset_def wrap_int64_def)
  moreover have "counted_rows 100 [coverage_row] = Inr ((\<lambda>_. 0)(''gw'' := 3))"
    by (simp add: counted_rows_def count_row_def coverage_row_facts)
  ultimately have g: "groups_counts coverage_client coverage_rest logged_ai logs_from ?fin () = ((), Inr ((\<lambda>_. 0)(''gw'' := 3)))"
    by simp
  have gs: "coverage_gateways logged_ai = [''gw'']" by (simp add: coverage_gateways_def logged_ai_def)
  have "coverage_gaps coverage_rest logged_ai ((\<lambda>_. 0)(''gw'' := 3)) logs_from ?fin [''gw''] () = ((), Inr [(''gw'', 3 - 1)])"
    unfolding coverage_gaps.simps fuel coverage_counted by simp
  then have c: "compare_window coverage_client coverage_rest logged_ai logs_from ?fin () = ((), Inr [(''gw'', 3 - 1)])"
    by (simp only: compare_window_def g gs prod.case sum.case)
  obtain out' where "emit_all buffer_emit empty_buffer (map gap_emission [(''gw'', 3 - 1)]) = (out', None)"
    using gap_accepted by (metis prod.collapse)
  with c span now show ?thesis by (simp add: collect_coverage_def logged_ai_def coverage_lag_def)
qed

theorem coverage_gap_exact_witness:
  "\<exists>out' rows. collect_coverage coverage_client coverage_rest logged_ai buffer_emit logs_from (logs_from + five_minutes)
       empty_buffer () = ((), out', logs_from + five_minutes, None) \<and>
     groups_response coverage_client logged_ai logs_from (logs_from + five_minutes) rows \<and>
     emit_all buffer_emit empty_buffer [gap_emission (''gw'', requests_of ''gw'' rows - 1)] = (out', None)"
proof -
  obtain out' where run: "collect_coverage coverage_client coverage_rest logged_ai buffer_emit logs_from (logs_from + five_minutes)
      empty_buffer () = ((), out', logs_from + five_minutes, None)" using coverage_sample by blast
  have mark: "logs_from + five_minutes = coverage_start logs_from + coverage_window"
    by (simp add: coverage_start_def time_trunc_def coverage_window_def unix_offset_def)
  have gs: "ai_gateways logged_ai \<noteq> []" "coverage_gateways logged_ai = [''gw'']" by (simp_all add: logged_ai_def coverage_gateways_def)
  have sv: "\<forall>g \<in> set (ai_gateways logged_ai). served coverage_rest logged_ai (logs_from + five_minutes - coverage_window)
      (logs_from + five_minutes) g ((\<lambda>g. logged_rows) g) ((\<lambda>g. [logged_row]) g)" by (simp add: coverage_served)
  have start: "logs_from + five_minutes - coverage_window = logs_from" by (simp add: coverage_window_def)
  have one: "logged (\<lambda>g. [logged_row]) g logs_from (logs_from + five_minutes) = 1" for g
    by (simp add: logged_def in_window_def logged_row_facts)
  from coverage_gap_exact [OF run mark gs(1) sv] run show ?thesis unfolding gs(2) start by (auto simp: one)
qed

end
