(* ===== verification/Spec2Isabelle.thy ===== *)
theory Spec2Isabelle
  imports Splitter LogBatch DenyFilter SchedulerProps GraphqlProps GraphqlGuards Batch SettingsFlight
    Pipeline Snapshots Config IdentitySpec Zones Sources
    LogRowsProps CoverageProps
begin

text \<open>
  Verification library of cf2otel, an exporter that polls read-only Cloudflare APIs and delivers what it
  reads as OTLP metrics, logs and spans. Paths below are relative to \<open>src/internal/\<close>.

  \<^bold>\<open>How the program works.\<close> \<open>collector/scheduler.go\<close> runs every enabled collector on its own ticker. A
  window collector is asked for a half-open interval that starts at its checkpoint
  (\<open>collector/checkpoint.go\<close>); it queries Cloudflare through \<open>cfapi\<close>, emits into a buffer
  (\<open>telemetry/buffer.go\<close>) and returns a high-water mark. The scheduler then replays the buffer in chunks into
  the export pipelines (\<open>telemetry/provider.go\<close>), waits for each flush to be acknowledged, and only then moves
  the checkpoint. On top of this sit retries, adaptive window and payload limits, the skip of retention gaps,
  and the deny policy that keeps unwanted metrics and attributes from leaving the process.

  \<^bold>\<open>Theories and the code they model.\<close>
  \<^item> \<open>Prelude\<close>, \<open>GoText\<close>, \<open>GoErrors\<close>, \<open>GoTime\<close>, \<open>Utf8\<close>, \<open>Json\<close>, \<open>JsonAny\<close>: the parts of Go and its
    standard library the code relies on. Instants are integers (nanoseconds), durations are integers that are
    wrapped to 64 bits where the code can overflow, strings are byte lists, errors are the values of the
    datatype \<open>gerr\<close> with \<open>errors.Is\<close>, \<open>errors.As\<close> and \<open>errors.Join\<close> over them, a JSON text is its syntax
    tree. The error types of \<open>cfapi\<close> and \<open>collector\<close> and \<open>AsSaturation\<close> are here too.
  \<^item> \<open>Splitter\<close>: \<open>SplitWindow\<close> and \<open>Bisect\<close> of \<open>collector/splitter.go\<close>. A successful bisection tiles the
    window with unsaturated queries; the number of queries is bounded, and each failure has one of three causes.
  \<^item> \<open>Checkpoint\<close>: \<open>FileStore\<close>. The file system is a sequence of disk states and an oracle of failing calls;
    a crash leaves the old or the new values. The locale \<open>checkpoint_store\<close> is the contract of the store.
  \<^item> \<open>Telemetry\<close>, \<open>DenyFilter\<close>, \<open>Snapshots\<close>, \<open>OtelEmitter\<close>: the \<open>Emitter\<close> interface and its
    implementations: the window buffer, the filter of denied names, the gauge snapshots, and the native
    emitter over the OpenTelemetry SDK. The locale \<open>emitter\<close> says what any emitter promises (a view of each
    emission is appended, or an error is returned); it is interpreted on the buffer, the filtered
    buffer, the native emitter and the provider.
  \<^item> \<open>ExportObserver\<close>, \<open>LogBatch\<close>, \<open>Pipeline\<close>: what is known about exports: the record of failed exports, the
    log batcher, and the provider that joins them, with \<open>BeginCommit\<close> and \<open>FlushCommit\<close>.
  \<^item> \<open>Commit\<close>, \<open>Scheduler\<close>, \<open>SchedulerRuns\<close>, \<open>SchedulerLimits\<close>, \<open>SchedulerProps\<close>: one window, one run and
    any number of ticks of \<open>collector/scheduler.go\<close>. The locale \<open>commit_target\<close> is what \<open>commit\<close> needs of an
    exporter; \<open>Pipeline\<close> interprets it on the provider, which gives the end-to-end theorem
    \<open>commit_logs_acknowledged\<close>.
  \<^item> \<open>RateConfig\<close>, \<open>Limiter\<close>, \<open>RateHeaders\<close>, \<open>Client\<close>, \<open>ClientProps\<close>: the request budgets, the response
    headers that pause them, and the HTTP client with retries, redirects, envelopes and pagination.
  \<^item> \<open>GqlText\<close>, \<open>GqlFilter\<close>, \<open>GqlRows\<close>, \<open>Graphql\<close>, \<open>GraphqlProps\<close>, \<open>GraphqlGuards\<close>, \<open>SettingsFlight\<close>,
    \<open>Batch\<close>: \<open>cfapi/graphql.go\<close>, \<open>entitlement_backoff.go\<close> and \<open>batch.go\<close>: request validation, the text of a
    query, wide selections and the merge of their rows, windows, dataset settings with their cache and single
    flight, budget errors, and batched selections.
  \<^item> \<open>Identity\<close>, \<open>IdentitySpec\<close>: the bounded index of Access logins and its refinement of the full history.
  \<^item> \<open>Config\<close>, \<open>HttpRoutes\<close>: \<open>Validate\<close>, the defaults, and the named error routes.
  \<^item> \<open>Zones\<close>: zone selection and the accounting of a zone poll, \<open>collector/zones.go\<close>.
  \<^item> \<open>Admission\<close>: the locale \<open>series_admission\<close>, the bound that every collector puts on the series it emits;
    interpreted on the R2 collectors and on the resource names.
  \<^item> \<open>R2\<close>, \<open>R2Props\<close>: the R2 collectors (\<open>collectors/r2\<close>) as the first instance of a window collector: plan,
    bisected query, aggregation, admission of series and emission.
  \<^item> \<open>ResourceNames\<close>: the names of databases, namespaces and other resources, which \<open>collectors/d1\<close>,
    \<open>kv\<close>, \<open>queues\<close> and \<open>durableobjects\<close> read in \<open>names.go\<close>: the listing, the choice of unambiguous names, the cache
    and the bounded gauge of names.
  \<^item> \<open>GroupMetrics\<close>, \<open>GroupsProps\<close>: the generic collector of Groups rows that D1 and KV share: tiers, query,
    rows, series, aggregation and emission. \<open>GroupsDepth\<close>: the per-query statistics of \<open>collectors/d1/depth.go\<close> and
    the whole D1 poll.
  \<^item> \<open>Sources\<close>: the locale \<open>bucketed_source\<close>, the polls of one collector by the scheduler's protocol (a poll reads
    \<open>[cursor, mark)\<close> and the next one starts at the mark); interpreted on the D1, KV and R2 collectors.

  \<^item> \<open>JsonText\<close>, \<open>JsonRoundtrip\<close>: JSON as bytes: the scanner and the encoder of \<open>encoding/json\<close>, which the
    AI Gateway collector uses on untrusted content. What the encoder writes of a value, the scanner reads back.
  \<^item> \<open>LogContent\<close>, \<open>LogContentProps\<close>: \<open>collectors/aigateway/logs_content.go\<close>, \<open>logs_usage.go\<close> and
    \<open>logs_model.go\<close>: redaction, headers, the cut of bodies, findings of data loss prevention, messages, token usage, models.
  \<^item> \<open>LogRows\<close>, \<open>LogRowsProps\<close>: a row of the gateway log and every emission of \<open>emitWith\<close>, \<open>logs.go\<close>.
  \<^item> \<open>LogFetch\<close>: the detail of a log (\<open>logs_fetch.go\<close>), the cache of details (\<open>logs_cache.go\<close>) and the prefetch. The
    reads of a prefetch overlap in the code; here a read is complete when it is started, in the order of the rows.
  \<^item> \<open>Logs\<close>, \<open>LogsProps\<close>, \<open>LogsExact\<close>: the pagers of the gateways, the horizon up to which all of them have listed, and
    \<open>CollectWindowBudget\<close> with its byte budget, \<open>logs.go\<close>: the call returns, and what it emitted is exactly the logs
    before its mark.
  \<^item> \<open>Coverage\<close>, \<open>CoverageProps\<close>: the completeness check of \<open>coverage_gap.go\<close>, which compares the logs of a closed
    window with the count of the Groups API.

  \<^bold>\<open>What the lemmas show.\<close> Each component has a group of lemmas on its operations (every branch, errors
  included), an invariant or abstract view where it keeps state, and one to three theorems. The
  theorems that span components are in \<open>SchedulerProps\<close> (cursors never regress, a window is settled only by
  delivery, by the third rejection or by a gap event), \<open>Pipeline\<close> (a commit without error delivered every log
  to an acknowledged export; nothing denied or ill-formed reaches the SDK), \<open>GraphqlProps\<close> (a query is complete
  or fails), \<open>IdentitySpec\<close> (refinement), \<open>R2Props\<close>, \<open>GroupsProps\<close> and \<open>GroupsDepth\<close> (nothing is lost between
  rows and counters), \<open>Sources\<close> (consecutive polls tile the time line, and a window is read in the end),
  \<open>LogsExact\<close> (a window of logs is complete up to its mark) and \<open>LogRowsProps\<close> (content is captured only when
  configured, bounded and as JSON).

  \<^bold>\<open>Effects and bounds.\<close> What the code calls and this library cannot read is a parameter: the network, the clock,
  the file system, the SDK and the collectors are functions on a world type \<open>'w\<close> that is threaded through every
  operation, so every order of effects is visible. Loops of the code that are bounded by the code itself recurse
  on that bound: retries and redirects on their counters, windows on the remaining time, bisection on the
  length of the window, pages on fuel that the callers' limits make sufficient; the lemmas next to them show that the fuel
  is never exhausted. The parser of \<open>JsonText\<close> has the length of its text as fuel and the nesting limit of
  \<open>encoding/json\<close>, decimals are printed to 400 digits (the shortest form of a float64 has fewer), and a window of gateway
  logs has one round for each page of each gateway and one more. Rates and tokens are exact rationals, not float64.

  \<^bold>\<open>Not modelled.\<close> Reading of configuration files and the environment, the command line, the construction
  of SDK exporters, the health and Prometheus endpoints, process logging and polling traces, the constants of
  \<open>semconv\<close> beyond those a model uses, and the developer tools: they are input and output around the core.
  The remaining collectors follow the pattern of R2, D1 and KV and are listed in the manifest with what they do.
  Real concurrency is modelled where the code depends on it (the single flight of dataset settings); elsewhere
  a critical section is one step.
\<close>

end
